(* ===== verification/Prelude.thy ===== *)
theory Prelude
  imports Main "HOL-Library.Sublist"
begin

text \<open>
  What every component of the development shares: the machine arithmetic of the source
  (Rust's \<open>u64\<close> as \<open>nat\<close> with the saturating and wrapping operations written out), the
  decimal and age formatting that its messages use, ASCII string helpers, and the bounded
  ring that several records keep.

  Strings are \<open>char list\<close>. The identifiers the modelled code folds to lower case (harness
  names, hosts, agents) are treated as ASCII, where Rust's Unicode \<open>to_lowercase\<close> and the
  ASCII one agree.
\<close>

named_theorems ring_intros \<open>facts about bounded rings, for intro\<close>
named_theorems machine_simps \<open>unfolding of the machine arithmetic\<close>

section \<open>Machine arithmetic\<close>

type_synonym u64 = nat
type_synonym u32 = nat

definition u64_max :: u64 where
  "u64_max = 18446744073709551615"

definition sat_add :: "u64 \<Rightarrow> u64 \<Rightarrow> u64" where
  "sat_add a b = min u64_max (a + b)"

definition sat_sub :: "u64 \<Rightarrow> u64 \<Rightarrow> u64" where
  "sat_sub a b = a - b"

definition sat_mul :: "u64 \<Rightarrow> u64 \<Rightarrow> u64" where
  "sat_mul a b = min u64_max (a * b)"

definition wrap_add :: "u64 \<Rightarrow> u64 \<Rightarrow> u64" where
  "wrap_add a b = (a + b) mod 2 ^ 64"

definition wrap_mul :: "u64 \<Rightarrow> u64 \<Rightarrow> u64" where
  "wrap_mul a b = (a * b) mod 2 ^ 64"

lemma u64_max_Suc: "Suc u64_max = 2 ^ 64"
  by (simp add: u64_max_def)

lemma sat_sub_simp [simp, machine_simps]: "sat_sub a b = a - b"
  by (simp add: sat_sub_def)

lemma sat_add_le [simp]: "sat_add a b \<le> u64_max"
  by (simp add: sat_add_def)

lemma sat_add_mono: "a \<le> c \<Longrightarrow> b \<le> d \<Longrightarrow> sat_add a b \<le> sat_add c d"
  by (simp add: sat_add_def min_def)

lemma sat_add_exact: "a + b \<le> u64_max \<Longrightarrow> sat_add a b = a + b"
  by (simp add: sat_add_def)

lemma sat_add_ge: "a \<le> u64_max \<Longrightarrow> a \<le> sat_add a b"
  by (simp add: sat_add_def)

lemma sat_mul_le [simp]: "sat_mul a b \<le> u64_max"
  by (simp add: sat_mul_def)

lemma wrap_add_exact: "a + b \<le> u64_max \<Longrightarrow> wrap_add a b = a + b"
  by (simp add: wrap_add_def u64_max_def)

lemma wrap_mul_exact: "a * b \<le> u64_max \<Longrightarrow> wrap_mul a b = a * b"
  by (simp add: wrap_mul_def u64_max_def)

section \<open>Text\<close>

definition char_of_digit :: "nat \<Rightarrow> char" where
  "char_of_digit d = ''0123456789'' ! (d mod 10)"

fun show_nat :: "nat \<Rightarrow> string" where
  "show_nat n = (if n < 10 then [char_of_digit n]
                 else show_nat (n div 10) @ [char_of_digit (n mod 10)])"

declare show_nat.simps [simp del]

lemma show_nat_nonempty: "show_nat n \<noteq> []"
  by (subst show_nat.simps) simp

definition ascii_lower_char :: "char \<Rightarrow> char" where
  "ascii_lower_char c = (let n = of_char c :: nat in
     if 65 \<le> n \<and> n \<le> 90 then char_of (n + 32) else c)"

definition ascii_lower :: "string \<Rightarrow> string" where
  "ascii_lower = map ascii_lower_char"

definition eq_ignore_ascii_case :: "string \<Rightarrow> string \<Rightarrow> bool" where
  "eq_ignore_ascii_case a b \<longleftrightarrow> ascii_lower a = ascii_lower b"

lemma ascii_lower_char_idem [simp]:
  "ascii_lower_char (ascii_lower_char c) = ascii_lower_char c"
proof (cases "65 \<le> (of_char c :: nat) \<and> (of_char c :: nat) \<le> 90")
  case True
  then have "(of_char c :: nat) + 32 < 256" by simp
  then have "of_char (char_of ((of_char c :: nat) + 32) :: char) = (of_char c :: nat) + 32"
    by simp
  with True show ?thesis by (simp add: ascii_lower_char_def Let_def)
qed (auto simp: ascii_lower_char_def Let_def)

lemma ascii_lower_idem [simp]: "ascii_lower (ascii_lower s) = ascii_lower s"
  by (simp add: ascii_lower_def)

lemma ascii_lower_Nil_iff [simp]: "ascii_lower s = [] \<longleftrightarrow> s = []"
  by (simp add: ascii_lower_def)

lemma eq_ignore_ascii_case_refl [simp]: "eq_ignore_ascii_case a a"
  by (simp add: eq_ignore_ascii_case_def)

lemma eq_ignore_ascii_case_sym: "eq_ignore_ascii_case a b \<Longrightarrow> eq_ignore_ascii_case b a"
  by (simp add: eq_ignore_ascii_case_def)

definition is_ascii_lowercase :: "char \<Rightarrow> bool" where
  "is_ascii_lowercase c \<longleftrightarrow> 97 \<le> (of_char c :: nat) \<and> (of_char c :: nat) \<le> 122"

definition is_ascii_uppercase :: "char \<Rightarrow> bool" where
  "is_ascii_uppercase c \<longleftrightarrow> 65 \<le> (of_char c :: nat) \<and> (of_char c :: nat) \<le> 90"

definition is_ascii_digit :: "char \<Rightarrow> bool" where
  "is_ascii_digit c \<longleftrightarrow> 48 \<le> (of_char c :: nat) \<and> (of_char c :: nat) \<le> 57"

definition is_ascii_alphanumeric :: "char \<Rightarrow> bool" where
  "is_ascii_alphanumeric c \<longleftrightarrow>
     is_ascii_lowercase c \<or> is_ascii_uppercase c \<or> is_ascii_digit c"

text \<open>
  \<open>str::split_once\<close> on a pattern, and \<open>str::trim\<close> on ASCII white space.
\<close>

fun split_once :: "string \<Rightarrow> string \<Rightarrow> (string \<times> string) option" where
  "split_once pat [] = (if pat = [] then Some ([], []) else None)"
| "split_once pat (c # cs) =
     (if prefix pat (c # cs) then Some ([], drop (length pat) (c # cs))
      else map_option (\<lambda>(a, b). (c # a, b)) (split_once pat cs))"

definition is_space :: "char \<Rightarrow> bool" where
  "is_space c \<longleftrightarrow> (of_char c :: nat) \<in> {9, 10, 11, 12, 13, 32}"

definition trim :: "string \<Rightarrow> string" where
  "trim s = rev (dropWhile is_space (rev (dropWhile is_space s)))"

lemma digit_values:
  assumes "d < 10"
  shows "is_ascii_digit (''0123456789'' ! d)" "of_char (''0123456789'' ! d) - 48 = d"
proof -
  have "list_all is_ascii_digit ''0123456789''" by (simp add: is_ascii_digit_def)
  then show "is_ascii_digit (''0123456789'' ! d)" using assms by (simp add: list_all_length)
  have vals: "map (\<lambda>c. of_char c - 48) ''0123456789'' = [0 :: nat, 1, 2, 3, 4, 5, 6, 7, 8, 9]" by simp
  have "[0 :: nat, 1, 2, 3, 4, 5, 6, 7, 8, 9] = [0 ..< 10]" by code_simp
  then have "map (\<lambda>c. of_char c - 48 :: nat) ''0123456789'' ! d = [0 ..< 10] ! d"
    by (simp only: vals)
  moreover have "map (\<lambda>c. of_char c - 48 :: nat) ''0123456789'' ! d = of_char (''0123456789'' ! d) - 48"
    using assms by (intro nth_map) simp
  ultimately show "of_char (''0123456789'' ! d) - 48 = d" using assms by simp
qed

lemma char_of_digit_digit [simp]: "is_ascii_digit (char_of_digit d)"
  by (simp add: char_of_digit_def digit_values)

lemma char_of_digit_value [simp]: "of_char (char_of_digit d) - 48 = d mod 10"
  by (simp add: char_of_digit_def digit_values)

lemma show_nat_digits: "c \<in> set (show_nat n) \<Longrightarrow> is_ascii_digit c"
proof (induction n rule: show_nat.induct)
  case (1 n)
  then show ?case by (subst (asm) (2) show_nat.simps) (auto split: if_splits)
qed

section \<open>Parsing a number\<close>

text \<open>\<open>str::parse::<u64>\<close>: an optional plus sign, then digits, refusing an overflow.\<close>

fun parse_digits :: "nat \<Rightarrow> string \<Rightarrow> nat option" where
  "parse_digits acc [] = Some acc"
| "parse_digits acc (c # cs) =
     (if is_ascii_digit c \<and> acc * 10 + (of_char c - 48) \<le> u64_max
      then parse_digits (acc * 10 + (of_char c - 48)) cs else None)"

definition parse_u64 :: "string \<Rightarrow> u64 option" where
  "parse_u64 s =
     (let digits = (case s of c # cs \<Rightarrow> if c = CHR ''+'' then cs else s | [] \<Rightarrow> [])
      in if digits = [] then None else parse_digits 0 digits)"

lemma parse_digits_append:
  "parse_digits acc (xs @ [c]) =
     (case parse_digits acc xs of
        None \<Rightarrow> None
      | Some a \<Rightarrow> if is_ascii_digit c \<and> a * 10 + (of_char c - 48) \<le> u64_max
                  then Some (a * 10 + (of_char c - 48)) else None)"
  by (induction xs arbitrary: acc) simp_all

lemma parse_digits_show: "n \<le> u64_max \<Longrightarrow> parse_digits 0 (show_nat n) = Some n"
proof (induction n rule: show_nat.induct)
  case (1 n)
  show ?case
  proof (cases "n < 10")
    case True
    then show ?thesis using 1(2) by (subst show_nat.simps) simp
  next
    case False
    have "parse_digits 0 (show_nat (n div 10)) = Some (n div 10)"
      using 1 False by simp
    moreover have "n div 10 * 10 + n mod 10 = n" by simp
    ultimately show ?thesis using False 1(2)
      by (subst show_nat.simps) (simp add: parse_digits_append)
  qed
qed

lemma parse_show: "n \<le> u64_max \<Longrightarrow> parse_u64 (show_nat n) = Some n"
proof -
  assume n: "n \<le> u64_max"
  obtain c cs where s: "show_nat n = c # cs" using show_nat_nonempty [of n] by (cases "show_nat n") auto
  have "is_ascii_digit c" using show_nat_digits [of c n] s by simp
  then have "c \<noteq> CHR ''+''" by (auto simp: is_ascii_digit_def)
  then show ?thesis using parse_digits_show [OF n] by (simp add: parse_u64_def s)
qed

section \<open>Ages (style.rs)\<close>

definition format_age :: "u64 \<Rightarrow> string" where
  "format_age seconds =
     (if seconds < 60 then show_nat seconds @ ''s''
      else if seconds < 3600 then show_nat (seconds div 60) @ ''m''
      else if seconds < 86400 then show_nat (seconds div 3600) @ ''h''
      else show_nat (seconds div 86400) @ ''d'')"

section \<open>Seconds with one decimal\<close>

text \<open>
  \<open>format!("{:.1}", ms as f64 / 1000.0)\<close> on a \<open>u64\<close>: the conversion rounds to the 53-bit
  significand, the IEEE division rounds its exact quotient to 53 bits, and the formatter
  rounds the exact value of that double to one decimal, ties to even at each of the three.
  A double is carried as a fraction \<open>num / den\<close>.
\<close>

definition round_half_even :: "nat \<Rightarrow> nat \<Rightarrow> nat" where
  "round_half_even a b =
     (let q = a div b; r = a mod b in
      if 2 * r < b then q else if b < 2 * r then q + 1 else if even q then q else q + 1)"

fun bit_len :: "nat \<Rightarrow> nat" where
  "bit_len n = (if n = 0 then 0 else Suc (bit_len (n div 2)))"

declare bit_len.simps [simp del]

definition f64_of_u64 :: "u64 \<Rightarrow> nat" where
  "f64_of_u64 n = (let s = bit_len n - 53 in round_half_even n (2 ^ s) * 2 ^ s)"

definition f64_div_1000 :: "nat \<Rightarrow> nat \<times> nat" where
  "f64_div_1000 n =
     (let len = bit_len n; k = 63 - len; u = 2 ^ (len - 63); m = n * 2 ^ k;
          unit = (if m < 2 ^ 53 * 1000 * u then u else 2 * u)
      in (round_half_even m (1000 * unit) * unit, 2 ^ k))"

definition fmt_1dp :: "nat \<times> nat \<Rightarrow> string" where
  "fmt_1dp v = (let t = round_half_even (fst v * 10) (snd v) in
     show_nat (t div 10) @ ''.'' @ show_nat (t mod 10))"

definition fmt_secs :: "u64 \<Rightarrow> string" where
  "fmt_secs ms = fmt_1dp (f64_div_1000 (f64_of_u64 ms))"

text \<open>
  The binary value decides: 0.05 rounds up because its double lies above it, 0.15 rounds
  down because its double lies below it, and 0.25 is exact and goes to even.
\<close>

lemma fmt_secs_examples:
  "fmt_secs 50 = ''0.1''" "fmt_secs 150 = ''0.1''" "fmt_secs 250 = ''0.2''"
  "fmt_secs 8000 = ''8.0''" "fmt_secs 12345 = ''12.3''"
  by (simp_all add: fmt_secs_def fmt_1dp_def f64_div_1000_def f64_of_u64_def round_half_even_def
      bit_len.simps show_nat.simps char_of_digit_def Let_def)

section \<open>The bounded ring\<close>

text \<open>
  \<open>if v.len() > cap { v.drain(..v.len() - cap); }\<close>: the newest \<open>cap\<close> entries stay.
\<close>

definition keep_last :: "nat \<Rightarrow> 'a list \<Rightarrow> 'a list" where
  "keep_last cap xs = drop (length xs - cap) xs"

lemma length_keep_last [ring_intros]: "length (keep_last cap xs) \<le> cap"
  by (simp add: keep_last_def)

lemma keep_last_short [simp]: "length xs \<le> cap \<Longrightarrow> keep_last cap xs = xs"
  by (simp add: keep_last_def)

lemma set_keep_last: "set (keep_last cap xs) \<subseteq> set xs"
  by (simp add: keep_last_def set_drop_subset)

lemma keep_last_snoc: "0 < cap \<Longrightarrow> x \<in> set (keep_last cap (xs @ [x]))"
  by (simp add: keep_last_def)

lemma keep_last_suffix: "suffix (keep_last cap xs) xs"
  by (simp add: keep_last_def suffix_drop)

lemma length_keep_last_eq: "length (keep_last cap xs) = min cap (length xs)"
  by (simp add: keep_last_def)

fun opt_min :: "nat list \<Rightarrow> nat option" where
  "opt_min [] = None"
| "opt_min (x # xs) = (case opt_min xs of None \<Rightarrow> Some x | Some m \<Rightarrow> Some (min x m))"

lemma opt_min_None [simp]: "opt_min xs = None \<longleftrightarrow> xs = []"
  by (cases xs) (auto split: option.splits)

lemma opt_min_Some: "opt_min xs = Some m \<Longrightarrow> m \<in> set xs \<and> (\<forall>x\<in>set xs. m \<le> x)"
  by (induction xs arbitrary: m) (fastforce split: option.splits if_splits simp: min_def)+

lemma distinct_remdups_adj_sorted: "sorted (xs :: nat list) \<Longrightarrow> distinct (remdups_adj xs)"
  by (induction xs rule: remdups_adj.induct) auto

lemma strict_sorted_nth_less:
  assumes "sorted xs" "distinct xs" "i < j" "j < length (xs :: nat list)"
  shows "xs ! i < xs ! j"
proof -
  have "xs ! i \<le> xs ! j" using assms by (simp add: sorted_nth_mono)
  moreover have "xs ! i \<noteq> xs ! j" using assms by (simp add: nth_eq_iff_index_eq)
  ultimately show ?thesis by simp
qed

lemma drop_sorted_greater:
  assumes "sorted xs" "distinct (xs :: nat list)" "0 < n" "t \<in> set (drop n xs)" "n \<le> length xs"
  shows "xs ! (n - 1) < t"
proof -
  from assms(4) obtain k where k: "k < length xs - n" "t = xs ! (n + k)"
    by (auto simp: in_set_conv_nth)
  then show ?thesis using assms strict_sorted_nth_less [of xs "n - 1" "n + k"] by auto
qed

lemma foldl_inv: "P a \<Longrightarrow> (\<And>s x. x \<in> set xs \<Longrightarrow> P s \<Longrightarrow> P (f s x)) \<Longrightarrow> P (foldl f a xs)"
  by (induction xs arbitrary: a) simp_all

text \<open>\<open>str::split\<close> on one character, \<open>str::replace\<close> of one character by another, and \<open>join\<close>.\<close>

fun split_char :: "char \<Rightarrow> string \<Rightarrow> string list" where
  "split_char d [] = [[]]"
| "split_char d (c # cs) =
     (if c = d then [] # split_char d cs
      else (case split_char d cs of [] \<Rightarrow> [[c]] | w # ws \<Rightarrow> (c # w) # ws))"

definition replace_char :: "char \<Rightarrow> char \<Rightarrow> string \<Rightarrow> string" where
  "replace_char a b = map (\<lambda>c. if c = a then b else c)"

fun join_char :: "char \<Rightarrow> string list \<Rightarrow> string" where
  "join_char d [] = []"
| "join_char d [w] = w"
| "join_char d (w # ws) = w @ d # join_char d ws"

lemma split_char_nonempty [simp]: "split_char d s \<noteq> []"
  by (cases s) (auto split: list.splits)

lemma split_char_free: "w \<in> set (split_char d s) \<Longrightarrow> d \<notin> set w"
  by (induction s arbitrary: w) (auto split: list.splits if_splits)

lemma split_char_whole: "d \<notin> set w \<Longrightarrow> split_char d w = [w]"
  by (induction w) auto

lemma split_char_append: "split_char d (a @ d # b) = split_char d a @ split_char d b"
proof (induction a)
  case (Cons c cs)
  obtain w ws where "split_char d cs = w # ws" by (cases "split_char d cs") simp_all
  then show ?case using Cons by simp
qed simp

lemma split_join: "ws \<noteq> [] \<Longrightarrow> (\<And>w. w \<in> set ws \<Longrightarrow> d \<notin> set w) \<Longrightarrow> split_char d (join_char d ws) = ws"
  by (induction d ws rule: join_char.induct) (simp_all add: split_char_whole split_char_append)

lemma join_char_append:
  "a \<noteq> [] \<Longrightarrow> b \<noteq> [] \<Longrightarrow> join_char d (a @ b) = join_char d a @ d # join_char d b"
proof (induction a)
  case (Cons w ws)
  then show ?case by (cases ws; cases b) simp_all
qed simp

lemma join_char_Nil_iff: "[] \<notin> set ws \<Longrightarrow> join_char d ws = [] \<longleftrightarrow> ws = []"
  by (induction d ws rule: join_char.induct) auto

lemma set_map_filter: "set (List.map_filter f xs) = {y. \<exists>x\<in>set xs. f x = Some y}"
  by (induction xs) (auto simp: List.map_filter_simps split: option.splits)

lemma hd_trim: "trim s \<noteq> [] \<Longrightarrow> \<not> is_space (hd (trim s))"
proof -
  assume ne: "trim s \<noteq> []"
  define d where "d = dropWhile is_space s"
  obtain us where d: "d = trim s @ us"
    using suffix_dropWhile [of is_space "rev d"] by (auto simp: trim_def d_def suffix_def rev_swap)
  with ne have "d \<noteq> []" "hd d = hd (trim s)" by auto
  then show ?thesis using hd_dropWhile [of is_space s] by (simp add: d_def)
qed

lemma dropWhile_id_hd: "s = [] \<or> \<not> P (hd s) \<Longrightarrow> dropWhile P s = s"
  by (cases s) auto

lemma trim_id: "s = [] \<or> \<not> is_space (hd s) \<and> \<not> is_space (last s) \<Longrightarrow> trim s = s"
  using dropWhile_id_hd [of s is_space] dropWhile_id_hd [of "rev s" is_space]
  by (auto simp: trim_def hd_rev)

lemma dropWhile_shortens: "P (hd xs) \<Longrightarrow> xs \<noteq> [] \<Longrightarrow> length (dropWhile P xs) < length xs"
  by (cases xs) (simp_all add: length_dropWhile_le less_Suc_eq_le)

lemma length_trim_le: "length (trim s) \<le> length s"
  using length_dropWhile_le [of is_space "rev (dropWhile is_space s)"] length_dropWhile_le [of is_space s]
  by (simp add: trim_def)

lemma length_trim_less: "s \<noteq> [] \<Longrightarrow> is_space (last s) \<Longrightarrow> length (trim s) < length s"
proof -
  assume s: "s \<noteq> []" "is_space (last s)"
  show ?thesis
  proof (cases "dropWhile is_space s")
    case (Cons c cs)
    have "s = takeWhile is_space s @ dropWhile is_space s" by simp
    then have "last (dropWhile is_space s) = last s" using Cons by (metis last_append list.distinct(1))
    moreover have "hd (rev (dropWhile is_space s)) = last (dropWhile is_space s)"
      by (simp only: hd_rev)
    ultimately have "is_space (hd (rev (dropWhile is_space s)))" using s by simp
    then have "length (dropWhile is_space (rev (dropWhile is_space s))) < length (rev (dropWhile is_space s))"
      by (rule dropWhile_shortens) (simp add: Cons)
    then show ?thesis using length_dropWhile_le [of is_space s] by (simp add: trim_def)
  next
    case Nil
    then have "trim s = []" unfolding trim_def by (simp only: rev.simps dropWhile.simps)
    then show ?thesis using s by simp
  qed
qed

section \<open>Ordered maps\<close>

text \<open>
  Rust's \<open>BTreeMap\<close> where its order of iteration matters: an association list with rising keys.
\<close>

fun bt_insert :: "'k::linorder \<Rightarrow> 'v \<Rightarrow> ('k \<times> 'v) list \<Rightarrow> ('k \<times> 'v) list" where
  "bt_insert k v [] = [(k, v)]"
| "bt_insert k v ((k', v') # xs) =
     (if k = k' then (k, v) # xs else if k < k' then (k, v) # (k', v') # xs else (k', v') # bt_insert k v xs)"

definition bt_ok :: "('k::linorder \<times> 'v) list \<Rightarrow> bool" where
  "bt_ok xs \<longleftrightarrow> sorted_wrt (<) (map fst xs)"

lemma map_of_bt_insert [simp]: "map_of (bt_insert k v xs) = (map_of xs)(k \<mapsto> v)"
  by (induction k v xs rule: bt_insert.induct) auto

lemma keys_bt_insert: "fst ` set (bt_insert k v xs) = insert k (fst ` set xs)"
  by (induction k v xs rule: bt_insert.induct) auto

lemma bt_ok_Nil [simp]: "bt_ok []"
  by (simp add: bt_ok_def)

lemma bt_ok_insert [simp]: "bt_ok xs \<Longrightarrow> bt_ok (bt_insert k v xs)"
  unfolding bt_ok_def
proof (induction k v xs rule: bt_insert.induct)
  case (2 k v k' v' xs)
  then show ?case using keys_bt_insert [of k v xs] by auto
qed simp

lemma bt_ok_distinct: "bt_ok xs \<Longrightarrow> distinct (map fst xs)"
  by (simp add: bt_ok_def strict_sorted_iff)

lemma bt_ok_map_of: "bt_ok xs \<Longrightarrow> (k, v) \<in> set xs \<longleftrightarrow> map_of xs k = Some v"
  by (simp add: bt_ok_distinct)

section \<open>Fallible steps\<close>

text \<open>
  The \<open>?\<close> operator, and a loop whose body may return an error early.
\<close>

fun and_then :: "'e + 'a \<Rightarrow> ('a \<Rightarrow> 'e + 'b) \<Rightarrow> 'e + 'b" where
  "and_then (Inl e) k = Inl e"
| "and_then (Inr a) k = k a"

fun fold_err :: "('s \<Rightarrow> 'x \<Rightarrow> 'e + 's) \<Rightarrow> 's \<Rightarrow> 'x list \<Rightarrow> 'e + 's" where
  "fold_err f s [] = Inr s"
| "fold_err f s (x # xs) = and_then (f s x) (\<lambda>t. fold_err f t xs)"

lemma and_then_Inr_iff: "and_then m k = Inr b \<longleftrightarrow> (\<exists>a. m = Inr a \<and> k a = Inr b)"
  by (cases m) auto

lemma and_then_assoc: "and_then (and_then m f) k = and_then m (\<lambda>a. and_then (f a) k)"
  by (cases m) simp_all

lemma and_then_Inl_iff:
  "and_then m k = Inl e \<longleftrightarrow> m = Inl e \<or> (\<exists>a. m = Inr a \<and> k a = Inl e)"
  by (cases m) auto

section \<open>The window ring interface\<close>

text \<open>
  Every evidence ring of the route-health record is cleaned by the same contract: entries
  older than the policy window go, then the oldest by insertion order beyond a cap. The
  client lemmas below are what the operations on the rings rely on.
\<close>

locale window_ring =
  fixes row_at :: "'a \<Rightarrow> u64"
    and cap :: nat
    and floor_of :: "u64 \<Rightarrow> 'p \<Rightarrow> u64"
    and clean :: "'a list \<Rightarrow> u64 \<Rightarrow> 'p \<Rightarrow> 'a list"
  assumes cap_pos: "0 < cap"
    and clean_newest: "suffix (clean xs now p) (filter (\<lambda>x. floor_of now p \<le> row_at x) xs)"
    and clean_length:
      "length (clean xs now p) = min cap (length (filter (\<lambda>x. floor_of now p \<le> row_at x) xs))"
begin

lemma clean_capped: "length (clean xs now p) \<le> cap"
  by (simp add: clean_length)

lemma clean_all:
  assumes "length (filter (\<lambda>x. floor_of now p \<le> row_at x) xs) \<le> cap"
  shows "clean xs now p = filter (\<lambda>x. floor_of now p \<le> row_at x) xs"
proof -
  from clean_newest [of xs now p] obtain ys where
    "filter (\<lambda>x. floor_of now p \<le> row_at x) xs = ys @ clean xs now p"
    by (auto simp: suffix_def)
  moreover from assms have "length (clean xs now p) = length (filter (\<lambda>x. floor_of now p \<le> row_at x) xs)"
    by (simp add: clean_length)
  ultimately show ?thesis by simp
qed

lemma clean_subset: "set (clean xs now p) \<subseteq> set xs"
  using set_mono_suffix [OF clean_newest] by fastforce

lemma clean_fresh: "x \<in> set (clean xs now p) \<Longrightarrow> floor_of now p \<le> row_at x"
  using set_mono_suffix [OF clean_newest] by fastforce

lemma clean_idem: "clean (clean xs now p) now p = clean xs now p"
proof -
  have id: "filter (\<lambda>x. floor_of now p \<le> row_at x) (clean xs now p) = clean xs now p"
    by (rule filter_True) (simp add: clean_fresh)
  then show ?thesis using clean_all [of now p "clean xs now p"] clean_capped by simp
qed

lemma clean_push_member:
  assumes "floor_of now p \<le> row_at x"
  shows "x \<in> set (clean (xs @ [x]) now p)"
proof -
  from clean_newest [of "xs @ [x]" now p] assms obtain ys where
    eq: "filter (\<lambda>x. floor_of now p \<le> row_at x) xs @ [x] = ys @ clean (xs @ [x]) now p"
    by (auto simp: suffix_def)
  have "0 < length (clean (xs @ [x]) now p)"
    using assms cap_pos by (simp add: clean_length)
  then have ne: "clean (xs @ [x]) now p \<noteq> []" by simp
  then have "last (clean (xs @ [x]) now p) = x" using eq by (metis last_append last_snoc)
  with ne show ?thesis using last_in_set by metis
qed

lemma clean_push_stale:
  assumes "\<not> floor_of now p \<le> row_at x"
  shows "clean (clean xs now p @ [x]) now p = clean xs now p"
proof -
  have "filter (\<lambda>x. floor_of now p \<le> row_at x) (clean xs now p @ [x]) = clean xs now p"
    using assms by (simp add: filter_id_conv clean_fresh)
  then show ?thesis using clean_all [of now p "clean xs now p @ [x]"] clean_capped by simp
qed

lemma clean_Nil [simp]: "clean [] now p = []"
  using clean_length [of "[]" now p] by simp

end

section \<open>The keyed store interface\<close>

text \<open>
  The durable components keep one file per key. All they need of the file system is that a
  write is read back under its own key and is invisible under every other.
\<close>

locale keyed_store =
  fixes get :: "'s \<Rightarrow> 'k \<Rightarrow> 'v"
    and put :: "'k \<Rightarrow> 'v \<Rightarrow> 's \<Rightarrow> 's"
  assumes get_put: "get (put k v s) j = (if j = k then v else get s j)"
begin

lemma get_put_same [simp]: "get (put k v s) k = v"
  by (simp add: get_put)

lemma get_put_other [simp]: "j \<noteq> k \<Longrightarrow> get (put k v s) j = get s j"
  by (simp add: get_put)

lemma get_put_overwrite: "get (put k w (put k v s)) j = get (put k w s) j"
  by (simp add: get_put)

lemma get_put_commute:
  "i \<noteq> k \<Longrightarrow> get (put i w (put k v s)) j = get (put k v (put i w s)) j"
  by (simp add: get_put)

lemma put_keeps_all: "(\<forall>j. P (get s j)) \<Longrightarrow> P v \<Longrightarrow> P (get (put k v s) j)"
  by (simp add: get_put)

lemma puts_other:
  "j \<notin> set ks \<Longrightarrow> get (fold (\<lambda>k. put k (f k)) ks s) j = get s j"
  by (induction ks arbitrary: s) simp_all

end

section \<open>The strictest-verdict interface\<close>

text \<open>
  Several layers combine verdicts by keeping the stricter one. Strictness is a rank; the merge
  keeps one of its arguments and never lowers the rank.
\<close>

locale strictest =
  fixes rank :: "'a \<Rightarrow> 'r::linorder"
    and merge :: "'a \<Rightarrow> 'a \<Rightarrow> 'a"
  assumes merge_choice: "merge a b = a \<or> merge a b = b"
    and merge_rank: "rank (merge a b) = max (rank a) (rank b)"
begin

lemma merge_left: "rank a \<le> rank (merge a b)"
  by (simp add: merge_rank)

lemma merge_right: "rank b \<le> rank (merge a b)"
  by (simp add: merge_rank)

lemma fold_bound: "x \<in> set (a # xs) \<Longrightarrow> rank x \<le> rank (foldl merge a xs)"
proof (induction xs arbitrary: a x)
  case (Cons y ys)
  have acc: "rank (merge a y) \<le> rank (foldl merge (merge a y) ys)" by (rule Cons.IH) simp
  from Cons.prems consider "x = a" | "x = y" | "x \<in> set ys" by auto
  then show ?case
  proof cases
    case 1
    then show ?thesis using order_trans [OF merge_left acc] by simp
  next
    case 2
    then show ?thesis using order_trans [OF merge_right acc] by simp
  next
    case 3
    then have "rank x \<le> rank (foldl merge (merge a y) ys)" by (intro Cons.IH) simp
    then show ?thesis by simp
  qed
qed simp

lemma fold_member: "foldl merge a xs \<in> set (a # xs)"
proof (induction xs arbitrary: a)
  case (Cons y ys)
  have "foldl merge (merge a y) ys \<in> set (merge a y # ys)" by (rule Cons.IH)
  then show ?case using merge_choice [of a y] by auto
qed simp

lemma fold_from_least:
  assumes "\<And>x. rank a \<le> rank x" "xs \<noteq> []"
    and "\<And>x. rank x \<le> rank a \<Longrightarrow> x = a"
  shows "foldl merge a xs \<in> set xs"
proof -
  obtain y ys where xs: "xs = y # ys" using assms(2) by (cases xs) auto
  have "rank y \<le> rank (foldl merge a xs)" using fold_bound [of y a xs] xs by simp
  moreover have "foldl merge a xs \<in> insert a (set xs)" using fold_member [of a xs] by simp
  ultimately show ?thesis using assms(3) [of y] xs by auto
qed

end

end
