(* ===== verification/Route.thy ===== *)
theory Route
  imports Health
begin

text \<open>
  The native half of the placement model, \<open>src/commands/ctx/route.rs\<close>: route identities,
  eligibility before ranking, the scope a provider failure is evidence about, and the
  exactly-once usage ledger. The headroom arithmetic on doubles and the conversion from the
  provider configuration are not modelled here.
\<close>

section \<open>Identities\<close>

datatype runtime_kind = RuntimeHarness | RuntimeNative

fun runtime_kind_as_str :: "runtime_kind \<Rightarrow> string" where
  "runtime_kind_as_str RuntimeHarness = ''harness''"
| "runtime_kind_as_str RuntimeNative = ''native''"

record route_identity =
  ri_runtime :: runtime_kind
  ri_provider :: string
  ri_endpoint :: string
  ri_credential :: string
  ri_model :: "string option"
  ri_pool :: string

definition harness_identity :: "string \<Rightarrow> string \<Rightarrow> route_identity" where
  "harness_identity name provider =
     \<lparr>ri_runtime = RuntimeHarness, ri_provider = provider, ri_endpoint = provider,
      ri_credential = name, ri_model = None, ri_pool = provider\<rparr>"

text \<open>The fields of the resolved runtime route (\<open>runtime/journal.rs\<close>) that the conversion reads.\<close>

record journal_route =
  jr_provider :: string
  jr_endpoint :: string
  jr_account :: string
  jr_billing_pool :: string
  jr_model_id :: string

definition identity_from_runtime :: "journal_route \<Rightarrow> route_identity" where
  "identity_from_runtime r =
     \<lparr>ri_runtime = RuntimeNative, ri_provider = jr_provider r, ri_endpoint = jr_endpoint r,
      ri_credential = jr_account r, ri_model = Some (jr_model_id r), ri_pool = jr_billing_pool r\<rparr>"

definition shares_pool :: "route_identity \<Rightarrow> route_identity \<Rightarrow> bool" where
  "shares_pool a b \<longleftrightarrow> eq_ignore_ascii_case (ri_pool a) (ri_pool b)"

definition shares_endpoint :: "route_identity \<Rightarrow> route_identity \<Rightarrow> bool" where
  "shares_endpoint a b \<longleftrightarrow> eq_ignore_ascii_case (ri_endpoint a) (ri_endpoint b)"

definition identity_label :: "route_identity \<Rightarrow> string" where
  "identity_label i =
     (case ri_model i of
        Some m \<Rightarrow> ri_provider i @ ''/'' @ m @ ''@'' @ ri_endpoint i
      | None \<Rightarrow> ri_provider i @ ''@'' @ ri_endpoint i)"

section \<open>Offers and demands\<close>

datatype dimension =
    RequestsPerMinute | TokensPerMinute | ConcurrentRequests | SubscriptionWindow | SpendCeiling

fun dimension_as_str :: "dimension \<Rightarrow> string" where
  "dimension_as_str RequestsPerMinute = ''requests-per-minute''"
| "dimension_as_str TokensPerMinute = ''tokens-per-minute''"
| "dimension_as_str ConcurrentRequests = ''concurrent-requests''"
| "dimension_as_str SubscriptionWindow = ''subscription-window''"
| "dimension_as_str SpendCeiling = ''spend-ceiling''"

record reading =
  rd_dimension :: dimension
  rd_limit :: "u64 option"
  rd_used :: u64
  rd_observed_at :: "u64 option"

datatype capability = ToolCalls | Streaming | Vision | ReplayableReasoning

fun capability_as_str :: "capability \<Rightarrow> string" where
  "capability_as_str ToolCalls = ''tool calls''"
| "capability_as_str Streaming = ''streaming''"
| "capability_as_str Vision = ''vision''"
| "capability_as_str ReplayableReasoning = ''replayable reasoning''"

text \<open>The declaration order, which is the iteration order of a \<open>BTreeSet\<close> of capabilities.\<close>

definition all_capabilities :: "capability list" where
  "all_capabilities = [ToolCalls, Streaming, Vision, ReplayableReasoning]"

lemma set_all_capabilities [simp]: "c \<in> set all_capabilities"
  by (cases c) (simp_all add: all_capabilities_def)

datatype billing_posture = BillApi | BillSubscription | BillLocal

fun billing_as_str :: "billing_posture \<Rightarrow> string" where
  "billing_as_str BillApi = ''api''"
| "billing_as_str BillSubscription = ''subscription''"
| "billing_as_str BillLocal = ''local''"

fun is_billable :: "billing_posture \<Rightarrow> bool" where
  "is_billable BillApi = True"
| "is_billable _ = False"

text \<open>The postures in the order of their names, which is what \<open>sort_by_key(as_str)\<close> yields.\<close>

definition billing_by_name :: "billing_posture list" where
  "billing_by_name = [BillApi, BillLocal, BillSubscription]"

lemma set_billing_by_name [simp]: "b \<in> set billing_by_name"
  by (cases b) (simp_all add: billing_by_name_def)

datatype policy_verdict = PolicyAllowed | PolicyRefuses string

record route_offer =
  of_route :: string
  of_identity :: route_identity
  of_capabilities :: "capability set"
  of_billing :: billing_posture
  of_context_window :: "u64 option"
  of_readings :: "reading list"
  of_policy :: policy_verdict

record demand =
  dm_capabilities :: "capability set"
  dm_context_tokens :: u64
  dm_authorized :: "billing_posture set"
  dm_preferred :: "string option"

definition authorizes :: "demand \<Rightarrow> billing_posture \<Rightarrow> bool" where
  "authorizes d b \<longleftrightarrow> dm_authorized d = {} \<or> b \<in> dm_authorized d"

datatype ineligible =
    PolicyRefused string
  | MissingCapability capability
  | NoContextRoom u64 "u64 option"
  | UnauthorizedBilling billing_posture "billing_posture list"

fun join :: "string \<Rightarrow> string list \<Rightarrow> string" where
  "join sep [] = []"
| "join sep [x] = x"
| "join sep (x # y # xs) = x @ sep @ join sep (y # xs)"

fun ineligible_label :: "ineligible \<Rightarrow> string" where
  "ineligible_label (PolicyRefused r) = ''refused by policy: '' @ r"
| "ineligible_label (MissingCapability c) = ''does not support '' @ capability_as_str c"
| "ineligible_label (NoContextRoom need (Some have_tokens)) =
     ''context window too small ('' @ show_nat need @ '' tokens needed, '' @
     show_nat have_tokens @ '' available)''"
| "ineligible_label (NoContextRoom need None) =
     ''context window unknown, so '' @ show_nat need @ '' tokens cannot be shown to fit''"
| "ineligible_label (UnauthorizedBilling posture authorized) =
     ''billed as '' @ billing_as_str posture @
     '' which this work is not authorized for (authorized: '' @
     (if authorized = [] then ''none'' else join '', '' (map billing_as_str authorized)) @ '')''"

definition eligible :: "route_offer \<Rightarrow> demand \<Rightarrow> ineligible + unit" where
  "eligible offer d =
     (case of_policy offer of
        PolicyRefuses reason \<Rightarrow> Inl (PolicyRefused reason)
      | PolicyAllowed \<Rightarrow>
          (case find (\<lambda>c. c \<in> dm_capabilities d \<and> c \<notin> of_capabilities offer) all_capabilities of
             Some missing \<Rightarrow> Inl (MissingCapability missing)
           | None \<Rightarrow>
               if 0 < dm_context_tokens d \<and>
                  \<not> (case of_context_window offer of
                       Some window \<Rightarrow> dm_context_tokens d \<le> window | None \<Rightarrow> False)
               then Inl (NoContextRoom (dm_context_tokens d) (of_context_window offer))
               else if \<not> authorizes d (of_billing offer)
               then Inl (UnauthorizedBilling (of_billing offer)
                      (filter (\<lambda>b. b \<in> dm_authorized d) billing_by_name))
               else Inr ()))"

section \<open>Failure scopes\<close>

datatype failure_class =
    FCancelled | FFirstEventTimeout | FIdleTimeout | FAuthentication | FPermission | FEntitlement
  | FModelAccess | FConfiguration | FContextOverflow | FRateLimited | FOverloaded | FTransport
  | FProvider | FInvalidStream | FInvalidToolArguments

datatype failure_scope_kind =
  ScRequest | ScModel | ScAccount | ScBillingPool | ScEndpoint | ScProvider

text \<open>The fields of a \<open>ProviderFailure\<close> that routing reads; the text and status are not used.\<close>

record provider_failure =
  pf_class :: failure_class
  pf_scope :: failure_scope_kind
  pf_retry_after_ms :: "u64 option"

datatype failure_routing =
    FrEndpoint string provider_error_class
  | FrCredential string
  | FrModel "string option" string
  | FrRateLimit string "u64 option"
  | FrCompaction
  | FrIgnored string

fun breaker_input :: "failure_routing \<Rightarrow> (string \<times> provider_error_class) option" where
  "breaker_input (FrEndpoint endpoint cls) = Some (endpoint, cls)"
| "breaker_input (FrCredential credential) = Some (credential, Auth)"
| "breaker_input (FrModel model credential) =
     Some ((case model of Some m \<Rightarrow> credential @ ''/'' @ m | None \<Rightarrow> credential), Auth)"
| "breaker_input (FrRateLimit _ _) = None"
| "breaker_input FrCompaction = None"
| "breaker_input (FrIgnored _) = None"

fun breaker_scope :: "failure_routing \<Rightarrow> route_scope option" where
  "breaker_scope (FrEndpoint _ _) = Some ScopeEndpoint"
| "breaker_scope (FrCredential _) = Some ScopeCredential"
| "breaker_scope (FrModel _ _) = Some ScopeModel"
| "breaker_scope _ = None"

definition breaker_key :: "failure_routing \<Rightarrow> (route_key \<times> provider_error_class) option" where
  "breaker_key r =
     (case breaker_input r of
        None \<Rightarrow> None
      | Some (i, cls) \<Rightarrow>
          (case breaker_scope r of
             None \<Rightarrow> None
           | Some scope \<Rightarrow> Some (route_key_scoped scope i, cls)))"

fun routing_label :: "failure_routing \<Rightarrow> string" where
  "routing_label (FrEndpoint endpoint _) = ''endpoint '' @ endpoint"
| "routing_label (FrCredential credential) = ''credential '' @ credential"
| "routing_label (FrModel (Some m) _) = ''model '' @ m"
| "routing_label (FrModel None _) = ''model''"
| "routing_label (FrRateLimit pool _) = ''rate limit on pool '' @ pool"
| "routing_label FrCompaction = ''context overflow (compaction signal)''"
| "routing_label (FrIgnored reason) = reason"

fun narrowed_by :: "failure_routing \<Rightarrow> failure_scope_kind \<Rightarrow> route_identity \<Rightarrow> failure_routing" where
  "narrowed_by (FrEndpoint _ _) ScModel i = FrModel (ri_model i) (ri_credential i)"
| "narrowed_by (FrEndpoint _ _) ScAccount i = FrCredential (ri_credential i)"
| "narrowed_by (FrCredential _) ScModel i = FrModel (ri_model i) (ri_credential i)"
| "narrowed_by r _ _ = r"

definition div_ceil :: "u64 \<Rightarrow> u64 \<Rightarrow> u64" where
  "div_ceil a b = (if a mod b = 0 then a div b else a div b + 1)"

fun route_by_class :: "provider_failure \<Rightarrow> failure_class \<Rightarrow> route_identity \<Rightarrow> failure_routing" where
  "route_by_class f FCancelled i = FrIgnored ''cancelled by zirv''"
| "route_by_class f FContextOverflow i = FrCompaction"
| "route_by_class f FInvalidToolArguments i =
     FrIgnored ''the model produced unusable tool arguments''"
| "route_by_class f FRateLimited i =
     FrRateLimit (ri_pool i) (map_option (\<lambda>ms. div_ceil ms 1000) (pf_retry_after_ms f))"
| "route_by_class f FAuthentication i = FrCredential (ri_credential i)"
| "route_by_class f FPermission i = FrCredential (ri_credential i)"
| "route_by_class f FEntitlement i = FrCredential (ri_credential i)"
| "route_by_class f FModelAccess i = FrModel (ri_model i) (ri_credential i)"
| "route_by_class f FConfiguration i = FrModel (ri_model i) (ri_credential i)"
| "route_by_class f FTransport i = FrEndpoint (ri_endpoint i) Transport"
| "route_by_class f FFirstEventTimeout i = FrEndpoint (ri_endpoint i) Transport"
| "route_by_class f FIdleTimeout i = FrEndpoint (ri_endpoint i) Transport"
| "route_by_class f FOverloaded i = FrEndpoint (ri_endpoint i) Server"
| "route_by_class f FProvider i = FrEndpoint (ri_endpoint i) Server"
| "route_by_class f FInvalidStream i =
     FrIgnored ''the provider stream could not be parsed''"

definition route_failure :: "provider_failure \<Rightarrow> route_identity \<Rightarrow> failure_routing" where
  "route_failure f i = narrowed_by (route_by_class f (pf_class f) i) (pf_scope f) i"

section \<open>Reconciliation\<close>

record settled =
  st_input_tokens :: u64
  st_output_tokens :: u64

definition settled_total :: "settled \<Rightarrow> u64" where
  "settled_total s = sat_add (st_input_tokens s) (st_output_tokens s)"

record reconciliation =
  rc_billable :: u64
  rc_unpriced :: u64
  rc_reserved :: u64
  rc_requests :: u64
  rc_seen :: "string list"

definition empty_ledger :: reconciliation where
  "empty_ledger = \<lparr>rc_billable = 0, rc_unpriced = 0, rc_reserved = 0, rc_requests = 0, rc_seen = []\<rparr>"

definition MAX_SEEN_REQUESTS :: nat where "MAX_SEEN_REQUESTS = 64"

datatype reconciled = Applied | AlreadyCounted

definition reconcile ::
    "reconciliation \<Rightarrow> string \<Rightarrow> settled \<Rightarrow> u64 \<Rightarrow> billing_posture
      \<Rightarrow> reconciliation \<times> reconciled" where
  "reconcile l request_key s reserved billing =
     (if request_key \<in> set (rc_seen l) then (l, AlreadyCounted)
      else let total = settled_total s;
               l1 = (if is_billable billing
                     then l\<lparr>rc_billable := sat_add (rc_billable l) total\<rparr>
                     else l\<lparr>rc_unpriced := sat_add (rc_unpriced l) total\<rparr>)
           in (l1\<lparr>rc_reserved := sat_add (rc_reserved l) reserved,
                  rc_requests := sat_add (rc_requests l) 1,
                  rc_seen := keep_last MAX_SEEN_REQUESTS (rc_seen l @ [request_key])\<rparr>, Applied))"

section \<open>Eligibility is decided before ranking\<close>

definition has_room :: "route_offer \<Rightarrow> demand \<Rightarrow> bool" where
  "has_room offer d \<longleftrightarrow> dm_context_tokens d = 0 \<or>
     (\<exists>w. of_context_window offer = Some w \<and> dm_context_tokens d \<le> w)"

lemma missing_capability_None:
  "find (\<lambda>c. c \<in> A \<and> c \<notin> B) all_capabilities = None \<longleftrightarrow> A \<subseteq> B"
  by (auto simp: find_None_iff)

lemma missing_capability_Some:
  "find (\<lambda>c. c \<in> A \<and> c \<notin> B) all_capabilities = Some c \<Longrightarrow> c \<in> A \<and> c \<notin> B"
  by (auto simp: find_Some_iff)

lemma has_room_code:
  "has_room offer d \<longleftrightarrow> \<not> (0 < dm_context_tokens d \<and>
     \<not> (case of_context_window offer of Some w \<Rightarrow> dm_context_tokens d \<le> w | None \<Rightarrow> False))"
  by (auto simp: has_room_def split: option.split)

text \<open>What a verdict of \<open>eligible\<close> means: the reason it reports is the first that applies in
  the order policy, capability, context room, billing.\<close>

fun verdict_holds :: "route_offer \<Rightarrow> demand \<Rightarrow> ineligible + unit \<Rightarrow> bool" where
  "verdict_holds offer d (Inl (PolicyRefused r)) \<longleftrightarrow> of_policy offer = PolicyRefuses r"
| "verdict_holds offer d (Inl (MissingCapability c)) \<longleftrightarrow>
     of_policy offer = PolicyAllowed \<and> c \<in> dm_capabilities d \<and> c \<notin> of_capabilities offer"
| "verdict_holds offer d (Inl (NoContextRoom need got)) \<longleftrightarrow>
     of_policy offer = PolicyAllowed \<and> dm_capabilities d \<subseteq> of_capabilities offer \<and>
     \<not> has_room offer d \<and> need = dm_context_tokens d \<and> got = of_context_window offer"
| "verdict_holds offer d (Inl (UnauthorizedBilling posture authorized)) \<longleftrightarrow>
     of_policy offer = PolicyAllowed \<and> dm_capabilities d \<subseteq> of_capabilities offer \<and>
     has_room offer d \<and> posture = of_billing offer \<and> set authorized = dm_authorized d \<and>
     authorized \<noteq> [] \<and> posture \<notin> set authorized"
| "verdict_holds offer d (Inr ()) \<longleftrightarrow>
     of_policy offer = PolicyAllowed \<and> dm_capabilities d \<subseteq> of_capabilities offer \<and>
     has_room offer d \<and> authorizes d (of_billing offer)"

lemma authorized_names: "set (filter (\<lambda>b. b \<in> A) billing_by_name) = A"
  by auto

text \<open>Eligibility reports the truth, in the order policy, capability, context room and
  billing: a route is eligible exactly when it clears all four, and each refusal carries the
  first reason that applies. In particular work is never placed on a billing posture outside
  a stated authorization, and a route whose window is unknown is never assumed to fit.\<close>

theorem eligible_verdict_holds: "verdict_holds offer d (eligible offer d)"
proof (cases "of_policy offer")
  case (PolicyRefuses r)
  then show ?thesis by (simp add: eligible_def)
next
  case PolicyAllowed
  let ?find = "find (\<lambda>c. c \<in> dm_capabilities d \<and> c \<notin> of_capabilities offer) all_capabilities"
  show ?thesis
  proof (cases ?find)
    case (Some c)
    then show ?thesis using PolicyAllowed missing_capability_Some [OF Some]
      by (simp add: eligible_def)
  next
    case None
    then have sub: "dm_capabilities d \<subseteq> of_capabilities offer"
      by (simp only: missing_capability_None)
    have el: "eligible offer d =
        (if \<not> has_room offer d then Inl (NoContextRoom (dm_context_tokens d) (of_context_window offer))
         else if \<not> authorizes d (of_billing offer)
         then Inl (UnauthorizedBilling (of_billing offer)
                (filter (\<lambda>b. b \<in> dm_authorized d) billing_by_name))
         else Inr ())"
      unfolding eligible_def has_room_code using PolicyAllowed None by simp
    show ?thesis unfolding el
      using PolicyAllowed sub authorized_names [of "dm_authorized d"]
      by (auto simp: authorizes_def filter_empty_conv)
  qed
qed

section \<open>A failure reaches the narrowest scope it is evidence about\<close>

fun breadth :: "failure_routing \<Rightarrow> nat" where
  "breadth (FrEndpoint _ _) = 3"
| "breadth (FrCredential _) = 2"
| "breadth (FrModel _ _) = 1"
| "breadth _ = 0"

definition not_health_evidence :: "failure_class set" where
  "not_health_evidence =
     {FCancelled, FContextOverflow, FInvalidToolArguments, FRateLimited, FInvalidStream}"

text \<open>A provider failure trips a breaker exactly when its class is health evidence: a
  cancellation, a context overflow, unusable tool arguments, a rate limit or an unparseable
  stream reaches no breaker record, whatever scope the adapter named; and the adapter's scope
  can only narrow what the class implies, never widen it.\<close>

theorem failure_scope_only_narrows:
  "(breaker_key (route_failure f i) = None \<longleftrightarrow> pf_class f \<in> not_health_evidence) \<and>
   breadth (route_failure f i) \<le> breadth (route_by_class f (pf_class f) i)"
  by (cases "pf_class f"; cases "pf_scope f")
    (simp_all add: route_failure_def breaker_key_def not_health_evidence_def)

section \<open>Usage is counted exactly once\<close>

type_synonym request = "string \<times> settled \<times> u64 \<times> billing_posture"

fun count_request :: "reconciliation \<Rightarrow> request \<Rightarrow> reconciliation" where
  "count_request l (k, s, r, b) = fst (reconcile l k s r b)"

text \<open>The first request of every key, in order.\<close>

fun firsts :: "string set \<Rightarrow> request list \<Rightarrow> request list" where
  "firsts done_keys [] = []"
| "firsts done_keys (x # xs) =
     (if fst x \<in> done_keys then firsts done_keys xs
      else x # firsts (insert (fst x) done_keys) xs)"

definition billable_total :: "request list \<Rightarrow> nat" where
  "billable_total xs =
     sum_list (map (\<lambda>(k, s, r, b). if is_billable b then settled_total s else 0) xs)"

definition unpriced_total :: "request list \<Rightarrow> nat" where
  "unpriced_total xs =
     sum_list (map (\<lambda>(k, s, r, b). if is_billable b then 0 else settled_total s) xs)"

definition reserved_total :: "request list \<Rightarrow> nat" where
  "reserved_total xs = sum_list (map (\<lambda>(k, s, r, b). r) xs)"

lemmas total_defs = billable_total_def unpriced_total_def reserved_total_def

lemma sat_add_assoc: "sat_add (sat_add a b) c = sat_add a (b + c)"
  by (simp add: sat_add_def min_def)

lemma sat_add_zero: "a \<le> u64_max \<Longrightarrow> sat_add a 0 = a"
  by (simp add: sat_add_def)

definition ledger_ok :: "reconciliation \<Rightarrow> bool" where
  "ledger_ok l \<longleftrightarrow> rc_billable l \<le> u64_max \<and> rc_unpriced l \<le> u64_max \<and>
     rc_reserved l \<le> u64_max \<and> rc_requests l \<le> u64_max"

lemma ledger_ok_step: "ledger_ok l \<Longrightarrow> ledger_ok (count_request l x)"
  by (cases x) (simp add: ledger_ok_def reconcile_def Let_def)

lemma count_request_seen: "fst x \<in> set (rc_seen l) \<Longrightarrow> count_request l x = l"
  by (cases x) (simp add: reconcile_def)

lemma count_request_new:
  assumes "fst x \<notin> set (rc_seen l)" "length (rc_seen l) < 64" "ledger_ok l"
  shows "count_request l x =
    \<lparr>rc_billable = sat_add (rc_billable l) (billable_total [x]),
     rc_unpriced = sat_add (rc_unpriced l) (unpriced_total [x]),
     rc_reserved = sat_add (rc_reserved l) (reserved_total [x]),
     rc_requests = sat_add (rc_requests l) 1, rc_seen = rc_seen l @ [fst x]\<rparr>"
  using assms
  by (cases x) (simp add: reconcile_def Let_def total_defs MAX_SEEN_REQUESTS_def sat_add_zero
      ledger_ok_def)

lemma totals_Cons:
  "billable_total (x # xs) = billable_total [x] + billable_total xs"
  "unpriced_total (x # xs) = unpriced_total [x] + unpriced_total xs"
  "reserved_total (x # xs) = reserved_total [x] + reserved_total xs"
  by (simp_all add: total_defs)

lemma ledger_of_firsts:
  assumes "ledger_ok l" "length (rc_seen l) + length (firsts (set (rc_seen l)) xs) \<le> 64"
  shows "foldl count_request l xs =
    (let fs = firsts (set (rc_seen l)) xs in
     \<lparr>rc_billable = sat_add (rc_billable l) (billable_total fs),
      rc_unpriced = sat_add (rc_unpriced l) (unpriced_total fs),
      rc_reserved = sat_add (rc_reserved l) (reserved_total fs),
      rc_requests = sat_add (rc_requests l) (length fs), rc_seen = rc_seen l @ map fst fs\<rparr>)"
  using assms
proof (induction xs arbitrary: l)
  case Nil
  then show ?case by (simp add: ledger_ok_def sat_add_zero total_defs)
next
  case (Cons x xs)
  show ?case
  proof (cases "fst x \<in> set (rc_seen l)")
    case True
    then show ?thesis using Cons by (simp add: count_request_seen)
  next
    case False
    then have "length (rc_seen l) < 64" using Cons.prems(2) by simp
    note new = count_request_new [OF False this Cons.prems(1)]
    have "foldl count_request (count_request l x) xs =
      (let fs = firsts (set (rc_seen (count_request l x))) xs in
       \<lparr>rc_billable = sat_add (rc_billable (count_request l x)) (billable_total fs),
        rc_unpriced = sat_add (rc_unpriced (count_request l x)) (unpriced_total fs),
        rc_reserved = sat_add (rc_reserved (count_request l x)) (reserved_total fs),
        rc_requests = sat_add (rc_requests (count_request l x)) (length fs),
        rc_seen = rc_seen (count_request l x) @ map fst fs\<rparr>)"
      using Cons.prems False by (intro Cons.IH ledger_ok_step) (simp_all add: new)
    then show ?thesis
      using False
      by (simp add: new Let_def sat_add_assoc
          totals_Cons [of x "firsts (insert (fst x) (set (rc_seen l))) xs"])
  qed
qed

text \<open>As long as at most 64 distinct requests are in play, whatever is retried, replayed
  or seen by two supervisors, in whatever order, the ledger ends with every request counted
  exactly once: its billable, unpriced and reserved totals are the sums over the first
  sighting of each request id (saturating at the integer's maximum), and the request count is
  the number of distinct ids.\<close>

theorem usage_is_counted_exactly_once:
  assumes "length (firsts {} xs) \<le> 64"
  shows "foldl count_request empty_ledger xs =
    \<lparr>rc_billable = min u64_max (billable_total (firsts {} xs)),
     rc_unpriced = min u64_max (unpriced_total (firsts {} xs)),
     rc_reserved = min u64_max (reserved_total (firsts {} xs)),
     rc_requests = min u64_max (length (firsts {} xs)), rc_seen = map fst (firsts {} xs)\<rparr>"
  using ledger_of_firsts [of empty_ledger xs] assms
  by (simp add: empty_ledger_def ledger_ok_def Let_def sat_add_def)

theorem usage_is_counted_exactly_once_witness:
  "let a = (''req-1'', \<lparr>st_input_tokens = 10, st_output_tokens = 5\<rparr>, 20, BillApi);
       b = (''req-2'', \<lparr>st_input_tokens = 7, st_output_tokens = 0\<rparr>, 9, BillLocal)
   in foldl count_request empty_ledger [a, b, a, a, b] =
        \<lparr>rc_billable = 15, rc_unpriced = 7, rc_reserved = 29, rc_requests = 2,
         rc_seen = [''req-1'', ''req-2'']\<rparr>"
proof -
  let ?a = "(''req-1'', \<lparr>st_input_tokens = 10, st_output_tokens = 5\<rparr>, 20, BillApi)"
  let ?b = "(''req-2'', \<lparr>st_input_tokens = 7, st_output_tokens = 0\<rparr>, 9, BillLocal)"
  have "firsts {} [?a, ?b, ?a, ?a, ?b] = [?a, ?b]" by simp
  then show ?thesis
    using usage_is_counted_exactly_once [of "[?a, ?b, ?a, ?a, ?b]"]
    by (simp add: Let_def total_defs settled_total_def sat_add_def u64_max_def
        del: foldl.simps foldl_Cons firsts.simps)
qed

end
