(* ===== verification/Health_Store.thy ===== *)
theory Health_Store
  imports Route "HOL-Library.List_Lexorder" "HOL-Library.Char_ord"
begin

text \<open>
  The durable half of route health, \<open>src/commands/ctx/health_store.rs\<close>: one record file per
  route, a non-blocking lock around every read-modify-write, best-effort writes, the recovery
  trial claim, the shared-endpoint denials and the admission of native routes.

  The state is the directory as the program can observe it. A file is absent, unreadable as a
  record, or a record. What each successive \<open>try_lock\<close> and each successive write meets is
  decided by the environment: \<open>hs_locks\<close> and \<open>hs_writes\<close> are the schedules of failures, one
  entry consumed per attempt, an exhausted schedule meaning success from there on.
\<close>

section \<open>State\<close>

definition STALE_HEALTHY_SECS :: u64 where "STALE_HEALTHY_SECS = 86400"

record health_record =
  hr_key :: route_key
  hr_model :: "string option"
  hr_health :: route_health
  hr_updated_at :: u64

datatype health_file = Unparsable | Parsed health_record

record decision =
  dc_ts :: u64
  dc_session :: string
  dc_verb :: string
  dc_verdict :: string
  dc_score :: nat
  dc_action :: string
  dc_detail :: string
  dc_observed_at :: "u64 option"

record health_store =
  hs_files :: "string \<Rightarrow> health_file option"
  hs_locks :: "bool list"
  hs_writes :: "bool list"
  hs_log :: "decision list"

definition put_file :: "string \<Rightarrow> health_file option \<Rightarrow> health_store \<Rightarrow> health_store" where
  "put_file stem f st = st\<lparr>hs_files := (hs_files st)(stem := f)\<rparr>"

interpretation hstore: keyed_store hs_files put_file
  by unfold_locales (simp add: put_file_def)

fun is_healthy :: "phase \<Rightarrow> bool" where
  "is_healthy Healthy = True"
| "is_healthy _ = False"

definition is_stale_healthy :: "health_record \<Rightarrow> u64 \<Rightarrow> bool" where
  "is_stale_healthy r now \<longleftrightarrow>
     is_healthy (rh_phase (hr_health r)) \<and> STALE_HEALTHY_SECS < sat_sub now (hr_updated_at r)"

section \<open>Locking, loading, storing\<close>

text \<open>\<open>True\<close> when the lock was taken. A contended lock, an unopenable lock file and a directory
  that cannot be created are one outcome to every caller.\<close>

definition lock_route :: "health_store \<Rightarrow> bool \<times> health_store" where
  "lock_route st =
     (case hs_locks st of [] \<Rightarrow> (True, st) | b # bs \<Rightarrow> (\<not> b, st\<lparr>hs_locks := bs\<rparr>))"

definition load_record :: "health_store \<Rightarrow> route_key \<Rightarrow> u64 \<Rightarrow> health_record option" where
  "load_record st key now =
     (case hs_files st (file_stem key) of
        Some (Parsed r) \<Rightarrow> if is_stale_healthy r now then None else Some r
      | _ \<Rightarrow> None)"

definition load :: "health_store \<Rightarrow> route_key \<Rightarrow> u64 \<Rightarrow> route_health" where
  "load st key now =
     (case load_record st key now of Some r \<Rightarrow> hr_health r | None \<Rightarrow> default_health)"

definition record_exists :: "health_store \<Rightarrow> route_key \<Rightarrow> bool" where
  "record_exists st key \<longleftrightarrow> hs_files st (file_stem key) \<noteq> None"

definition store_health ::
    "health_store \<Rightarrow> route_key \<Rightarrow> route_health \<Rightarrow> string option \<Rightarrow> u64 \<Rightarrow> health_store" where
  "store_health st key h model now =
     (let r = \<lparr>hr_key = key,
               hr_model = (case model of
                   Some m \<Rightarrow> Some m
                 | None \<Rightarrow> (case load_record st key now of Some r \<Rightarrow> hr_model r | None \<Rightarrow> None)),
               hr_health = h, hr_updated_at = now\<rparr>
      in case hs_writes st of
           [] \<Rightarrow> put_file (file_stem key) (Some (Parsed r)) st
         | failed # ws \<Rightarrow>
             (if failed then st\<lparr>hs_writes := ws\<rparr>
              else put_file (file_stem key) (Some (Parsed r)) (st\<lparr>hs_writes := ws\<rparr>)))"

definition store_changed ::
    "health_store \<Rightarrow> route_key \<Rightarrow> route_health \<Rightarrow> route_health \<Rightarrow> string option \<Rightarrow> u64 \<Rightarrow> health_store"
  where
  "store_changed st key current next model now =
     (if next \<noteq> current then store_health st key next model now else st)"

section \<open>Read-modify-write operations\<close>

definition observe_and_persist ::
    "health_store \<Rightarrow> route_key \<Rightarrow> observed \<Rightarrow> string option \<Rightarrow> u64 \<Rightarrow> health_policy
      \<Rightarrow> health_store \<times> transition option" where
  "observe_and_persist st key ob model now policy =
     (let (locked, st1) = lock_route st in
      if \<not> locked then (st1, None)
      else let current = load st1 key now;
               (next, tr) = observe current ob now policy
           in (store_changed st1 key current next model now, tr))"

definition promote_and_persist ::
    "health_store \<Rightarrow> route_key \<Rightarrow> string option \<Rightarrow> u64 \<Rightarrow> health_policy
      \<Rightarrow> health_store \<times> transition option" where
  "promote_and_persist st key model now policy =
     (if \<not> record_exists st key then (st, None)
      else let (locked, st1) = lock_route st in
      if \<not> locked then (st1, None)
      else let current = load st1 key now;
               (next, tr) = promote current now policy
           in (store_changed st1 key current next model now, tr))"

definition record_success_and_persist ::
    "health_store \<Rightarrow> route_key \<Rightarrow> string option \<Rightarrow> u64 \<Rightarrow> health_policy
      \<Rightarrow> health_store \<times> transition option" where
  "record_success_and_persist st key model now policy =
     (if \<not> record_exists st key then (st, None)
      else let (locked, st1) = lock_route st in
      if \<not> locked then (st1, None)
      else let current = load st1 key now in
      if current = default_health then (st1, None)
      else let (next, tr) = record_success current now policy
           in (store_changed st1 key current next model now, tr))"

definition record_samples_and_persist ::
    "health_store \<Rightarrow> route_key \<Rightarrow> u64 list \<Rightarrow> latency_sample list \<Rightarrow> string option \<Rightarrow> u64
      \<Rightarrow> health_policy \<Rightarrow> health_store \<times> transition option" where
  "record_samples_and_persist st key succ lats model now policy =
     (if succ = [] \<and> lats = [] \<and> \<not> record_exists st key then (st, None)
      else let (locked, st1) = lock_route st in
      if \<not> locked then (st1, None)
      else let current = load st1 key now;
               (next, tr) = record_samples current succ lats now policy
           in (store_changed st1 key current next model now, tr))"

fun named :: "string \<Rightarrow> admission \<Rightarrow> admission" where
  "named harness (Deny r) = Deny (harness @ '': '' @ r)"
| "named harness (AdmitDegraded r) = AdmitDegraded (harness @ '': '' @ r)"
| "named harness other = other"

definition log_transition ::
    "health_store \<Rightarrow> route_key \<Rightarrow> transition \<Rightarrow> u64 \<Rightarrow> string \<Rightarrow> string \<Rightarrow> health_store" where
  "log_transition st key tr now session verb =
     st\<lparr>hs_log := hs_log st @
        [\<lparr>dc_ts = now, dc_session = session, dc_verb = verb, dc_verdict = transition_verdict tr,
          dc_score = 0, dc_action = ''route-health'',
          dc_detail = route_key_label key @ '': '' @ transition_why tr, dc_observed_at = None\<rparr>]\<rparr>"

definition log_some ::
    "health_store \<times> transition option \<Rightarrow> route_key \<Rightarrow> u64 \<Rightarrow> string \<Rightarrow> string \<Rightarrow> health_store" where
  "log_some r key now session verb =
     (case r of (st, Some tr) \<Rightarrow> log_transition st key tr now session verb | (st, None) \<Rightarrow> st)"

definition claim_trial ::
    "health_store \<Rightarrow> string \<Rightarrow> string \<Rightarrow> u64 \<Rightarrow> health_policy \<Rightarrow> health_store \<times> admission" where
  "claim_trial st harness claimant now policy =
     (if \<not> enabled policy then (st, Allow)
      else let key = route_key_new harness; (locked, st1) = lock_route st in
      if \<not> locked
      then (st1, named harness (Deny ''half-open, health record busy; trial not claimed''))
      else let current = load st1 key now;
               (next, verdict, tr) = claim current claimant now policy;
               st2 = store_changed st1 key current next None now
           in (log_some (st2, tr) key now claimant ''route-health'', named harness verdict))"

definition observe_errors ::
    "health_store \<Rightarrow> route_key \<Rightarrow> observed list \<Rightarrow> bool \<Rightarrow> string option \<Rightarrow> u64 \<Rightarrow> health_policy
      \<Rightarrow> string \<Rightarrow> string \<Rightarrow> health_store" where
  "observe_errors st key errors incremental model now policy session verb =
     foldl (\<lambda>s ob.
        if ob_at ob = None \<and> \<not> incremental then s
        else log_some (observe_and_persist s key ob model now policy) key now session verb)
      st errors"

definition observe_poll ::
    "health_store \<Rightarrow> string \<Rightarrow> string option \<Rightarrow> observed list \<Rightarrow> u64 list \<Rightarrow> latency_sample list
      \<Rightarrow> bool \<Rightarrow> bool \<Rightarrow> u64 \<Rightarrow> health_policy \<Rightarrow> string \<Rightarrow> string \<Rightarrow> health_store" where
  "observe_poll st harness model errors succ lats turn_succeeded incremental now policy
       session verb =
     (if \<not> enabled policy then st
      else let key = route_key_new harness;
               st1 = log_some (promote_and_persist st key model now policy) key now session verb;
               st2 = observe_errors st1 key errors incremental model now policy session verb;
               st3 = (if turn_succeeded
                      then log_some (record_success_and_persist st2 key model now policy)
                             key now session verb
                      else st2)
           in log_some (record_samples_and_persist st3 key succ lats model now policy)
                key now session verb)"

section \<open>Reading admissions\<close>

definition harness_admission ::
    "health_store \<Rightarrow> string \<Rightarrow> u64 \<Rightarrow> health_policy \<Rightarrow> admission" where
  "harness_admission st harness now policy =
     (if \<not> enabled policy then Allow
      else named harness (admission_of (load st (route_key_new harness) now) now policy))"

definition harness_block ::
    "health_store \<Rightarrow> string \<Rightarrow> u64 \<Rightarrow> health_policy \<Rightarrow> string option" where
  "harness_block st harness now policy =
     (if \<not> enabled policy then None
      else let h = load st (route_key_new harness) now in
      if \<not> is_shut (rh_phase h) then None
      else denied (named harness (admission_of h now policy)))"

text \<open>The two endpoint overrides of the operator's configuration, as their base URLs.\<close>

record endpoint_config =
  ep_claude :: "string option"
  ep_codex :: "string option"

definition dependency_of :: "endpoint_config \<Rightarrow> string \<Rightarrow> string option" where
  "dependency_of cfg harness =
     (let target = (if ascii_lower harness = ''claude'' then ep_claude cfg
                    else if ascii_lower harness = ''codex'' then ep_codex cfg else None)
      in case target of None \<Rightarrow> None | Some url \<Rightarrow> dependency_from_base_url url)"

fun failing_route ::
    "endpoint_config \<Rightarrow> u64 \<Rightarrow> health_policy \<Rightarrow> string \<times> route_health
      \<Rightarrow> (string \<times> string \<times> string) option" where
  "failing_route cfg now policy (name, h) =
     (case rh_phase h of
        Open _ _ reason cls \<Rightarrow>
          if cls \<notin> {Transport, Server} then None
          else (case denied (admission_of h now policy) of
                  None \<Rightarrow> None
                | Some _ \<Rightarrow>
                    (case dependency_of cfg name of
                       None \<Rightarrow> None | Some dep \<Rightarrow> Some (name, dep, reason)))
      | _ \<Rightarrow> None)"

definition shared_denial :: "string \<Rightarrow> string \<Rightarrow> string \<Rightarrow> string \<Rightarrow> admission" where
  "shared_denial name dep failed reason =
     Deny (name @ '': shares endpoint '' @ dep @ '' with '' @ failed @ '' ('' @ reason @ '')'')"

definition propagate ::
    "endpoint_config \<Rightarrow> (string \<times> string \<times> string) list \<Rightarrow> (string \<Rightarrow> admission option)
      \<Rightarrow> string \<Rightarrow> (string \<Rightarrow> admission option)" where
  "propagate cfg failing verdicts name =
     (let key = ascii_lower name in
      if (case verdicts key of Some a \<Rightarrow> denied a \<noteq> None | None \<Rightarrow> False) then verdicts
      else case dependency_of cfg name of
          None \<Rightarrow> verdicts
        | Some dep \<Rightarrow>
            (case find (\<lambda>(failed, d, _). \<not> eq_ignore_ascii_case failed name \<and> d = dep) failing of
               None \<Rightarrow> verdicts
             | Some (failed, _, reason) \<Rightarrow> verdicts(key \<mapsto> shared_denial name dep failed reason)))"

definition admissions ::
    "health_store \<Rightarrow> endpoint_config \<Rightarrow> string list \<Rightarrow> u64 \<Rightarrow> health_policy
      \<Rightarrow> (string \<Rightarrow> admission option)" where
  "admissions st cfg names now policy =
     (if \<not> enabled policy
      then foldl (\<lambda>m name. m(ascii_lower name \<mapsto> Allow)) Map.empty names
      else let loaded = map (\<lambda>name. (name, load st (route_key_new name) now)) names;
               verdicts = foldl (\<lambda>m (name, h).
                   m(ascii_lower name \<mapsto> named name (admission_of h now policy)))
                 Map.empty loaded;
               failing = List.map_filter (failing_route cfg now policy) loaded
           in foldl (propagate cfg failing) verdicts (map fst loaded))"

definition admission_for :: "(string \<Rightarrow> admission option) \<Rightarrow> string \<Rightarrow> admission" where
  "admission_for verdicts harness =
     (case verdicts (ascii_lower harness) of Some a \<Rightarrow> a | None \<Rightarrow> Allow)"

section \<open>Native routes\<close>

definition native_route_keys :: "route_identity \<Rightarrow> route_key list" where
  "native_route_keys i =
     [route_key_scoped ScopeEndpoint (ri_endpoint i),
      route_key_scoped ScopeCredential (ri_credential i)] @
     (case ri_model i of
        Some m \<Rightarrow> [route_key_scoped ScopeModel (ri_credential i @ ''/'' @ m)]
      | None \<Rightarrow> [])"

fun stricter :: "admission \<Rightarrow> admission \<Rightarrow> admission" where
  "stricter (Deny r) c = Deny r"
| "stricter v (Deny r) = Deny r"
| "stricter (AdmitDegraded r) c = AdmitDegraded r"
| "stricter v (AdmitDegraded r) = AdmitDegraded r"
| "stricter Trial c = Trial"
| "stricter v c = c"

definition native_admission ::
    "health_store \<Rightarrow> route_identity \<Rightarrow> u64 \<Rightarrow> health_policy \<Rightarrow> admission" where
  "native_admission st i now policy =
     (if \<not> enabled policy then Allow
      else foldl (\<lambda>v key.
          stricter v (named (route_key_label key) (admission_of (load st key now) now policy)))
        Allow (native_route_keys i))"

definition record_native_outcome ::
    "health_store \<Rightarrow> route_identity \<Rightarrow> failure_routing option \<Rightarrow> u64 \<Rightarrow> health_policy
      \<Rightarrow> health_store" where
  "record_native_outcome st i routing now policy =
     (if \<not> enabled policy then st
      else case routing of
        Some r \<Rightarrow>
          (case breaker_key r of
             None \<Rightarrow> st
           | Some (key, cls) \<Rightarrow>
               fst (observe_and_persist st key
                 \<lparr>ob_class = cls, ob_at = Some now, ob_id = None\<rparr> (ri_model i) now policy))
      | None \<Rightarrow>
          foldl (\<lambda>s key. fst (record_success_and_persist s key (ri_model i) now policy))
            st (native_route_keys i))"

section \<open>Listing\<close>

text \<open>The directory listing is the order in which the file system yields the record files.\<close>

definition all_records :: "health_store \<Rightarrow> string list \<Rightarrow> u64 \<Rightarrow> health_record list" where
  "all_records st listing now =
     sort_key (\<lambda>r. rk_harness (hr_key r))
       (List.map_filter (\<lambda>stem.
          case hs_files st stem of
            Some (Parsed r) \<Rightarrow>
              if rk_harness (hr_key r) = [] \<or> is_stale_healthy r now then None else Some r
          | _ \<Rightarrow> None) listing)"

section \<open>Record invariants of the whole store\<close>

text \<open>The record under one file name, when there is one, satisfies \<open>H\<close>.\<close>

definition ok_at :: "(route_health \<Rightarrow> bool) \<Rightarrow> health_store \<Rightarrow> string \<Rightarrow> bool" where
  "ok_at H st stem \<longleftrightarrow> (\<forall>r. hs_files st stem = Some (Parsed r) \<longrightarrow> H (hr_health r))"

definition op_closed :: "health_policy \<Rightarrow> u64 \<Rightarrow> (route_health \<Rightarrow> bool) \<Rightarrow> bool" where
  "op_closed p now H \<longleftrightarrow> H default_health \<and> (\<forall>h e. H h \<longrightarrow> H (apply_op p h (now, e)))"

lemma op_closedD:
  assumes "op_closed p now H"
  shows "H default_health" "H h \<Longrightarrow> H (fst (promote h now p))"
    "H h \<Longrightarrow> H (fst (observe h ob now p))" "H h \<Longrightarrow> H (fst (record_samples h ss ls now p))"
    "H h \<Longrightarrow> H (fst (claim h c now p))" "H h \<Longrightarrow> H (fst (record_success h now p))"
  using assms unfolding op_closed_def
  by (metis apply_op.simps(1), metis apply_op.simps(1), metis apply_op.simps(2),
      metis apply_op.simps(3), metis apply_op.simps(4), metis apply_op.simps(5))

lemma lock_route_files [simp]:
  "hs_files (snd (lock_route st)) = hs_files st"
  "hs_writes (snd (lock_route st)) = hs_writes st"
  "hs_log (snd (lock_route st)) = hs_log st"
  by (simp_all add: lock_route_def split: list.split)

lemma ok_at_lock [simp]: "ok_at H (snd (lock_route st)) = ok_at H st"
  by (simp add: ok_at_def fun_eq_iff)

lemma load_lock [simp]: "load (snd (lock_route st)) key now = load st key now"
  by (simp add: load_def load_record_def)

lemma ok_at_load: "H default_health \<Longrightarrow> ok_at H st (file_stem key) \<Longrightarrow> H (load st key now)"
  by (auto simp: load_def load_record_def ok_at_def split: option.splits health_file.splits)

lemma store_health_files:
  "hs_files (store_health st key h model now) stem = hs_files st stem \<or>
   (stem = file_stem key \<and> (\<exists>r. hr_health r = h \<and>
      hs_files (store_health st key h model now) stem = Some (Parsed r)))"
  by (cases "hs_writes st") (auto simp: store_health_def Let_def put_file_def)

lemma ok_at_store_changed:
  "ok_at H st stem \<Longrightarrow> (stem = file_stem key \<Longrightarrow> H next) \<Longrightarrow>
   ok_at H (store_changed st key cur next model now) stem"
  using store_health_files [of st key "next" model now stem]
  by (auto simp: store_changed_def ok_at_def)

lemma ok_at_log [simp]: "ok_at H (log_transition st key tr now s v) = ok_at H st"
  by (simp add: log_transition_def ok_at_def fun_eq_iff)

lemma ok_at_log_some [simp]: "ok_at H (log_some r key now s v) = ok_at H (fst r)"
  by (cases r) (simp add: log_some_def split: option.split)

lemmas persist_defs =
  observe_and_persist_def promote_and_persist_def record_success_and_persist_def
  record_samples_and_persist_def

lemma ok_at_persist:
  assumes "op_closed p now H" "ok_at H st stem"
  shows "ok_at H (fst (observe_and_persist st key ob model now p)) stem"
    "ok_at H (fst (promote_and_persist st key model now p)) stem"
    "ok_at H (fst (record_success_and_persist st key model now p)) stem"
    "ok_at H (fst (record_samples_and_persist st key ss ls model now p)) stem"
    "ok_at H (fst (claim_trial st harness c now p)) stem"
proof -
  have ld: "stem = file_stem k \<Longrightarrow> H (load st k now)" for k
    using assms ok_at_load op_closedD(1) by blast
  show
    "ok_at H (fst (observe_and_persist st key ob model now p)) stem"
    "ok_at H (fst (promote_and_persist st key model now p)) stem"
    "ok_at H (fst (record_success_and_persist st key model now p)) stem"
    "ok_at H (fst (record_samples_and_persist st key ss ls model now p)) stem"
    "ok_at H (fst (claim_trial st harness c now p)) stem"
    using assms(2) by (simp_all add: persist_defs claim_trial_def split_beta Let_def
        ok_at_store_changed op_closedD [OF assms(1)] ld)
qed

lemma ok_at_observe_errors:
  "op_closed p now H \<Longrightarrow> ok_at H st stem \<Longrightarrow>
   ok_at H (observe_errors st key errors inc model now p se v) stem"
  unfolding observe_errors_def by (rule foldl_inv) (simp_all add: ok_at_persist)

lemma ok_at_observe_poll:
  "op_closed p now H \<Longrightarrow> ok_at H st stem \<Longrightarrow>
   ok_at H (observe_poll st harness model errors ss ls ts inc now p se v) stem"
  by (simp add: observe_poll_def Let_def ok_at_persist ok_at_observe_errors)

lemma ok_at_native_outcome:
  assumes "op_closed p now H" "ok_at H st stem"
  shows "ok_at H (record_native_outcome st i routing now p) stem"
proof -
  have "ok_at H (foldl (\<lambda>s key. fst (record_success_and_persist s key m now p)) st ks) stem" for m ks
    using assms(2) by (rule foldl_inv) (rule ok_at_persist [OF assms(1)])
  then show ?thesis using assms(2)
    by (simp add: record_native_outcome_def ok_at_persist [OF assms(1)] split: option.split)
qed

section \<open>Interleaved activity on the store\<close>

text \<open>
  Everything that changes the store, from any process, is one of these; a run is a list of them
  with the clock reading each acts at. A step yields the new store and the file names on which it
  granted a recovery trial.
\<close>

datatype route_event =
    EvPoll string "string option" "observed list" "u64 list" "latency_sample list" bool bool string string
  | EvClaim string string
  | EvNative route_identity "failure_routing option"

fun apply_event ::
    "health_policy \<Rightarrow> health_store \<Rightarrow> u64 \<times> route_event \<Rightarrow> health_store \<times> string list" where
  "apply_event p st (now, EvPoll harness model errors ss ls ts inc session verb) =
     (observe_poll st harness model errors ss ls ts inc now p session verb, [])"
| "apply_event p st (now, EvClaim harness claimant) =
     (let (st', verdict) = claim_trial st harness claimant now p
      in (st', if verdict = Trial then [file_stem (route_key_new harness)] else []))"
| "apply_event p st (now, EvNative i routing) = (record_native_outcome st i routing now p, [])"

fun run_events :: "health_policy \<Rightarrow> health_store \<Rightarrow> (u64 \<times> route_event) list \<Rightarrow> health_store" where
  "run_events p st [] = st"
| "run_events p st (e # es) = run_events p (fst (apply_event p st e)) es"

fun grants ::
    "health_policy \<Rightarrow> health_store \<Rightarrow> (u64 \<times> route_event) list \<Rightarrow> (string \<times> u64) list" where
  "grants p st [] = []"
| "grants p st (e # es) =
     map (\<lambda>stem. (stem, fst e)) (snd (apply_event p st e)) @ grants p (fst (apply_event p st e)) es"

lemma ok_at_event:
  "op_closed p now H \<Longrightarrow> ok_at H st stem \<Longrightarrow> ok_at H (fst (apply_event p st (now, e))) stem"
  by (cases e) (simp_all add: ok_at_observe_poll ok_at_native_outcome split_beta
      Let_def ok_at_persist)

lemma op_closed_health_inv: "op_closed p now health_inv"
proof -
  have "health_inv (apply_op p h (now, e))" if "health_inv h" for h e
    using that by (cases e) (simp_all add: health_inv_ops)
  then show ?thesis by (simp add: op_closed_def)
qed

text \<open>Whatever mixture of supervised polls, trial claims and native outcomes runs against the
  store, with whatever lock contention and write failures in between, every record it holds
  keeps the breaker's record invariant, so nothing a session reads back is ever over its bounds.\<close>

theorem store_keeps_every_record_bounded:
  "ok_at health_inv st stem \<Longrightarrow> ok_at health_inv (run_events p st es) stem"
proof (induction es arbitrary: st)
  case (Cons e es)
  obtain now ev where e: "e = (now, ev)" by (cases e)
  have "ok_at health_inv (fst (apply_event p st e)) stem"
    unfolding e by (rule ok_at_event [OF op_closed_health_inv Cons.prems])
  then show ?case using Cons.IH by simp
qed simp

definition empty_store :: health_store where
  "empty_store = \<lparr>hs_files = Map.empty, hs_locks = [], hs_writes = [], hs_log = []\<rparr>"

theorem store_keeps_every_record_bounded_witness:
  "ok_at health_inv (run_events default_policy empty_store
     [(5, EvClaim ''claude'' ''a''), (6, EvPoll ''codex'' None [] [6] [] True True ''s'' ''v'')])
     ''codex''"
  by (rule store_keeps_every_record_bounded) (simp add: ok_at_def empty_store_def)

section \<open>One recovery trial at a time\<close>

text \<open>No write of the store is going to fail.\<close>

definition writes_ok :: "health_store \<Rightarrow> bool" where
  "writes_ok st \<longleftrightarrow> True \<notin> set (hs_writes st)"

lemma writes_ok_lock [simp]: "writes_ok (snd (lock_route st)) = writes_ok st"
  by (simp add: writes_ok_def)

lemma writes_ok_store_changed: "writes_ok st \<Longrightarrow> writes_ok (store_changed st key cur next model now)"
  by (cases "hs_writes st")
    (simp_all add: store_changed_def store_health_def writes_ok_def Let_def put_file_def)

lemma writes_ok_log [simp]: "writes_ok (log_some r key now s v) = writes_ok (fst r)"
  by (cases r) (simp add: log_some_def log_transition_def writes_ok_def split: option.split)

lemma writes_ok_persist:
  assumes "writes_ok st"
  shows "writes_ok (fst (observe_and_persist st key ob model now p))"
    "writes_ok (fst (promote_and_persist st key model now p))"
    "writes_ok (fst (record_success_and_persist st key model now p))"
    "writes_ok (fst (record_samples_and_persist st key ss ls model now p))"
    "writes_ok (fst (claim_trial st harness c now p))"
  using assms
  by (simp_all add: persist_defs claim_trial_def split_beta Let_def writes_ok_store_changed)

lemma writes_ok_observe_errors:
  "writes_ok st \<Longrightarrow> writes_ok (observe_errors st key errors inc model now p se v)"
  unfolding observe_errors_def by (rule foldl_inv) (simp_all add: writes_ok_persist)

lemma writes_ok_native:
  assumes "writes_ok st"
  shows "writes_ok (record_native_outcome st i routing now p)"
proof -
  have "writes_ok (foldl (\<lambda>s key. fst (record_success_and_persist s key m now p)) st ks)" for m ks
    using assms by (rule foldl_inv) (rule writes_ok_persist)
  then show ?thesis
    using assms by (simp add: record_native_outcome_def writes_ok_persist split: option.split)
qed

lemma writes_ok_event: "writes_ok st \<Longrightarrow> writes_ok (fst (apply_event p st (now, e)))"
  by (cases e) (simp_all add: observe_poll_def Let_def writes_ok_persist writes_ok_observe_errors
      writes_ok_native split_beta)

lemma store_health_written:
  "writes_ok st \<Longrightarrow> \<exists>r. hr_health r = h \<and>
     hs_files (store_health st key h model now) (file_stem key) = Some (Parsed r)"
  by (cases "hs_writes st") (auto simp: store_health_def Let_def put_file_def writes_ok_def)

lemma load_not_default:
  "load st key now \<noteq> default_health \<Longrightarrow>
   \<exists>r. hr_health r = load st key now \<and> hs_files st (file_stem key) = Some (Parsed r)"
  by (auto simp: load_def load_record_def split: option.splits health_file.splits if_splits)

lemma store_changed_written:
  assumes "writes_ok st" "next \<noteq> default_health" "cur = load st key now"
  shows "\<exists>r. hr_health r = next \<and>
    hs_files (store_changed st key cur next model now) (file_stem key) = Some (Parsed r)"
  using store_health_written [OF assms(1)] load_not_default [of st key now] assms(2,3)
  by (auto simp: store_changed_def)

lemma hs_files_log_some [simp]: "hs_files (log_some r key now s v) = hs_files (fst r)"
  by (cases r) (simp add: log_some_def log_transition_def split: option.split)

lemma named_Trial [simp]: "named n a = Trial \<longleftrightarrow> a = Trial"
  by (cases a) simp_all

lemma claim_trial_granted:
  assumes "snd (claim_trial st harness c now p) = Trial"
  shows "enabled p" "admission_of (load st (route_key_new harness) now) now p = Trial"
    "writes_ok st \<Longrightarrow> \<exists>r s. hs_files (fst (claim_trial st harness c now p))
        (file_stem (route_key_new harness)) = Some (Parsed r) \<and>
      rh_phase (hr_health r) = HalfOpen s (Some \<lparr>trial_claim = c, trial_claimed_at = now\<rparr>)"
proof -
  let ?k = "route_key_new harness"
  let ?cur = "load st ?k now"
  show en: "enabled p" using assms by (cases "enabled p") (simp_all add: claim_trial_def)
  have locked: "fst (lock_route st)"
    using assms en by (cases "fst (lock_route st)") (simp_all add: claim_trial_def split_beta Let_def)
  have v: "fst (snd (claim ?cur c now p)) = Trial"
    using assms en locked by (simp add: claim_trial_def split_beta Let_def)
  then show "admission_of ?cur now p = Trial" by (simp add: claim_verdict)
  assume w: "writes_ok st"
  obtain s where ph: "rh_phase (fst (claim ?cur c now p)) =
      HalfOpen s (Some \<lparr>trial_claim = c, trial_claimed_at = now\<rparr>)"
    using claim_granted [OF en v] by blast
  then have "fst (claim ?cur c now p) \<noteq> default_health" by (auto simp: default_health_def)
  from store_changed_written [OF _ this, of "snd (lock_route st)" ?cur ?k now None] w
  show "\<exists>r s. hs_files (fst (claim_trial st harness c now p)) (file_stem ?k) = Some (Parsed r) \<and>
      rh_phase (hr_health r) = HalfOpen s (Some \<lparr>trial_claim = c, trial_claimed_at = now\<rparr>)"
    using en locked ph by (auto simp: claim_trial_def split_beta Let_def)
qed

lemma op_closed_no_trial:
  assumes "t \<le> sat_add now (cooldown_secs p)" "now < t"
  shows "op_closed p now (\<lambda>h. no_trial_before p t (rh_phase h))"
  using closed_apply_op [OF no_trial_before_closed [OF assms(1)]]
    no_trial_before_promote [OF _ assms(2)]
  by (auto simp: op_closed_def default_health_def)

lemma grant_not_before:
  assumes "ok_at (\<lambda>h. no_trial_before p t (rh_phase h)) st stem" "now < t"
    and "(stem, now) \<in> set (map (\<lambda>s. (s, now)) (snd (apply_event p st (now, e))))"
  shows False
proof -
  from assms(3) obtain harness c where e: "e = EvClaim harness c"
    and stem: "stem = file_stem (route_key_new harness)"
    and granted: "snd (claim_trial st harness c now p) = Trial"
    by (cases e) (auto simp: split_beta Let_def split: if_splits)
  have "no_trial_before p t (rh_phase (load st (route_key_new harness) now))"
    using ok_at_load [OF _ assms(1) [unfolded stem]] by (simp add: default_health_def)
  then show False
    using no_trial_before_admission assms(2) claim_trial_granted(2) [OF granted] by blast
qed

lemma grants_times: "x \<in> set (grants p st es) \<Longrightarrow> snd x \<in> fst ` set es"
  by (induction es arbitrary: st) auto

lemma grants_not_before:
  assumes "ok_at (\<lambda>h. no_trial_before p t (rh_phase h)) st stem"
    and "sorted (map fst es)" "\<forall>e\<in>set es. t \<le> sat_add (fst e) (cooldown_secs p)"
    and "(stem, b) \<in> set (grants p st es)"
  shows "t \<le> b"
  using assms
proof (induction es arbitrary: st)
  case (Cons x es)
  obtain now e where x: "x = (now, e)" by (cases x)
  show ?case
  proof (cases "t \<le> now")
    case True
    have "b \<in> fst ` set (x # es)" using grants_times [OF Cons.prems(4)] by simp
    then have "now \<le> b" using Cons.prems(2) x by auto
    with True show ?thesis by simp
  next
    case False
    then have now: "now < t" by simp
    have tl: "t \<le> sat_add now (cooldown_secs p)" using Cons.prems(3) x by simp
    have next_ok: "ok_at (\<lambda>h. no_trial_before p t (rh_phase h)) (fst (apply_event p st x)) stem"
      unfolding x by (rule ok_at_event [OF op_closed_no_trial [OF tl now] Cons.prems(1)])
    from Cons.prems(4) consider
        "(stem, b) \<in> set (map (\<lambda>s. (s, now)) (snd (apply_event p st (now, e))))"
      | "(stem, b) \<in> set (grants p (fst (apply_event p st x)) es)"
      by (auto simp: x)
    then show ?thesis
    proof cases
      case 1
      then have "b = now" by auto
      with 1 show ?thesis using grant_not_before [OF Cons.prems(1) now, of e] by simp
    next
      case 2
      then show ?thesis using Cons.IH [OF next_ok] Cons.prems(2,3) by simp
    qed
  qed
qed simp

text \<open>C32: A broken route is probed by one caller at a time. Take any mixture of supervised polls,
  trial claims by any callers and native outcomes, from any number of processes, under any lock
  contention, with a clock that does not run backwards and writes that succeed: two recovery
  trials granted on one route are at least one cooldown apart.\<close>

theorem store_trials_are_a_cooldown_apart:
  assumes "sorted (map fst es)" "writes_ok st"
  shows "sorted_wrt (\<lambda>(s, a) (s', b). s = s' \<longrightarrow> sat_add a (cooldown_secs p) \<le> b) (grants p st es)"
  using assms
proof (induction es arbitrary: st)
  case (Cons x es)
  obtain now e where x: "x = (now, e)" by (cases x)
  let ?st = "fst (apply_event p st x)"
  have ih: "sorted_wrt (\<lambda>(s, a) (s', b). s = s' \<longrightarrow> sat_add a (cooldown_secs p) \<le> b) (grants p ?st es)"
    using Cons writes_ok_event [of st p now e] x by simp
  show ?case
  proof (cases "snd (apply_event p st x) = []")
    case True
    with ih show ?thesis by simp
  next
    case False
    then obtain harness c where e: "e = EvClaim harness c"
      and granted: "snd (claim_trial st harness c now p) = Trial"
      by (cases e) (auto simp: x split_beta Let_def split: if_splits)
    let ?stem = "file_stem (route_key_new harness)"
    have ok: "ok_at (\<lambda>h. no_trial_before p (sat_add now (cooldown_secs p)) (rh_phase h)) ?st ?stem"
      using claim_trial_granted(3) [OF granted Cons.prems(2)]
      by (auto simp: x e ok_at_def split_beta Let_def)
    have "sat_add now (cooldown_secs p) \<le> b" if "(?stem, b) \<in> set (grants p ?st es)" for b
    proof (rule grants_not_before [OF ok _ _ that])
      show "sorted (map fst es)" using Cons.prems(1) by simp
      show "\<forall>e\<in>set es. sat_add now (cooldown_secs p) \<le> sat_add (fst e) (cooldown_secs p)"
        using Cons.prems(1) x by (auto intro!: sat_add_mono)
    qed
    moreover have "snd (apply_event p st x) = [?stem]"
      using granted by (simp add: x e split_beta Let_def)
    ultimately show ?thesis using ih by (auto simp: x)
  qed
qed simp

lemma phase_update_eq [simp]: "h\<lparr>rh_phase := a\<rparr> = h\<lparr>rh_phase := b\<rparr> \<longleftrightarrow> a = b"
  by (cases h) simp

definition half_open_store :: "health_store" where
  "half_open_store = put_file ''codex''
     (Some (Parsed \<lparr>hr_key = route_key_new ''codex'', hr_model = None,
        hr_health = default_health\<lparr>rh_phase := HalfOpen 10 None\<rparr>, hr_updated_at = 10\<rparr>)) empty_store"

lemmas store_eval =
  claim_trial_def lock_route_def load_def load_record_def store_changed_def store_health_def
  put_file_def log_some_def log_transition_def is_stale_healthy_def Let_def

lemma codex_stem [simp]: "file_stem (route_key_new ''codex'') = ''codex''"
  "file_stem (route_key_new ''Codex'') = ''codex''"
  by code_simp+

theorem store_trials_are_a_cooldown_apart_witness:
  "let es = [(20, EvClaim ''codex'' ''a''), (30, EvClaim ''Codex'' ''b''), (320, EvClaim ''codex'' ''c'')]
   in grants default_policy half_open_store es = [(''codex'', 20), (''codex'', 320)] \<and>
      sorted_wrt (\<lambda>(s, a) (s', b). s = s' \<longrightarrow> sat_add a (cooldown_secs default_policy) \<le> b)
        (grants default_policy half_open_store es)"
proof -
  let ?es = "[(20, EvClaim ''codex'' ''a''), (30, EvClaim ''Codex'' ''b''), (320, EvClaim ''codex'' ''c'')]"
  have "grants default_policy half_open_store ?es = [(''codex'', 20), (''codex'', 320)]"
    by (simp add: store_eval half_open_store_def empty_store_def claim_def promote_def
        trial_in_flight_denial_def default_policy_def sat_add_def u64_max_def)
  moreover have "sorted_wrt (\<lambda>(s, a) (s', b). s = s' \<longrightarrow> sat_add a (cooldown_secs default_policy) \<le> b)
      (grants default_policy half_open_store ?es)"
    by (rule store_trials_are_a_cooldown_apart)
      (simp_all add: writes_ok_def half_open_store_def empty_store_def put_file_def)
  ultimately show ?thesis by (simp only: Let_def simp_thms)
qed

section \<open>Shared endpoints\<close>

definition own_verdict :: "health_store \<Rightarrow> u64 \<Rightarrow> health_policy \<Rightarrow> string \<Rightarrow> admission" where
  "own_verdict st now p name = named name (admission_of (load st (route_key_new name) now) now p)"

definition failing_list ::
    "health_store \<Rightarrow> endpoint_config \<Rightarrow> u64 \<Rightarrow> health_policy \<Rightarrow> string list
      \<Rightarrow> (string \<times> string \<times> string) list" where
  "failing_list st cfg now p names =
     List.map_filter (failing_route cfg now p)
       (map (\<lambda>name. (name, load st (route_key_new name) now)) names)"

lemma denied_named [simp]: "denied (named n a) = None \<longleftrightarrow> denied a = None"
  by (cases a) simp_all

lemma denied_named_Some [simp]: "(\<exists>r. denied (named n a) = Some r) \<longleftrightarrow> (\<exists>r. denied a = Some r)"
  by (cases a) simp_all

lemma propagate_other:
  "k \<noteq> ascii_lower name \<Longrightarrow> propagate cfg failing m name k = m k"
  by (simp add: propagate_def Let_def split: option.split)

definition spread_verdict ::
    "endpoint_config \<Rightarrow> (string \<times> string \<times> string) list \<Rightarrow> string \<Rightarrow> admission \<Rightarrow> admission" where
  "spread_verdict cfg failing name a =
    (if denied a \<noteq> None then a
     else case dependency_of cfg name of
         None \<Rightarrow> a
       | Some dep \<Rightarrow>
           (case find (\<lambda>(failed, d, _). \<not> eq_ignore_ascii_case failed name \<and> d = dep) failing of
              None \<Rightarrow> a
            | Some (failed, _, reason) \<Rightarrow> shared_denial name dep failed reason))"

lemma propagate_own:
  "m (ascii_lower name) = Some a \<Longrightarrow>
   propagate cfg failing m name (ascii_lower name) = Some (spread_verdict cfg failing name a)"
  by (auto simp: propagate_def spread_verdict_def Let_def split: option.split)

lemma fold_propagate_other:
  "k \<notin> ascii_lower ` set names \<Longrightarrow> foldl (propagate cfg failing) m names k = m k"
  by (induction names arbitrary: m) (simp_all add: propagate_other)

lemma fold_propagate_own:
  assumes "distinct (map ascii_lower names)" "name \<in> set names" "m (ascii_lower name) = Some a"
  shows "foldl (propagate cfg failing) m names (ascii_lower name) =
         Some (spread_verdict cfg failing name a)"
  using assms
proof (induction names arbitrary: m)
  case (Cons n ns)
  show ?case
  proof (cases "n = name")
    case True
    then show ?thesis using Cons.prems by (simp add: fold_propagate_other propagate_own)
  next
    case False
    then have "name \<in> set ns" using Cons.prems(2) by simp
    moreover from imageI [OF this, of ascii_lower] Cons.prems(1)
    have "ascii_lower name \<noteq> ascii_lower n" by auto
    ultimately show ?thesis
      using Cons.IH [of "propagate cfg failing m n"] Cons.prems by (simp add: propagate_other)
  qed
qed simp

definition set_all :: "(string \<Rightarrow> 'v) \<Rightarrow> (string \<Rightarrow> 'v option) \<Rightarrow> string list \<Rightarrow> (string \<Rightarrow> 'v option)"
  where "set_all f = foldl (\<lambda>m n. m(ascii_lower n \<mapsto> f n))"

lemma set_all_simps [simp]:
  "set_all f m [] = m" "set_all f m (n # ns) = set_all f (m(ascii_lower n \<mapsto> f n)) ns"
  by (simp_all add: set_all_def)

lemma set_all_other: "k \<notin> ascii_lower ` set ns \<Longrightarrow> set_all f m ns k = m k"
  by (induction ns arbitrary: m) simp_all

lemma set_all_own:
  "distinct (map ascii_lower ns) \<Longrightarrow> n \<in> set ns \<Longrightarrow> set_all f m ns (ascii_lower n) = Some (f n)"
  by (induction ns arbitrary: m) (auto simp: set_all_other)

lemma admission_for_spec:
  assumes "enabled p" "distinct (map ascii_lower names)" "name \<in> set names"
  shows "admission_for (admissions st cfg names now p) name =
    spread_verdict cfg (failing_list st cfg now p names) name (own_verdict st now p name)"
proof -
  have verdicts: "foldl (\<lambda>m (name, h). m(ascii_lower name \<mapsto> named name (admission_of h now p)))
      m (map (\<lambda>name. (name, load st (route_key_new name) now)) ns) =
      set_all (own_verdict st now p) m ns" for m ns
    by (induction ns arbitrary: m) (simp_all add: own_verdict_def)
  have own: "set_all (own_verdict st now p) Map.empty names (ascii_lower name) =
      Some (own_verdict st now p name)"
    using assms(2,3) by (rule set_all_own)
  have "admissions st cfg names now p =
      foldl (propagate cfg (failing_list st cfg now p names))
        (set_all (own_verdict st now p) Map.empty names) names"
    using assms(1) by (simp add: admissions_def Let_def verdicts failing_list_def comp_def)
  then show ?thesis
    using fold_propagate_own [OF assms(2,3), where m = "set_all (own_verdict st now p) Map.empty names",
        OF own, of cfg "failing_list st cfg now p names"]
    by (simp add: admission_for_def)
qed

lemma failing_route_iff:
  "failing_route cfg now p (name, h) = Some (f, dep, r) \<longleftrightarrow>
   f = name \<and> dependency_of cfg name = Some dep \<and> enabled p \<and>
   (\<exists>a u c. rh_phase h = Open a u r c \<and> c \<in> {Transport, Server} \<and> now < u)"
  by (cases "rh_phase h") (auto simp: admission_of_def split: option.split if_splits)

lemma set_failing_list:
  "(f, dep, r) \<in> set (failing_list st cfg now p names) \<longleftrightarrow>
   f \<in> set names \<and> dependency_of cfg f = Some dep \<and> enabled p \<and>
   (\<exists>a u c. rh_phase (load st (route_key_new f) now) = Open a u r c \<and>
      c \<in> {Transport, Server} \<and> now < u)"
  by (auto simp: failing_list_def set_map_filter failing_route_iff simp del: failing_route.simps)

text \<open>The shared-endpoint rule. Among the harnesses judged together, one is refused work
  exactly when its own record denies it, or when another harness configured onto the same
  endpoint host is inside an open breaker that tripped on a transport or server failure. A
  rejected credential, a rate limit or a degraded neighbour never spreads, and a harness with
  no configured endpoint is never denied on another's account.\<close>

theorem shared_endpoint_denial:
  assumes "enabled p" "distinct (map ascii_lower names)" "name \<in> set names"
  shows "denied (admission_for (admissions st cfg names now p) name) \<noteq> None \<longleftrightarrow>
    denied (admission_of (load st (route_key_new name) now) now p) \<noteq> None \<or>
    (\<exists>other dep a u r c. other \<in> set names \<and> ascii_lower other \<noteq> ascii_lower name \<and>
       dependency_of cfg name = Some dep \<and> dependency_of cfg other = Some dep \<and>
       rh_phase (load st (route_key_new other) now) = Open a u r c \<and>
       c \<in> {Transport, Server} \<and> now < u)"
proof -
  let ?shares = "\<lambda>dep (failed, d, _ :: string). \<not> eq_ignore_ascii_case failed name \<and> d = dep"
  let ?fl = "failing_list st cfg now p names"
  have spec: "denied (admission_for (admissions st cfg names now p) name) \<noteq> None \<longleftrightarrow>
      denied (admission_of (load st (route_key_new name) now) now p) \<noteq> None \<or>
      (\<exists>dep. dependency_of cfg name = Some dep \<and> find (?shares dep) ?fl \<noteq> None)"
    unfolding admission_for_spec [OF assms]
    by (auto simp: spread_verdict_def own_verdict_def shared_denial_def split: option.split)
  have "find (?shares dep) ?fl \<noteq> None \<longleftrightarrow>
      (\<exists>other r. (other, dep, r) \<in> set ?fl \<and> ascii_lower other \<noteq> ascii_lower name)" for dep
    by (auto simp: find_None_iff eq_ignore_ascii_case_def)
  then show ?thesis
    unfolding spec set_failing_list using assms(1) by (simp only: simp_thms) blast
qed

definition tripped_store :: "health_store" where
  "tripped_store = put_file ''claude''
     (Some (Parsed \<lparr>hr_key = route_key_new ''claude'', hr_model = None,
        hr_health = default_health\<lparr>rh_phase := Open 10 310 ''3 server error(s)'' Server\<rparr>,
        hr_updated_at = 10\<rparr>)) empty_store"

theorem shared_endpoint_denial_witness:
  "let cfg = \<lparr>ep_claude = Some ''https://gw.example/v1'', ep_codex = Some ''http://u:k@GW.example''\<rparr>
   in denied (admission_for (admissions tripped_store cfg [''claude'', ''codex''] 20 default_policy)
        ''codex'') \<noteq> None"
proof -
  let ?cfg = "\<lparr>ep_claude = Some ''https://gw.example/v1'', ep_codex = Some ''http://u:k@GW.example''\<rparr>"
  have dep: "dependency_of ?cfg ''codex'' = Some ''gw.example''"
    "dependency_of ?cfg ''claude'' = Some ''gw.example''"
    by code_simp+
  have stem: "file_stem (route_key_new ''claude'') = ''claude''" by code_simp
  have open_phase: "rh_phase (load tripped_store (route_key_new ''claude'') 20) =
      Open 10 310 ''3 server error(s)'' Server"
    by (simp add: tripped_store_def load_def load_record_def stem put_file_def is_stale_healthy_def)
  have names: "distinct (map ascii_lower [''claude'', ''codex''])"
    and differ: "ascii_lower ''claude'' \<noteq> ascii_lower ''codex''"
    by code_simp+
  have "denied (admission_for (admissions tripped_store ?cfg [''claude'', ''codex''] 20 default_policy)
      ''codex'') \<noteq> None"
    by (subst shared_endpoint_denial [OF _ names])
      (use dep open_phase differ in \<open>auto simp: default_policy_def\<close>)
  then show ?thesis unfolding Let_def .
qed

section \<open>Native admission\<close>

fun strictness :: "admission \<Rightarrow> nat" where
  "strictness Allow = 0"
| "strictness Trial = 1"
| "strictness (AdmitDegraded _) = 2"
| "strictness (Deny _) = 3"

interpretation native_merge: strictest strictness stricter
proof
  fix a b
  show "stricter a b = a \<or> stricter a b = b" by (cases a; cases b) simp_all
  show "strictness (stricter a b) = max (strictness a) (strictness b)" by (cases a; cases b) simp_all
qed

definition native_verdicts :: "health_store \<Rightarrow> route_identity \<Rightarrow> u64 \<Rightarrow> health_policy \<Rightarrow> admission list" where
  "native_verdicts st i now p =
     map (\<lambda>k. named (route_key_label k) (admission_of (load st k now) now p)) (native_route_keys i)"

lemma native_admission_fold:
  "enabled p \<Longrightarrow> native_admission st i now p = foldl stricter Allow (native_verdicts st i now p)"
  by (simp add: native_admission_def native_verdicts_def foldl_map)

lemma strictness_least: "strictness Allow \<le> strictness a"
  by simp

lemma strictness_Allow: "strictness a \<le> strictness Allow \<Longrightarrow> a = Allow"
  by (cases a) simp_all

text \<open>A native route is admitted by the strictest of the breaker records it depends on: the
  verdict is one of the verdicts of its endpoint, credential and model records, prefixed with
  the scope it came from, and none of the three is stricter.\<close>

theorem native_admission_is_strictest:
  "enabled p \<Longrightarrow>
   native_admission st i now p \<in> set (native_verdicts st i now p) \<and>
   (\<forall>v \<in> set (native_verdicts st i now p). strictness v \<le> strictness (native_admission st i now p))"
  unfolding native_admission_fold
  using native_merge.fold_from_least [of Allow "native_verdicts st i now p", OF strictness_least
      _ strictness_Allow] native_merge.fold_bound [of _ Allow "native_verdicts st i now p"]
  by (simp add: native_verdicts_def native_route_keys_def)

definition sample_identity :: route_identity where
  "sample_identity = identity_from_runtime
     \<lparr>jr_provider = ''anthropic'', jr_endpoint = ''api'', jr_account = ''work'',
      jr_billing_pool = ''pool'', jr_model_id = ''opus''\<rparr>"

theorem native_admission_is_strictest_witness:
  "native_admission empty_store sample_identity 5 default_policy
     \<in> set (native_verdicts empty_store sample_identity 5 default_policy)"
  using native_admission_is_strictest [of default_policy] by (simp add: default_policy_def)

lemma native_denied_iff:
  assumes "enabled p"
  shows "denied (native_admission st i now p) \<noteq> None \<longleftrightarrow>
    (\<exists>k\<in>set (native_route_keys i). denied (admission_of (load st k now) now p) \<noteq> None)"
proof -
  have deny: "denied v \<noteq> None \<longleftrightarrow> 3 \<le> strictness v" for v by (cases v) simp_all
  have mem: "native_admission st i now p \<in> set (native_verdicts st i now p)"
    and bound: "\<And>v. v \<in> set (native_verdicts st i now p) \<Longrightarrow>
      strictness v \<le> strictness (native_admission st i now p)"
    using native_merge.fold_from_least [of Allow "native_verdicts st i now p", OF strictness_least
        _ strictness_Allow] native_merge.fold_bound [of _ Allow "native_verdicts st i now p"]
    by (simp_all add: native_admission_fold [OF assms] native_verdicts_def native_route_keys_def)
  have "denied (native_admission st i now p) \<noteq> None \<longleftrightarrow>
      (\<exists>v\<in>set (native_verdicts st i now p). denied v \<noteq> None)"
    using mem bound order_trans unfolding deny by blast
  then show ?thesis by (simp add: native_verdicts_def)
qed

section \<open>What a native failure denies\<close>

lemma promoted_unavailable:
  assumes "rh_phase (fst (promote h now p)) = Unavailable a r"
  shows "now < sat_add a (cooldown_secs p)"
proof (rule promote_cases [of h now p])
  assume "promote h now p = (h, None)"
  with assms have h: "rh_phase h = Unavailable a r" by simp
  show ?thesis
  proof (rule ccontr)
    assume "\<not> ?thesis"
    with h have "rh_phase (fst (promote h now p)) = HalfOpen now None" by (simp add: promote_def)
    with assms show False by simp
  qed
qed (use assms in simp)

lemma auth_observation_denies:
  assumes "enabled p" "now < sat_add now (cooldown_secs p)"
  shows "denied (admission_of (fst (observe h \<lparr>ob_class = Auth, ob_at = Some now, ob_id = None\<rparr> now p))
           now p) \<noteq> None"
proof -
  let ?ob = "\<lparr>ob_class = Auth, ob_at = Some now, ob_id = None\<rparr>"
  have obs: "observe h ?ob now p = observe_auth (folded h ?ob now p) ?ob now p"
    using assms(1) by (simp add: observe_def already_seen_def)
  show ?thesis
  proof (cases "rh_phase (fst (promote h now p))")
    case (Unavailable a r)
    then show ?thesis
      using promoted_unavailable [OF Unavailable] assms(1)
      unfolding denied_iff obs by (simp add: observe_auth_def)
  qed (use assms in \<open>simp_all only: denied_iff obs, simp_all add: observe_auth_def Let_def\<close>)
qed

lemma load_written:
  "hs_files st (file_stem key) = Some (Parsed r) \<Longrightarrow> \<not> is_healthy (rh_phase (hr_health r)) \<Longrightarrow>
   load st key now = hr_health r"
  by (simp add: load_def load_record_def is_stale_healthy_def)

lemma persisted_observation:
  assumes "hs_locks st = []" "writes_ok st"
    and "\<not> is_healthy (rh_phase (fst (observe (load st key now) ob now p)))"
  shows "load (fst (observe_and_persist st key ob model now p)) key now =
         fst (observe (load st key now) ob now p)"
proof -
  let ?n = "fst (observe (load st key now) ob now p)"
  have "?n \<noteq> default_health" using assms(3) by (auto simp: default_health_def)
  from store_changed_written [OF assms(2) this refl, of key now model]
  obtain r where "hr_health r = ?n" "hs_files (fst (observe_and_persist st key ob model now p))
      (file_stem key) = Some (Parsed r)"
    using assms(1) by (auto simp: observe_and_persist_def lock_route_def split_beta Let_def)
  then show ?thesis using load_written assms(3) by metis
qed

lemma store_changed_other:
  "stem \<noteq> file_stem key \<Longrightarrow> hs_files (store_changed st key cur next model now) stem = hs_files st stem"
  using store_health_files [of st key "next" model now stem] by (auto simp: store_changed_def)

lemma persist_other:
  assumes "stem \<noteq> file_stem key"
  shows "hs_files (fst (observe_and_persist st key ob model now p)) stem = hs_files st stem"
    "hs_files (fst (promote_and_persist st key model now p)) stem = hs_files st stem"
    "hs_files (fst (record_success_and_persist st key model now p)) stem = hs_files st stem"
    "hs_files (fst (record_samples_and_persist st key ss ls model now p)) stem = hs_files st stem"
  using assms by (simp_all add: persist_defs split_beta Let_def store_changed_other)

lemma load_cong: "hs_files st (file_stem k) = hs_files st' (file_stem k) \<Longrightarrow> load st k t = load st' k t"
  by (simp add: load_def load_record_def)

lemma native_admission_cong:
  assumes "\<And>k. k \<in> set (native_route_keys i) \<Longrightarrow> hs_files st (file_stem k) = hs_files st' (file_stem k)"
  shows "native_admission st i t p = native_admission st' i t p"
proof -
  have "load st k t = load st' k t" if "k \<in> set (native_route_keys i)" for k
    using assms [OF that] by (rule load_cong)
  then have "native_verdicts st i t p = native_verdicts st' i t p"
    by (simp add: native_verdicts_def)
  then have "enabled p \<Longrightarrow> ?thesis" by (simp only: native_admission_fold)
  then show ?thesis by (cases "enabled p") (simp_all add: native_admission_def)
qed

lemma native_evidence_is_consulted:
  assumes "breaker_key (route_failure f (identity_from_runtime r)) = Some (key, cls)"
  shows "key \<in> set (native_route_keys (identity_from_runtime r))"
  using assms
  by (cases "pf_class f"; cases "pf_scope f")
    (auto simp: breaker_key_def route_failure_def native_route_keys_def identity_from_runtime_def)

lemma not_denied_healthy: "denied (admission_of h t p) \<noteq> None \<Longrightarrow> \<not> is_healthy (rh_phase h)"
  by (cases "rh_phase h") (auto simp: admission_of_def split: if_splits)

text \<open>A rejected credential, or a model the account may not use, shuts the record it is
  evidence about and nothing else: the failing route itself, and every route that depends on
  the same record, is refused from that moment, while a route whose records live in other files
  is admitted exactly as before, now and at any later time.\<close>

theorem native_rejection_denies_exactly_its_scope:
  assumes "enabled p" "hs_locks st = []" "writes_ok st" "now < sat_add now (cooldown_secs p)"
    and "i = identity_from_runtime r" "breaker_key (route_failure f i) = Some (key, Auth)"
    and "st' = record_native_outcome st i (Some (route_failure f i)) now p"
  shows "denied (native_admission st' i now p) \<noteq> None \<and>
    (\<forall>j. key \<in> set (native_route_keys j) \<longrightarrow> denied (native_admission st' j now p) \<noteq> None) \<and>
    (\<forall>j t. file_stem key \<notin> file_stem ` set (native_route_keys j) \<longrightarrow>
       native_admission st' j t p = native_admission st j t p)"
proof -
  let ?ob = "\<lparr>ob_class = Auth, ob_at = Some now, ob_id = None\<rparr>"
  have st': "st' = fst (observe_and_persist st key ?ob (ri_model i) now p)"
    using assms by (simp add: record_native_outcome_def)
  note shut = auth_observation_denies [OF assms(1,4), of "load st key now"]
  have "load st' key now = fst (observe (load st key now) ?ob now p)"
    unfolding st' by (rule persisted_observation [OF assms(2,3) not_denied_healthy [OF shut]])
  then have deny: "denied (native_admission st' j now p) \<noteq> None" if "key \<in> set (native_route_keys j)" for j
    unfolding native_denied_iff [OF assms(1)] using shut that by (intro bexI [of _ key]) simp_all
  have "native_admission st' j t p = native_admission st j t p"
    if "file_stem key \<notin> file_stem ` set (native_route_keys j)" for j t
    unfolding st' using that by (intro native_admission_cong persist_other) (metis imageI)
  with deny show ?thesis
    using native_evidence_is_consulted [of f r key Auth] assms(5,6) by blast
qed

theorem native_rejection_denies_exactly_its_scope_witness:
  "let f = \<lparr>pf_class = FAuthentication, pf_scope = ScRequest, pf_retry_after_ms = None\<rparr>;
       st' = record_native_outcome empty_store sample_identity
               (Some (route_failure f sample_identity)) 50 default_policy
   in denied (native_admission st' sample_identity 50 default_policy) \<noteq> None"
proof -
  let ?r = "\<lparr>jr_provider = ''anthropic'', jr_endpoint = ''api'', jr_account = ''work'',
      jr_billing_pool = ''pool'', jr_model_id = ''opus''\<rparr>"
  let ?f = "\<lparr>pf_class = FAuthentication, pf_scope = ScRequest, pf_retry_after_ms = None\<rparr>"
  have "breaker_key (route_failure ?f sample_identity) =
      Some (route_key_scoped ScopeCredential ''work'', Auth)"
    by (simp add: breaker_key_def route_failure_def sample_identity_def identity_from_runtime_def)
  then show ?thesis
    using native_rejection_denies_exactly_its_scope [of default_policy empty_store 50
        sample_identity ?r ?f "route_key_scoped ScopeCredential ''work''" _]
    by (simp add: sample_identity_def default_policy_def sat_add_def u64_max_def
        empty_store_def writes_ok_def)
qed

text \<open>The file name of a record loses information: every character outside the safe set folds
  to a dash, and the record read back is not compared with the key asked for. An account 'a' on
  model 'b-c' and an account 'a-b' on model 'c' therefore share one breaker record, so a model
  the first account may not use is refused to the second account as well.\<close>

theorem distinct_models_can_share_a_record:
  "let i = identity_from_runtime \<lparr>jr_provider = ''v'', jr_endpoint = ''e'', jr_account = ''a'',
             jr_billing_pool = ''p1'', jr_model_id = ''b-c''\<rparr>;
       j = identity_from_runtime \<lparr>jr_provider = ''v'', jr_endpoint = ''e2'', jr_account = ''a-b'',
             jr_billing_pool = ''p2'', jr_model_id = ''c''\<rparr>;
       f = \<lparr>pf_class = FModelAccess, pf_scope = ScModel, pf_retry_after_ms = None\<rparr>;
       st' = record_native_outcome empty_store i (Some (route_failure f i)) 50 default_policy
   in denied (native_admission empty_store j 50 default_policy) = None \<and>
      denied (native_admission st' j 50 default_policy) \<noteq> None"
proof -
  define ri where "ri = \<lparr>jr_provider = ''v'', jr_endpoint = ''e'', jr_account = ''a'',
             jr_billing_pool = ''p1'', jr_model_id = ''b-c''\<rparr>"
  define j where "j = identity_from_runtime \<lparr>jr_provider = ''v'', jr_endpoint = ''e2'',
             jr_account = ''a-b'', jr_billing_pool = ''p2'', jr_model_id = ''c''\<rparr>"
  define f where "f = \<lparr>pf_class = FModelAccess, pf_scope = ScModel, pf_retry_after_ms = None\<rparr>"
  define st' where "st' = record_native_outcome empty_store (identity_from_runtime ri)
      (Some (route_failure f (identity_from_runtime ri))) 50 default_policy"
  let ?k = "route_key_scoped ScopeModel ''a/b-c''" and ?kj = "route_key_scoped ScopeModel ''a-b/c''"
  let ?ob = "\<lparr>ob_class = Auth, ob_at = Some 50, ob_id = None\<rparr>"
  have stems: "file_stem ?k = file_stem ?kj" by code_simp
  have key: "breaker_key (route_failure f (identity_from_runtime ri)) = Some (?k, Auth)"
    by (simp add: breaker_key_def route_failure_def ri_def f_def identity_from_runtime_def)
  have en: "enabled default_policy" and later: "50 < sat_add 50 (cooldown_secs default_policy)"
    by (simp_all add: default_policy_def sat_add_def u64_max_def)
  note shut = auth_observation_denies [OF en later, of "load empty_store ?k 50"]
  have st'_def': "st' = fst (observe_and_persist empty_store ?k ?ob
      (ri_model (identity_from_runtime ri)) 50 default_policy)"
    by (simp add: st'_def record_native_outcome_def en key)
  have "load st' ?k 50 = fst (observe (load empty_store ?k 50) ?ob 50 default_policy)"
    unfolding st'_def'
    by (rule persisted_observation [OF _ _ not_denied_healthy [OF shut]])
      (simp_all add: empty_store_def writes_ok_def)
  moreover have "load st' ?kj 50 = load st' ?k 50"
    by (simp add: load_def load_record_def stems)
  moreover have "?kj \<in> set (native_route_keys j)"
    by (simp add: j_def native_route_keys_def identity_from_runtime_def)
  ultimately have denied: "denied (native_admission st' j 50 default_policy) \<noteq> None"
    unfolding native_denied_iff [OF en] using shut by (intro bexI [of _ ?kj]) simp_all
  have "load empty_store k 50 = default_health" for k
    by (simp add: load_def load_record_def empty_store_def)
  moreover have "denied (admission_of default_health 50 default_policy) = None"
    by (simp add: admission_of_def default_health_def)
  ultimately have "denied (native_admission empty_store j 50 default_policy) = None"
    using native_denied_iff [OF en, of empty_store j 50] by simp
  with denied show ?thesis unfolding Let_def st'_def f_def ri_def j_def by blast
qed

text \<open>When the record file cannot be written, a won trial is reported although nothing
  records it: two callers asking one after the other are both admitted to probe the route.\<close>

theorem unwritable_store_admits_two_trials:
  "let st = half_open_store\<lparr>hs_writes := [True, True]\<rparr>;
       first_claim = claim_trial st ''codex'' ''a'' 20 default_policy;
       second_claim = claim_trial (fst first_claim) ''codex'' ''b'' 21 default_policy
   in snd first_claim = Trial \<and> snd second_claim = Trial"
  by (simp add: store_eval half_open_store_def empty_store_def claim_def promote_def
      default_policy_def)

end
