(* ===== verification/Policy.thy ===== *)
theory Policy
  imports Prelude
begin

text \<open>
  The permissions policy, \<open>policy.rs\<close>: seven capabilities, three ordered stances, the layering
  of the operator's home configuration, the repository's configuration and the operator's
  environment (\<open>resolve\<close>), and the report of what a harness adapter can really enforce
  (\<open>evaluate\<close> and \<open>PolicyReport\<close>). The destination type is \<open>NetworkTarget\<close> of
  \<open>runtime/enforcement.rs\<close>.

  A configuration layer is the TOML table of the \<open>[policy]\<close> section, a list of keys and
  values. What a single value decodes to is the work of the TOML library, so a decoder of one
  value to a stance and of one value to a list of raw destinations is an argument
  (\<open>toml_decoder\<close>); which keys are known, defaulted or refused is in the source and is
  modelled. The environment is an argument as well (the source takes an \<open>EnvLookup\<close>
  closure), and the adapter is a record of the two trait methods the report calls.
\<close>

section \<open>Stances and capabilities\<close>

datatype stance = SAllow | SAsk | SDeny

fun stance_rank :: "stance \<Rightarrow> nat" where
  "stance_rank SAllow = 0"
| "stance_rank SAsk = 1"
| "stance_rank SDeny = 2"

lemma stance_rank_inject [simp]: "stance_rank a = stance_rank b \<longleftrightarrow> a = b"
  by (cases a; cases b) simp_all

instantiation stance :: linorder
begin

definition less_eq_stance :: "stance \<Rightarrow> stance \<Rightarrow> bool" where
  "less_eq_stance a b \<longleftrightarrow> stance_rank a \<le> stance_rank b"

definition less_stance :: "stance \<Rightarrow> stance \<Rightarrow> bool" where
  "less_stance a b \<longleftrightarrow> stance_rank a < stance_rank b"

instance
  by standard (auto simp: less_eq_stance_def less_stance_def)

end

lemma stance_bounds [simp]: "SAllow \<le> s" "s \<le> SDeny"
  by (cases s; simp add: less_eq_stance_def)+

lemma stance_max [simp]: "max SAllow s = s" "max s SAllow = s" "max SDeny s = SDeny" "max s SDeny = SDeny"
  by (simp_all add: max_absorb1 max_absorb2)

interpretation stances: strictest stance_rank "max :: stance \<Rightarrow> stance \<Rightarrow> stance"
  by unfold_locales (auto simp: max_def less_eq_stance_def)

fun stance_label :: "stance \<Rightarrow> string" where
  "stance_label SAllow = ''allow''"
| "stance_label SAsk = ''ask''"
| "stance_label SDeny = ''deny''"

definition stance_parse :: "string \<Rightarrow> stance option" where
  "stance_parse raw =
     (let t = trim raw in
      if t = ''allow'' then Some SAllow
      else if t = ''ask'' then Some SAsk
      else if t = ''deny'' then Some SDeny
      else None)"

lemma stance_parse_label [simp]: "stance_parse (stance_label s) = Some s"
  by (cases s) (simp_all add: stance_parse_def trim_def is_space_def)

datatype policy_capability =
    RepoFsWrite
  | OutsideRepoFsWrite
  | ShellExec
  | Network
  | Approval
  | GitPushDestructive
  | ToolAccess

definition policy_capabilities :: "policy_capability list" where
  "policy_capabilities =
     [RepoFsWrite, OutsideRepoFsWrite, ShellExec, Network, Approval, GitPushDestructive, ToolAccess]"

lemma policy_capabilities_all [simp]: "c \<in> set policy_capabilities"
  by (cases c) (simp_all add: policy_capabilities_def)

lemma policy_capabilities_distinct [simp]: "distinct policy_capabilities"
  by (simp add: policy_capabilities_def)

fun capability_key :: "policy_capability \<Rightarrow> string" where
  "capability_key RepoFsWrite = ''repo_fs_write''"
| "capability_key OutsideRepoFsWrite = ''outside_repo_fs_write''"
| "capability_key ShellExec = ''shell_exec''"
| "capability_key Network = ''network''"
| "capability_key Approval = ''approval''"
| "capability_key GitPushDestructive = ''git_push_destructive''"
| "capability_key ToolAccess = ''tool_access''"

fun capability_env_var :: "policy_capability \<Rightarrow> string" where
  "capability_env_var RepoFsWrite = ''ZIRV_CTX_POLICY_REPO_FS_WRITE''"
| "capability_env_var OutsideRepoFsWrite = ''ZIRV_CTX_POLICY_OUTSIDE_REPO_FS_WRITE''"
| "capability_env_var ShellExec = ''ZIRV_CTX_POLICY_SHELL_EXEC''"
| "capability_env_var Network = ''ZIRV_CTX_POLICY_NETWORK''"
| "capability_env_var Approval = ''ZIRV_CTX_POLICY_APPROVAL''"
| "capability_env_var GitPushDestructive = ''ZIRV_CTX_POLICY_GIT_PUSH_DESTRUCTIVE''"
| "capability_env_var ToolAccess = ''ZIRV_CTX_POLICY_TOOL_ACCESS''"

fun policy_capability_label :: "policy_capability \<Rightarrow> string" where
  "policy_capability_label RepoFsWrite = ''repository filesystem writes''"
| "policy_capability_label OutsideRepoFsWrite = ''writes outside the repository''"
| "policy_capability_label ShellExec = ''shell execution''"
| "policy_capability_label Network = ''network access''"
| "policy_capability_label Approval = ''approval/ask behavior''"
| "policy_capability_label GitPushDestructive = ''git push / destructive git''"
| "policy_capability_label ToolAccess = ''MCP/tool access''"

lemma capability_env_var_inject [simp]: "capability_env_var a = capability_env_var b \<longleftrightarrow> a = b"
  by (cases a; cases b) simp_all

section \<open>Network destinations (runtime/enforcement.rs)\<close>

record network_target =
  scheme :: string
  host :: string
  port :: "nat option"

definition trim_end_dots :: "string \<Rightarrow> string" where
  "trim_end_dots s = rev (dropWhile (\<lambda>c. c = CHR ''.'') (rev s))"

definition host_char_ok :: "char \<Rightarrow> bool" where
  "host_char_ok c \<longleftrightarrow> c \<noteq> CHR ''/'' \<and> c \<noteq> CHR 0x5C \<and> c \<noteq> CHR ''@'' \<and> c \<noteq> CHR 0x00"

definition network_target_new :: "string \<Rightarrow> string \<Rightarrow> nat option \<Rightarrow> string + network_target" where
  "network_target_new s h p =
     (let s' = ascii_lower s; h' = ascii_lower (trim_end_dots (trim h)) in
      if (s' \<noteq> ''http'' \<and> s' \<noteq> ''https'') \<or> h' = [] \<or> \<not> list_all host_char_ok h'
      then Inl ''network target must have an http(s) scheme and a bare host''
      else Inr \<lparr>scheme = s', host = h', port = p\<rparr>)"

section \<open>The policy and its layers\<close>

record effective_policy =
  repo_fs_write :: stance
  outside_repo_fs_write :: stance
  shell_exec :: stance
  network :: "stance option"
  network_allowlist :: "network_target list"
  approval :: stance
  git_push_destructive :: stance
  tool_access :: stance

definition default_effective_policy :: effective_policy where
  "default_effective_policy =
     \<lparr>repo_fs_write = SAllow, outside_repo_fs_write = SAllow, shell_exec = SAllow, network = None,
      network_allowlist = [], approval = SAllow, git_push_destructive = SAllow, tool_access = SAllow\<rparr>"

fun stance_of :: "effective_policy \<Rightarrow> policy_capability \<Rightarrow> stance" where
  "stance_of p RepoFsWrite = repo_fs_write p"
| "stance_of p OutsideRepoFsWrite = outside_repo_fs_write p"
| "stance_of p ShellExec = shell_exec p"
| "stance_of p Network = (case network p of Some s \<Rightarrow> s | None \<Rightarrow> SDeny)"
| "stance_of p Approval = approval p"
| "stance_of p GitPushDestructive = git_push_destructive p"
| "stance_of p ToolAccess = tool_access p"

datatype policy_error =
    InvalidSection string
  | NotGranted network_target
  | BadStance string string
  | UnreachableNetworkSlot

text \<open>
  \<open>stance_mut\<close> followed by an assignment; the \<open>unreachable!\<close> of its network arm is a panic,
  the value \<open>UnreachableNetworkSlot\<close>.
\<close>

fun set_stance :: "policy_capability \<Rightarrow> stance \<Rightarrow> effective_policy \<Rightarrow> policy_error + effective_policy" where
  "set_stance RepoFsWrite s p = Inr (p\<lparr>repo_fs_write := s\<rparr>)"
| "set_stance OutsideRepoFsWrite s p = Inr (p\<lparr>outside_repo_fs_write := s\<rparr>)"
| "set_stance ShellExec s p = Inr (p\<lparr>shell_exec := s\<rparr>)"
| "set_stance Network s p = Inl UnreachableNetworkSlot"
| "set_stance Approval s p = Inr (p\<lparr>approval := s\<rparr>)"
| "set_stance GitPushDestructive s p = Inr (p\<lparr>git_push_destructive := s\<rparr>)"
| "set_stance ToolAccess s p = Inr (p\<lparr>tool_access := s\<rparr>)"

definition policy_narrowed_by :: "effective_policy \<Rightarrow> effective_policy \<Rightarrow> policy_error + effective_policy" where
  "policy_narrowed_by p narrower =
     fold_err (\<lambda>out c. if c = Network then Inr out
                       else set_stance c (max (stance_of p c) (stance_of narrower c)) out)
       p policy_capabilities"

definition fail_closed :: effective_policy where
  "fail_closed =
     \<lparr>repo_fs_write = SDeny, outside_repo_fs_write = SDeny, shell_exec = SDeny, network = Some SDeny,
      network_allowlist = [], approval = SDeny, git_push_destructive = SDeny, tool_access = SDeny\<rparr>"

definition interactive_baseline :: effective_policy where
  "interactive_baseline =
     \<lparr>repo_fs_write = SAllow, outside_repo_fs_write = SAsk, shell_exec = SAsk, network = Some SAllow,
      network_allowlist = [], approval = SAsk, git_push_destructive = SAsk, tool_access = SAllow\<rparr>"

text \<open>
  A layer and the decoding of its values. A raw destination is \<open>RawNetworkTarget\<close>, which
  passes the constructor before it is a destination.
\<close>

type_synonym raw_target = "string \<times> string \<times> nat option"
type_synonym 't policy_layer = "(string \<times> 't) list"

record 't toml_decoder =
  dec_stance :: "'t \<Rightarrow> stance option"
  dec_targets :: "'t \<Rightarrow> raw_target list option"

fun checked_targets :: "raw_target list \<Rightarrow> network_target list option" where
  "checked_targets [] = Some []"
| "checked_targets ((s, h, p) # rest) =
     (case network_target_new s h p of
        Inl _ \<Rightarrow> None
      | Inr t \<Rightarrow> map_option ((#) t) (checked_targets rest))"

definition decode_targets :: "'t toml_decoder \<Rightarrow> 't \<Rightarrow> network_target list option" where
  "decode_targets D v = Option.bind (dec_targets D v) checked_targets"

definition home_origin :: string where
  "home_origin = ''~/.zirv/ctx.toml''"

definition repo_origin :: string where
  "repo_origin = ''<repo>/.zirv/ctx.toml''"

text \<open>
  The derived deserialisation of \<open>EffectivePolicy\<close> with \<open>default\<close> and
  \<open>deny_unknown_fields\<close>: the entries in the order of the table, each setting its field.
\<close>

definition put_stance :: "'t toml_decoder \<Rightarrow> 't \<Rightarrow> (stance \<Rightarrow> effective_policy) \<Rightarrow> effective_policy option" where
  "put_stance D v f = map_option f (dec_stance D v)"

definition read_entry :: "'t toml_decoder \<Rightarrow> effective_policy \<Rightarrow> string \<times> 't \<Rightarrow> effective_policy option" where
  "read_entry D p e = (case e of (k, v) \<Rightarrow>
     if k = ''repo_fs_write'' then put_stance D v (\<lambda>s. p\<lparr>repo_fs_write := s\<rparr>)
     else if k = ''outside_repo_fs_write'' then put_stance D v (\<lambda>s. p\<lparr>outside_repo_fs_write := s\<rparr>)
     else if k = ''shell_exec'' then put_stance D v (\<lambda>s. p\<lparr>shell_exec := s\<rparr>)
     else if k = ''network'' then put_stance D v (\<lambda>s. p\<lparr>network := Some s\<rparr>)
     else if k = ''network_allowlist''
       then map_option (\<lambda>ts. p\<lparr>network_allowlist := ts\<rparr>) (decode_targets D v)
     else if k = ''approval'' then put_stance D v (\<lambda>s. p\<lparr>approval := s\<rparr>)
     else if k = ''git_push_destructive'' then put_stance D v (\<lambda>s. p\<lparr>git_push_destructive := s\<rparr>)
     else if k = ''tool_access'' then put_stance D v (\<lambda>s. p\<lparr>tool_access := s\<rparr>)
     else None)"

fun read_entries :: "'t toml_decoder \<Rightarrow> effective_policy \<Rightarrow> 't policy_layer \<Rightarrow> effective_policy option" where
  "read_entries D p [] = Some p"
| "read_entries D p (e # es) = Option.bind (read_entry D p e) (\<lambda>q. read_entries D q es)"

definition parse_layer :: "'t toml_decoder \<Rightarrow> 't policy_layer option \<Rightarrow> string \<Rightarrow> policy_error + effective_policy" where
  "parse_layer D layer origin =
     (case layer of
        None \<Rightarrow> Inr default_effective_policy
      | Some es \<Rightarrow>
          (case read_entries D default_effective_policy es of
             None \<Rightarrow> Inl (InvalidSection origin)
           | Some p \<Rightarrow> Inr p))"

text \<open>
  \<open>NetworkOnly\<close> and \<open>AllowlistOnly\<close> read one key and ignore the others. A TOML table has
  each key once, so the entry is the first with its key.
\<close>

definition parse_network_layer :: "'t toml_decoder \<Rightarrow> 't policy_layer option \<Rightarrow> string \<Rightarrow> policy_error + stance option" where
  "parse_network_layer D layer origin =
     (case layer of
        None \<Rightarrow> Inr None
      | Some es \<Rightarrow>
          (case map_of es ''network'' of
             None \<Rightarrow> Inr None
           | Some v \<Rightarrow>
               (case dec_stance D v of
                  None \<Rightarrow> Inl (InvalidSection origin)
                | Some s \<Rightarrow> Inr (Some s))))"

definition parse_network_allowlist_layer ::
  "'t toml_decoder \<Rightarrow> 't policy_layer option \<Rightarrow> string \<Rightarrow> policy_error + network_target list option" where
  "parse_network_allowlist_layer D layer origin =
     (case layer of
        None \<Rightarrow> Inr None
      | Some es \<Rightarrow>
          (case map_of es ''network_allowlist'' of
             None \<Rightarrow> Inr None
           | Some v \<Rightarrow>
               (case decode_targets D v of
                  None \<Rightarrow> Inl (InvalidSection origin)
                | Some ts \<Rightarrow> Inr (Some ts))))"

section \<open>Resolution\<close>

definition resolve_network :: "stance option \<Rightarrow> stance option \<Rightarrow> stance option" where
  "resolve_network h r =
     (if h = None \<and> r = None then None
      else Some (max (case h of Some s \<Rightarrow> s | None \<Rightarrow> SDeny) (case r of Some s \<Rightarrow> s | None \<Rightarrow> SAllow)))"

definition resolve_network_allowlist ::
  "network_target list \<Rightarrow> network_target list option \<Rightarrow> policy_error + network_target list" where
  "resolve_network_allowlist h r =
     (case r of
        None \<Rightarrow> Inr h
      | Some ts \<Rightarrow>
          (case List.find (\<lambda>t. t \<notin> set h) ts of
             Some t \<Rightarrow> Inl (NotGranted t)
           | None \<Rightarrow> Inr ts))"

type_synonym env_lookup = "string \<Rightarrow> string option"

definition env_override :: "env_lookup \<Rightarrow> effective_policy \<Rightarrow> policy_capability \<Rightarrow> policy_error + effective_policy" where
  "env_override env p c =
     (if c = Network then Inr p
      else case env (capability_env_var c) of
        None \<Rightarrow> Inr p
      | Some raw \<Rightarrow>
          (case stance_parse raw of
             None \<Rightarrow> Inl (BadStance (capability_env_var c) raw)
           | Some s \<Rightarrow> set_stance c s p))"

definition network_env_override :: "env_lookup \<Rightarrow> effective_policy \<Rightarrow> policy_error + effective_policy" where
  "network_env_override env p =
     (case env (capability_env_var Network) of
        None \<Rightarrow> Inr p
      | Some raw \<Rightarrow>
          (case stance_parse raw of
             None \<Rightarrow> Inl (BadStance (capability_env_var Network) raw)
           | Some s \<Rightarrow> Inr (p\<lparr>network := Some s\<rparr>)))"

definition resolve_policy ::
  "'t toml_decoder \<Rightarrow> 't policy_layer option \<Rightarrow> 't policy_layer option \<Rightarrow> env_lookup
     \<Rightarrow> policy_error + effective_policy" where
  "resolve_policy D h r env =
     and_then (parse_network_layer D h home_origin) (\<lambda>home_network.
     and_then (parse_network_layer D r repo_origin) (\<lambda>repo_network.
     and_then (parse_network_allowlist_layer D h home_origin) (\<lambda>home_allowlist.
     and_then (parse_network_allowlist_layer D r repo_origin) (\<lambda>repo_allowlist.
     and_then (parse_layer D h home_origin) (\<lambda>home_policy.
     and_then (parse_layer D r repo_origin) (\<lambda>repo_policy.
     and_then (policy_narrowed_by home_policy repo_policy) (\<lambda>p0.
     let p1 = p0\<lparr>network := resolve_network home_network repo_network\<rparr> in
     and_then (resolve_network_allowlist
                 (case home_allowlist of Some ts \<Rightarrow> ts | None \<Rightarrow> []) repo_allowlist) (\<lambda>ts.
     and_then (fold_err (env_override env) (p1\<lparr>network_allowlist := ts\<rparr>) policy_capabilities) (\<lambda>p2.
     network_env_override env p2)))))))))"

section \<open>Facts about the layers\<close>

definition env_ok :: "env_lookup \<Rightarrow> policy_capability \<Rightarrow> bool" where
  "env_ok env c \<longleftrightarrow>
     (case env (capability_env_var c) of None \<Rightarrow> True | Some raw \<Rightarrow> stance_parse raw \<noteq> None)"

definition overridden :: "env_lookup \<Rightarrow> policy_capability \<Rightarrow> stance \<Rightarrow> stance" where
  "overridden env c s =
     (case env (capability_env_var c) of None \<Rightarrow> s | Some raw \<Rightarrow> the (stance_parse raw))"

definition well_keyed :: "'t policy_layer option \<Rightarrow> bool" where
  "well_keyed layer \<longleftrightarrow> (case layer of None \<Rightarrow> True | Some es \<Rightarrow> distinct (map fst es))"

definition declares :: "'t policy_layer option \<Rightarrow> string \<Rightarrow> bool" where
  "declares layer k \<longleftrightarrow> (case layer of None \<Rightarrow> False | Some es \<Rightarrow> k \<in> fst ` set es)"

lemma set_stance_Inr:
  "c \<noteq> Network \<Longrightarrow> \<exists>q. set_stance c s p = Inr q \<and> network q = network p
     \<and> network_allowlist q = network_allowlist p
     \<and> (\<forall>d. d \<noteq> Network \<longrightarrow> stance_of q d = (if d = c then s else stance_of p d))"
  by (cases c) (auto, (case_tac d; simp)+)

lemma effective_policy_eqI:
  assumes "network p = network q" "network_allowlist p = network_allowlist q"
    and "\<And>c. c \<noteq> Network \<Longrightarrow> stance_of p c = stance_of q c"
  shows "p = (q :: effective_policy)"
proof -
  have "repo_fs_write p = repo_fs_write q" using assms(3) [of RepoFsWrite] by simp
  moreover have "outside_repo_fs_write p = outside_repo_fs_write q" using assms(3) [of OutsideRepoFsWrite] by simp
  moreover have "shell_exec p = shell_exec q" using assms(3) [of ShellExec] by simp
  moreover have "approval p = approval q" using assms(3) [of Approval] by simp
  moreover have "git_push_destructive p = git_push_destructive q" using assms(3) [of GitPushDestructive] by simp
  moreover have "tool_access p = tool_access q" using assms(3) [of ToolAccess] by simp
  ultimately show ?thesis using assms(1,2) by simp
qed

text \<open>A pointwise loop over distinct capabilities, the network one skipped.\<close>

lemma set_stances_loop:
  assumes "distinct cs"
    and "\<And>c q. c \<in> set cs \<Longrightarrow> f q c = (if c = Network then Inr q else set_stance c (g c) q)"
  shows "\<exists>q. fold_err f p cs = Inr q \<and> network q = network p
     \<and> network_allowlist q = network_allowlist p
     \<and> (\<forall>d. d \<noteq> Network \<longrightarrow> stance_of q d = (if d \<in> set cs then g d else stance_of p d))"
  using assms
proof (induction cs arbitrary: p)
  case (Cons c cs)
  have step: "\<exists>q. f p c = Inr q \<and> network q = network p \<and> network_allowlist q = network_allowlist p
     \<and> (\<forall>d. d \<noteq> Network \<longrightarrow> stance_of q d = (if d = c then g c else stance_of p d))"
  proof (cases "c = Network")
    case False
    then show ?thesis using Cons.prems(2) [of c p] set_stance_Inr [of c "g c" p] by simp
  qed (simp add: Cons.prems(2))
  then obtain q where q: "f p c = Inr q" "network q = network p" "network_allowlist q = network_allowlist p"
    "\<And>d. d \<noteq> Network \<Longrightarrow> stance_of q d = (if d = c then g c else stance_of p d)" by auto
  obtain r where r: "fold_err f q cs = Inr r" "network r = network q" "network_allowlist r = network_allowlist q"
    "\<And>d. d \<noteq> Network \<Longrightarrow> stance_of r d = (if d \<in> set cs then g d else stance_of q d)"
    using Cons.IH [of q] Cons.prems by auto
  show ?case using q r Cons.prems(1) by (intro exI [of _ r]) auto
qed simp

lemma narrowed_by_max:
  "\<exists>q. policy_narrowed_by p n = Inr q \<and> network q = network p \<and> network_allowlist q = network_allowlist p
     \<and> (\<forall>d. d \<noteq> Network \<longrightarrow> stance_of q d = max (stance_of p d) (stance_of n d))"
  using set_stances_loop [of policy_capabilities _ "\<lambda>c. max (stance_of p c) (stance_of n c)" p]
  by (simp add: policy_narrowed_by_def)

lemma env_override_ok:
  "env_ok env c \<Longrightarrow> c \<noteq> Network \<Longrightarrow>
   env_override env p c = set_stance c (overridden env c (stance_of p c)) p"
  by (cases c) (auto simp: env_override_def env_ok_def overridden_def split: option.splits)

lemma env_override_bad:
  "\<not> env_ok env c \<Longrightarrow> c \<noteq> Network \<Longrightarrow>
   \<exists>raw. env (capability_env_var c) = Some raw
     \<and> env_override env p c = Inl (BadStance (capability_env_var c) raw)"
  by (auto simp: env_override_def env_ok_def split: option.splits)

lemma env_overrides_ok:
  assumes "distinct cs" "\<And>c. c \<in> set cs \<Longrightarrow> c \<noteq> Network \<Longrightarrow> env_ok env c"
  shows "\<exists>q. fold_err (env_override env) p cs = Inr q \<and> network q = network p
     \<and> network_allowlist q = network_allowlist p
     \<and> (\<forall>d. d \<noteq> Network \<longrightarrow>
          stance_of q d = (if d \<in> set cs then overridden env d (stance_of p d) else stance_of p d))"
  using assms
proof (induction cs arbitrary: p)
  case (Cons c cs)
  have step: "\<exists>q. env_override env p c = Inr q \<and> network q = network p \<and> network_allowlist q = network_allowlist p
     \<and> (\<forall>d. d \<noteq> Network \<longrightarrow> stance_of q d = (if d = c then overridden env c (stance_of p c) else stance_of p d))"
  proof (cases "c = Network")
    case False
    then show ?thesis
      using Cons.prems(2) [of c] set_stance_Inr [of c "overridden env c (stance_of p c)" p]
      by (simp add: env_override_ok)
  qed (simp add: env_override_def)
  then obtain q where q: "env_override env p c = Inr q" "network q = network p"
    "network_allowlist q = network_allowlist p"
    "\<And>d. d \<noteq> Network \<Longrightarrow> stance_of q d = (if d = c then overridden env c (stance_of p c) else stance_of p d)"
    by auto
  obtain r where r: "fold_err (env_override env) q cs = Inr r" "network r = network q"
    "network_allowlist r = network_allowlist q"
    "\<And>d. d \<noteq> Network \<Longrightarrow> stance_of r d =
        (if d \<in> set cs then overridden env d (stance_of q d) else stance_of q d)"
    using Cons.IH [of q] Cons.prems by auto
  show ?case using q r Cons.prems(1) by (intro exI [of _ r]) auto
qed simp

lemma env_overrides_Inr:
  "fold_err (env_override env) p cs = Inr q \<Longrightarrow> c \<in> set cs \<Longrightarrow> c \<noteq> Network \<Longrightarrow> env_ok env c"
proof (induction cs arbitrary: p)
  case (Cons d cs)
  from Cons.prems(1) obtain p' where p': "env_override env p d = Inr p'"
    "fold_err (env_override env) p' cs = Inr q" by (auto simp: and_then_Inr_iff)
  show ?case
  proof (cases "c = d")
    case True
    then show ?thesis using p'(1) Cons.prems(3) env_override_bad [of env d p] by auto
  next
    case False
    then show ?thesis using Cons.IH [OF p'(2)] Cons.prems(2,3) by simp
  qed
qed simp

lemma read_entry_network:
  "read_entry D p (k, v) = Some q \<Longrightarrow>
   (if k = ''network'' then dec_stance D v = network q \<and> network q \<noteq> None else network q = network p)"
  by (auto simp: read_entry_def put_stance_def split: if_splits)

lemma read_entry_allowlist:
  "read_entry D p (k, v) = Some q \<Longrightarrow>
   (if k = ''network_allowlist'' then decode_targets D v = Some (network_allowlist q)
    else network_allowlist q = network_allowlist p)"
  by (auto simp: read_entry_def put_stance_def split: if_splits)

lemma read_entries_network:
  assumes "read_entries D p es = Some q" "distinct (map fst es)"
  shows "case map_of es ''network'' of None \<Rightarrow> network q = network p
         | Some v \<Rightarrow> dec_stance D v = network q \<and> network q \<noteq> None"
  using assms
proof (induction es arbitrary: p)
  case (Cons e es)
  obtain k v where e: "e = (k, v)" by fastforce
  from Cons.prems(1) obtain p' where p': "read_entry D p (k, v) = Some p'" "read_entries D p' es = Some q"
    by (auto simp: e bind_eq_Some_conv)
  have ih: "case map_of es ''network'' of None \<Rightarrow> network q = network p'
         | Some v \<Rightarrow> dec_stance D v = network q \<and> network q \<noteq> None"
    using Cons.IH [OF p'(2)] Cons.prems(2) by simp
  show ?case
  proof (cases "k = ''network''")
    case True
    then have "map_of es ''network'' = None"
      using Cons.prems(2) by (auto simp: e map_of_eq_None_iff)
    then show ?thesis using ih read_entry_network [OF p'(1)] True by (simp add: e)
  next
    case False
    then show ?thesis using ih read_entry_network [OF p'(1)] by (simp add: e split: option.splits)
  qed
qed simp

lemma read_entries_allowlist:
  assumes "read_entries D p es = Some q" "distinct (map fst es)"
  shows "case map_of es ''network_allowlist'' of None \<Rightarrow> network_allowlist q = network_allowlist p
         | Some v \<Rightarrow> decode_targets D v = Some (network_allowlist q)"
  using assms
proof (induction es arbitrary: p)
  case (Cons e es)
  obtain k v where e: "e = (k, v)" by fastforce
  from Cons.prems(1) obtain p' where p': "read_entry D p (k, v) = Some p'" "read_entries D p' es = Some q"
    by (auto simp: e bind_eq_Some_conv)
  have ih: "case map_of es ''network_allowlist'' of None \<Rightarrow> network_allowlist q = network_allowlist p'
         | Some v \<Rightarrow> decode_targets D v = Some (network_allowlist q)"
    using Cons.IH [OF p'(2)] Cons.prems(2) by simp
  show ?case
  proof (cases "k = ''network_allowlist''")
    case True
    then have "map_of es ''network_allowlist'' = None"
      using Cons.prems(2) by (auto simp: e map_of_eq_None_iff)
    then show ?thesis using ih read_entry_allowlist [OF p'(1)] True by (simp add: e)
  next
    case False
    then show ?thesis using ih read_entry_allowlist [OF p'(1)] by (simp add: e split: option.splits)
  qed
qed simp

text \<open>
  The two one-key readings agree with the full reading of the layer: presence apart, they see
  the value the policy holds.
\<close>

lemma network_layer_agrees:
  assumes "parse_layer D l origin = Inr p" "well_keyed l"
  shows "parse_network_layer D l origin = Inr (network p)"
proof (cases l)
  case (Some es)
  then have rd: "read_entries D default_effective_policy es = Some p" "distinct (map fst es)"
    using assms by (auto simp: parse_layer_def well_keyed_def split: option.splits)
  show ?thesis using read_entries_network [OF rd] Some
    by (auto simp: parse_network_layer_def default_effective_policy_def split: option.splits)
qed (use assms in \<open>auto simp: parse_layer_def parse_network_layer_def default_effective_policy_def\<close>)

lemma allowlist_layer_agrees:
  assumes "parse_layer D l origin = Inr p" "well_keyed l"
  shows "parse_network_allowlist_layer D l origin =
           Inr (if declares l ''network_allowlist'' then Some (network_allowlist p) else None)"
    and "\<not> declares l ''network_allowlist'' \<Longrightarrow> network_allowlist p = []"
proof -
  have "parse_network_allowlist_layer D l origin =
           Inr (if declares l ''network_allowlist'' then Some (network_allowlist p) else None)
        \<and> (\<not> declares l ''network_allowlist'' \<longrightarrow> network_allowlist p = [])"
  proof (cases l)
    case (Some es)
    then have rd: "read_entries D default_effective_policy es = Some p" "distinct (map fst es)"
      using assms by (auto simp: parse_layer_def well_keyed_def split: option.splits)
    have dec: "declares l ''network_allowlist'' \<longleftrightarrow> map_of es ''network_allowlist'' \<noteq> None"
      using Some by (simp add: declares_def map_of_eq_None_iff)
    show ?thesis
      using read_entries_allowlist [OF rd] Some dec
      by (cases "map_of es ''network_allowlist''")
        (simp_all add: parse_network_allowlist_layer_def default_effective_policy_def)
  qed (use assms in \<open>auto simp: parse_layer_def parse_network_allowlist_layer_def declares_def
         default_effective_policy_def\<close>)
  then show "parse_network_allowlist_layer D l origin =
           Inr (if declares l ''network_allowlist'' then Some (network_allowlist p) else None)"
    and "\<not> declares l ''network_allowlist'' \<Longrightarrow> network_allowlist p = []" by simp_all
qed

text \<open>The documented formula, as one policy built from the two parsed layers.\<close>

definition formula_policy ::
  "env_lookup \<Rightarrow> effective_policy \<Rightarrow> effective_policy \<Rightarrow> network_target list \<Rightarrow> effective_policy" where
  "formula_policy env hp rp ts =
     (let final = (\<lambda>c. overridden env c (max (stance_of hp c) (stance_of rp c))) in
      \<lparr>repo_fs_write = final RepoFsWrite, outside_repo_fs_write = final OutsideRepoFsWrite,
       shell_exec = final ShellExec,
       network = (case env (capability_env_var Network) of
           Some raw \<Rightarrow> stance_parse raw
         | None \<Rightarrow>
             (if network hp = None \<and> network rp = None then None
              else Some (max (stance_of hp Network) (case network rp of Some s \<Rightarrow> s | None \<Rightarrow> SAllow)))),
       network_allowlist = ts, approval = final Approval,
       git_push_destructive = final GitPushDestructive, tool_access = final ToolAccess\<rparr>)"

lemma formula_policy_stance:
  "c \<noteq> Network \<Longrightarrow>
   stance_of (formula_policy env hp rp ts) c = overridden env c (max (stance_of hp c) (stance_of rp c))"
  by (cases c) (simp_all add: formula_policy_def Let_def)

lemma find_ungranted:
  "resolve_network_allowlist h (Some ts) = Inr r \<longleftrightarrow> set ts \<subseteq> set h \<and> r = ts"
  by (auto simp: resolve_network_allowlist_def find_None_iff find_Some_iff split: option.splits)
    (meson nth_mem subsetD)

definition final_allowlist :: "'t policy_layer option \<Rightarrow> effective_policy \<Rightarrow> effective_policy \<Rightarrow> network_target list" where
  "final_allowlist r hp rp =
     (if declares r ''network_allowlist'' then network_allowlist rp else network_allowlist hp)"

lemma network_env_override_Inr:
  "network_env_override env p = Inr q \<longleftrightarrow>
   env_ok env Network \<and> q = p\<lparr>network := (case env (capability_env_var Network) of
       Some raw \<Rightarrow> stance_parse raw | None \<Rightarrow> network p)\<rparr>"
  by (auto simp: network_env_override_def env_ok_def split: option.splits)

lemma resolve_parsed:
  assumes h: "parse_layer D h home_origin = Inr hp" "well_keyed h"
    and r: "parse_layer D r repo_origin = Inr rp" "well_keyed r"
  shows "resolve_policy D h r env = Inr p \<longleftrightarrow>
     (declares r ''network_allowlist'' \<longrightarrow> set (network_allowlist rp) \<subseteq> set (network_allowlist hp))
     \<and> (\<forall>c. env_ok env c) \<and> p = formula_policy env hp rp (final_allowlist r hp rp)"
proof -
  obtain p0 where p0: "policy_narrowed_by hp rp = Inr p0" "network_allowlist p0 = network_allowlist hp"
    "\<And>d. d \<noteq> Network \<Longrightarrow> stance_of p0 d = max (stance_of hp d) (stance_of rp d)"
    using narrowed_by_max [of hp rp] by auto
  define p1 where "p1 = p0\<lparr>network := resolve_network (network hp) (network rp)\<rparr>"
  have p1: "stance_of p1 d = max (stance_of hp d) (stance_of rp d)" if "d \<noteq> Network" for d
    using p0(3) [OF that] that by (cases d) (simp_all add: p1_def)
  define granted where "granted \<longleftrightarrow>
    (declares r ''network_allowlist'' \<longrightarrow> set (network_allowlist rp) \<subseteq> set (network_allowlist hp))"
  have home_list: "(case (if declares h ''network_allowlist'' then Some (network_allowlist hp) else None)
      of None \<Rightarrow> [] | Some ts \<Rightarrow> ts) = network_allowlist hp"
    using allowlist_layer_agrees(2) [OF h] by simp
  have lists: "resolve_network_allowlist (network_allowlist hp)
      (if declares r ''network_allowlist'' then Some (network_allowlist rp) else None) = Inr ts
      \<longleftrightarrow> granted \<and> ts = final_allowlist r hp rp" for ts
    using find_ungranted [of "network_allowlist hp" "network_allowlist rp" ts]
    by (auto simp: granted_def final_allowlist_def resolve_network_allowlist_def)
  have unfolded: "resolve_policy D h r env = Inr p \<longleftrightarrow>
     granted \<and> (\<exists>q. fold_err (env_override env) (p1\<lparr>network_allowlist := final_allowlist r hp rp\<rparr>)
          policy_capabilities = Inr q \<and> network_env_override env q = Inr p)"
    by (auto simp: resolve_policy_def network_layer_agrees [OF h] network_layer_agrees [OF r]
        allowlist_layer_agrees(1) [OF h] allowlist_layer_agrees(1) [OF r] h(1) r(1) p0(1)
        and_then_Inr_iff lists Let_def home_list simp flip: p1_def)
  show ?thesis
  proof (cases "\<forall>c. env_ok env c")
    case True
    define p2 where "p2 = p1\<lparr>network_allowlist := final_allowlist r hp rp\<rparr>"
    obtain q where q: "fold_err (env_override env) p2 policy_capabilities = Inr q"
      "network q = network p1" "network_allowlist q = final_allowlist r hp rp"
      "\<And>d. d \<noteq> Network \<Longrightarrow> stance_of q d = overridden env d (stance_of p2 d)"
      using env_overrides_ok [of policy_capabilities env p2] True by (auto simp: p2_def)
    have p2: "stance_of p2 d = stance_of p1 d" if "d \<noteq> Network" for d
      using that by (cases d) (simp_all add: p2_def)
    have fin: "q\<lparr>network := (case env (capability_env_var Network) of
        Some raw \<Rightarrow> stance_parse raw | None \<Rightarrow> network q)\<rparr>
      = formula_policy env hp rp (final_allowlist r hp rp)" (is "?l = ?r")
    proof (rule effective_policy_eqI)
      show "network ?l = network ?r"
        by (simp add: q(2) p1_def formula_policy_def Let_def resolve_network_def split: option.splits)
      show "network_allowlist ?l = network_allowlist ?r"
        by (simp add: q(3) formula_policy_def Let_def)
      fix c assume c: "c \<noteq> Network"
      then have "stance_of ?l c = stance_of q c" by (cases c) simp_all
      then show "stance_of ?l c = stance_of ?r c"
        using c by (simp add: q(4) p1 p2 formula_policy_stance)
    qed
    show ?thesis
      using True q(1) fin by (auto simp: unfolded network_env_override_Inr granted_def simp flip: p2_def)
  next
    case False
    then obtain c where c: "\<not> env_ok env c" by blast
    then show ?thesis
    proof (cases "c = Network")
      case True
      then show ?thesis using c False by (auto simp: unfolded network_env_override_Inr)
    next
      case neq: False
      then show ?thesis
        using c False env_overrides_Inr [of env _ policy_capabilities _ c]
        by (auto simp: unfolded)
    qed
  qed
qed

lemma resolve_needs_parsed:
  "resolve_policy D h r env = Inr p \<Longrightarrow>
   \<exists>hp rp. parse_layer D h home_origin = Inr hp \<and> parse_layer D r repo_origin = Inr rp"
  by (auto simp: resolve_policy_def and_then_Inr_iff)

lemma overridden_mono: "s \<le> t \<Longrightarrow> overridden env c s \<le> overridden env c t"
  by (auto simp: overridden_def split: option.splits)

lemma parse_no_layer [simp]: "parse_layer D None origin = Inr default_effective_policy"
  by (simp add: parse_layer_def)

lemma default_stances [simp]: "c \<noteq> Network \<Longrightarrow> stance_of default_effective_policy c = SAllow"
  "network default_effective_policy = None" "network_allowlist default_effective_policy = []"
  by (cases c) (simp_all add: default_effective_policy_def)

lemma network_stance_mono:
  assumes "\<And>c. env_ok env c"
  shows "stance_of (formula_policy env hp default_effective_policy ts) Network
      \<le> stance_of (formula_policy env hp rp us) Network"
proof (cases "env (capability_env_var Network)")
  case None
  then show ?thesis
    by (cases "network hp"; cases "network rp") (simp_all add: formula_policy_def Let_def)
next
  case (Some raw)
  then show ?thesis by (simp add: formula_policy_def Let_def)
qed

text \<open>The policy of an unreadable configuration is the strictest there is.\<close>

lemma fail_closed_strictest: "stance_of fail_closed c = SDeny" "stance_of p c \<le> stance_of fail_closed c"
proof -
  show "stance_of fail_closed c = SDeny" by (cases c) (simp_all add: fail_closed_def)
  then show "stance_of p c \<le> stance_of fail_closed c" by simp
qed

section \<open>The report\<close>

datatype launch_mode = Interactive | Headless

fun launch_label :: "launch_mode \<Rightarrow> string" where
  "launch_label Interactive = ''interactive''"
| "launch_label Headless = ''headless''"

datatype support = Enforced | Degraded | Unsupported | OperatorControlled

fun support_label :: "support \<Rightarrow> string" where
  "support_label Enforced = ''enforced''"
| "support_label Degraded = ''degraded (partially enforced)''"
| "support_label Unsupported = ''not enforced (advisory only)''"
| "support_label OperatorControlled = ''operator-controlled''"

definition is_fully_enforced :: "support \<Rightarrow> bool" where
  "is_fully_enforced s \<longleftrightarrow> s = Enforced"

record capability_descriptor =
  d_support :: support
  d_mechanism :: string

definition enforced :: "string \<Rightarrow> capability_descriptor" where
  "enforced m = \<lparr>d_support = Enforced, d_mechanism = m\<rparr>"

definition degraded :: "string \<Rightarrow> capability_descriptor" where
  "degraded m = \<lparr>d_support = Degraded, d_mechanism = m\<rparr>"

definition operator_controlled :: "string \<Rightarrow> capability_descriptor" where
  "operator_controlled m = \<lparr>d_support = OperatorControlled, d_mechanism = m\<rparr>"

definition unsupported :: "string \<Rightarrow> capability_descriptor" where
  "unsupported m = \<lparr>d_support = Unsupported, d_mechanism = m\<rparr>"

definition advisory_only :: capability_descriptor where
  "advisory_only =
     unsupported ''no verified per-run mechanism; prompt text is advisory context, not enforcement''"

record capability_outcome =
  o_capability :: policy_capability
  o_stance :: stance
  o_support :: support
  o_mechanism :: string

record capability_warning =
  w_capability :: string
  w_mechanism :: string
  w_detail :: string

record policy_report =
  r_adapter :: string
  r_mode :: launch_mode
  r_outcomes :: "capability_outcome list"

text \<open>The adapter, reduced to the trait methods the report calls.\<close>

record agent_adapter =
  adapter_name :: string
  policy_support :: "policy_capability \<Rightarrow> stance \<Rightarrow> launch_mode \<Rightarrow> capability_descriptor"
  network_allowlist_support :: "network_target list \<Rightarrow> stance \<Rightarrow> launch_mode \<Rightarrow> capability_descriptor"

definition outcome_of ::
  "effective_policy \<Rightarrow> agent_adapter \<Rightarrow> launch_mode \<Rightarrow> policy_capability \<Rightarrow> capability_outcome option" where
  "outcome_of p a m c =
     (case (if c = Network then network p else Some (stance_of p c)) of
        None \<Rightarrow> None
      | Some s \<Rightarrow>
          (let d = (if c = Network \<and> s \<noteq> SDeny \<and> network_allowlist p \<noteq> []
                    then network_allowlist_support a (network_allowlist p) s m
                    else if s = SAllow
                    then operator_controlled
                      (''zirv declares no restriction; the harness's own defaults and the ''
                       @ ''operator's own settings decide'')
                    else policy_support a c s m)
           in Some \<lparr>o_capability = c, o_stance = s, o_support = d_support d, o_mechanism = d_mechanism d\<rparr>))"

definition evaluate :: "effective_policy \<Rightarrow> agent_adapter \<Rightarrow> launch_mode \<Rightarrow> policy_report" where
  "evaluate p a m =
     \<lparr>r_adapter = adapter_name a, r_mode = m,
      r_outcomes = List.map_filter (outcome_of p a m) policy_capabilities\<rparr>"

definition unenforced :: "policy_report \<Rightarrow> capability_outcome list" where
  "unenforced rep =
     filter (\<lambda>out. o_stance out \<noteq> SAllow \<and> \<not> is_fully_enforced (o_support out)) (r_outcomes rep)"

definition partially_enforced :: "policy_report \<Rightarrow> capability_outcome list" where
  "partially_enforced rep = filter (\<lambda>out. o_support out = Degraded) (r_outcomes rep)"

definition degraded_capabilities :: "policy_report \<Rightarrow> capability_warning list" where
  "degraded_capabilities rep =
     map (\<lambda>out. \<lparr>w_capability = policy_capability_label (o_capability out), w_mechanism = o_mechanism out,
                 w_detail = stance_label (o_stance out) @ '' -- '' @ support_label (o_support out)\<rparr>)
       (filter (\<lambda>out. o_support out \<in> {Degraded, Unsupported}) (r_outcomes rep))"

definition render_outcome :: "capability_outcome \<Rightarrow> string" where
  "render_outcome out =
     ''  '' @ policy_capability_label (o_capability out) @ '': '' @ stance_label (o_stance out) @ '' -- ''
     @ support_label (o_support out) @ '' ('' @ o_mechanism out @ '')'' @ [CHR 0x0A]"

definition render_report :: "policy_report \<Rightarrow> string" where
  "render_report rep =
     ''policy on '' @ r_adapter rep @ '' ('' @ launch_label (r_mode rep) @ '' launch):'' @ [CHR 0x0A]
     @ concat (map render_outcome (r_outcomes rep))
     @ (if r_mode rep = Interactive
        then ''  shipped interactive baseline (before any [policy] table):'' @ [CHR 0x0A]
          @ concat (map (\<lambda>c. ''    '' @ policy_capability_label c @ '': ''
              @ stance_label (stance_of interactive_baseline c) @ [CHR 0x0A]) policy_capabilities)
        else [])"

lemma outcome_of_SomeD:
  "outcome_of p a m c = Some out \<Longrightarrow> o_capability out = c \<and> o_stance out = stance_of p c"
  by (auto simp: outcome_of_def Let_def split: option.splits if_splits)

lemma outcome_of_None [simp]: "outcome_of p a m c = None \<longleftrightarrow> c = Network \<and> network p = None"
  by (auto simp: outcome_of_def Let_def split: option.splits if_splits)

lemma map_filter_labels:
  "(\<And>x y. f x = Some y \<Longrightarrow> g y = x) \<Longrightarrow>
   map g (List.map_filter f xs) = filter (\<lambda>x. f x \<noteq> None) xs"
  by (induction xs) (auto simp: List.map_filter_simps split: option.splits)

lemma outcome_member:
  "out \<in> set (r_outcomes (evaluate p a m)) \<longleftrightarrow> (\<exists>c. outcome_of p a m c = Some out)"
  by (auto simp: evaluate_def set_map_filter intro: bexI [OF _ policy_capabilities_all])

section \<open>Destinations are in normal form\<close>

lemma ascii_lower_char_special:
  "is_space (ascii_lower_char c) = is_space c" "ascii_lower_char c = CHR ''.'' \<longleftrightarrow> c = CHR ''.''"
proof -
  have "is_space (ascii_lower_char c) = is_space c \<and> (ascii_lower_char c = CHR ''.'' \<longleftrightarrow> c = CHR ''.'')"
  proof (cases "65 \<le> (of_char c :: nat) \<and> (of_char c :: nat) \<le> 90")
    case True
    then have n: "(of_char (ascii_lower_char c) :: nat) = of_char c + 32"
      by (simp add: ascii_lower_char_def Let_def)
    have "(of_char (CHR ''.'') :: nat) = 46" by simp
    then have "ascii_lower_char c \<noteq> CHR ''.''" "c \<noteq> CHR ''.''" using n True by auto
    then show ?thesis using n True by (auto simp: is_space_def)
  qed (auto simp: ascii_lower_char_def Let_def)
  then show "is_space (ascii_lower_char c) = is_space c" "ascii_lower_char c = CHR ''.'' \<longleftrightarrow> c = CHR ''.''"
    by simp_all
qed

lemma trim_end_dots_facts:
  "trim_end_dots s \<noteq> [] \<Longrightarrow> hd (trim_end_dots s) = hd s \<and> last (trim_end_dots s) \<noteq> CHR ''.''"
  "length (trim_end_dots s) \<le> length s"
  "s = [] \<or> last s \<noteq> CHR ''.'' \<Longrightarrow> trim_end_dots s = s"
proof -
  define P where "P = (\<lambda>c. c = CHR ''.'')"
  have td: "trim_end_dots s = rev (dropWhile P (rev s))" by (simp add: trim_end_dots_def P_def)
  obtain us where us: "rev s = us @ dropWhile P (rev s)"
    using suffix_dropWhile [of P "rev s"] by (auto simp: suffix_def)
  then have s: "s = trim_end_dots s @ rev us" by (simp add: td flip: rev_append)
  assume ne: "trim_end_dots s \<noteq> []"
  have "hd (trim_end_dots s) = hd s" using s ne by (metis hd_append2)
  moreover have "\<not> P (last (trim_end_dots s))"
    using ne hd_dropWhile [of P "rev s"] by (simp add: td last_rev)
  ultimately show "hd (trim_end_dots s) = hd s \<and> last (trim_end_dots s) \<noteq> CHR ''.''"
    by (simp add: P_def)
next
  show "length (trim_end_dots s) \<le> length s"
    using length_dropWhile_le [of _ "rev s"] by (simp add: trim_end_dots_def)
next
  assume "s = [] \<or> last s \<noteq> CHR ''.''"
  then show "trim_end_dots s = s"
    using dropWhile_id_hd [of "rev s" "\<lambda>c. c = CHR ''.''"] by (auto simp: trim_end_dots_def hd_rev)
qed

lemma network_target_newD:
  assumes "network_target_new s h p = Inr t"
  shows "scheme t = ascii_lower s" "host t = ascii_lower (trim_end_dots (trim h))" "port t = p"
    "host t \<noteq> []" "\<not> is_space (hd (host t))" "last (host t) \<noteq> CHR ''.''"
proof -
  show t: "scheme t = ascii_lower s" "host t = ascii_lower (trim_end_dots (trim h))" "port t = p"
    and ne: "host t \<noteq> []"
    using assms by (auto simp: network_target_new_def Let_def split: if_splits)
  define x where "x = trim_end_dots (trim h)"
  have x: "x \<noteq> []" "host t = ascii_lower x" using t ne by (auto simp: x_def)
  then have "hd x = hd (trim h)" "trim h \<noteq> []" and l: "last x \<noteq> CHR ''.''"
    using trim_end_dots_facts [of "trim h"] by (auto simp: x_def)
  then have "\<not> is_space (hd x)" using hd_trim by metis
  then show "\<not> is_space (hd (host t))"
    using x by (simp add: ascii_lower_def hd_map ascii_lower_char_special)
  show "last (host t) \<noteq> CHR ''.''"
    using x l by (simp add: ascii_lower_def last_map ascii_lower_char_special)
qed

section \<open>The properties\<close>

text \<open>C25: Resolution succeeds exactly when both layers parse, the repository's allowlist (if it
  declares one) stays inside the operator's, and every policy variable of the environment that is
  set holds a stance; it then returns the documented policy: the environment where it is set, the
  stricter of the two layers elsewhere, the network row absent when nobody mentions it, and the
  repository's allowlist where it declares one. In particular the unreachable arm of
  \<open>stance_mut\<close> is never reached on a path that returns a policy.\<close>

theorem resolution_follows_the_formula:
  assumes "well_keyed h" "well_keyed r"
  shows "resolve_policy D h r env = Inr p \<longleftrightarrow>
     (\<exists>hp rp. parse_layer D h home_origin = Inr hp \<and> parse_layer D r repo_origin = Inr rp
        \<and> (declares r ''network_allowlist'' \<longrightarrow> set (network_allowlist rp) \<subseteq> set (network_allowlist hp))
        \<and> (\<forall>c. env_ok env c) \<and> p = formula_policy env hp rp (final_allowlist r hp rp))"
proof (cases "\<exists>hp rp. parse_layer D h home_origin = Inr hp \<and> parse_layer D r repo_origin = Inr rp")
  case True
  then show ?thesis using resolve_parsed [OF _ assms(1) _ assms(2)] by auto
next
  case False
  then show ?thesis using resolve_needs_parsed [of D h r env p] by blast
qed


definition sample_decoder :: "(stance + raw_target list) toml_decoder" where
  "sample_decoder =
     \<lparr>dec_stance = (\<lambda>v. case v of Inl s \<Rightarrow> Some s | Inr _ \<Rightarrow> None),
      dec_targets = (\<lambda>v. case v of Inl _ \<Rightarrow> None | Inr ts \<Rightarrow> Some ts)\<rparr>"

definition sample_home :: "(stance + raw_target list) policy_layer" where
  "sample_home =
     [(''shell_exec'', Inl SAsk), (''network'', Inl SAllow),
      (''network_allowlist'', Inr [(''https'', ''Crates.io.'', None)])]"

definition sample_repo :: "(stance + raw_target list) policy_layer" where
  "sample_repo = [(''shell_exec'', Inl SDeny), (''approval'', Inl SAsk)]"

definition sample_env :: env_lookup where
  "sample_env v = (if v = ''ZIRV_CTX_POLICY_APPROVAL'' then Some '' allow '' else None)"

definition sample_target :: network_target where
  "sample_target = \<lparr>scheme = ''https'', host = ''crates.io'', port = None\<rparr>"

lemma sample_target_new: "network_target_new ''https'' ''Crates.io.'' None = Inr sample_target"
  by code_simp

lemma sample_stances [simp]:
  "stance_parse '' allow '' = Some SAllow" "sample_env (capability_env_var Approval) = Some '' allow ''"
  by (simp_all add: stance_parse_def trim_def is_space_def sample_env_def)

lemmas sample_defs = sample_decoder_def sample_home_def sample_repo_def well_keyed_def

lemma sample_home_parsed:
  "parse_layer sample_decoder (Some sample_home) home_origin =
     Inr (default_effective_policy\<lparr>shell_exec := SAsk, network := Some SAllow, network_allowlist := [sample_target]\<rparr>)"
  by (simp add: parse_layer_def read_entry_def put_stance_def decode_targets_def sample_defs sample_target_new)

lemma sample_repo_parsed:
  "parse_layer sample_decoder (Some sample_repo) repo_origin =
     Inr (default_effective_policy\<lparr>shell_exec := SDeny, approval := SAsk\<rparr>)"
  by (simp add: parse_layer_def read_entry_def put_stance_def sample_defs)

lemma sample_env_ok: "env_ok sample_env c"
  by (cases c) (simp_all add: env_ok_def sample_env_def)

definition sample_policy :: effective_policy where
  "sample_policy = default_effective_policy\<lparr>shell_exec := SDeny, network := Some SAllow,
     network_allowlist := [sample_target], approval := SAllow\<rparr>"

lemma sample_formula:
  "sample_policy = formula_policy sample_env
     (default_effective_policy\<lparr>shell_exec := SAsk, network := Some SAllow, network_allowlist := [sample_target]\<rparr>)
     (default_effective_policy\<lparr>shell_exec := SDeny, approval := SAsk\<rparr>) [sample_target]"
  by (simp add: sample_policy_def formula_policy_def Let_def overridden_def sample_env_def
      default_effective_policy_def max_def less_eq_stance_def)

lemma sample_repo_silent: "\<not> declares (Some sample_repo) ''network_allowlist''"
  by (simp add: declares_def sample_repo_def)

lemma resolution_follows_the_formula_witness:
  "resolve_policy sample_decoder (Some sample_home) (Some sample_repo) sample_env = Inr sample_policy"
proof -
  have "well_keyed (Some sample_home)" "well_keyed (Some sample_repo)" by (simp_all add: sample_defs)
  from resolution_follows_the_formula [OF this, of sample_decoder sample_env sample_policy] show ?thesis
    by (simp add: sample_home_parsed sample_repo_parsed sample_repo_silent sample_env_ok
        final_allowlist_def sample_formula)
qed

lemma sample_resolved:
  "resolve_policy sample_decoder (Some sample_home) (Some sample_repo) sample_env = Inr sample_policy"
  using resolve_parsed [OF sample_home_parsed _ sample_repo_parsed, of sample_env sample_policy]
  by (simp add: sample_defs(4) sample_home_def sample_repo_def declares_def sample_env_ok
      final_allowlist_def sample_formula)


text \<open>The exception to narrowing. A repository whose whole policy is an empty
  \<open>network_allowlist\<close> resolves to the operator's policy with the allowlist erased, and an empty
  list means no host scope: where the operator had opened the network to a list of hosts only, the
  report then says that zirv declares no restriction on it.\<close>

theorem repository_erases_the_allowlist:
  assumes keys: "well_keyed h" and res: "resolve_policy D h None env = Inr q"
    and empty: "dec_targets D v = Some []"
  shows "resolve_policy D h (Some [(''network_allowlist'', v)]) env = Inr (q\<lparr>network_allowlist := []\<rparr>)
     \<and> (network q = Some SAllow \<longrightarrow>
         (\<forall>out\<in>set (r_outcomes (evaluate (q\<lparr>network_allowlist := []\<rparr>) a m)).
            o_capability out = Network \<longrightarrow> o_support out = OperatorControlled))"
proof
  let ?r = "Some [(''network_allowlist'', v)]"
  obtain hp where hp: "parse_layer D h home_origin = Inr hp"
    using resolve_needs_parsed [OF res] by blast
  have none: "well_keyed None" "parse_layer D None repo_origin = Inr default_effective_policy"
    by (simp_all add: well_keyed_def)
  note q = resolve_parsed [OF hp keys none(2,1), of env q, unfolded res, simplified]
  have rp: "parse_layer D ?r repo_origin = Inr default_effective_policy"
    by (simp add: parse_layer_def read_entry_def decode_targets_def empty default_effective_policy_def)
  have "declares ?r ''network_allowlist''" "well_keyed ?r"
    by (simp_all add: declares_def well_keyed_def)
  then show "resolve_policy D h ?r env = Inr (q\<lparr>network_allowlist := []\<rparr>)"
    using resolve_parsed [OF hp keys rp, of env] q
    by (simp add: final_allowlist_def formula_policy_def Let_def)
  show "network q = Some SAllow \<longrightarrow>
         (\<forall>out\<in>set (r_outcomes (evaluate (q\<lparr>network_allowlist := []\<rparr>) a m)).
            o_capability out = Network \<longrightarrow> o_support out = OperatorControlled)"
    unfolding outcome_member Ball_def
  proof (intro impI allI)
    fix out
    assume net: "network q = Some SAllow" "o_capability out = Network"
      and "\<exists>c. outcome_of (q\<lparr>network_allowlist := []\<rparr>) a m c = Some out"
    then have "outcome_of (q\<lparr>network_allowlist := []\<rparr>) a m Network = Some out"
      using outcome_of_SomeD by metis
    then show "o_support out = OperatorControlled"
      using net(1) by (auto simp: outcome_of_def Let_def operator_controlled_def)
  qed
qed

definition sample_adapter :: agent_adapter where
  "sample_adapter =
     \<lparr>adapter_name = ''claude'',
      policy_support = (\<lambda>c s m. if c = ShellExec then \<lparr>d_support = Degraded, d_mechanism = ''permission rules''\<rparr>
                              else advisory_only),
      network_allowlist_support = (\<lambda>ts s m. \<lparr>d_support = Enforced, d_mechanism = ''fetch rules''\<rparr>)\<rparr>"

lemma repository_erases_the_allowlist_witness:
  "resolve_policy sample_decoder (Some [(''network'', Inl SAllow)])
       (Some [(''network_allowlist'', Inr [])]) (\<lambda>_. None)
     = Inr (default_effective_policy\<lparr>network := Some SAllow, network_allowlist := []\<rparr>)"
proof -
  let ?h = "Some [(''network'', Inl SAllow)]" and ?q = "default_effective_policy\<lparr>network := Some SAllow\<rparr>"
  have h: "well_keyed ?h" "parse_layer sample_decoder ?h home_origin = Inr ?q"
    by (simp_all add: well_keyed_def parse_layer_def read_entry_def put_stance_def sample_decoder_def)
  have "resolve_policy sample_decoder ?h None (\<lambda>_. None) = Inr ?q"
    using resolve_parsed [OF h(2,1) parse_no_layer, of "\<lambda>_. None" ?q]
    by (simp add: well_keyed_def declares_def final_allowlist_def env_ok_def formula_policy_def Let_def
        overridden_def default_effective_policy_def)
  then show ?thesis
    using repository_erases_the_allowlist [OF h(1), of sample_decoder "\<lambda>_. None" ?q "Inr []"]
    by (simp add: sample_decoder_def)
qed

text \<open>A report is complete and claims nothing of its own. It has one row per capability, in the
  fixed order, leaving out the network exactly when no layer and no variable configured it; each row
  carries the resolved stance. A row says \<open>enforced\<close> only where the adapter's own descriptor does
  (for the host scope of a non-empty allowlist, or for a stance other than \<open>allow\<close>), and every
  restriction is either enforced, left to the operator by the adapter, or listed among the warnings
  that reach the delegator.\<close>

theorem report_is_complete_and_honest:
  "map o_capability (r_outcomes (evaluate p a m))
     = filter (\<lambda>c. c \<noteq> Network \<or> network p \<noteq> None) policy_capabilities
   \<and> (\<forall>out\<in>set (r_outcomes (evaluate p a m)).
        o_stance out = stance_of p (o_capability out)
      \<and> (o_support out = Enforced \<longrightarrow>
           (o_capability out = Network \<and> network_allowlist p \<noteq> [] \<and> o_stance out \<noteq> SDeny
              \<and> d_support (network_allowlist_support a (network_allowlist p) (o_stance out) m) = Enforced)
           \<or> (o_stance out \<noteq> SAllow
              \<and> d_support (policy_support a (o_capability out) (o_stance out) m) = Enforced))
      \<and> (o_stance out \<noteq> SAllow \<longrightarrow> o_support out \<noteq> Enforced \<longrightarrow> o_support out \<noteq> OperatorControlled \<longrightarrow>
           out \<in> set (unenforced (evaluate p a m))
           \<and> policy_capability_label (o_capability out)
               \<in> w_capability ` set (degraded_capabilities (evaluate p a m))))"
proof (intro conjI ballI)
  show "map o_capability (r_outcomes (evaluate p a m))
     = filter (\<lambda>c. c \<noteq> Network \<or> network p \<noteq> None) policy_capabilities"
    unfolding evaluate_def by (simp add: map_filter_labels [of "outcome_of p a m" o_capability]
        outcome_of_SomeD)
next
  fix out assume out: "out \<in> set (r_outcomes (evaluate p a m))"
  then obtain c where c: "outcome_of p a m c = Some out" by (auto simp: outcome_member)
  note d = outcome_of_SomeD [OF c]
  show "o_stance out = stance_of p (o_capability out)" using d by simp
  show "o_support out = Enforced \<longrightarrow>
           (o_capability out = Network \<and> network_allowlist p \<noteq> [] \<and> o_stance out \<noteq> SDeny
              \<and> d_support (network_allowlist_support a (network_allowlist p) (o_stance out) m) = Enforced)
           \<or> (o_stance out \<noteq> SAllow
              \<and> d_support (policy_support a (o_capability out) (o_stance out) m) = Enforced)"
    using c by (auto simp: outcome_of_def operator_controlled_def Let_def split: option.splits if_splits)
  show "o_stance out \<noteq> SAllow \<longrightarrow> o_support out \<noteq> Enforced \<longrightarrow> o_support out \<noteq> OperatorControlled \<longrightarrow>
           out \<in> set (unenforced (evaluate p a m))
           \<and> policy_capability_label (o_capability out)
               \<in> w_capability ` set (degraded_capabilities (evaluate p a m))"
    using out by (cases "o_support out")
      (auto simp: unenforced_def is_fully_enforced_def degraded_capabilities_def image_image
        intro!: rev_image_eqI [of out])
qed

lemma report_is_complete_and_honest_witness:
  "map o_capability (r_outcomes (evaluate sample_policy sample_adapter Headless)) = policy_capabilities
   \<and> ''shell execution'' \<in> w_capability ` set (degraded_capabilities (evaluate sample_policy sample_adapter Headless))"
proof -
  let ?out = "\<lparr>o_capability = ShellExec, o_stance = SDeny, o_support = Degraded, o_mechanism = ''permission rules''\<rparr>"
  have "outcome_of sample_policy sample_adapter Headless ShellExec = Some ?out"
    by (simp add: outcome_of_def sample_policy_def sample_adapter_def)
  then have "?out \<in> set (r_outcomes (evaluate sample_policy sample_adapter Headless))"
    by (auto simp: outcome_member)
  then show ?thesis
    using report_is_complete_and_honest [of sample_policy sample_adapter Headless]
    by (fastforce simp: sample_policy_def)
qed

text \<open>The destination constructor brings aliases together: the scheme and host it returns are
  lower case with the final dots gone, and passing a destination through it again, as reading a
  persisted one does, changes nothing, with one exception: a host written with white space before its
  final dots keeps that white space and is a different destination after the next reading.\<close>

theorem destination_is_stable_unless_spaced:
  assumes "network_target_new s h p = Inr t"
  shows "network_target_new (scheme t) (host t) (port t) = Inr t \<longleftrightarrow> \<not> is_space (last (host t))"
proof -
  note t = network_target_newD [OF assms]
  have ok: "scheme t = ''http'' \<or> scheme t = ''https''" "list_all host_char_ok (host t)"
    using assms by (auto simp: network_target_new_def Let_def split: if_splits)
  have low: "ascii_lower (scheme t) = scheme t" "ascii_lower (host t) = host t"
    by (simp_all add: t)
  show ?thesis
  proof (cases "is_space (last (host t))")
    case False
    then have "trim (host t) = host t" using t(5) by (intro trim_id) simp
    moreover have "trim_end_dots (host t) = host t" using t(6) trim_end_dots_facts(3) by blast
    ultimately show ?thesis
      using False ok t(4) low unfolding network_target_new_def Let_def by auto
  next
    case True
    have "length (trim_end_dots (trim (host t))) \<le> length (trim (host t))" by (rule trim_end_dots_facts(2))
    also have "\<dots> < length (host t)" using length_trim_less t(4) True by blast
    finally have "length (ascii_lower (trim_end_dots (trim (host t)))) < length (host t)"
      by (simp add: ascii_lower_def)
    then have "host t \<noteq> ascii_lower (trim_end_dots (trim (host t)))" by auto
    then show ?thesis using True network_target_newD(2) [of "scheme t" "host t" "port t" t] by auto
  qed
qed

lemma destination_is_stable_unless_spaced_witness:
  "network_target_new ''https'' ''crates.io'' None = Inr sample_target
   \<and> (\<exists>t. network_target_new ''https'' ''crates.io .'' None = Inr t
        \<and> network_target_new (scheme t) (host t) (port t) \<noteq> Inr t)"
proof -
  have spaced: "network_target_new ''https'' ''crates.io .'' None = Inr (sample_target\<lparr>host := ''crates.io ''\<rparr>)"
    by code_simp
  have "\<not> is_space (last (host sample_target))" "is_space (last (host (sample_target\<lparr>host := ''crates.io ''\<rparr>)))"
    by code_simp+
  then show ?thesis
    using destination_is_stable_unless_spaced [OF sample_target_new]
      destination_is_stable_unless_spaced [OF spaced] spaced
    by (auto simp: sample_target_def)
qed

end
