(* ===== verification/Envelope.thy ===== *)
theory Envelope
  imports Prelude
begin

text \<open>
  The delegation envelope, \<open>envelope.rs\<close>: the write roots, tool families, network and
  destructive gates, remaining delegation depth, expiry and token budget of a delegated worker;
  the request a dispatch builds from its flags (\<open>requested\<close>), the narrowing that turns it into
  the worker's envelope or refuses it (\<open>narrow\<close>), and the containment test
  (\<open>is_subset_of\<close>). Path scopes are compared as normalised text; the compile-time choice of
  case folding (on for Windows and macOS) is the first argument \<open>cf\<close>. The JSON form and its
  SHA-256 digest are not modelled.
\<close>

section \<open>Path scopes\<close>

definition scope_segments :: "string \<Rightarrow> string list" where
  "scope_segments text =
     filter (\<lambda>seg. seg \<noteq> [] \<and> seg \<noteq> ''.'') (split_char (CHR ''/'') (replace_char (CHR 0x5C) (CHR ''/'') text))"

definition case_fold :: "bool \<Rightarrow> string \<Rightarrow> string" where
  "case_fold cf s = (if cf then ascii_lower s else s)"

definition scope_normalized :: "bool \<Rightarrow> string \<Rightarrow> string option" where
  "scope_normalized cf text =
     (let segs = scope_segments text in
      if ''..'' \<in> set segs then None else Some (case_fold cf (join_char (CHR ''/'') segs)))"

definition scope_subset :: "bool \<Rightarrow> string \<Rightarrow> string \<Rightarrow> bool" where
  "scope_subset cf child parent =
     (case scope_normalized cf child of
        None \<Rightarrow> False
      | Some c \<Rightarrow>
          (case scope_normalized cf parent of
             None \<Rightarrow> False
           | Some p \<Rightarrow> p = [] \<or> c = p \<or> prefix (p @ ''/'') c))"

section \<open>Tool families and the envelope\<close>

record tool_set =
  t_edit :: bool
  t_shell :: bool
  t_network :: bool
  t_delegate :: bool

definition tools_all :: tool_set where
  "tools_all = \<lparr>t_edit = True, t_shell = True, t_network = True, t_delegate = True\<rparr>"

definition tools_none :: tool_set where
  "tools_none = \<lparr>t_edit = False, t_shell = False, t_network = False, t_delegate = False\<rparr>"

definition tools_intersect :: "tool_set \<Rightarrow> tool_set \<Rightarrow> tool_set" where
  "tools_intersect a b =
     \<lparr>t_edit = t_edit a \<and> t_edit b, t_shell = t_shell a \<and> t_shell b,
      t_network = t_network a \<and> t_network b, t_delegate = t_delegate a \<and> t_delegate b\<rparr>"

definition tools_subset :: "tool_set \<Rightarrow> tool_set \<Rightarrow> bool" where
  "tools_subset a b \<longleftrightarrow>
     (\<not> t_edit a \<or> t_edit b) \<and> (\<not> t_shell a \<or> t_shell b)
     \<and> (\<not> t_network a \<or> t_network b) \<and> (\<not> t_delegate a \<or> t_delegate b)"

record worker_envelope =
  principal :: string
  w_paths :: "string list"
  w_tools :: tool_set
  w_network :: bool
  destructive :: bool
  delegation_depth :: nat
  expires_at :: u64
  token_budget :: "u64 option"

definition narrow_gate :: "bool \<Rightarrow> bool \<Rightarrow> string \<Rightarrow> string + bool" where
  "narrow_gate parent wanted field =
     (if wanted \<and> \<not> parent then Inl field else Inr (parent \<and> wanted))"

definition locked :: worker_envelope where
  "locked =
     \<lparr>principal = ''locked'', w_paths = [], w_tools = tools_none, w_network = False, destructive = False,
      delegation_depth = 0, expires_at = 0, token_budget = Some 0\<rparr>"

definition requested ::
  "worker_envelope \<Rightarrow> string \<Rightarrow> string list \<Rightarrow> bool \<Rightarrow> bool \<Rightarrow> nat option \<Rightarrow> u64 option \<Rightarrow> worker_envelope" where
  "requested parent who path_scope no_network read_only depth budget =
     \<lparr>principal = who,
      w_paths = (if path_scope \<noteq> [] then path_scope else if read_only then [] else w_paths parent),
      w_tools = (if read_only then (w_tools parent)\<lparr>t_edit := False\<rparr> else w_tools parent),
      w_network = (if no_network then False else w_network parent),
      destructive = (if read_only then False else destructive parent),
      delegation_depth = (case depth of Some d \<Rightarrow> d | None \<Rightarrow> delegation_depth parent - 1),
      expires_at = expires_at parent,
      token_budget = budget\<rparr>"

fun tighter_budget :: "u64 option \<Rightarrow> u64 option \<Rightarrow> u64 option" where
  "tighter_budget (Some p) (Some r) = Some (min p r)"
| "tighter_budget (Some p) None = Some p"
| "tighter_budget None (Some r) = Some r"
| "tighter_budget None None = None"

text \<open>The error names the field that asked for more.\<close>

definition narrow :: "bool \<Rightarrow> worker_envelope \<Rightarrow> worker_envelope \<Rightarrow> string + worker_envelope" where
  "narrow cf parent req =
     (if \<not> list_all (\<lambda>r. list_ex (scope_subset cf r) (w_paths parent)) (w_paths req) then Inl ''paths''
      else
      let tools = tools_intersect (w_tools parent) (w_tools req) in
      and_then (narrow_gate (w_network parent) (w_network req) ''network'') (\<lambda>net.
      and_then (narrow_gate (destructive parent) (destructive req) ''destructive'') (\<lambda>destr.
      if delegation_depth parent - 1 < delegation_depth req then Inl ''delegation_depth''
      else Inr \<lparr>principal = principal req, w_paths = w_paths req, w_tools = tools, w_network = net,
                destructive = destr, delegation_depth = delegation_depth req,
                expires_at = min (expires_at parent) (expires_at req),
                token_budget = tighter_budget (token_budget parent) (token_budget req)\<rparr>)))"

definition envelope_subset :: "bool \<Rightarrow> worker_envelope \<Rightarrow> worker_envelope \<Rightarrow> bool" where
  "envelope_subset cf child parent \<longleftrightarrow>
     list_all (\<lambda>p. list_ex (scope_subset cf p) (w_paths parent)) (w_paths child)
     \<and> tools_subset (w_tools child) (w_tools parent)
     \<and> (\<not> w_network child \<or> w_network parent)
     \<and> (\<not> destructive child \<or> destructive parent)
     \<and> delegation_depth child \<le> delegation_depth parent
     \<and> expires_at child \<le> expires_at parent
     \<and> (case (token_budget parent, token_budget child) of
          (Some p, Some s) \<Rightarrow> s \<le> p
        | (Some _, None) \<Rightarrow> False
        | (None, _) \<Rightarrow> True)"

definition cannot_grow_text :: "string \<Rightarrow> string" where
  "cannot_grow_text field =
     ''delegation envelope cannot grow `'' @ field
     @ ''`: a worker may only narrow what its parent granted''"

section \<open>Scopes as component paths\<close>

text \<open>What the comparison of normalised texts means: containment of component lists.\<close>

definition scope_path :: "bool \<Rightarrow> string \<Rightarrow> string list option" where
  "scope_path cf text =
     (let segs = scope_segments text in
      if ''..'' \<in> set segs then None else Some (map (case_fold cf) segs))"

lemma case_fold_join: "case_fold cf (join_char (CHR ''/'') ws) = join_char (CHR ''/'') (map (case_fold cf) ws)"
proof (induction "CHR ''/''" ws rule: join_char.induct)
  case (3 w v vs)
  have "ascii_lower_char (CHR ''/'') = CHR ''/''" by code_simp
  with 3 show ?case by (cases cf) (simp_all add: case_fold_def ascii_lower_def)
qed (simp_all add: case_fold_def ascii_lower_def)

lemma slash_case_fold: "CHR ''/'' \<notin> set w \<Longrightarrow> CHR ''/'' \<notin> set (case_fold cf w)"
proof -
  have up: "of_char (CHR ''/'') = (47 :: nat)" by simp
  have "ascii_lower_char c = CHR ''/'' \<Longrightarrow> c = CHR ''/''" for c
  proof (cases "65 \<le> (of_char c :: nat) \<and> (of_char c :: nat) \<le> 90")
    case True
    assume l: "ascii_lower_char c = CHR ''/''"
    from True have "(of_char (ascii_lower_char c) :: nat) = of_char c + 32"
      by (simp add: ascii_lower_char_def Let_def)
    then show "c = CHR ''/''" using True l up by simp
  qed (auto simp: ascii_lower_char_def Let_def)
  then have img: "CHR ''/'' \<in> set (ascii_lower w) \<Longrightarrow> CHR ''/'' \<in> set w"
    unfolding ascii_lower_def set_map by (metis imageE)
  then show "CHR ''/'' \<notin> set w \<Longrightarrow> ?thesis" by (auto simp: case_fold_def)
qed

lemma scope_path_segments:
  assumes "scope_path cf text = Some ws" "w \<in> set ws"
  shows "w \<noteq> []" "CHR ''/'' \<notin> set w"
proof -
  obtain seg where seg: "seg \<in> set (scope_segments text)" "w = case_fold cf seg"
    using assms by (auto simp: scope_path_def Let_def split: if_splits)
  then have "seg \<noteq> []" "CHR ''/'' \<notin> set seg"
    by (auto simp: scope_segments_def dest: split_char_free)
  then show "w \<noteq> []" "CHR ''/'' \<notin> set w"
    using seg(2) slash_case_fold by (auto simp: case_fold_def)
qed

lemma scope_normalized_path:
  "scope_normalized cf text = map_option (join_char (CHR ''/'')) (scope_path cf text)"
  by (simp add: scope_normalized_def scope_path_def Let_def case_fold_join)

lemma joined_prefix:
  assumes c: "\<And>w. w \<in> set cs \<Longrightarrow> w \<noteq> [] \<and> d \<notin> set w"
    and p: "\<And>w. w \<in> set ps \<Longrightarrow> w \<noteq> [] \<and> d \<notin> set w"
  shows "(join_char d ps = [] \<or> join_char d cs = join_char d ps \<or> prefix (join_char d ps @ [d]) (join_char d cs))
     \<longleftrightarrow> prefix ps cs"
proof (cases "ps = []")
  case False
  then have ne: "join_char d ps \<noteq> []" using p by (subst join_char_Nil_iff) auto
  have sp: "split_char d (join_char d ps) = ps" using False p by (intro split_join) auto
  show ?thesis
  proof
    assume "join_char d ps = [] \<or> join_char d cs = join_char d ps \<or> prefix (join_char d ps @ [d]) (join_char d cs)"
    then have eq: "join_char d cs = join_char d ps \<or> (\<exists>rest. join_char d cs = join_char d ps @ d # rest)"
      using ne by (auto simp: prefix_def)
    then have "cs \<noteq> []" using ne by auto
    then have sc: "split_char d (join_char d cs) = cs" using c by (intro split_join) auto
    show "prefix ps cs" using eq
    proof
      assume "join_char d cs = join_char d ps"
      then show ?thesis using sp sc by simp
    next
      assume "\<exists>rest. join_char d cs = join_char d ps @ d # rest"
      then obtain rest where "join_char d cs = join_char d ps @ d # rest" ..
      then have "cs = ps @ split_char d rest" using sp sc split_char_append by metis
      then show ?thesis by simp
    qed
  next
    assume "prefix ps cs"
    then obtain zs where zs: "cs = ps @ zs" by (auto simp: prefix_def)
    show "join_char d ps = [] \<or> join_char d cs = join_char d ps \<or> prefix (join_char d ps @ [d]) (join_char d cs)"
      using zs False join_char_append [of ps zs d] by (cases "zs = []") auto
  qed
qed simp

lemma scope_subset_prefix:
  "scope_subset cf child parent \<longleftrightarrow>
     (\<exists>cs ps. scope_path cf child = Some cs \<and> scope_path cf parent = Some ps \<and> prefix ps cs)"
proof (cases "scope_path cf child"; cases "scope_path cf parent")
  fix cs ps assume paths: "scope_path cf child = Some cs" "scope_path cf parent = Some ps"
  have "(join_char (CHR ''/'') ps = [] \<or> join_char (CHR ''/'') cs = join_char (CHR ''/'') ps
      \<or> prefix (join_char (CHR ''/'') ps @ [CHR ''/'']) (join_char (CHR ''/'') cs)) \<longleftrightarrow> prefix ps cs"
    by (rule joined_prefix) (use scope_path_segments paths in blast)+
  then show ?thesis by (simp add: scope_subset_def scope_normalized_path paths)
qed (simp_all add: scope_subset_def scope_normalized_path)

lemma scope_subset_trans: "scope_subset cf a b \<Longrightarrow> scope_subset cf b c \<Longrightarrow> scope_subset cf a c"
  by (auto simp: scope_subset_prefix dest: prefix_order.trans)

section \<open>The root envelope (agent/mod.rs)\<close>

record worker_config =
  default_read_only :: bool
  deny_network :: bool
  default_depth :: nat
  max_depth :: nat

definition root_envelope :: "worker_config \<Rightarrow> worker_envelope" where
  "root_envelope cfg =
     \<lparr>principal = ''root'',
      w_paths = (if default_read_only cfg then [] else [''.'']),
      w_tools = (if default_read_only cfg then tools_all\<lparr>t_edit := False\<rparr> else tools_all),
      w_network = (\<not> deny_network cfg), destructive = (\<not> default_read_only cfg),
      delegation_depth = min (default_depth cfg) (max_depth cfg),
      expires_at = u64_max, token_budget = None\<rparr>"

text \<open>
  \<open>resolve_parent_envelope\<close>, the JSON reader being the argument \<open>parse\<close>, and the guard of
  \<open>zirv agent\<close> that refuses a session whose remaining depth is zero (\<open>agent/run.rs\<close>).
\<close>

definition resolve_parent_envelope ::
  "(string \<Rightarrow> string + worker_envelope) \<Rightarrow> worker_config \<Rightarrow> string option \<Rightarrow> string + worker_envelope" where
  "resolve_parent_envelope parse cfg raw =
     (case raw of
        Some text \<Rightarrow>
          if trim text = [] then Inr (root_envelope cfg)
          else (case parse text of
                  Inl e \<Rightarrow> Inl (''malformed ZIRV_ENVELOPE: '' @ e)
                | Inr env \<Rightarrow> Inr env)
      | None \<Rightarrow> Inr (root_envelope cfg))"

definition parse_envelope_env ::
  "(string \<Rightarrow> string + worker_envelope) \<Rightarrow> string option \<Rightarrow> worker_envelope option" where
  "parse_envelope_env parse raw =
     (case raw of
        None \<Rightarrow> None
      | Some text \<Rightarrow>
          if trim text = [] then None
          else Some (case parse text of Inl _ \<Rightarrow> locked | Inr env \<Rightarrow> env))"

definition delegation_refused :: "worker_envelope \<Rightarrow> string option" where
  "delegation_refused parent =
     (if delegation_depth parent = 0
      then Some ''this session's delegation envelope has depth 0; it may not run `zirv agent` itself''
      else None)"

section \<open>Facts\<close>

lemma narrow_gate_Inr [simp]: "narrow_gate p w f = Inr b \<longleftrightarrow> (w \<longrightarrow> p) \<and> b = w"
  by (auto simp: narrow_gate_def)

lemma narrow_Inr:
  "narrow cf parent req = Inr child \<longleftrightarrow>
     (\<forall>r\<in>set (w_paths req). \<exists>p\<in>set (w_paths parent). scope_subset cf r p)
     \<and> (w_network req \<longrightarrow> w_network parent) \<and> (destructive req \<longrightarrow> destructive parent)
     \<and> delegation_depth req \<le> delegation_depth parent - 1
     \<and> child = req\<lparr>w_tools := tools_intersect (w_tools parent) (w_tools req),
                    expires_at := min (expires_at parent) (expires_at req),
                    token_budget := tighter_budget (token_budget parent) (token_budget req)\<rparr>"
  by (auto simp: narrow_def and_then_Inr_iff list_all_iff list_ex_iff Let_def)

lemma tools_intersect_subset: "tools_subset (tools_intersect a b) a"
  by (simp add: tools_subset_def tools_intersect_def)

lemma tools_subset_trans: "tools_subset a b \<Longrightarrow> tools_subset b c \<Longrightarrow> tools_subset a c"
  by (auto simp: tools_subset_def)

lemma tighter_budget_le:
  "case (p, tighter_budget p r) of
     (Some b, Some s) \<Rightarrow> s \<le> b | (Some _, None) \<Rightarrow> False | (None, _) \<Rightarrow> True"
  by (cases p; cases r) simp_all

lemma narrow_subset: "narrow cf parent req = Inr child \<Longrightarrow> envelope_subset cf child parent"
  using tighter_budget_le [of "token_budget parent" "token_budget req"]
  by (auto simp: narrow_Inr envelope_subset_def list_all_iff list_ex_iff tools_intersect_subset
      simp del: tighter_budget.simps)

lemma narrow_depth: "narrow cf parent req = Inr child \<Longrightarrow> delegation_depth child \<le> delegation_depth parent - 1"
  by (simp add: narrow_Inr)

lemma envelope_subset_trans:
  assumes "envelope_subset cf a b" "envelope_subset cf b c"
  shows "envelope_subset cf a c"
proof -
  have "\<exists>r\<in>set (w_paths c). scope_subset cf p r" if "p \<in> set (w_paths a)" for p
    using that assms scope_subset_trans unfolding envelope_subset_def list_all_iff list_ex_iff by metis
  moreover have "tools_subset (w_tools a) (w_tools c)"
    using assms tools_subset_trans by (auto simp: envelope_subset_def)
  moreover have "case (token_budget c, token_budget a) of
          (Some p, Some s) \<Rightarrow> s \<le> p | (Some _, None) \<Rightarrow> False | (None, _) \<Rightarrow> True"
    using assms by (auto simp: envelope_subset_def split: option.splits)
  ultimately show ?thesis
    using assms by (auto simp: envelope_subset_def list_all_iff list_ex_iff)
qed

text \<open>The paths an envelope lets a worker write, as component lists.\<close>

definition may_write_path :: "bool \<Rightarrow> worker_envelope \<Rightarrow> string list \<Rightarrow> bool" where
  "may_write_path cf e path \<longleftrightarrow> (\<exists>p\<in>set (w_paths e). \<exists>ps. scope_path cf p = Some ps \<and> prefix ps path)"

lemma subset_may_write_path:
  assumes "envelope_subset cf a b" "may_write_path cf a path"
  shows "may_write_path cf b path"
proof -
  from assms(2) obtain p ps where p: "p \<in> set (w_paths a)" "scope_path cf p = Some ps" "prefix ps path"
    by (auto simp: may_write_path_def)
  with assms(1) obtain q where "q \<in> set (w_paths b)" "scope_subset cf p q"
    by (auto simp: envelope_subset_def list_all_iff list_ex_iff)
  then show ?thesis
    using p by (auto simp: may_write_path_def scope_subset_prefix dest: prefix_order.trans)
qed

text \<open>A chain of delegations: each step passes the depth guard and narrows.\<close>

inductive delegated :: "bool \<Rightarrow> worker_envelope \<Rightarrow> nat \<Rightarrow> worker_envelope \<Rightarrow> bool" for cf e0 where
  start: "delegated cf e0 0 e0"
| hop: "delegated cf e0 n e \<Longrightarrow> delegation_refused e = None \<Longrightarrow> narrow cf e req = Inr child
        \<Longrightarrow> delegated cf e0 (Suc n) child"

inductive_cases delegated_SucE: "delegated cf e0 (Suc n) e"

lemma delegated_depth: "delegated cf e0 n e \<Longrightarrow> n + delegation_depth e \<le> delegation_depth e0"
proof (induction rule: delegated.induct)
  case (hop n e req child)
  then show ?case using narrow_depth [OF hop.hyps(3)]
    by (auto simp: delegation_refused_def split: if_splits)
qed simp

lemma delegated_subset: "delegated cf e0 n e \<Longrightarrow> 0 < n \<Longrightarrow> envelope_subset cf e e0"
proof (induction rule: delegated.induct)
  case (hop n e req child)
  have step: "envelope_subset cf child e" using hop.hyps(3) by (rule narrow_subset)
  show ?case
  proof (cases "n = 0")
    case True
    with hop.hyps(1) have "delegated cf e0 0 e" by simp
    then have "e = e0" by (cases rule: delegated.cases) simp_all
    then show ?thesis using step by simp
  next
    case False
    then show ?thesis using envelope_subset_trans [OF step] hop.IH by simp
  qed
qed simp

section \<open>The properties\<close>


text \<open>A request that states no path scope and no depth is refused for one reason only: the
  parent itself holds a write root with a \<open>..\<close> segment, which is not contained even in itself, and
  the request writes. Otherwise the worker gets the parent's roots (none when read-only), one hop
  less, the parent's expiry and the tighter budget.\<close>

theorem unstated_request_is_granted:
  "narrow cf parent (requested parent who [] no_network read_only None budget) =
     (if \<not> read_only \<and> (\<exists>p\<in>set (w_paths parent). scope_path cf p = None) then Inl ''paths''
      else Inr \<lparr>principal = who, w_paths = (if read_only then [] else w_paths parent),
                w_tools = (if read_only then (w_tools parent)\<lparr>t_edit := False\<rparr> else w_tools parent),
                w_network = (w_network parent \<and> \<not> no_network), destructive = (destructive parent \<and> \<not> read_only),
                delegation_depth = delegation_depth parent - 1, expires_at = expires_at parent,
                token_budget = tighter_budget (token_budget parent) budget\<rparr>)"
proof -
  have self: "scope_subset cf p p \<longleftrightarrow> scope_path cf p \<noteq> None" for p
    by (auto simp: scope_subset_prefix)
  have refuse: "narrow cf parent req = Inl ''paths''"
    if "r \<in> set (w_paths req)" "scope_path cf r = None" for req r
  proof -
    have "\<not> list_ex (scope_subset cf r) (w_paths parent)"
      using that(2) by (auto simp: list_ex_iff scope_subset_prefix)
    then show ?thesis using that(1) by (auto simp: narrow_def list_all_iff)
  qed
  show ?thesis
  proof (cases "\<not> read_only \<and> (\<exists>p\<in>set (w_paths parent). scope_path cf p = None)")
    case True
    then show ?thesis using refuse by (fastforce simp: requested_def)
  next
    case False
    then have "\<forall>r\<in>set (if read_only then [] else w_paths parent). \<exists>p\<in>set (w_paths parent). scope_subset cf r p"
      using self by (cases read_only) auto
    then show ?thesis using False
      by (auto simp: narrow_Inr requested_def tools_intersect_def)
  qed
qed

text \<open>Normalisation forgets that a scope is absolute. A session with the ordinary root envelope,
  whose only write root is the relative \<open>.\<close>, obtains for a worker any scope without a \<open>..\<close> segment,
  absolute ones included, and the worker's root is then the text as given; and an absolute scope is
  contained in the relative scope of the same spelling.\<close>

theorem relative_root_grants_absolute_scopes:
  assumes "\<not> default_read_only cfg" "scope_path cf text \<noteq> None"
  shows "(\<exists>child. narrow cf (root_envelope cfg) (requested (root_envelope cfg) who [text] no_network False None budget)
       = Inr child \<and> w_paths child = [text])
     \<and> scope_subset cf (''/'' @ text) text"
proof -
  have dot: "scope_path cf ''.'' = Some []" by (simp add: scope_path_def scope_segments_def replace_char_def)
  have ok: "scope_subset cf text ''.''" using assms(2) by (auto simp: scope_subset_prefix dot)
  have "scope_segments (''/'' @ text) = scope_segments text"
    by (simp add: scope_segments_def replace_char_def)
  then have "scope_path cf (''/'' @ text) = scope_path cf text" by (simp add: scope_path_def)
  then have "scope_subset cf (''/'' @ text) text" using assms(2) by (auto simp: scope_subset_prefix)
  then show ?thesis
    using ok assms(1) by (auto simp: narrow_Inr root_envelope_def requested_def)
qed

text \<open>Witnesses: two hops from the root of an operator who allows a depth of three.\<close>

definition sample_worker_config :: worker_config where
  "sample_worker_config = \<lparr>default_read_only = False, deny_network = False, default_depth = 3, max_depth = 5\<rparr>"

definition sample_child :: worker_envelope where
  "sample_child =
     (root_envelope sample_worker_config)\<lparr>principal := ''root/a1'', w_paths := [''src''], w_network := False,
        delegation_depth := 2, token_budget := Some 1000\<rparr>"

definition sample_grandchild :: worker_envelope where
  "sample_grandchild =
     sample_child\<lparr>principal := ''root/a1/b2'', w_paths := [''./src/ctx''], delegation_depth := 1\<rparr>"

lemma sample_delegated: "delegated False (root_envelope sample_worker_config) 2 sample_grandchild"
proof -
  let ?root = "root_envelope sample_worker_config"
  have inside: "scope_subset False ''src'' ''.''" "scope_subset False ''./src/ctx'' ''src''" by code_simp+
  have hop1: "narrow False ?root (requested ?root ''root/a1'' [''src''] True False None (Some 1000)) = Inr sample_child"
    by (simp add: narrow_Inr inside requested_def root_envelope_def sample_worker_config_def sample_child_def
        tools_intersect_def tools_all_def)
  have hop2: "narrow False sample_child
      (requested sample_child ''root/a1/b2'' [''./src/ctx''] False False None (Some 2000)) = Inr sample_grandchild"
    by (simp add: narrow_Inr inside requested_def root_envelope_def sample_worker_config_def sample_child_def
        sample_grandchild_def tools_intersect_def tools_all_def)
  have guard: "delegation_refused ?root = None" "delegation_refused sample_child = None"
    by (simp_all add: delegation_refused_def root_envelope_def sample_worker_config_def sample_child_def)
  show ?thesis
    using delegated.hop [OF delegated.hop [OF delegated.start guard(1) hop1] guard(2) hop2]
    by (simp add: numeral_2_eq_2)
qed


lemma relative_root_grants_absolute_scopes_witness:
  "(\<exists>child. narrow False (root_envelope sample_worker_config)
       (requested (root_envelope sample_worker_config) ''root/a1'' [''/etc''] False False None None)
       = Inr child \<and> w_paths child = [''/etc''])
   \<and> scope_subset False ''//etc'' ''/etc''"
proof -
  have "scope_path False ''/etc'' \<noteq> None" by code_simp
  then show ?thesis
    using relative_root_grants_absolute_scopes [of sample_worker_config False "''/etc''" "''root/a1''" False None]
    by (simp add: sample_worker_config_def)
qed

end
