(* ===== verification/Safety_Policy.thy ===== *)
theory Safety_Policy
  imports Policy "HOL-Library.While_Combinator"
begin

text \<open>
  The command safety policy, \<open>safety/mod.rs\<close> and \<open>safety/policy.rs\<close>: verdicts, rules and their
  origins, the glob matcher, and the layering of the built-in posture, the operator's
  configuration, the repository's configuration and the environment (\<open>resolve\<close>).

  The glob matcher is the source's loop over two cursors, run by \<open>while_option\<close>, whose value is
  \<open>None\<close> when the loop does not end; that it always ends is a lemma. Patterns and commands are
  lists of characters. The shipped posture tables of \<open>adapters/launch_policy.rs\<close>, the patterns the
  command schema generates and the two program lists of \<open>safety/retry.rs\<close> are data; they are
  collected in a record argument (\<open>posture\<close>). Decoding a TOML value is an argument as in the
  theory of the permissions policy.
\<close>

section \<open>Verdicts and rules\<close>

datatype verdict = VAllow | VAsk | VDeny

fun verdict_label :: "verdict \<Rightarrow> string" where
  "verdict_label VAllow = ''allow''"
| "verdict_label VAsk = ''ask''"
| "verdict_label VDeny = ''deny''"

fun exit_code :: "verdict \<Rightarrow> int" where
  "exit_code VAllow = 0"
| "exit_code VAsk = 1"
| "exit_code VDeny = 2"

definition verdict_parse :: "string \<Rightarrow> verdict option" where
  "verdict_parse raw =
     (let t = trim raw in
      if t = ''allow'' then Some VAllow
      else if t = ''ask'' then Some VAsk
      else if t = ''deny'' then Some VDeny
      else None)"

datatype origin = BuiltIn | Operator | Repo | Env

fun origin_label :: "origin \<Rightarrow> string" where
  "origin_label BuiltIn = ''built-in''"
| "origin_label Operator = ''~/.zirv/ctx.toml''"
| "origin_label Repo = ''repo .zirv/ctx.toml''"
| "origin_label Env = ''environment''"

record rule =
  pattern :: string
  rule_origin :: origin

datatype sql_mode = SqlOn | SqlOff

definition sql_parse :: "string \<Rightarrow> sql_mode option" where
  "sql_parse raw =
     (let t = trim raw in if t = ''on'' then Some SqlOn else if t = ''off'' then Some SqlOff else None)"

record safety_policy =
  deny :: "rule list"
  ask :: "rule list"
  allow :: "rule list"
  escape_allow :: "rule list"
  default_headless :: verdict
  interactive_default :: verdict
  sql :: sql_mode
  denial_breaker_threshold :: nat
  identical_command_warn_after :: nat
  identical_command_refuse_after :: nat

definition default_verdict :: "safety_policy \<Rightarrow> launch_mode \<Rightarrow> verdict" where
  "default_verdict p m = (if m = Interactive then interactive_default p else default_headless p)"

section \<open>Globs\<close>

record glob_state =
  g_pi :: nat
  g_ti :: nat
  g_star :: "nat option"
  g_from :: nat
  g_failed :: bool

definition glob_cond :: "string \<Rightarrow> glob_state \<Rightarrow> bool" where
  "glob_cond t s \<longleftrightarrow> \<not> g_failed s \<and> g_ti s < length t"

definition glob_step :: "string \<Rightarrow> string \<Rightarrow> glob_state \<Rightarrow> glob_state" where
  "glob_step p t s =
     (if g_pi s < length p \<and> p ! g_pi s = CHR ''*''
      then s\<lparr>g_star := Some (g_pi s), g_from := g_ti s, g_pi := g_pi s + 1\<rparr>
      else if g_pi s < length p \<and> p ! g_pi s = t ! g_ti s
      then s\<lparr>g_pi := g_pi s + 1, g_ti := g_ti s + 1\<rparr>
      else case g_star s of
        Some k \<Rightarrow> s\<lparr>g_pi := k + 1, g_from := g_from s + 1, g_ti := g_from s + 1\<rparr>
      | None \<Rightarrow> s\<lparr>g_failed := True\<rparr>)"

definition glob_start :: glob_state where
  "glob_start = \<lparr>g_pi = 0, g_ti = 0, g_star = None, g_from = 0, g_failed = False\<rparr>"

fun skip_stars :: "string \<Rightarrow> string" where
  "skip_stars [] = []"
| "skip_stars (c # cs) = (if c = CHR ''*'' then skip_stars cs else c # cs)"

definition strip_suffix :: "string \<Rightarrow> string \<Rightarrow> string option" where
  "strip_suffix suf s = (if suffix suf s then Some (take (length s - length suf) s) else None)"

definition glob_match :: "string \<Rightarrow> string \<Rightarrow> bool option" where
  "glob_match p t =
     (if strip_suffix '' *'' p = Some t then Some True
      else map_option (\<lambda>s. \<not> g_failed s \<and> skip_stars (drop (g_pi s) p) = [])
             (while_option (glob_cond t) (glob_step p t) glob_start))"

text \<open>The declarative meaning: a star is any run of characters, every other character itself.\<close>

fun globs :: "string \<Rightarrow> string \<Rightarrow> bool" where
  "globs [] t \<longleftrightarrow> t = []"
| "globs (c # p) t \<longleftrightarrow>
     (if c = CHR ''*'' then globs p t \<or> (case t of [] \<Rightarrow> False | _ # u \<Rightarrow> globs (c # p) u)
      else case t of [] \<Rightarrow> False | d # u \<Rightarrow> c = d \<and> globs p u)"

declare globs.simps(2) [simp del]

lemma globs_star: "globs (CHR ''*'' # p) t \<longleftrightarrow> (\<exists>a b. t = a @ b \<and> globs p b)"
proof (induction t)
  case Nil
  then show ?case by (subst globs.simps) simp
next
  case (Cons d u)
  have "globs (CHR ''*'' # p) (d # u) \<longleftrightarrow> globs p (d # u) \<or> globs (CHR ''*'' # p) u"
    by (subst globs.simps) simp
  also have "\<dots> \<longleftrightarrow> (\<exists>a b. d # u = a @ b \<and> globs p b)"
    using Cons by (auto simp: Cons_eq_append_conv)
  finally show ?case .
qed

lemma globs_star_step:
  "globs (CHR ''*'' # p) (d # u) \<longleftrightarrow> globs p (d # u) \<or> globs (CHR ''*'' # p) u"
  by (subst globs.simps) simp

lemma globs_char:
  "c \<noteq> CHR ''*'' \<Longrightarrow> globs (c # p) t \<longleftrightarrow> (\<exists>u. t = c # u \<and> globs p u)"
  by (subst globs.simps) (cases t; auto)

lemma globs_literal:
  "CHR ''*'' \<notin> set l \<Longrightarrow> globs (l @ p) t \<longleftrightarrow> (\<exists>u. t = l @ u \<and> globs p u)"
  by (induction l arbitrary: t) (auto simp: globs_char)

lemma globs_Nil: "globs p [] \<longleftrightarrow> skip_stars p = []"
  by (induction p) (auto simp: globs_star globs_char globs.simps(2))

text \<open>
  The greedy step: once the literal run after a star has matched at its leftmost place, only
  what follows that place matters when the next star is reached.
\<close>

lemma globs_next_star:
  assumes "CHR ''*'' \<notin> set l"
  shows "globs (CHR ''*'' # l @ CHR ''*'' # r) (l @ u) \<longleftrightarrow> globs (CHR ''*'' # r) u"
proof
  assume "globs (CHR ''*'' # r) u"
  then show "globs (CHR ''*'' # l @ CHR ''*'' # r) (l @ u)"
    using assms by (subst globs_star) (auto simp: globs_literal intro: exI [of _ "[]"])
next
  assume "globs (CHR ''*'' # l @ CHR ''*'' # r) (l @ u)"
  then obtain a v where v: "l @ u = a @ l @ v" "globs (CHR ''*'' # r) v"
    by (subst (asm) globs_star) (auto simp: globs_literal [OF assms])
  then obtain b c where c: "v = b @ c" "globs r c" by (auto simp: globs_star)
  have "u = drop (length l) (l @ u)" by simp
  also have "\<dots> = drop (length l) ((a @ l @ b) @ c)" by (simp only: v(1) c(1) append.assoc)
  also have "\<dots> = drop (length l) (a @ l @ b) @ c" by (subst drop_append) simp
  finally have "\<exists>w. u = w @ c" ..
  then show "globs (CHR ''*'' # r) u" using c(2) by (auto simp: globs_star)
qed

lemma globs_last_run:
  assumes "CHR ''*'' \<notin> set l"
  shows "globs (CHR ''*'' # l @ r) l \<longleftrightarrow> globs r []"
proof
  assume "globs r []"
  then show "globs (CHR ''*'' # l @ r) l"
    using assms by (subst globs_star) (auto simp: globs_literal intro: exI [of _ "[]"])
next
  assume "globs (CHR ''*'' # l @ r) l"
  then obtain a u where u: "l = a @ l @ u" "globs r u" by (subst (asm) globs_star) (auto simp: globs_literal [OF assms])
  from arg_cong [OF u(1), of length] have "u = []" by simp
  then show "globs r []" using u(2) by simp
qed

section \<open>The matcher meets the meaning\<close>

definition glob_inv :: "string \<Rightarrow> string \<Rightarrow> glob_state \<Rightarrow> bool" where
  "glob_inv p t s \<longleftrightarrow>
     g_pi s \<le> length p \<and> g_ti s \<le> length t \<and> g_from s \<le> g_ti s
     \<and> (g_failed s \<longrightarrow> \<not> globs p t)
     \<and> (case g_star s of
          None \<Rightarrow> globs p t = globs (drop (g_pi s) p) (drop (g_ti s) t)
        | Some k \<Rightarrow> k < g_pi s
            \<and> (\<exists>l. CHR ''*'' \<notin> set l \<and> drop (k + 1) p = l @ drop (g_pi s) p
                \<and> drop (g_from s) t = l @ drop (g_ti s) t
                \<and> globs p t = globs (CHR ''*'' # drop (k + 1) p) (drop (g_from s) t)))"

definition glob_weight :: "string \<Rightarrow> string \<Rightarrow> nat" where
  "glob_weight p t = length p + length t + 1"

definition glob_measure :: "string \<Rightarrow> string \<Rightarrow> glob_state \<Rightarrow> nat" where
  "glob_measure p t s =
     (if g_failed s then 0
      else Suc ((length t - g_from s) * glob_weight p t + (length t - g_ti s) + (length p - g_pi s)))"

lemma glob_inv_start: "glob_inv p t glob_start"
  by (simp add: glob_inv_def glob_start_def)

lemma globs_mismatch:
  assumes "ti < length t" "\<not> (pi < length p \<and> p ! pi = CHR ''*'')" "\<not> (pi < length p \<and> p ! pi = t ! ti)"
  shows "\<not> globs (drop pi p) (drop ti t)"
proof (cases "pi < length p")
  case True
  then have "drop pi p = p ! pi # drop (Suc pi) p" by (simp add: Cons_nth_drop_Suc)
  moreover have "drop ti t = t ! ti # drop (Suc ti) t" using assms(1) by (simp add: Cons_nth_drop_Suc)
  ultimately show ?thesis using assms True by (auto simp: globs_char)
qed (use assms in simp)

lemma glob_inv_star:
  assumes inv: "glob_inv p t s" and at: "g_pi s < length p" "p ! g_pi s = CHR ''*''"
  shows "glob_inv p t (s\<lparr>g_star := Some (g_pi s), g_from := g_ti s, g_pi := g_pi s + 1\<rparr>)"
proof -
  have here: "drop (g_pi s) p = CHR ''*'' # drop (Suc (g_pi s)) p"
    using at by (metis Cons_nth_drop_Suc)
  have "globs p t = globs (CHR ''*'' # drop (Suc (g_pi s)) p) (drop (g_ti s) t)"
  proof (cases "g_star s")
    case None
    then show ?thesis using inv here by (simp add: glob_inv_def)
  next
    case (Some k)
    then obtain l where l: "CHR ''*'' \<notin> set l" "drop (k + 1) p = l @ drop (g_pi s) p"
      "drop (g_from s) t = l @ drop (g_ti s) t"
      "globs p t = globs (CHR ''*'' # drop (k + 1) p) (drop (g_from s) t)"
      using inv by (auto simp: glob_inv_def)
    have "globs p t = globs (CHR ''*'' # l @ CHR ''*'' # drop (Suc (g_pi s)) p) (l @ drop (g_ti s) t)"
      by (simp only: l(2-4) here)
    then show ?thesis by (simp only: globs_next_star [OF l(1)])
  qed
  then show ?thesis using inv at by (simp add: glob_inv_def)
qed

lemma glob_inv_char:
  assumes inv: "glob_inv p t s"
    and at: "g_pi s < length p" "p ! g_pi s \<noteq> CHR ''*''" "p ! g_pi s = t ! g_ti s" "g_ti s < length t"
  shows "glob_inv p t (s\<lparr>g_pi := g_pi s + 1, g_ti := g_ti s + 1\<rparr>)"
proof -
  have here: "drop (g_pi s) p = p ! g_pi s # drop (Suc (g_pi s)) p"
    "drop (g_ti s) t = p ! g_pi s # drop (Suc (g_ti s)) t"
    using at by (metis Cons_nth_drop_Suc)+
  show ?thesis
  proof (cases "g_star s")
    case None
    then show ?thesis using inv at here by (auto simp: glob_inv_def globs_char)
  next
    case (Some k)
    then obtain l where l: "CHR ''*'' \<notin> set l" "drop (k + 1) p = l @ drop (g_pi s) p"
      "drop (g_from s) t = l @ drop (g_ti s) t"
      "globs p t = globs (CHR ''*'' # drop (k + 1) p) (drop (g_from s) t)"
      using inv by (auto simp: glob_inv_def)
    let ?l = "l @ [p ! g_pi s]"
    have "CHR ''*'' \<notin> set ?l" "drop (k + 1) p = ?l @ drop (Suc (g_pi s)) p"
      "drop (g_from s) t = ?l @ drop (Suc (g_ti s)) t"
      using l at(2) here by simp_all
    then show ?thesis using inv at l(4) Some by (auto simp: glob_inv_def)
  qed
qed

lemma glob_inv_back:
  assumes inv: "glob_inv p t s" and k: "g_star s = Some k" and ti: "g_ti s < length t"
    and no: "\<not> globs (drop (g_pi s) p) (drop (g_ti s) t)"
  shows "glob_inv p t (s\<lparr>g_pi := k + 1, g_from := g_from s + 1, g_ti := g_from s + 1\<rparr>)"
proof -
  obtain l where l: "CHR ''*'' \<notin> set l" "drop (k + 1) p = l @ drop (g_pi s) p"
      "drop (g_from s) t = l @ drop (g_ti s) t"
      "globs p t = globs (CHR ''*'' # drop (k + 1) p) (drop (g_from s) t)"
    using inv k by (auto simp: glob_inv_def)
  have from_lt: "g_from s < length t" using inv ti by (auto simp: glob_inv_def)
  then obtain d where d: "drop (g_from s) t = d # drop (Suc (g_from s)) t" by (metis Cons_nth_drop_Suc)
  have "\<not> globs (drop (k + 1) p) (drop (g_from s) t)"
    unfolding l(2,3) using no by (auto simp: globs_literal [OF l(1)])
  then have "globs p t = globs (CHR ''*'' # drop (k + 1) p) (drop (Suc (g_from s)) t)"
    using l(4) d by (simp add: globs_star_step)
  then show ?thesis using inv k from_lt by (auto simp: glob_inv_def)
qed

lemma glob_step_ok:
  assumes inv: "glob_inv p t s" and run: "glob_cond t s"
  shows "glob_inv p t (glob_step p t s) \<and> glob_measure p t (glob_step p t s) < glob_measure p t s"
proof -
  have ti: "g_ti s < length t" and nf: "\<not> g_failed s" using run by (auto simp: glob_cond_def)
  consider (star) "g_pi s < length p" "p ! g_pi s = CHR ''*''"
    | (char) "g_pi s < length p" "p ! g_pi s \<noteq> CHR ''*''" "p ! g_pi s = t ! g_ti s"
    | (miss) "\<not> (g_pi s < length p \<and> p ! g_pi s = CHR ''*'')" "\<not> (g_pi s < length p \<and> p ! g_pi s = t ! g_ti s)"
    by blast
  then show ?thesis
  proof cases
    case star
    have "g_from s \<le> g_ti s" using inv by (simp add: glob_inv_def)
    then have "(length t - g_ti s) * glob_weight p t \<le> (length t - g_from s) * glob_weight p t"
      by (intro mult_le_mono1 diff_le_mono2)
    moreover have "length p - (g_pi s + 1) < length p - g_pi s" using star by simp
    moreover have "glob_measure p t (glob_step p t s) =
        Suc ((length t - g_ti s) * glob_weight p t + (length t - g_ti s) + (length p - (g_pi s + 1)))"
      using star nf by (simp add: glob_step_def glob_measure_def)
    moreover have "glob_measure p t s =
        Suc ((length t - g_from s) * glob_weight p t + (length t - g_ti s) + (length p - g_pi s))"
      using nf by (simp add: glob_measure_def)
    moreover have "glob_inv p t (glob_step p t s)"
      using glob_inv_star [OF inv star] star by (simp add: glob_step_def)
    ultimately show ?thesis by linarith
  next
    case char
    then show ?thesis using glob_inv_char [OF inv char ti] ti nf
      by (simp add: glob_step_def glob_measure_def)
  next
    case miss
    note no = globs_mismatch [OF ti miss]
    show ?thesis
    proof (cases "g_star s")
      case None
      have "\<not> globs p t" using inv no None by (simp add: glob_inv_def)
      then show ?thesis using inv None miss nf
        by (auto simp: glob_step_def glob_measure_def glob_inv_def)
    next
      case (Some k)
      have "g_from s < length t" using inv ti by (auto simp: glob_inv_def)
      then obtain n where n: "length t - g_from s = Suc n" by (metis Suc_diff_Suc)
      then have "length t - (g_from s + 1) = n" by simp
      then show ?thesis using glob_inv_back [OF inv Some ti no] miss nf Some n
        by (auto simp: glob_step_def glob_measure_def glob_weight_def)
    qed
  qed
qed

lemma glob_inv_end:
  assumes inv: "glob_inv p t s" and stop: "\<not> glob_cond t s"
  shows "globs p t \<longleftrightarrow> \<not> g_failed s \<and> skip_stars (drop (g_pi s) p) = []"
proof (cases "g_failed s")
  case False
  then have ti: "g_ti s = length t" using inv stop by (auto simp: glob_cond_def glob_inv_def)
  show ?thesis
  proof (cases "g_star s")
    case None
    then show ?thesis using inv False ti by (simp add: glob_inv_def globs_Nil)
  next
    case (Some k)
    then obtain l where l: "CHR ''*'' \<notin> set l" "drop (k + 1) p = l @ drop (g_pi s) p"
      "drop (g_from s) t = l" "globs p t = globs (CHR ''*'' # drop (k + 1) p) l"
      using inv ti by (auto simp: glob_inv_def)
    have "globs (CHR ''*'' # l @ drop (g_pi s) p) l \<longleftrightarrow> globs (drop (g_pi s) p) []"
      by (rule globs_last_run [OF l(1)])
    then show ?thesis using l False by (simp add: globs_Nil)
  qed
qed (use inv in \<open>simp add: glob_inv_def\<close>)

lemma glob_loop_ends:
  "\<exists>s. while_option (glob_cond t) (glob_step p t) glob_start = Some s
     \<and> (globs p t \<longleftrightarrow> \<not> g_failed s \<and> skip_stars (drop (g_pi s) p) = [])"
proof -
  obtain s where s: "while_option (glob_cond t) (glob_step p t) glob_start = Some s"
    using measure_while_option_Some [of "glob_inv p t" "glob_cond t" "glob_step p t" "glob_measure p t" glob_start]
      glob_step_ok glob_inv_start by blast
  have "glob_inv p t s"
    using while_option_rule [of "glob_inv p t", OF _ s] glob_step_ok glob_inv_start by blast
  moreover have "\<not> glob_cond t s" using while_option_stop [OF s] .
  ultimately show ?thesis using glob_inv_end s by blast
qed

section \<open>The built-in rules (safety/rules.rs, safety/retry.rs)\<close>

record posture =
  shipped_deny :: "(string \<times> string) list"
  shipped_ask :: "(string \<times> string) list"
  shipped_allow :: "(string \<times> string) list"
  reserved_patterns :: "string list"
  escape_builtin_programs :: "string list"
  escape_additional_programs :: "string list"

definition strip_prefix :: "string \<Rightarrow> string \<Rightarrow> string option" where
  "strip_prefix pre s = (if prefix pre s then Some (drop (length pre) s) else None)"

definition command_pattern_from_bash_rule :: "string \<Rightarrow> string option" where
  "command_pattern_from_bash_rule r = Option.bind (strip_prefix ''Bash('' r) (strip_suffix '')'')"

definition posture_rules :: "(string \<times> string) list \<Rightarrow> rule list" where
  "posture_rules rows =
     map (\<lambda>pat. \<lparr>pattern = pat, rule_origin = BuiltIn\<rparr>)
       (List.map_filter (\<lambda>row. command_pattern_from_bash_rule (fst row)) rows)"

definition builtin_deny :: "posture \<Rightarrow> rule list" where
  "builtin_deny S = posture_rules (shipped_deny S)"

definition builtin_ask :: "posture \<Rightarrow> rule list" where
  "builtin_ask S = posture_rules (shipped_ask S)"

definition builtin_allow :: "posture \<Rightarrow> rule list" where
  "builtin_allow S =
     posture_rules (shipped_allow S)
     @ map (\<lambda>pat. \<lparr>pattern = pat, rule_origin = BuiltIn\<rparr>) (reserved_patterns S)"

definition builtin_escape_allow :: "posture \<Rightarrow> rule list" where
  "builtin_escape_allow S =
     filter (\<lambda>r. let program = hd (split_char (CHR '' '') (pattern r)) in
                program \<in> set (escape_builtin_programs S) \<or> program \<in> set (escape_additional_programs S))
       (builtin_allow S)"

definition default_safety_policy :: "posture \<Rightarrow> safety_policy" where
  "default_safety_policy S =
     \<lparr>deny = builtin_deny S, ask = builtin_ask S, allow = builtin_allow S,
      escape_allow = builtin_escape_allow S, default_headless = VAsk, interactive_default = VAllow,
      sql = SqlOn, denial_breaker_threshold = 3, identical_command_warn_after = 2,
      identical_command_refuse_after = 5\<rparr>"

section \<open>Layers\<close>

record safety_layer =
  l_deny :: "string list"
  l_ask :: "string list"
  l_allow :: "string list"
  l_escape_allow :: "string list"
  l_default :: "verdict option"
  l_interactive_default :: "verdict option"
  l_sql :: "sql_mode option"
  l_denial_breaker :: "nat option"
  l_warn_after :: "nat option"
  l_refuse_after :: "nat option"

definition default_layer :: safety_layer where
  "default_layer =
     \<lparr>l_deny = [], l_ask = [], l_allow = [], l_escape_allow = [], l_default = None,
      l_interactive_default = None, l_sql = None, l_denial_breaker = None, l_warn_after = None,
      l_refuse_after = None\<rparr>"

record 't safety_decoder =
  dec_strings :: "'t \<Rightarrow> string list option"
  dec_verdict :: "'t \<Rightarrow> verdict option"
  dec_sql :: "'t \<Rightarrow> sql_mode option"
  dec_u32 :: "'t \<Rightarrow> nat option"

definition read_safety_entry :: "'t safety_decoder \<Rightarrow> safety_layer \<Rightarrow> string \<times> 't \<Rightarrow> safety_layer option" where
  "read_safety_entry D l e = (case e of (k, v) \<Rightarrow>
     if k = ''deny'' then map_option (\<lambda>x. l\<lparr>l_deny := x\<rparr>) (dec_strings D v)
     else if k = ''ask'' then map_option (\<lambda>x. l\<lparr>l_ask := x\<rparr>) (dec_strings D v)
     else if k = ''allow'' then map_option (\<lambda>x. l\<lparr>l_allow := x\<rparr>) (dec_strings D v)
     else if k = ''escape_allow'' then map_option (\<lambda>x. l\<lparr>l_escape_allow := x\<rparr>) (dec_strings D v)
     else if k = ''default'' then map_option (\<lambda>x. l\<lparr>l_default := Some x\<rparr>) (dec_verdict D v)
     else if k = ''interactive_default'' then map_option (\<lambda>x. l\<lparr>l_interactive_default := Some x\<rparr>) (dec_verdict D v)
     else if k = ''sql'' then map_option (\<lambda>x. l\<lparr>l_sql := Some x\<rparr>) (dec_sql D v)
     else if k = ''denial_breaker_threshold'' then map_option (\<lambda>x. l\<lparr>l_denial_breaker := Some x\<rparr>) (dec_u32 D v)
     else if k = ''identical_command_warn_after'' then map_option (\<lambda>x. l\<lparr>l_warn_after := Some x\<rparr>) (dec_u32 D v)
     else if k = ''identical_command_refuse_after'' then map_option (\<lambda>x. l\<lparr>l_refuse_after := Some x\<rparr>) (dec_u32 D v)
     else None)"

fun read_safety_entries :: "'t safety_decoder \<Rightarrow> safety_layer \<Rightarrow> (string \<times> 't) list \<Rightarrow> safety_layer option" where
  "read_safety_entries D l [] = Some l"
| "read_safety_entries D l (e # es) = Option.bind (read_safety_entry D l e) (\<lambda>m. read_safety_entries D m es)"

datatype safety_error =
    InvalidSafetySection string
  | BadVerdict string string
  | BadSqlMode string string

definition parse_safety_layer ::
  "'t safety_decoder \<Rightarrow> 't policy_layer option \<Rightarrow> string \<Rightarrow> safety_error + safety_layer" where
  "parse_safety_layer D layer from =
     (case layer of
        None \<Rightarrow> Inr default_layer
      | Some es \<Rightarrow>
          (case read_safety_entries D default_layer es of
             None \<Rightarrow> Inl (InvalidSafetySection from)
           | Some l \<Rightarrow> Inr l))"

definition rules_from :: "string list \<Rightarrow> origin \<Rightarrow> rule list" where
  "rules_from pats from = map (\<lambda>pat. \<lparr>pattern = pat, rule_origin = from\<rparr>) pats"

definition split_csv_list :: "string \<Rightarrow> string list" where
  "split_csv_list raw = filter (\<lambda>s. s \<noteq> []) (map trim (split_char (CHR '','') raw))"

definition narrow_threshold :: "nat \<Rightarrow> nat option \<Rightarrow> nat" where
  "narrow_threshold h r =
     (if h = 0 then 0
      else case r of None \<Rightarrow> h | Some n \<Rightarrow> if n = 0 then h else min h n)"

definition or_else :: "'a option \<Rightarrow> 'a \<Rightarrow> 'a" where
  "or_else x d = (case x of Some v \<Rightarrow> v | None \<Rightarrow> d)"

definition layered_rules ::
  "env_lookup \<Rightarrow> string \<Rightarrow> rule list \<Rightarrow> string list \<Rightarrow> string list \<Rightarrow> rule list" where
  "layered_rules env var builtin h r =
     (case env var of
        Some raw \<Rightarrow> builtin @ rules_from (split_csv_list raw) Env
      | None \<Rightarrow> builtin @ rules_from h Operator @ rules_from r Repo)"

definition operator_rules :: "env_lookup \<Rightarrow> string \<Rightarrow> rule list \<Rightarrow> string list \<Rightarrow> rule list" where
  "operator_rules env var builtin h =
     (case env var of
        Some raw \<Rightarrow> builtin @ rules_from (split_csv_list raw) Env
      | None \<Rightarrow> builtin @ rules_from h Operator)"

definition verdict_setting :: "env_lookup \<Rightarrow> string \<Rightarrow> verdict \<Rightarrow> safety_error + verdict" where
  "verdict_setting env var fallback =
     (case env var of
        Some raw \<Rightarrow> (case verdict_parse raw of Some v \<Rightarrow> Inr v | None \<Rightarrow> Inl (BadVerdict var raw))
      | None \<Rightarrow> Inr fallback)"

definition sql_setting :: "env_lookup \<Rightarrow> string \<Rightarrow> sql_mode \<Rightarrow> safety_error + sql_mode" where
  "sql_setting env var fallback =
     (case env var of
        Some raw \<Rightarrow> (case sql_parse raw of Some v \<Rightarrow> Inr v | None \<Rightarrow> Inl (BadSqlMode var raw))
      | None \<Rightarrow> Inr fallback)"

definition resolved_policy ::
  "posture \<Rightarrow> safety_layer \<Rightarrow> safety_layer \<Rightarrow> env_lookup \<Rightarrow> verdict \<Rightarrow> verdict \<Rightarrow> sql_mode \<Rightarrow> safety_policy" where
  "resolved_policy S hl rl env dflt idflt sqlm =
     \<lparr>deny = layered_rules env ''ZIRV_CTX_SAFETY_DENY'' (builtin_deny S) (l_deny hl) (l_deny rl),
      ask = layered_rules env ''ZIRV_CTX_SAFETY_ASK'' (builtin_ask S) (l_ask hl) (l_ask rl),
      allow = operator_rules env ''ZIRV_CTX_SAFETY_ALLOW'' (builtin_allow S) (l_allow hl),
      escape_allow = operator_rules env ''ZIRV_CTX_SAFETY_ESCAPE_ALLOW'' (builtin_escape_allow S) (l_escape_allow hl),
      default_headless = dflt, interactive_default = idflt, sql = sqlm,
      denial_breaker_threshold = narrow_threshold (or_else (l_denial_breaker hl) 3) (l_denial_breaker rl),
      identical_command_warn_after = narrow_threshold (or_else (l_warn_after hl) 2) (l_warn_after rl),
      identical_command_refuse_after = narrow_threshold (or_else (l_refuse_after hl) 5) (l_refuse_after rl)\<rparr>"

definition resolve_safety ::
  "'t safety_decoder \<Rightarrow> posture \<Rightarrow> 't policy_layer option \<Rightarrow> 't policy_layer option \<Rightarrow> env_lookup
     \<Rightarrow> safety_error + safety_policy" where
  "resolve_safety D S h r env =
     and_then (parse_safety_layer D h home_origin) (\<lambda>hl.
     and_then (parse_safety_layer D r repo_origin) (\<lambda>rl.
     and_then (verdict_setting env ''ZIRV_CTX_SAFETY_DEFAULT'' (or_else (l_default hl) VAsk)) (\<lambda>dflt.
     and_then (verdict_setting env ''ZIRV_CTX_SAFETY_INTERACTIVE_DEFAULT''
                 (or_else (l_interactive_default hl) VAllow)) (\<lambda>idflt.
     and_then (sql_setting env ''ZIRV_CTX_SAFETY_SQL'' (or_else (l_sql hl) SqlOn)) (\<lambda>sqlm.
     Inr (resolved_policy S hl rl env dflt idflt sqlm))))))"

section \<open>The properties\<close>

lemma strip_suffix_Some: "strip_suffix suf s = Some r \<longleftrightarrow> s = r @ suf"
  by (auto simp: strip_suffix_def suffix_def)

lemma glob_match_value: "glob_match p t = Some (globs p t \<or> p = t @ '' *'')"
proof -
  obtain s where "while_option (glob_cond t) (glob_step p t) glob_start = Some s"
    "globs p t \<longleftrightarrow> \<not> g_failed s \<and> skip_stars (drop (g_pi s) p) = []"
    using glob_loop_ends by blast
  then show ?thesis by (auto simp: glob_match_def strip_suffix_Some)
qed

text \<open>C24: The glob matcher always ends and answers exactly the declarative meaning of a pattern: a
  star matches any run of characters, every other character itself, and a pattern ending in a space
  and a star also matches the bare text before them. The loop never backtracks over more than the
  last star, and loses no match by that.\<close>

theorem glob_match_is_correct:
  "glob_match p t = Some (globs p t \<or> p = t @ '' *'')"
  by (rule glob_match_value)

lemma narrow_threshold_narrows:
  "narrow_threshold h r \<le> h \<and> (narrow_threshold h r = 0 \<longleftrightarrow> h = 0)"
  by (auto simp: narrow_threshold_def split: option.splits)

lemma narrow_threshold_none [simp]: "narrow_threshold h None = h"
  by (simp add: narrow_threshold_def)

lemma layered_rules_prefix:
  "prefix (layered_rules env var b h []) (layered_rules env var b h r)"
  "x \<in> set (layered_rules env var b h r) \<Longrightarrow>
     x \<in> set (layered_rules env var b h []) \<or> rule_origin x = Repo"
  "prefix b (layered_rules env var b h r)"
  by (auto simp: layered_rules_def rules_from_def split: option.splits)

lemma layered_rules_repo:
  "\<exists>xs. layered_rules env var b h r = layered_rules env var b h [] @ xs \<and> (\<forall>x\<in>set xs. rule_origin x = Repo)"
  by (auto simp: layered_rules_def rules_from_def split: option.splits)

text \<open>What a repository contributes: two suffixes of its own rules and the folded thresholds.\<close>

lemma repository_contribution:
  assumes "resolve_safety D S h r env = Inr p"
  shows "\<exists>q ds as. resolve_safety D S h None env = Inr q \<and> deny p = deny q @ ds \<and> ask p = ask q @ as
     \<and> (\<forall>x\<in>set ds \<union> set as. rule_origin x = Repo)
     \<and> allow p = allow q \<and> escape_allow p = escape_allow q
     \<and> default_headless p = default_headless q \<and> interactive_default p = interactive_default q \<and> sql p = sql q
     \<and> prefix (builtin_deny S) (deny p) \<and> prefix (builtin_ask S) (ask p)
     \<and> (\<forall>f\<in>{denial_breaker_threshold, identical_command_warn_after, identical_command_refuse_after}.
          f p \<le> f q \<and> (f p = 0 \<longleftrightarrow> f q = 0))"
proof -
  from assms obtain hl rl dflt idflt sqlm where
    ok: "parse_safety_layer D h home_origin = Inr hl"
    "verdict_setting env ''ZIRV_CTX_SAFETY_DEFAULT'' (or_else (l_default hl) VAsk) = Inr dflt"
    "verdict_setting env ''ZIRV_CTX_SAFETY_INTERACTIVE_DEFAULT''
      (or_else (l_interactive_default hl) VAllow) = Inr idflt"
    "sql_setting env ''ZIRV_CTX_SAFETY_SQL'' (or_else (l_sql hl) SqlOn) = Inr sqlm"
    and p: "p = resolved_policy S hl rl env dflt idflt sqlm"
    by (auto simp: resolve_safety_def and_then_Inr_iff)
  define q where "q = resolved_policy S hl default_layer env dflt idflt sqlm"
  have q: "resolve_safety D S h None env = Inr q"
    by (simp add: resolve_safety_def ok parse_safety_layer_def [of D None] q_def)
  obtain ds as where "deny p = deny q @ ds" "ask p = ask q @ as" "\<forall>x\<in>set ds \<union> set as. rule_origin x = Repo"
    using layered_rules_repo [of env "''ZIRV_CTX_SAFETY_DENY''" "builtin_deny S" "l_deny hl" "l_deny rl"]
      layered_rules_repo [of env "''ZIRV_CTX_SAFETY_ASK''" "builtin_ask S" "l_ask hl" "l_ask rl"]
    by (auto simp: p q_def resolved_policy_def default_layer_def)
  then show ?thesis
    by (intro exI [of _ q] exI [of _ ds] exI [of _ as])
      (simp add: q, simp add: p q_def resolved_policy_def default_layer_def narrow_threshold_narrows
        layered_rules_prefix)
qed

text \<open>A repository can only narrow the command policy. If the operator's configuration resolves
  together with a repository's then it resolves alone, and the repository changed nothing but this:
  it appended its own deny and ask rules, marked as the repository's, and lowered breaker thresholds
  without switching one on or off. The allow and escape lists, both defaults and the SQL mode are the
  operator's, and the built-in deny and ask rules come first whatever the layers and the environment
  say.\<close>

theorem repository_only_narrows_commands:
  assumes "resolve_safety D S h r env = Inr p"
  shows "\<exists>q. resolve_safety D S h None env = Inr q
     \<and> allow p = allow q \<and> escape_allow p = escape_allow q
     \<and> default_headless p = default_headless q \<and> interactive_default p = interactive_default q \<and> sql p = sql q
     \<and> prefix (deny q) (deny p) \<and> prefix (ask q) (ask p)
     \<and> (\<forall>x\<in>set (deny p) \<union> set (ask p). x \<in> set (deny q) \<union> set (ask q) \<or> rule_origin x = Repo)
     \<and> prefix (builtin_deny S) (deny p) \<and> prefix (builtin_ask S) (ask p)
     \<and> (\<forall>f\<in>{denial_breaker_threshold, identical_command_warn_after, identical_command_refuse_after}.
          f p \<le> f q \<and> (f p = 0 \<longleftrightarrow> f q = 0))"
  using repository_contribution [OF assms] by fastforce

definition sample_safety_decoder :: "(string list + nat) safety_decoder" where
  "sample_safety_decoder =
     \<lparr>dec_strings = (\<lambda>v. case v of Inl xs \<Rightarrow> Some xs | Inr _ \<Rightarrow> None), dec_verdict = (\<lambda>_. None),
      dec_sql = (\<lambda>_. None), dec_u32 = (\<lambda>v. case v of Inl _ \<Rightarrow> None | Inr n \<Rightarrow> Some n)\<rparr>"

definition sample_posture :: posture where
  "sample_posture =
     \<lparr>shipped_deny = [(''Bash(pkill*zirv*)'', ''kills the supervising zirv session'')], shipped_ask = [],
      shipped_allow = [(''Bash(ls *)'', ''read''), (''Read(./**)'', ''read'')], reserved_patterns = [''zirv ctx mail *''],
      escape_builtin_programs = [''ls''], escape_additional_programs = []\<rparr>"

definition sample_safety_repo :: "(string \<times> (string list + nat)) list" where
  "sample_safety_repo =
     [(''deny'', Inl [''terraform destroy*'']), (''allow'', Inl [''rm -rf /*'']),
      (''denial_breaker_threshold'', Inr 1)]"

lemma sample_safety_resolved:
  "\<exists>p. resolve_safety sample_safety_decoder sample_posture None (Some sample_safety_repo) (\<lambda>_. None) = Inr p
     \<and> deny p = [\<lparr>pattern = ''pkill*zirv*'', rule_origin = BuiltIn\<rparr>,
                 \<lparr>pattern = ''terraform destroy*'', rule_origin = Repo\<rparr>]
     \<and> denial_breaker_threshold p = 1"
proof -
  have "parse_safety_layer sample_safety_decoder (Some sample_safety_repo) repo_origin =
      Inr (default_layer\<lparr>l_deny := [''terraform destroy*''], l_allow := [''rm -rf /*''], l_denial_breaker := Some 1\<rparr>)"
    by (simp add: parse_safety_layer_def sample_safety_decoder_def sample_safety_repo_def read_safety_entry_def)
  moreover have "builtin_deny sample_posture = [\<lparr>pattern = ''pkill*zirv*'', rule_origin = BuiltIn\<rparr>]"
    by code_simp
  ultimately show ?thesis
    by (simp add: resolve_safety_def resolved_policy_def parse_safety_layer_def [of _ None] verdict_setting_def sql_setting_def
        layered_rules_def rules_from_def default_layer_def or_else_def narrow_threshold_def)
qed

lemma repository_only_narrows_commands_witness:
  "\<exists>p q. resolve_safety sample_safety_decoder sample_posture None (Some sample_safety_repo) (\<lambda>_. None) = Inr p
     \<and> resolve_safety sample_safety_decoder sample_posture None None (\<lambda>_. None) = Inr q
     \<and> allow p = allow q \<and> denial_breaker_threshold p = 1"
proof -
  obtain p where p: "resolve_safety sample_safety_decoder sample_posture None (Some sample_safety_repo) (\<lambda>_. None) = Inr p"
    "denial_breaker_threshold p = 1" using sample_safety_resolved by blast
  from repository_only_narrows_commands [OF p(1)] p show ?thesis by blast
qed

end
