(* ===== verification/Safety_Rules.thy ===== *)
theory Safety_Rules
  imports Safety_Policy Envelope
begin

text \<open>
  How a command gets its verdict, \<open>safety/rules.rs\<close> and \<open>safety/evaluation.rs\<close>: the explicit rules
  of one candidate, the chain of semantic analyzers applied to it, the fold over all candidates of a
  command to the strictest verdict, the second look at a command whose variables were resolved, and
  the worker envelope.

  What the analyzers recognise (the shell grammar, SQL, credential paths, network programs,
  destructive actions) is the work of \<open>safety/shell.rs\<close>, \<open>safety/classifiers.rs\<close> and
  \<open>safety/writes.rs\<close>, which are not modelled: each is one field of the record \<open>analyzers\<close>, with the
  scratchpad roots, the working directory and the shell environment already applied. Every theorem
  holds for all of them, so none depends on what an analyzer recognises.
\<close>

named_theorems hardening_intros \<open>steps that never soften a firm verdict\<close>

section \<open>Outcomes\<close>

record outcome =
  verdict_of :: verdict
  matched :: "rule option"

fun verdict_rank :: "verdict \<Rightarrow> nat" where
  "verdict_rank VAllow = 0"
| "verdict_rank VAsk = 1"
| "verdict_rank VDeny = 2"

definition outcome_rank :: "outcome \<Rightarrow> nat" where
  "outcome_rank b = verdict_rank (verdict_of b)"

definition builtin_outcome :: "verdict \<Rightarrow> string \<Rightarrow> outcome" where
  "builtin_outcome v pat = \<lparr>verdict_of = v, matched = Some \<lparr>pattern = pat, rule_origin = BuiltIn\<rparr>\<rparr>"

definition worse :: "outcome \<Rightarrow> outcome \<Rightarrow> outcome" where
  "worse a b = (if outcome_rank a < outcome_rank b then b else a)"

interpretation worst: strictest outcome_rank worse
  by unfold_locales (auto simp: worse_def)

record analyzers =
  a_segments :: "string \<Rightarrow> string list"
  a_canonical :: "string \<Rightarrow> string option"
  a_resolved :: "string \<Rightarrow> string option"
  a_rm_zirv :: "string \<Rightarrow> string \<Rightarrow> bool"
  a_supervisor_override :: "string \<Rightarrow> bool"
  a_benchmark_run :: "string \<Rightarrow> bool"
  a_reserved_name :: "string \<Rightarrow> string option"
  a_auto_allow :: "string \<Rightarrow> rule option"
  a_posture_deny :: "string \<Rightarrow> rule option"
  a_artifact_deny :: "string \<Rightarrow> rule option"
  a_compile_deny :: "string \<Rightarrow> rule option"
  a_sql :: "string \<Rightarrow> string \<Rightarrow> outcome option"
  a_redirects :: "string \<Rightarrow> string list"
  a_secret_path :: "string \<Rightarrow> bool"
  a_credential_path :: "string \<Rightarrow> bool"
  a_credential_access :: "string \<Rightarrow> bool"
  a_secret_read :: "string \<Rightarrow> bool"
  a_writes_config :: "string \<Rightarrow> bool"
  a_config_edit :: "string \<Rightarrow> bool"
  a_collapsed :: "string \<Rightarrow> string"
  a_network :: "string \<Rightarrow> string \<Rightarrow> outcome option"
  a_recursive_delete :: "string \<Rightarrow> bool"
  a_delete_confined :: "string \<Rightarrow> string \<Rightarrow> bool"
  a_vcs :: "string \<Rightarrow> bool"
  a_distribution :: "string \<Rightarrow> bool"
  a_orchestrator :: "string \<Rightarrow> bool"
  a_pipe_to_shell :: "string \<Rightarrow> bool"
  a_find_exec :: "string \<Rightarrow> bool"
  a_transparent :: "string \<Rightarrow> bool"
  a_usage :: "string \<Rightarrow> bool"
  a_generated_cleanup :: "string \<Rightarrow> bool"
  a_network_program :: "string \<Rightarrow> bool"
  a_targets_confined :: "string \<Rightarrow> bool option"

section \<open>The rules of one candidate\<close>

definition glob_ok :: "string \<Rightarrow> string \<Rightarrow> bool" where
  "glob_ok pat text \<longleftrightarrow> glob_match pat text = Some True"

definition narrowing_rule_matches :: "analyzers \<Rightarrow> string \<Rightarrow> string \<Rightarrow> bool" where
  "narrowing_rule_matches A pat cmd \<longleftrightarrow>
     (if glob_ok pat cmd then True
      else case a_reserved_name A pat of
        None \<Rightarrow> False
      | Some pn \<Rightarrow>
          (case a_reserved_name A cmd of
             None \<Rightarrow> False
           | Some cn \<Rightarrow> pn = cn \<and> glob_ok (ascii_lower pat) (ascii_lower cmd)))"

definition built_in_structural_rule_matches :: "analyzers \<Rightarrow> rule \<Rightarrow> string \<Rightarrow> bool option" where
  "built_in_structural_rule_matches A r cmd =
     (if rule_origin r \<noteq> BuiltIn then None
      else if pattern r = ''rm -rf*zirv*'' then Some (a_rm_zirv A ''-rf'' cmd)
      else if pattern r = ''rm -fr*zirv*'' then Some (a_rm_zirv A ''-fr'' cmd)
      else if pattern r = ''zirv ctx supervisor override*'' then Some (a_supervisor_override A cmd)
      else if pattern r = ''zirv benchmark run*'' then Some (a_benchmark_run A cmd)
      else if pattern r \<in> {''* | sh'', ''* | bash'', ''* | zsh'', ''*| sh'', ''*| bash''} then Some False
      else None)"

definition rule_matches :: "analyzers \<Rightarrow> string \<Rightarrow> rule \<Rightarrow> bool" where
  "rule_matches A cmd r =
     (case built_in_structural_rule_matches A r cmd of
        Some b \<Rightarrow> b
      | None \<Rightarrow> narrowing_rule_matches A (pattern r) cmd)"

definition explicit_narrowing_outcome :: "analyzers \<Rightarrow> safety_policy \<Rightarrow> string \<Rightarrow> outcome option" where
  "explicit_narrowing_outcome A p cmd =
     (case List.find (rule_matches A cmd) (deny p) of
        Some r \<Rightarrow> Some \<lparr>verdict_of = VDeny, matched = Some r\<rparr>
      | None \<Rightarrow>
          (case List.find (rule_matches A cmd) (ask p) of
             Some r \<Rightarrow> Some \<lparr>verdict_of = VAsk, matched = Some r\<rparr>
           | None \<Rightarrow> None))"

definition allow_rule_for :: "analyzers \<Rightarrow> safety_policy \<Rightarrow> string \<Rightarrow> rule option" where
  "allow_rule_for A p cmd =
     List.find (\<lambda>r. glob_ok (pattern r) cmd
                 \<and> \<not> (rule_origin r = BuiltIn \<and> a_reserved_name A (pattern r) \<noteq> None)) (allow p)"

definition unnarrowed_outcome :: "analyzers \<Rightarrow> safety_policy \<Rightarrow> string \<Rightarrow> verdict \<Rightarrow> outcome" where
  "unnarrowed_outcome A p cmd fallback =
     (case a_auto_allow A cmd of
        Some r \<Rightarrow> \<lparr>verdict_of = VAllow, matched = Some r\<rparr>
      | None \<Rightarrow>
     (case allow_rule_for A p cmd of
        Some r \<Rightarrow> \<lparr>verdict_of = VAllow, matched = Some r\<rparr>
      | None \<Rightarrow>
     (case a_posture_deny A cmd of
        Some r \<Rightarrow> \<lparr>verdict_of = VDeny, matched = Some r\<rparr>
      | None \<Rightarrow>
     (case a_artifact_deny A cmd of
        Some r \<Rightarrow> \<lparr>verdict_of = VDeny, matched = Some r\<rparr>
      | None \<Rightarrow>
     (case a_compile_deny A cmd of
        Some r \<Rightarrow> \<lparr>verdict_of = VDeny, matched = Some r\<rparr>
      | None \<Rightarrow> \<lparr>verdict_of = fallback, matched = None\<rparr>)))))"

definition evaluate_single :: "analyzers \<Rightarrow> safety_policy \<Rightarrow> string \<Rightarrow> verdict \<Rightarrow> outcome" where
  "evaluate_single A p cmd fallback =
     (case explicit_narrowing_outcome A p cmd of
        Some b \<Rightarrow> b
      | None \<Rightarrow> unnarrowed_outcome A p cmd fallback)"

section \<open>The analyzer chain\<close>

definition apply_sql_outcome :: "analyzers \<Rightarrow> sql_mode \<Rightarrow> string \<Rightarrow> string \<Rightarrow> outcome \<Rightarrow> outcome" where
  "apply_sql_outcome A mode cmd original b =
     (if mode = SqlOff then b
      else case a_sql A cmd original of
        None \<Rightarrow> b
      | Some s \<Rightarrow>
          if verdict_of b = VDeny then b
          else if verdict_of b = VAllow \<and> verdict_of s = VAsk then s
          else if verdict_of s = VAllow \<and> matched b = None \<and> list_ex (a_secret_path A) (a_redirects A cmd)
            then builtin_outcome VAsk ''<project secret file read>''
          else if verdict_of s = VAllow \<and> matched b = None then s
          else b)"

definition apply_credential_outcome :: "analyzers \<Rightarrow> string \<Rightarrow> outcome \<Rightarrow> outcome" where
  "apply_credential_outcome A cmd b =
     (if verdict_of b = VDeny then b
      else if list_ex (a_credential_path A) (a_redirects A cmd) \<or> a_credential_access A cmd
        then builtin_outcome VDeny ''<credential: sensitive-file access>''
      else if a_secret_read A cmd then builtin_outcome VAsk ''<project secret file read>''
      else b)"

definition apply_operator_config_outcome :: "analyzers \<Rightarrow> string \<Rightarrow> outcome \<Rightarrow> outcome" where
  "apply_operator_config_outcome A cmd b =
     (if verdict_of b = VDeny then b
      else if \<not> a_writes_config A cmd
        then (if a_config_edit A cmd
              then builtin_outcome VAsk ''<config: operator ctx.toml edit via zirv ctx config>'' else b)
      else builtin_outcome VDeny ''<config: operator ~/.zirv write>'')"

definition apply_network_outcome :: "analyzers \<Rightarrow> string \<Rightarrow> string \<Rightarrow> outcome \<Rightarrow> outcome" where
  "apply_network_outcome A cmd original b =
     (if CHR 0x0A \<in> set original \<and> CHR 0x0A \<notin> set cmd \<and> cmd = a_collapsed A original then b
      else case a_network A cmd original of
        None \<Rightarrow> b
      | Some n \<Rightarrow> if verdict_rank (verdict_of b) < verdict_rank (verdict_of n) then n else b)"

definition shipped_delete_ask :: "outcome \<Rightarrow> bool" where
  "shipped_delete_ask b \<longleftrightarrow>
     verdict_of b = VAsk
     \<and> (case matched b of
          None \<Rightarrow> False
        | Some r \<Rightarrow> rule_origin r = BuiltIn \<and> pattern r \<in> {''rm -rf *'', ''rm -fr *''})"

definition apply_recursive_delete_outcome :: "analyzers \<Rightarrow> string \<Rightarrow> string \<Rightarrow> outcome \<Rightarrow> outcome" where
  "apply_recursive_delete_outcome A cmd original b =
     (if \<not> a_recursive_delete A cmd then b
      else if (verdict_of b = VAllow \<or> shipped_delete_ask b) \<and> a_delete_confined A cmd original
        then builtin_outcome VAllow ''<filesystem: temp-scratch recursive deletion>''
      else if verdict_of b \<noteq> VAllow then b
      else builtin_outcome VAsk ''<filesystem: recursive deletion outside a generated directory>'')"

text \<open>Three analyzers only turn an allow into an ask, two turn anything but a deny into a deny.\<close>

definition ask_if :: "bool \<Rightarrow> string \<Rightarrow> outcome \<Rightarrow> outcome" where
  "ask_if hit pat b = (if \<not> hit \<or> verdict_of b \<noteq> VAllow then b else builtin_outcome VAsk pat)"

definition deny_if :: "bool \<Rightarrow> string \<Rightarrow> outcome \<Rightarrow> outcome" where
  "deny_if hit pat b = (if \<not> hit \<or> verdict_of b = VDeny then b else builtin_outcome VDeny pat)"

definition apply_vcs_outcome :: "analyzers \<Rightarrow> string \<Rightarrow> outcome \<Rightarrow> outcome" where
  "apply_vcs_outcome A cmd = ask_if (a_vcs A cmd) ''<vcs: destructive local or remote action>''"

definition apply_distribution_outcome :: "analyzers \<Rightarrow> string \<Rightarrow> outcome \<Rightarrow> outcome" where
  "apply_distribution_outcome A cmd = deny_if (a_distribution A cmd) ''<distribution: irreversible remote action>''"

definition apply_orchestrator_outcome :: "analyzers \<Rightarrow> string \<Rightarrow> outcome \<Rightarrow> outcome" where
  "apply_orchestrator_outcome A cmd = ask_if (a_orchestrator A cmd) ''<orchestrator: destructive remote action>''"

definition apply_pipe_to_shell_outcome :: "analyzers \<Rightarrow> string \<Rightarrow> outcome \<Rightarrow> outcome" where
  "apply_pipe_to_shell_outcome A cmd = deny_if (a_pipe_to_shell A cmd) ''<network: piped into a shell interpreter>''"

definition apply_find_exec_outcome :: "analyzers \<Rightarrow> string \<Rightarrow> outcome \<Rightarrow> outcome" where
  "apply_find_exec_outcome A cmd =
     ask_if (a_find_exec A cmd) ''<filesystem: find -exec/-ok running a non-read-only action>''"

definition analyzer_chain :: "analyzers \<Rightarrow> sql_mode \<Rightarrow> string \<Rightarrow> string \<Rightarrow> outcome \<Rightarrow> outcome" where
  "analyzer_chain A mode cmd original b0 =
     (let b1 = apply_sql_outcome A mode cmd original b0;
          b2 = apply_credential_outcome A cmd b1;
          b3 = apply_operator_config_outcome A cmd b2;
          b4 = apply_network_outcome A cmd original b3;
          b5 = apply_recursive_delete_outcome A cmd original b4;
          b6 = apply_vcs_outcome A cmd b5;
          b7 = apply_distribution_outcome A cmd b6;
          b8 = apply_orchestrator_outcome A cmd b7;
          b9 = apply_pipe_to_shell_outcome A cmd b8
      in apply_find_exec_outcome A cmd b9)"

definition evaluate_candidate_outcome ::
  "analyzers \<Rightarrow> safety_policy \<Rightarrow> string \<Rightarrow> string \<Rightarrow> verdict \<Rightarrow> outcome" where
  "evaluate_candidate_outcome A p cmd original fallback =
     analyzer_chain A (sql p) cmd original (evaluate_single A p cmd fallback)"

section \<open>The fold over candidates\<close>

definition generated_cleanup_allowed :: "analyzers \<Rightarrow> safety_policy \<Rightarrow> string \<Rightarrow> launch_mode \<Rightarrow> bool" where
  "generated_cleanup_allowed A p cmd mode \<longleftrightarrow>
     mode = Interactive \<and> interactive_default p = VAllow \<and> a_generated_cleanup A cmd
     \<and> \<not> list_ex (\<lambda>r. list_ex (glob_ok (pattern r)) (a_segments A cmd)) (deny p)
     \<and> \<not> list_ex (\<lambda>r. list_ex (glob_ok (pattern r)) (a_segments A cmd))
          (filter (\<lambda>r. rule_origin r \<noteq> BuiltIn) (ask p))"

definition candidate_outcome ::
  "analyzers \<Rightarrow> safety_policy \<Rightarrow> string \<Rightarrow> verdict \<Rightarrow> string \<Rightarrow> outcome option" where
  "candidate_outcome A p original fallback cand =
     (if a_transparent A cand then explicit_narrowing_outcome A p cand
      else Some (evaluate_candidate_outcome A p cand original fallback))"

text \<open>The running worst outcome: a later one replaces it only when strictly worse.\<close>

definition fold_worst :: "outcome list \<Rightarrow> outcome option" where
  "fold_worst bs = foldl (\<lambda>acc b. case acc of None \<Rightarrow> Some b | Some w \<Rightarrow> Some (worse w b)) None bs"

definition evaluate_candidates :: "analyzers \<Rightarrow> safety_policy \<Rightarrow> string \<Rightarrow> verdict \<Rightarrow> launch_mode \<Rightarrow> outcome" where
  "evaluate_candidates A p cmd fallback mode =
     (if generated_cleanup_allowed A p cmd mode
      then builtin_outcome VAllow ''<filesystem: generated-directory cleanup>''
      else
      let candidates = a_segments A cmd;
          usage_tee_child = list_ex (\<lambda>c. a_transparent A c \<and> a_usage A c) candidates;
          out = (case fold_worst (List.map_filter (candidate_outcome A p cmd fallback) candidates) of
                   Some b \<Rightarrow> b
                 | None \<Rightarrow> \<lparr>verdict_of = fallback, matched = None\<rparr>)
      in if usage_tee_child \<and> verdict_of out = VAsk
         then builtin_outcome VDeny ''<zirv: usage tee child needs approval>''
         else out)"

section \<open>Variables, ambiguous syntax and the worker envelope\<close>

definition command_is_destructive :: "analyzers \<Rightarrow> string \<Rightarrow> bool" where
  "command_is_destructive A cmd \<longleftrightarrow>
     a_recursive_delete A cmd \<or> a_orchestrator A cmd \<or> a_distribution A cmd \<or> a_vcs A cmd"

definition envelope_deny :: "string \<Rightarrow> outcome" where
  "envelope_deny reason = builtin_outcome VDeny (''<envelope: '' @ reason @ ''>'')"

definition apply_envelope_outcome ::
  "analyzers \<Rightarrow> worker_envelope option \<Rightarrow> string \<Rightarrow> u64 \<Rightarrow> outcome \<Rightarrow> outcome" where
  "apply_envelope_outcome A envelope cmd now b =
     (case envelope of
        None \<Rightarrow> b
      | Some e \<Rightarrow>
          if \<not> t_shell (w_tools e) then envelope_deny ''shell tool not granted''
          else if expires_at e < now then envelope_deny ''expired''
          else if (\<not> w_network e \<or> \<not> t_network (w_tools e))
                  \<and> list_ex (a_network_program A) (a_segments A cmd)
            then envelope_deny ''network not granted''
          else if \<not> destructive e \<and> list_ex (command_is_destructive A) (a_segments A cmd)
            then envelope_deny ''destructive command outside the delegation envelope''
          else if a_targets_confined A cmd = Some False
            then envelope_deny ''write target outside the delegation envelope's paths''
          else b)"

definition evaluate_with_facts ::
  "analyzers \<Rightarrow> safety_policy \<Rightarrow> string \<Rightarrow> launch_mode \<Rightarrow> worker_envelope option \<Rightarrow> u64 \<Rightarrow> outcome" where
  "evaluate_with_facts A p command mode envelope now =
     (let canonical = a_canonical A command;
          cmd = (case canonical of Some c \<Rightarrow> c | None \<Rightarrow> command);
          resolved = a_resolved A cmd;
          text = (case resolved of Some r \<Rightarrow> r | None \<Rightarrow> cmd);
          base = evaluate_candidates A p text (default_verdict p mode) mode;
          raw = evaluate_candidates A p cmd (default_verdict p mode) mode;
          explicit = (case matched raw of Some r \<Rightarrow> rule_origin r \<noteq> BuiltIn | None \<Rightarrow> False);
          base2 = (if resolved \<noteq> None \<and> (verdict_of raw = VDeny \<or> explicit)
                      \<and> verdict_rank (verdict_of base) < verdict_rank (verdict_of raw)
                   then raw else base);
          base3 = (if canonical = None \<and> verdict_of base2 = VAllow
                   then builtin_outcome VAsk ''<shell: ambiguous quoting or comment>'' else base2)
      in apply_envelope_outcome A envelope text now base3)"

section \<open>Hardening steps\<close>

text \<open>
  A verdict is firm when no analyzer may take it back: a deny, or an ask for a stated reason other
  than the two shipped recursive-delete rules. A hardening step keeps a deny, keeps a firm verdict
  firm, and never ranks a milder verdict above a firm one.
\<close>

definition firm :: "outcome \<Rightarrow> bool" where
  "firm b \<longleftrightarrow> verdict_of b = VDeny \<or> (verdict_of b = VAsk \<and> matched b \<noteq> None \<and> \<not> shipped_delete_ask b)"

definition hardening :: "(outcome \<Rightarrow> outcome) \<Rightarrow> bool" where
  "hardening f \<longleftrightarrow>
     (\<forall>b. (verdict_of b = VDeny \<longrightarrow> verdict_of (f b) = VDeny) \<and> (firm b \<longrightarrow> firm (f b))
        \<and> (\<forall>b1. firm b \<longrightarrow> outcome_rank b1 \<le> outcome_rank b \<longrightarrow> outcome_rank (f b1) \<le> outcome_rank (f b)))"

lemma hardeningI:
  assumes "\<And>b. verdict_of b = VDeny \<Longrightarrow> verdict_of (f b) = VDeny"
    and "\<And>b. verdict_of b = VAsk \<Longrightarrow> firm b \<Longrightarrow> firm (f b)"
    and "\<And>b b1. verdict_of b = VAsk \<Longrightarrow> firm b \<Longrightarrow> verdict_of b1 \<noteq> VDeny \<Longrightarrow>
            outcome_rank (f b1) \<le> outcome_rank (f b)"
  shows "hardening f"
proof -
  have "firm (f b)" if "firm b" for b
    using assms(1,2) that by (cases "verdict_of b") (auto simp: firm_def)
  moreover have "outcome_rank (f b1) \<le> outcome_rank (f b)"
    if "firm b" "outcome_rank b1 \<le> outcome_rank b" for b b1
  proof (cases "verdict_of b = VDeny")
    case True
    then have "outcome_rank (f b) = 2" using assms(1) by (simp add: outcome_rank_def)
    moreover have "outcome_rank (f b1) \<le> 2" by (cases "verdict_of (f b1)") (simp_all add: outcome_rank_def)
    ultimately show ?thesis by simp
  next
    case False
    then have "verdict_of b = VAsk" using that(1) by (auto simp: firm_def)
    moreover have "verdict_of b1 \<noteq> VDeny" using that(2) calculation by (auto simp: outcome_rank_def)
    ultimately show ?thesis using assms(3) that(1) by blast
  qed
  ultimately show ?thesis using assms(1) by (simp add: hardening_def)
qed

lemma hardening_comp: "hardening f \<Longrightarrow> hardening g \<Longrightarrow> hardening (\<lambda>b. g (f b))"
  unfolding hardening_def by meson

lemma builtin_outcome_simps [simp]:
  "verdict_of (builtin_outcome v pat) = v" "outcome_rank (builtin_outcome v pat) = verdict_rank v"
  "firm (builtin_outcome v pat) \<longleftrightarrow> v = VDeny \<or> (v = VAsk \<and> pat \<noteq> ''rm -rf *'' \<and> pat \<noteq> ''rm -fr *'')"
  by (auto simp: builtin_outcome_def outcome_rank_def firm_def shipped_delete_ask_def)

lemma hardening_ask_if [hardening_intros]:
  "pat \<noteq> ''rm -rf *'' \<Longrightarrow> pat \<noteq> ''rm -fr *'' \<Longrightarrow> hardening (ask_if hit pat)"
  by (rule hardeningI; (simp add: ask_if_def outcome_rank_def)?)
    (case_tac "verdict_of b1"; simp add: ask_if_def outcome_rank_def)

lemma hardening_deny_if [hardening_intros]: "hardening (deny_if hit pat)"
proof (rule hardeningI, goal_cases)
  case (1 b)
  then show ?case by (simp add: deny_if_def split: option.splits)
next
  case (2 b)
  then show ?case by (auto simp: deny_if_def firm_def split: option.splits)
next
  case (3 b b1)
  then show ?case by (cases "verdict_of b1") (auto simp: deny_if_def firm_def outcome_rank_def split: option.splits)
qed

lemma hardening_sql [hardening_intros]: "hardening (apply_sql_outcome A mode cmd original)"
proof (rule hardeningI, goal_cases)
  case (1 b)
  then show ?case by (simp add: apply_sql_outcome_def split: option.splits)
next
  case (2 b)
  then show ?case by (auto simp: apply_sql_outcome_def firm_def split: option.splits)
next
  case (3 b b1)
  then show ?case by (cases "verdict_of b1") (auto simp: apply_sql_outcome_def firm_def outcome_rank_def split: option.splits)
qed

lemma hardening_credential [hardening_intros]: "hardening (apply_credential_outcome A cmd)"
proof (rule hardeningI, goal_cases)
  case (1 b)
  then show ?case by (simp add: apply_credential_outcome_def split: option.splits)
next
  case (2 b)
  then show ?case by (auto simp: apply_credential_outcome_def split: option.splits)
next
  case (3 b b1)
  then show ?case by (cases "verdict_of b1") (auto simp: apply_credential_outcome_def firm_def outcome_rank_def split: option.splits)
qed

lemma hardening_operator_config [hardening_intros]: "hardening (apply_operator_config_outcome A cmd)"
proof (rule hardeningI, goal_cases)
  case (1 b)
  then show ?case by (simp add: apply_operator_config_outcome_def split: option.splits)
next
  case (2 b)
  then show ?case by (auto simp: apply_operator_config_outcome_def split: option.splits)
next
  case (3 b b1)
  then show ?case by (cases "verdict_of b1") (auto simp: apply_operator_config_outcome_def firm_def outcome_rank_def split: option.splits)
qed

lemma hardening_network [hardening_intros]: "hardening (apply_network_outcome A cmd original)"
proof (rule hardeningI)
  fix b :: outcome assume b: "verdict_of b = VDeny"
  have "\<not> verdict_rank VDeny < verdict_rank v" for v by (cases v) simp_all
  then show "verdict_of (apply_network_outcome A cmd original b) = VDeny"
    using b by (auto simp: apply_network_outcome_def split: option.splits)
next
  fix b :: outcome assume b: "verdict_of b = VAsk" "firm b"
  have "verdict_rank VAsk < verdict_rank v \<longleftrightarrow> v = VDeny" for v by (cases v) simp_all
  then show "firm (apply_network_outcome A cmd original b)"
    using b by (auto simp: apply_network_outcome_def firm_def split: option.splits)
next
  fix b b1 :: outcome assume "verdict_of b = VAsk" "verdict_of b1 \<noteq> VDeny"
  then have "outcome_rank b1 \<le> outcome_rank b" by (cases "verdict_of b1") (simp_all add: outcome_rank_def)
  then show "outcome_rank (apply_network_outcome A cmd original b1)
      \<le> outcome_rank (apply_network_outcome A cmd original b)"
    by (auto simp: apply_network_outcome_def outcome_rank_def split: option.splits)
qed

lemma hardening_recursive_delete [hardening_intros]: "hardening (apply_recursive_delete_outcome A cmd original)"
proof (rule hardeningI, goal_cases)
  case (1 b)
  then show ?case by (simp add: apply_recursive_delete_outcome_def shipped_delete_ask_def split: option.splits)
next
  case (2 b)
  then show ?case by (auto simp: apply_recursive_delete_outcome_def shipped_delete_ask_def firm_def split: option.splits)
next
  case (3 b b1)
  then show ?case by (cases "verdict_of b1") (auto simp: apply_recursive_delete_outcome_def shipped_delete_ask_def firm_def outcome_rank_def split: option.splits)
qed

lemma hardening_chain: "hardening (analyzer_chain A mode cmd original)"
proof -
  note c = hardening_comp
  have named: "hardening (apply_vcs_outcome A cmd)" "hardening (apply_distribution_outcome A cmd)"
    "hardening (apply_orchestrator_outcome A cmd)" "hardening (apply_pipe_to_shell_outcome A cmd)"
    "hardening (apply_find_exec_outcome A cmd)"
    unfolding apply_vcs_outcome_def apply_distribution_outcome_def apply_orchestrator_outcome_def
      apply_pipe_to_shell_outcome_def apply_find_exec_outcome_def
    by (rule hardening_intros; simp)+
  note two = c [OF hardening_sql [of A mode cmd original] hardening_credential [of A cmd]]
  note three = c [OF two hardening_operator_config [of A cmd]]
  note four = c [OF three hardening_network [of A cmd original]]
  note five = c [OF four hardening_recursive_delete [of A cmd original]]
  note all = c [OF c [OF c [OF c [OF c [OF five named(1)] named(2)] named(3)] named(4)] named(5)]
  show ?thesis using all unfolding hardening_def analyzer_chain_def Let_def .
qed

section \<open>The fold and the rules\<close>

lemma fold_worst_Cons: "fold_worst (b # bs) = Some (foldl worse b bs)"
proof -
  have "foldl (\<lambda>acc b. case acc of None \<Rightarrow> Some b | Some w \<Rightarrow> Some (worse w b)) (Some a) bs = Some (foldl worse a bs)"
    for a by (induction bs arbitrary: a) simp_all
  then show ?thesis by (simp add: fold_worst_def)
qed

lemma fold_worst_bound:
  assumes "b \<in> set bs"
  shows "\<exists>w. fold_worst bs = Some w \<and> outcome_rank b \<le> outcome_rank w"
proof (cases bs)
  case (Cons a as)
  then show ?thesis using assms worst.fold_bound [of b a as] by (simp add: fold_worst_Cons)
qed (use assms in simp)

lemma rank_Deny: "outcome_rank b = 2 \<longleftrightarrow> verdict_of b = VDeny" "2 \<le> outcome_rank b \<longleftrightarrow> verdict_of b = VDeny"
  by (cases "verdict_of b"; simp add: outcome_rank_def)+

lemma rank_Allow: "outcome_rank b = 0 \<longleftrightarrow> verdict_of b = VAllow" "1 \<le> outcome_rank b \<longleftrightarrow> verdict_of b \<noteq> VAllow"
  by (cases "verdict_of b"; simp add: outcome_rank_def)+

lemma written_rule_matches:
  "rule_origin r \<noteq> BuiltIn \<Longrightarrow> glob_ok (pattern r) cmd \<Longrightarrow> rule_matches A cmd r"
  by (simp add: rule_matches_def built_in_structural_rule_matches_def narrowing_rule_matches_def)

lemma explicit_deny:
  assumes "r \<in> set (deny p)" "rule_matches A cmd r"
  shows "\<exists>b. explicit_narrowing_outcome A p cmd = Some b \<and> verdict_of b = VDeny"
proof -
  from assms have "List.find (rule_matches A cmd) (deny p) \<noteq> None" by (auto simp: find_None_iff)
  then show ?thesis by (auto simp: explicit_narrowing_outcome_def)
qed

definition shipped_delete_rule :: "rule \<Rightarrow> bool" where
  "shipped_delete_rule r \<longleftrightarrow> rule_origin r = BuiltIn \<and> pattern r \<in> {''rm -rf *'', ''rm -fr *''}"

lemma explicit_ask:
  assumes "r \<in> set (ask p)" "rule_matches A cmd r"
    and free: "\<And>x. x \<in> set (ask p) \<Longrightarrow> rule_matches A cmd x \<Longrightarrow> \<not> shipped_delete_rule x"
  shows "\<exists>b. explicit_narrowing_outcome A p cmd = Some b \<and> firm b"
proof (cases "List.find (rule_matches A cmd) (deny p)")
  case None
  from assms(1,2) have "List.find (rule_matches A cmd) (ask p) \<noteq> None" by (auto simp: find_None_iff)
  then obtain x where x: "List.find (rule_matches A cmd) (ask p) = Some x" by auto
  then have "x \<in> set (ask p)" "rule_matches A cmd x" by (auto simp: find_Some_iff)
  then have "\<not> shipped_delete_rule x" by (rule free)
  then show ?thesis
    using None x by (auto simp: explicit_narrowing_outcome_def firm_def shipped_delete_ask_def shipped_delete_rule_def)
qed (auto simp: explicit_narrowing_outcome_def firm_def)

lemma explicit_candidate:
  assumes "explicit_narrowing_outcome A p cand = Some b" "firm b"
  shows "\<exists>w. candidate_outcome A p cmd fb cand = Some w \<and> firm w \<and> (verdict_of b = VDeny \<longrightarrow> verdict_of w = VDeny)"
  using assms hardening_chain [of A "sql p" cand cmd]
  by (auto simp: candidate_outcome_def evaluate_candidate_outcome_def evaluate_single_def hardening_def)

lemma firm_not_Allow: "firm b \<Longrightarrow> verdict_of b \<noteq> VAllow"
  by (auto simp: firm_def)

lemma candidate_bounds_verdict:
  assumes "cand \<in> set (a_segments A cmd)" "candidate_outcome A p cmd fb cand = Some w"
    and "\<not> generated_cleanup_allowed A p cmd mode"
  shows "outcome_rank w \<le> outcome_rank (evaluate_candidates A p cmd fb mode)"
proof -
  let ?bs = "List.map_filter (candidate_outcome A p cmd fb) (a_segments A cmd)"
  have "w \<in> set ?bs" using assms(1,2) by (auto simp: set_map_filter)
  then obtain v where v: "fold_worst ?bs = Some v" "outcome_rank w \<le> outcome_rank v"
    using fold_worst_bound by blast
  have "outcome_rank v \<le> outcome_rank (evaluate_candidates A p cmd fb mode)"
    using assms(3) by (cases "verdict_of v") (simp_all add: evaluate_candidates_def Let_def v outcome_rank_def)
  then show ?thesis using v(2) by simp
qed

lemma written_rule_blocks_cleanup:
  assumes "cand \<in> set (a_segments A cmd)" "glob_ok (pattern r) cand" "rule_origin r \<noteq> BuiltIn"
    and "r \<in> set (deny p) \<or> r \<in> set (ask p)"
  shows "\<not> generated_cleanup_allowed A p cmd mode"
  using assms by (auto simp: generated_cleanup_allowed_def list_ex_iff)

lemma evaluate_candidates_deny:
  assumes "cand \<in> set (a_segments A cmd)" "glob_ok (pattern r) cand" "rule_origin r \<noteq> BuiltIn" "r \<in> set (deny p)"
  shows "verdict_of (evaluate_candidates A p cmd fb mode) = VDeny"
proof -
  obtain b where "explicit_narrowing_outcome A p cand = Some b" "verdict_of b = VDeny"
    using explicit_deny [OF assms(4)] written_rule_matches assms(2,3) by blast
  then obtain w where "candidate_outcome A p cmd fb cand = Some w" "verdict_of w = VDeny"
    using explicit_candidate [of A p cand b] by (auto simp: firm_def)
  then have "2 \<le> outcome_rank (evaluate_candidates A p cmd fb mode)"
    using candidate_bounds_verdict [OF assms(1)] written_rule_blocks_cleanup [OF assms(1-3)] assms(4)
    by (metis rank_Deny(1))
  then show ?thesis by (simp add: rank_Deny)
qed

lemma evaluate_candidates_ask:
  assumes "cand \<in> set (a_segments A cmd)" "glob_ok (pattern r) cand" "rule_origin r \<noteq> BuiltIn" "r \<in> set (ask p)"
    and "\<And>x. x \<in> set (ask p) \<Longrightarrow> rule_matches A cand x \<Longrightarrow> \<not> shipped_delete_rule x"
  shows "verdict_of (evaluate_candidates A p cmd fb mode) \<noteq> VAllow"
proof -
  obtain b where "explicit_narrowing_outcome A p cand = Some b" "firm b"
    using explicit_ask [OF assms(4) written_rule_matches [OF assms(3,2)] assms(5)] by blast
  then obtain w where w: "candidate_outcome A p cmd fb cand = Some w" "firm w"
    using explicit_candidate by blast
  then have "1 \<le> outcome_rank w" using firm_not_Allow by (simp add: rank_Allow del: One_nat_def)
  also have "\<dots> \<le> outcome_rank (evaluate_candidates A p cmd fb mode)"
    using candidate_bounds_verdict [OF assms(1) w(1)] written_rule_blocks_cleanup [OF assms(1-3)] assms(4) by blast
  finally show ?thesis by (simp add: rank_Allow del: One_nat_def)
qed

text \<open>An envelope passes every outcome through or denies every one.\<close>

lemma envelope_shape:
  "(\<forall>b. apply_envelope_outcome A e cmd now b = b)
   \<or> (\<exists>why. \<forall>b. apply_envelope_outcome A e cmd now b = envelope_deny why)"
  by (cases e) (auto simp: apply_envelope_outcome_def)

lemma envelope_keeps:
  "verdict_of b = VDeny \<Longrightarrow> verdict_of (apply_envelope_outcome A e cmd now b) = VDeny"
  "verdict_of b \<noteq> VAllow \<Longrightarrow> verdict_of (apply_envelope_outcome A e cmd now b) \<noteq> VAllow"
  "verdict_of (apply_envelope_outcome A e cmd now b) = VAllow \<Longrightarrow> apply_envelope_outcome A e cmd now c = c"
  using envelope_shape [of A e cmd now] by (auto simp: envelope_deny_def)

text \<open>The two texts of a command: as canonicalised, and with its own variables resolved.\<close>

definition raw_text :: "analyzers \<Rightarrow> string \<Rightarrow> string" where
  "raw_text A command = (case a_canonical A command of Some c \<Rightarrow> c | None \<Rightarrow> command)"

definition evaluated_text :: "analyzers \<Rightarrow> string \<Rightarrow> string" where
  "evaluated_text A command = (case a_resolved A (raw_text A command) of Some r \<Rightarrow> r | None \<Rightarrow> raw_text A command)"

lemma facts_unfold:
  "evaluate_with_facts A p command mode envelope now =
     (let base = evaluate_candidates A p (evaluated_text A command) (default_verdict p mode) mode;
          raw = evaluate_candidates A p (raw_text A command) (default_verdict p mode) mode;
          explicit = (case matched raw of Some r \<Rightarrow> rule_origin r \<noteq> BuiltIn | None \<Rightarrow> False);
          base2 = (if a_resolved A (raw_text A command) \<noteq> None \<and> (verdict_of raw = VDeny \<or> explicit)
                      \<and> verdict_rank (verdict_of base) < verdict_rank (verdict_of raw)
                   then raw else base);
          base3 = (if a_canonical A command = None \<and> verdict_of base2 = VAllow
                   then builtin_outcome VAsk ''<shell: ambiguous quoting or comment>'' else base2)
      in apply_envelope_outcome A envelope (evaluated_text A command) now base3)"
  unfolding evaluate_with_facts_def Let_def raw_text_def evaluated_text_def ..

lemma second_look:
  assumes "base2 = (if R \<and> (verdict_of raw = VDeny \<or> explicit) \<and>
      verdict_rank (verdict_of base) < verdict_rank (verdict_of raw) then raw else base)"
  shows "verdict_of base = VDeny \<or> (R \<and> verdict_of raw = VDeny) \<Longrightarrow> verdict_of base2 = VDeny"
    and "verdict_of base \<noteq> VAllow \<Longrightarrow> verdict_of base2 \<noteq> VAllow"
  unfolding assms by (cases "verdict_of base"; cases "verdict_of raw"; simp)+

lemma find_append: "List.find P (xs @ ys) = (case List.find P xs of Some x \<Rightarrow> Some x | None \<Rightarrow> List.find P ys)"
  by (induction xs) simp_all

lemma find_origin: "List.find P xs = Some x \<Longrightarrow> x \<in> set xs"
  by (auto simp: find_Some_iff)

text \<open>Rules appended by a repository change a candidate only into a firm verdict.\<close>

lemma candidate_with_more_rules:
  assumes more: "deny p = deny q @ ds" "ask p = ask q @ as" "\<forall>x\<in>set ds \<union> set as. rule_origin x = Repo"
    and same: "allow p = allow q" "sql p = sql q"
  shows "candidate_outcome A p cmd fb cand = candidate_outcome A q cmd fb cand
     \<or> (\<exists>w. candidate_outcome A p cmd fb cand = Some w \<and> firm w)"
proof -
  have "explicit_narrowing_outcome A p cand = explicit_narrowing_outcome A q cand
     \<or> (\<exists>b. explicit_narrowing_outcome A p cand = Some b \<and> firm b)"
  proof (cases "List.find (rule_matches A cand) (deny p)")
    case None
    then have nq: "List.find (rule_matches A cand) (deny q) = None"
      by (simp add: more(1) find_append split: option.splits)
    have found: "List.find (rule_matches A cand) (ask p) = (case List.find (rule_matches A cand) (ask q) of
        Some x \<Rightarrow> Some x | None \<Rightarrow> List.find (rule_matches A cand) as)"
      unfolding more(2) by (rule find_append)
    show ?thesis
    proof (cases "List.find (rule_matches A cand) (ask q) = None \<and> List.find (rule_matches A cand) as \<noteq> None")
      case True
      then obtain x where x: "List.find (rule_matches A cand) (ask p) = Some x"
        "List.find (rule_matches A cand) as = Some x" unfolding found by auto
      have "rule_origin x = Repo" using more(3) find_origin [OF x(2)] by blast
      then have "firm \<lparr>verdict_of = VAsk, matched = Some x\<rparr>"
        by (simp add: firm_def shipped_delete_ask_def)
      moreover have "explicit_narrowing_outcome A p cand = Some \<lparr>verdict_of = VAsk, matched = Some x\<rparr>"
        unfolding explicit_narrowing_outcome_def None x(1) by simp
      ultimately show ?thesis by blast
    next
      case False
      then have "List.find (rule_matches A cand) (ask p) = List.find (rule_matches A cand) (ask q)"
        unfolding found by (auto split: option.splits)
      then show ?thesis unfolding explicit_narrowing_outcome_def None nq by simp
    qed
  qed (auto simp: explicit_narrowing_outcome_def firm_def)
  then show ?thesis
  proof
    assume eq: "explicit_narrowing_outcome A p cand = explicit_narrowing_outcome A q cand"
    have un: "unnarrowed_outcome A p cand fb = unnarrowed_outcome A q cand fb"
      unfolding unnarrowed_outcome_def allow_rule_for_def same ..
    have "candidate_outcome A p cmd fb cand = candidate_outcome A q cmd fb cand"
      unfolding candidate_outcome_def evaluate_candidate_outcome_def evaluate_single_def eq un same ..
    then show ?thesis ..
  qed (use explicit_candidate in blast)
qed

lemma more_rules_never_grant:
  assumes more: "deny p = deny q @ ds" "ask p = ask q @ as" "\<forall>x\<in>set ds \<union> set as. rule_origin x = Repo"
    and same: "allow p = allow q" "sql p = sql q" "interactive_default p = interactive_default q"
    and allowed: "verdict_of (evaluate_candidates A p cmd fb mode) = VAllow"
  shows "verdict_of (evaluate_candidates A q cmd fb mode) = VAllow"
proof (cases "generated_cleanup_allowed A q cmd mode")
  case False
  then have slow: "\<not> generated_cleanup_allowed A p cmd mode"
    using same(3) by (auto simp: generated_cleanup_allowed_def more(1,2))
  have "candidate_outcome A p cmd fb cand = candidate_outcome A q cmd fb cand"
    if cand: "cand \<in> set (a_segments A cmd)" for cand
  proof (rule ccontr)
    assume "candidate_outcome A p cmd fb cand \<noteq> candidate_outcome A q cmd fb cand"
    then obtain w where w: "candidate_outcome A p cmd fb cand = Some w" "firm w"
      using candidate_with_more_rules [OF more same(1,2)] by blast
    have "outcome_rank w \<le> outcome_rank (evaluate_candidates A p cmd fb mode)"
      by (rule candidate_bounds_verdict [OF cand w(1) slow])
    then have "verdict_of w = VAllow" using allowed by (simp flip: rank_Allow(1))
    then show False using firm_not_Allow w(2) by blast
  qed
  then have "List.map_filter (candidate_outcome A p cmd fb) (a_segments A cmd)
      = List.map_filter (candidate_outcome A q cmd fb) (a_segments A cmd)"
    by (induction "a_segments A cmd") (auto simp: List.map_filter_def intro!: map_cong filter_cong)
  then show ?thesis using allowed slow False by (simp add: evaluate_candidates_def)
qed (simp add: evaluate_candidates_def)

section \<open>The properties\<close>

text \<open>C23: A rule that the operator, the environment or the repository wrote binds. If its pattern
  matches any executable candidate of the command, a deny rule denies the command, whether the
  candidate appears in the text as written or only after its variables are resolved, and an ask rule
  (matching the evaluated text) keeps it from running unasked, provided no shipped recursive-delete
  ask rule matches the same candidate. No analyzer, allow rule, default, launch mode or worker
  envelope softens this.\<close>

theorem written_rules_bind:
  assumes origin: "rule_origin r \<noteq> BuiltIn" and match: "glob_ok (pattern r) cand"
  shows "(r \<in> set (deny p) \<and> cand \<in> set (a_segments A (raw_text A command)) \<union> set (a_segments A (evaluated_text A command))
           \<longrightarrow> verdict_of (evaluate_with_facts A p command mode envelope now) = VDeny)
     \<and> (r \<in> set (ask p) \<and> cand \<in> set (a_segments A (evaluated_text A command))
           \<and> (\<forall>x\<in>set (ask p). rule_matches A cand x \<longrightarrow> \<not> shipped_delete_rule x)
           \<longrightarrow> verdict_of (evaluate_with_facts A p command mode envelope now) \<noteq> VAllow)"
proof (intro conjI impI)
  let ?fb = "default_verdict p mode"
  let ?base = "evaluate_candidates A p (evaluated_text A command) ?fb mode"
  let ?raw = "evaluate_candidates A p (raw_text A command) ?fb mode"
  assume deny: "r \<in> set (deny p) \<and> cand \<in> set (a_segments A (raw_text A command)) \<union> set (a_segments A (evaluated_text A command))"
  then have "verdict_of ?base = VDeny \<or> verdict_of ?raw = VDeny"
    using evaluate_candidates_deny [OF _ match origin] by blast
  moreover have "a_resolved A (raw_text A command) = None \<Longrightarrow> ?base = ?raw"
    by (simp add: evaluated_text_def)
  ultimately have "verdict_of ?base = VDeny \<or> (a_resolved A (raw_text A command) \<noteq> None \<and> verdict_of ?raw = VDeny)"
    by metis
  note second_look(1) [OF refl this]
  then show "verdict_of (evaluate_with_facts A p command mode envelope now) = VDeny"
    unfolding facts_unfold Let_def by (intro envelope_keeps(1)) simp
next
  let ?fb = "default_verdict p mode"
  let ?base = "evaluate_candidates A p (evaluated_text A command) ?fb mode"
  assume "r \<in> set (ask p) \<and> cand \<in> set (a_segments A (evaluated_text A command))
           \<and> (\<forall>x\<in>set (ask p). rule_matches A cand x \<longrightarrow> \<not> shipped_delete_rule x)"
  then have base: "verdict_of ?base \<noteq> VAllow"
    using evaluate_candidates_ask [OF _ match origin] by blast
  note second_look(2) [OF refl base]
  then show "verdict_of (evaluate_with_facts A p command mode envelope now) \<noteq> VAllow"
    unfolding facts_unfold Let_def by (intro envelope_keeps(2)) simp
qed

text \<open>A repository never grants a command. If a command that names no variable of its own is
  allowed under the policy resolved with a repository's configuration, it is allowed under the policy
  resolved without it, in every mode and under every worker envelope.\<close>

theorem repository_never_grants_a_command:
  assumes with_repo: "resolve_safety D S h r env = Inr p" and without: "resolve_safety D S h None env = Inr q"
    and plain: "a_resolved A (raw_text A command) = None"
    and allowed: "verdict_of (evaluate_with_facts A p command mode envelope now) = VAllow"
  shows "verdict_of (evaluate_with_facts A q command mode envelope now) = VAllow"
proof -
  obtain ds as where more: "deny p = deny q @ ds" "ask p = ask q @ as" "\<forall>x\<in>set ds \<union> set as. rule_origin x = Repo"
    and same: "allow p = allow q" "sql p = sql q" "interactive_default p = interactive_default q"
      "default_headless p = default_headless q"
    using repository_contribution [OF with_repo] without by auto
  let ?e = "\<lambda>x. evaluate_candidates A x (raw_text A command) (default_verdict p mode) mode"
  have fb: "default_verdict q mode = default_verdict p mode" by (simp add: default_verdict_def same)
  have facts: "evaluate_with_facts A x command mode envelope now =
      apply_envelope_outcome A envelope (raw_text A command) now
        (if a_canonical A command = None \<and> verdict_of (?e x) = VAllow
         then builtin_outcome VAsk ''<shell: ambiguous quoting or comment>'' else ?e x)"
    if "default_verdict x mode = default_verdict p mode" for x
    using that plain by (simp add: facts_unfold evaluated_text_def Let_def)
  define b where "b = (if a_canonical A command = None \<and> verdict_of (?e p) = VAllow
      then builtin_outcome VAsk ''<shell: ambiguous quoting or comment>'' else ?e p)"
  have ok: "verdict_of (apply_envelope_outcome A envelope (raw_text A command) now b) = VAllow"
    using allowed unfolding facts [OF refl] b_def .
  then have "verdict_of b = VAllow" using envelope_keeps(2) by blast
  then have b: "b = ?e p" "a_canonical A command \<noteq> None" by (auto simp: b_def split: if_splits)
  have final: "apply_envelope_outcome A envelope (raw_text A command) now (?e p) = ?e p"
    "verdict_of (?e p) = VAllow" "a_canonical A command \<noteq> None"
    using envelope_keeps(3) [OF ok] \<open>verdict_of b = VAllow\<close> b by simp_all
  have q: "verdict_of (?e q) = VAllow"
    by (rule more_rules_never_grant [OF more same(1-3) final(2)])
  have "verdict_of (apply_envelope_outcome A envelope (raw_text A command) now (?e q)) = VAllow"
    unfolding envelope_keeps(3) [OF ok] by (rule q)
  then show ?thesis using final(3) by (auto simp: facts [OF fb])
qed

text \<open>Concrete inputs: analyzers that recognise nothing, on one-candidate commands.\<close>

definition quiet :: analyzers where
  "quiet =
     \<lparr>a_segments = (\<lambda>c. [c]), a_canonical = Some, a_resolved = (\<lambda>_. None),
      a_rm_zirv = (\<lambda>_ _. False), a_supervisor_override = (\<lambda>_. False), a_benchmark_run = (\<lambda>_. False),
      a_reserved_name = (\<lambda>_. None), a_auto_allow = (\<lambda>_. None), a_posture_deny = (\<lambda>_. None),
      a_artifact_deny = (\<lambda>_. None), a_compile_deny = (\<lambda>_. None), a_sql = (\<lambda>_ _. None),
      a_redirects = (\<lambda>_. []), a_secret_path = (\<lambda>_. False), a_credential_path = (\<lambda>_. False),
      a_credential_access = (\<lambda>_. False), a_secret_read = (\<lambda>_. False), a_writes_config = (\<lambda>_. False),
      a_config_edit = (\<lambda>_. False), a_collapsed = (\<lambda>c. c), a_network = (\<lambda>_ _. None),
      a_recursive_delete = (\<lambda>_. False), a_delete_confined = (\<lambda>_ _. False), a_vcs = (\<lambda>_. False),
      a_distribution = (\<lambda>_. False), a_orchestrator = (\<lambda>_. False), a_pipe_to_shell = (\<lambda>_. False),
      a_find_exec = (\<lambda>_. False), a_transparent = (\<lambda>_. False), a_usage = (\<lambda>_. False),
      a_generated_cleanup = (\<lambda>_. False), a_network_program = (\<lambda>_. False), a_targets_confined = (\<lambda>_. None)\<rparr>"

definition sample_rule_decoder :: "(string list + verdict) safety_decoder" where
  "sample_rule_decoder =
     \<lparr>dec_strings = (\<lambda>v. case v of Inl xs \<Rightarrow> Some xs | Inr _ \<Rightarrow> None),
      dec_verdict = (\<lambda>v. case v of Inl _ \<Rightarrow> None | Inr x \<Rightarrow> Some x), dec_sql = (\<lambda>_. None), dec_u32 = (\<lambda>_. None)\<rparr>"

definition no_env :: env_lookup where
  "no_env _ = None"

definition policy_with :: "rule list \<Rightarrow> rule list \<Rightarrow> verdict \<Rightarrow> safety_policy" where
  "policy_with ds as v =
     \<lparr>deny = ds, ask = as, allow = [], escape_allow = [], default_headless = v, interactive_default = VAllow,
      sql = SqlOn, denial_breaker_threshold = 3, identical_command_warn_after = 2,
      identical_command_refuse_after = 5\<rparr>"

definition bare_posture :: "(string \<times> string) list \<Rightarrow> posture" where
  "bare_posture asks =
     \<lparr>shipped_deny = [], shipped_ask = asks, shipped_allow = [], reserved_patterns = [],
      escape_builtin_programs = [], escape_additional_programs = []\<rparr>"

lemma glob_ok_value: "glob_ok pat text \<longleftrightarrow> globs pat text \<or> pat = text @ '' *''"
  by (simp add: glob_ok_def glob_match_value)

lemmas sample_resolution_defs =
  resolve_safety_def resolved_policy_def parse_safety_layer_def read_safety_entry_def verdict_setting_def
  sql_setting_def layered_rules_def operator_rules_def rules_from_def default_layer_def or_else_def
  narrow_threshold_def sample_rule_decoder_def no_env_def policy_with_def bare_posture_def
  builtin_deny_def builtin_ask_def builtin_allow_def builtin_escape_allow_def posture_rules_def

lemma ask_layer_resolved:
  "resolve_safety sample_rule_decoder (bare_posture []) (Some [(''default'', Inr VDeny)]) None no_env
     = Inr (policy_with [] [] VDeny)"
  "resolve_safety sample_rule_decoder (bare_posture []) None None no_env = Inr (policy_with [] [] VAsk)"
  "resolve_safety sample_rule_decoder (bare_posture []) None (Some [(''ask'', Inl [''make *''])]) no_env
     = Inr (policy_with [] [\<lparr>pattern = ''make *'', rule_origin = Repo\<rparr>] VAsk)"
  "resolve_safety sample_rule_decoder (bare_posture []) (Some [(''default'', Inr VDeny)])
       (Some [(''ask'', Inl [''make *''])]) no_env
     = Inr (policy_with [] [\<lparr>pattern = ''make *'', rule_origin = Repo\<rparr>] VDeny)"
  by (simp_all add: sample_resolution_defs List.map_filter_simps)

text \<open>The same with the guard against posture-weakening flags firing where \<open>g\<close> says.\<close>

definition guarded :: "(string \<Rightarrow> rule option) \<Rightarrow> analyzers" where
  "guarded g = quiet\<lparr>a_posture_deny := g\<rparr>"

lemma quiet_guarded: "quiet = guarded (\<lambda>_. None)"
proof -
  have "a_posture_deny quiet = (\<lambda>_. None)" by (simp add: quiet_def)
  then have "quiet\<lparr>a_posture_deny := (\<lambda>_. None)\<rparr> = quiet\<lparr>a_posture_deny := a_posture_deny quiet\<rparr>" by simp
  also have "\<dots> = quiet" by (cases quiet) simp
  finally show ?thesis by (simp add: guarded_def)
qed

lemma guarded_fields [simp]:
  "a_canonical (guarded g) c = Some c" "a_resolved (guarded g) c = None" "a_segments (guarded g) c = [c]"
  "a_transparent (guarded g) c = False" "a_generated_cleanup (guarded g) c = False"
  "a_auto_allow (guarded g) c = None" "a_artifact_deny (guarded g) c = None" "a_compile_deny (guarded g) c = None"
  "a_reserved_name (guarded g) c = None" "a_posture_deny (guarded g) c = g c"
  by (simp_all add: guarded_def quiet_def)

lemma guarded_analyzers:
  "a_sql (guarded g) c d = None" "a_redirects (guarded g) c = []" "a_credential_access (guarded g) c = False"
  "a_secret_read (guarded g) c = False" "a_writes_config (guarded g) c = False" "a_config_edit (guarded g) c = False"
  "a_network (guarded g) c d = None" "a_recursive_delete (guarded g) c = False" "a_vcs (guarded g) c = False"
  "a_distribution (guarded g) c = False" "a_orchestrator (guarded g) c = False" "a_pipe_to_shell (guarded g) c = False"
  "a_find_exec (guarded g) c = False"
  by (simp_all add: guarded_def quiet_def)

lemmas chain_defs =
  analyzer_chain_def Let_def apply_sql_outcome_def apply_credential_outcome_def apply_operator_config_outcome_def
  apply_network_outcome_def apply_recursive_delete_outcome_def apply_vcs_outcome_def apply_distribution_outcome_def
  apply_orchestrator_outcome_def apply_pipe_to_shell_outcome_def apply_find_exec_outcome_def ask_if_def deny_if_def

lemma guarded_chain: "analyzer_chain (guarded g) m c d b = b"
  unfolding chain_defs guarded_analyzers by simp

lemma one_candidate:
  assumes "a_canonical A cmd = Some cmd" "a_resolved A cmd = None" "a_segments A cmd = [cmd]"
    "\<not> a_transparent A cmd" "\<not> a_generated_cleanup A cmd"
  shows "evaluate_with_facts A p cmd mode None 0 = evaluate_candidate_outcome A p cmd cmd (default_verdict p mode)"
proof -
  have "candidate_outcome A p cmd fb cmd = Some (evaluate_candidate_outcome A p cmd cmd fb)" for fb
    using assms(4) by (simp add: candidate_outcome_def)
  then have "evaluate_candidates A p cmd fb mode = evaluate_candidate_outcome A p cmd cmd fb" for fb
    unfolding evaluate_candidates_def generated_cleanup_allowed_def assms(3) List.map_filter_simps
    using assms(4,5) by (simp add: fold_worst_Cons List.map_filter_simps)
  then show ?thesis
    by (simp add: facts_unfold raw_text_def evaluated_text_def assms(1,2) apply_envelope_outcome_def)
qed

lemma guarded_evaluation:
  "evaluate_with_facts (guarded g) p cmd mode None 0 = evaluate_single (guarded g) p cmd (default_verdict p mode)"
  by (simp add: one_candidate evaluate_candidate_outcome_def guarded_chain)

lemma make_matches: "glob_ok ''make *'' ''make deploy''"
  unfolding glob_ok_value by code_simp

lemma make_rule_matches: "rule_matches A ''make deploy'' \<lparr>pattern = ''make *'', rule_origin = Repo\<rparr>"
  by (rule written_rule_matches) (simp_all add: make_matches)

lemma make_outcomes:
  "verdict_of (evaluate_with_facts (guarded g) (policy_with [] [] v) ''make deploy'' Headless None 0)
     = (if g ''make deploy'' = None then v else VDeny)"
  "verdict_of (evaluate_with_facts (guarded g) (policy_with [] [\<lparr>pattern = ''make *'', rule_origin = Repo\<rparr>] v)
      ''make deploy'' Headless None 0) = VAsk"
  by (simp_all add: guarded_evaluation evaluate_single_def explicit_narrowing_outcome_def unnarrowed_outcome_def
      allow_rule_for_def policy_with_def default_verdict_def make_rule_matches split: option.splits)

lemma written_rules_bind_witness:
  "verdict_of (evaluate_with_facts quiet (policy_with [\<lparr>pattern = ''make *'', rule_origin = Repo\<rparr>] [] VAllow)
      ''make deploy'' Interactive None 0) = VDeny
   \<and> verdict_of (evaluate_with_facts quiet (policy_with [] [\<lparr>pattern = ''make *'', rule_origin = Repo\<rparr>] VAllow)
      ''make deploy'' Interactive None 0) \<noteq> VAllow"
proof -
  let ?r = "\<lparr>pattern = ''make *'', rule_origin = Repo\<rparr>"
  have r: "rule_origin ?r \<noteq> BuiltIn" "glob_ok (pattern ?r) ''make deploy''" by (simp_all add: make_matches)
  have texts: "raw_text quiet ''make deploy'' = ''make deploy''" "evaluated_text quiet ''make deploy'' = ''make deploy''"
    "a_segments quiet ''make deploy'' = [''make deploy'']"
    by (simp_all add: raw_text_def evaluated_text_def quiet_def)
  show ?thesis
    using written_rules_bind [OF r, of "policy_with [?r] [] VAllow" quiet "''make deploy''" Interactive None 0]
      written_rules_bind [OF r, of "policy_with [] [?r] VAllow" quiet "''make deploy''" Interactive None 0]
    unfolding texts by (simp add: policy_with_def shipped_delete_rule_def)
qed

lemma repository_never_grants_a_command_witness:
  "verdict_of (evaluate_with_facts quiet (policy_with [] [] VAllow) ''ls -la'' Headless None 0) = VAllow"
proof -
  let ?h = "Some [(''default'', Inr VAllow)]" and ?r = "Some [(''ask'', Inl [''make *''])]"
  let ?p = "policy_with [] [\<lparr>pattern = ''make *'', rule_origin = Repo\<rparr>] VAllow"
  have p: "resolve_safety sample_rule_decoder (bare_posture []) ?h ?r no_env = Inr ?p"
    and q: "resolve_safety sample_rule_decoder (bare_posture []) ?h None no_env = Inr (policy_with [] [] VAllow)"
    by (simp_all add: sample_resolution_defs List.map_filter_simps)
  have "\<not> glob_ok ''make *'' ''ls -la''" unfolding glob_ok_value by code_simp
  then have "\<not> rule_matches quiet ''ls -la'' \<lparr>pattern = ''make *'', rule_origin = Repo\<rparr>"
    by (simp add: rule_matches_def built_in_structural_rule_matches_def narrowing_rule_matches_def quiet_guarded)
  then have "verdict_of (evaluate_with_facts quiet ?p ''ls -la'' Headless None 0) = VAllow"
    by (simp add: quiet_guarded guarded_evaluation evaluate_single_def explicit_narrowing_outcome_def
        unnarrowed_outcome_def allow_rule_for_def policy_with_def default_verdict_def)
  moreover have "a_resolved quiet (raw_text quiet ''ls -la'') = None" by (simp add: quiet_guarded)
  ultimately show ?thesis using repository_never_grants_a_command [OF p q] by blast
qed

text \<open>A repository can soften a deny to an ask. A candidate's explicit rules are tried before the
  unconditional denials and before the default verdict, so a repository's ask rule that matches hides
  both: under an operator's default of \<open>deny\<close>, and for a command that the guard against
  posture-weakening flags denies outright, the command is denied without the repository's
  configuration and only asked about with it.\<close>

theorem repository_ask_rule_softens_a_deny:
  "\<exists>p q p' q' g. resolve_safety sample_rule_decoder (bare_posture []) (Some [(''default'', Inr VDeny)]) None no_env = Inr q
     \<and> resolve_safety sample_rule_decoder (bare_posture []) (Some [(''default'', Inr VDeny)])
         (Some [(''ask'', Inl [''make *''])]) no_env = Inr p
     \<and> verdict_of (evaluate_with_facts quiet q ''make deploy'' Headless None 0) = VDeny
     \<and> verdict_of (evaluate_with_facts quiet p ''make deploy'' Headless None 0) = VAsk
     \<and> resolve_safety sample_rule_decoder (bare_posture []) None None no_env = Inr q'
     \<and> resolve_safety sample_rule_decoder (bare_posture []) None (Some [(''ask'', Inl [''make *''])]) no_env = Inr p'
     \<and> a_posture_deny (guarded g) ''make deploy'' \<noteq> None
     \<and> verdict_of (evaluate_with_facts (guarded g) q' ''make deploy'' Headless None 0) = VDeny
     \<and> verdict_of (evaluate_with_facts (guarded g) p' ''make deploy'' Headless None 0) = VAsk"
  by (rule exI [of _ "policy_with [] [\<lparr>pattern = ''make *'', rule_origin = Repo\<rparr>] VDeny"],
      rule exI [of _ "policy_with [] [] VDeny"],
      rule exI [of _ "policy_with [] [\<lparr>pattern = ''make *'', rule_origin = Repo\<rparr>] VAsk"],
      rule exI [of _ "policy_with [] [] VAsk"],
      rule exI [of _ "\<lambda>_. Some \<lparr>pattern = ''zirv agent *'', rule_origin = BuiltIn\<rparr>"])
    (simp add: ask_layer_resolved make_outcomes quiet_guarded)

text \<open>An operator's ask rule for a recursive delete can be lost. The shipped rule \<open>rm -rf *\<close> comes
  first in the ask list and the first match wins, so a delete below a temporary root is matched by the
  shipped rule, which the analyzer for recursive deletes may take back, and runs unasked although the
  operator wrote an ask rule that matches it.\<close>

theorem operator_ask_rule_is_masked:
  "\<exists>p r. resolve_safety sample_rule_decoder (bare_posture [(''Bash(rm -rf *)'', ''recursive force-delete'')])
         (Some [(''ask'', Inl [''rm -rf /tmp/*''])]) None no_env = Inr p
     \<and> r \<in> set (ask p) \<and> rule_origin r = Operator \<and> glob_ok (pattern r) ''rm -rf /tmp/keep''
     \<and> verdict_of (evaluate_with_facts (quiet\<lparr>a_recursive_delete := (\<lambda>_. True), a_delete_confined := (\<lambda>_ _. True)\<rparr>)
           p ''rm -rf /tmp/keep'' Headless None 0) = VAllow"
proof -
  let ?ship = "\<lparr>pattern = ''rm -rf *'', rule_origin = BuiltIn\<rparr>"
  let ?own = "\<lparr>pattern = ''rm -rf /tmp/*'', rule_origin = Operator\<rparr>"
  let ?p = "policy_with [] [?ship, ?own] VAsk"
  let ?A = "quiet\<lparr>a_recursive_delete := (\<lambda>_. True), a_delete_confined := (\<lambda>_ _. True)\<rparr>"
  have pat: "command_pattern_from_bash_rule ''Bash(rm -rf *)'' = Some ''rm -rf *''" by code_simp
  have res: "resolve_safety sample_rule_decoder (bare_posture [(''Bash(rm -rf *)'', ''recursive force-delete'')])
         (Some [(''ask'', Inl [''rm -rf /tmp/*''])]) None no_env = Inr ?p"
    by (simp add: sample_resolution_defs List.map_filter_simps pat)
  have globs: "glob_ok ''rm -rf *'' ''rm -rf /tmp/keep''" "glob_ok ''rm -rf /tmp/*'' ''rm -rf /tmp/keep''"
    unfolding glob_ok_value by code_simp+
  have ship: "rule_matches ?A ''rm -rf /tmp/keep'' ?ship"
    using globs(1) by (simp add: rule_matches_def built_in_structural_rule_matches_def narrowing_rule_matches_def)
  have single: "evaluate_single ?A ?p ''rm -rf /tmp/keep'' VAsk = \<lparr>verdict_of = VAsk, matched = Some ?ship\<rparr>"
    by (simp add: evaluate_single_def explicit_narrowing_outcome_def policy_with_def ship)
  have shape: "a_canonical ?A c = Some c" "a_resolved ?A c = None" "a_segments ?A c = [c]"
    "a_transparent ?A c = False" "a_generated_cleanup ?A c = False" for c
    by (simp_all add: quiet_def)
  have fields: "a_sql ?A c d = None" "a_redirects ?A c = []" "a_credential_access ?A c = False"
    "a_secret_read ?A c = False" "a_writes_config ?A c = False" "a_config_edit ?A c = False"
    "a_network ?A c d = None" "a_recursive_delete ?A c" "a_delete_confined ?A c d" "a_vcs ?A c = False"
    "a_distribution ?A c = False" "a_orchestrator ?A c = False" "a_pipe_to_shell ?A c = False"
    "a_find_exec ?A c = False" for c d
    by (simp_all add: quiet_def)
  have chain: "verdict_of (analyzer_chain ?A SqlOn c d \<lparr>verdict_of = VAsk, matched = Some ?ship\<rparr>) = VAllow" for c d
    unfolding chain_defs fields
    by (simp add: shipped_delete_ask_def)
  have p: "sql ?p = SqlOn" "default_verdict ?p Headless = VAsk"
    by (simp_all add: policy_with_def default_verdict_def)
  have "verdict_of (evaluate_with_facts ?A ?p ''rm -rf /tmp/keep'' Headless None 0) = VAllow"
    by (simp only: one_candidate shape simp_thms evaluate_candidate_outcome_def p single chain)
  then show ?thesis using res globs(2)
    by (intro exI [of _ ?p] exI [of _ ?own]) (simp add: policy_with_def)
qed

end
