(* ===== verification/State_Dir.thy ===== *)
theory State_Dir
  imports Prelude
begin

text \<open>
  The state directory that every durable component shares, \<open>src/commands/ctx/state.rs\<close>, and the
  process probes of \<open>src/commands/ctx/sessions/mod.rs\<close> that decide whether the owner of a record
  is still alive.

  A component's part of the directory is a map from file stems to files. A file holds a record or
  is garbled (it exists and does not parse); \<open>write_private\<close> replaces a file as a whole, so a
  failed write leaves the old content. Locks are blocking and can only fail to open;
  \<open>lock_failures\<close> and \<open>write_failures\<close> are the schedules of such failures, consumed one per
  attempt. The operating system answers of the probes are a table.
\<close>

section \<open>File names\<close>

definition provider_slug :: "string \<Rightarrow> string" where
  "provider_slug provider =
     (let slug = map (\<lambda>c. let l = ascii_lower_char c in
            if is_ascii_lowercase l \<or> is_ascii_digit l \<or> l = CHR ''-'' then l else CHR ''-'')
          provider
      in if slug = [] then ''unknown'' else slug)"

section \<open>Files, locks and writes\<close>

datatype io_error = NoLock | NoWrite

definition take_failure :: "bool list \<Rightarrow> bool \<times> bool list" where
  "take_failure xs = (case xs of [] \<Rightarrow> (False, []) | b # bs \<Rightarrow> (b, bs))"

datatype 'a stored = Garbled | Holds 'a

record 'a dir =
  files :: "string \<Rightarrow> 'a stored option"
  lock_failures :: "bool list"
  write_failures :: "bool list"

definition put_entry :: "string \<Rightarrow> 'a stored option \<Rightarrow> 'a dir \<Rightarrow> 'a dir" where
  "put_entry stem f d = d\<lparr>files := (files d)(stem := f)\<rparr>"

interpretation entries: keyed_store files put_entry
  by unfold_locales (simp add: put_entry_def)

definition acquire_lock :: "'a dir \<Rightarrow> bool \<times> 'a dir" where
  "acquire_lock d = (let (failed, rest) = take_failure (lock_failures d)
     in (\<not> failed, d\<lparr>lock_failures := rest\<rparr>))"

definition held :: "'a dir \<Rightarrow> string \<Rightarrow> 'a option" where
  "held d stem = (case files d stem of Some (Holds r) \<Rightarrow> Some r | _ \<Rightarrow> None)"

definition write_private :: "string \<Rightarrow> 'a \<Rightarrow> 'a dir \<Rightarrow> bool \<times> 'a dir" where
  "write_private stem r d =
     (let (failed, rest) = take_failure (write_failures d); d1 = d\<lparr>write_failures := rest\<rparr> in
      if failed then (False, d1) else (True, put_entry stem (Some (Holds r)) d1))"

definition under_lock :: "'e \<Rightarrow> ('a dir \<Rightarrow> 'a dir \<times> ('e + 'b)) \<Rightarrow> 'a dir \<Rightarrow> 'a dir \<times> ('e + 'b)" where
  "under_lock e f d =
     (let (locked, d1) = acquire_lock d in if locked then f d1 else (d1, Inl e))"

definition saving :: "'e \<Rightarrow> string \<Rightarrow> 'a \<Rightarrow> 'b \<Rightarrow> 'a dir \<Rightarrow> 'a dir \<times> ('e + 'b)" where
  "saving e stem r v d =
     (case write_private stem r d of
        (True, d1) \<Rightarrow> (d1, Inr v)
      | (False, d1) \<Rightarrow> (d1, Inl e))"

definition empty_dir :: "'a dir" where
  "empty_dir = \<lparr>files = (\<lambda>_. None), lock_failures = [], write_failures = []\<rparr>"

lemma held_put_same [simp]: "held (put_entry stem (Some (Holds r)) d) stem = Some r"
  by (simp add: held_def)

lemma held_put_other [simp]: "j \<noteq> stem \<Longrightarrow> held (put_entry stem f d) j = held d j"
  by (simp add: held_def)

lemma held_Some: "held d stem = Some r \<longleftrightarrow> files d stem = Some (Holds r)"
  by (auto simp: held_def split: option.splits stored.splits)

lemma put_entry_schedules [simp]:
  "lock_failures (put_entry stem f d) = lock_failures d"
  "write_failures (put_entry stem f d) = write_failures d"
  by (simp_all add: put_entry_def)

lemma files_acquire [simp]: "acquire_lock d = (b, d1) \<Longrightarrow> files d1 = files d"
  by (auto simp: acquire_lock_def Let_def split: prod.splits)

lemma held_acquire [simp]: "acquire_lock d = (b, d1) \<Longrightarrow> held d1 = held d"
  by (rule ext) (simp add: held_def)

text \<open>A transaction is refused with the lock, or runs on the same files.\<close>

lemma under_lock_cases:
  assumes "under_lock e f d = (d2, r)"
  obtains (refused) "files d2 = files d" "r = Inl e"
  | (entered) d1 where "files d1 = files d" "f d1 = (d2, r)"
proof -
  obtain b d1 where a: "acquire_lock d = (b, d1)" by (cases "acquire_lock d")
  show thesis
  proof (cases b)
    case True
    then show ?thesis using a assms entered [of d1] by (simp add: under_lock_def)
  next
    case False
    then show ?thesis using a assms refused by (simp add: under_lock_def)
  qed
qed

text \<open>A save either replaces one file or leaves every file alone and reports the failure.\<close>

lemma saving_cases:
  assumes "saving e stem r v d = (d2, res)"
  obtains (failed) "files d2 = files d" "res = Inl e"
  | (saved) "files d2 = (files d)(stem \<mapsto> Holds r)" "res = Inr v"
proof -
  obtain fl rest where t: "take_failure (write_failures d) = (fl, rest)"
    by (cases "take_failure (write_failures d)")
  show thesis
  proof (cases fl)
    case True
    then show ?thesis using t assms failed by (auto simp: saving_def write_private_def)
  next
    case False
    then show ?thesis using t assms saved
      by (auto simp: saving_def write_private_def put_entry_def)
  qed
qed

lemma held_files: "files d = files d' \<Longrightarrow> held d = held d'"
  by (rule ext) (simp add: held_def)

lemma held_upd: "files d = (files d')(stem \<mapsto> Holds r) \<Longrightarrow> held d = (held d')(stem \<mapsto> r)"
  by (rule ext) (simp add: held_def)

section \<open>Processes\<close>

datatype signal_probe = CanSignal | NoSuchProcess | PermissionDenied | ProbeUnknown

text \<open>
  The answers of the operating system: the signal-0 probe of each pid, the \<open>etime\<close> column that
  \<open>ps\<close> prints for it, this process's own pid, and the clock.
\<close>

record processes =
  probe_signal :: "u32 \<Rightarrow> signal_probe"
  ps_etime :: "u32 \<Rightarrow> string option"
  own_pid :: u32
  clock :: u64

definition is_alive :: "processes \<Rightarrow> u32 \<Rightarrow> bool" where
  "is_alive os pid = (probe_signal os pid \<noteq> NoSuchProcess)"

definition START_TIME_TOLERANCE_SECS :: u64 where "START_TIME_TOLERANCE_SECS = 300"

fun start_time_disambiguates_dead :: "u64 option \<Rightarrow> u64 option \<Rightarrow> bool" where
  "start_time_disambiguates_dead (Some recorded) (Some current) =
     ((if recorded \<le> current then current - recorded else recorded - current)
        > START_TIME_TOLERANCE_SECS)"
| "start_time_disambiguates_dead _ _ = False"

text \<open>
  \<open>parse_etime\<close>: an optional day count before a dash, then two or three fields between colons,
  the seconds last. The sums are plain arithmetic on \<open>u64\<close>, which wraps in a release build.
\<close>

definition etime_total :: "u64 \<Rightarrow> u64 \<Rightarrow> u64 \<Rightarrow> u64 \<Rightarrow> u64" where
  "etime_total days hours minutes seconds =
     wrap_add (wrap_add (wrap_add (wrap_mul days 86400) (wrap_mul hours 3600)) (wrap_mul minutes 60))
       seconds"

fun etime_fields :: "string list \<Rightarrow> (u64 \<times> u64 \<times> u64) option" where
  "etime_fields [m, s] =
     (case (parse_u64 (trim s), parse_u64 (trim m)) of
        (Some sv, Some mv) \<Rightarrow> Some (0, mv, sv) | _ \<Rightarrow> None)"
| "etime_fields [h, m, s] =
     (case (parse_u64 (trim s), parse_u64 (trim m), parse_u64 (trim h)) of
        (Some sv, Some mv, Some hv) \<Rightarrow> Some (hv, mv, sv) | _ \<Rightarrow> None)"
| "etime_fields _ = None"

definition split_days :: "string \<Rightarrow> (u64 \<times> string) option" where
  "split_days raw =
     (if CHR ''-'' \<in> set (trim raw)
      then let days = takeWhile (\<lambda>c. c \<noteq> CHR ''-'') (trim raw);
               rest = tl (dropWhile (\<lambda>c. c \<noteq> CHR ''-'') (trim raw))
           in map_option (\<lambda>d. (d, rest)) (parse_u64 (trim days))
      else Some (0, trim raw))"

definition parse_etime :: "string \<Rightarrow> u64 option" where
  "parse_etime raw =
     (case split_days raw of None \<Rightarrow> None
      | Some (days, rest) \<Rightarrow>
          (case etime_fields (split_char (CHR '':'') rest) of None \<Rightarrow> None
           | Some (h, m, s) \<Rightarrow> Some (etime_total days h m s)))"

definition process_age_secs :: "processes \<Rightarrow> u32 \<Rightarrow> u64 option" where
  "process_age_secs os pid = (case ps_etime os pid of None \<Rightarrow> None | Some out \<Rightarrow> parse_etime out)"

definition process_start_secs :: "processes \<Rightarrow> u32 \<Rightarrow> u64 option" where
  "process_start_secs os pid = map_option (\<lambda>age. sat_sub (clock os) age) (process_age_secs os pid)"

text \<open>A recorded owner is alive when its pid answers and is not a recycled one.\<close>

definition pid_is_owner :: "processes \<Rightarrow> u32 \<Rightarrow> u64 option \<Rightarrow> u64 option \<Rightarrow> bool" where
  "pid_is_owner os pid recorded current =
     (is_alive os pid \<and> \<not> start_time_disambiguates_dead recorded current)"

end
