(* ===== verification/Reservation.thy ===== *)
theory Reservation
  imports State_Dir
begin

text \<open>
  The per-provider token ledger, \<open>src/commands/ctx/reservation.rs\<close>: reserving, reserving within
  a limit, settling and releasing a reservation, the sweep of reservations whose owner died, and
  the readers. One ledger file per provider slug; every mutation loads, sweeps and saves under
  that ledger's lock.

  The identifier that \<open>Uuid::new_v4\<close> mints is an argument, and what the operating system says of
  the owners is the table \<open>processes\<close>, which may differ from one call to the next. The directory
  listing \<open>known_providers\<close> is not modelled.
\<close>

section \<open>Data\<close>

record reservation =
  rv_id :: string
  rv_session :: string
  rv_pid :: u32
  rv_pid_start_time :: "u64 option"
  rv_tokens :: u64
  rv_created_at :: u64

record ledger =
  lg_schema_version :: u32
  lg_entries :: "reservation list"

definition default_ledger :: ledger where
  "default_ledger = \<lparr>lg_schema_version = 1, lg_entries = []\<rparr>"

type_synonym reservations = "ledger dir"

definition load_ledger :: "reservations \<Rightarrow> string \<Rightarrow> ledger" where
  "load_ledger d provider =
     (case held d (provider_slug provider) of Some l \<Rightarrow> l | None \<Rightarrow> default_ledger)"

section \<open>Ownership\<close>

definition owner_is_alive_with :: "processes \<Rightarrow> reservation \<Rightarrow> u64 option \<Rightarrow> bool" where
  "owner_is_alive_with os entry current_start =
     pid_is_owner os (rv_pid entry) (rv_pid_start_time entry) current_start"

definition is_owner_alive :: "processes \<Rightarrow> reservation \<Rightarrow> bool" where
  "is_owner_alive os entry = owner_is_alive_with os entry (process_start_secs os (rv_pid entry))"

definition prune_dead :: "processes \<Rightarrow> ledger \<Rightarrow> ledger" where
  "prune_dead os l = l\<lparr>lg_entries := filter (is_owner_alive os) (lg_entries l)\<rparr>"

section \<open>Operations\<close>

definition tokens_total :: "reservation list \<Rightarrow> u64" where
  "tokens_total es = foldl (\<lambda>sum e. sat_add sum (rv_tokens e)) 0 es"

definition new_reservation :: "processes \<Rightarrow> string \<Rightarrow> string \<Rightarrow> u64 \<Rightarrow> u64 \<Rightarrow> reservation" where
  "new_reservation os uuid session tokens now =
     \<lparr>rv_id = uuid, rv_session = session, rv_pid = own_pid os,
      rv_pid_start_time = process_start_secs os (own_pid os), rv_tokens = tokens,
      rv_created_at = now\<rparr>"

definition push_entry :: "reservation \<Rightarrow> ledger \<Rightarrow> ledger" where
  "push_entry e l = l\<lparr>lg_entries := lg_entries l @ [e]\<rparr>"

definition reserve ::
    "processes \<Rightarrow> string \<Rightarrow> string \<Rightarrow> string \<Rightarrow> u64 \<Rightarrow> u64 \<Rightarrow> reservations
      \<Rightarrow> reservations \<times> (io_error + reservation)" where
  "reserve os uuid provider session tokens now =
     under_lock NoLock (\<lambda>d.
       let l = prune_dead os (load_ledger d provider);
           r = new_reservation os uuid session tokens now
       in saving NoWrite (provider_slug provider) (push_entry r l) r d)"

definition over_limit :: "u64 option \<Rightarrow> u64 \<Rightarrow> u64 \<Rightarrow> bool" where
  "over_limit limit outstanding tokens =
     (case limit of Some lim \<Rightarrow> lim < sat_add outstanding tokens | None \<Rightarrow> False)"

text \<open>
  \<open>reserve_within\<close>: the inner \<open>Inl\<close> carries the outstanding total that leaves no room, in which
  case nothing is written.
\<close>

definition reserve_within ::
    "processes \<Rightarrow> string \<Rightarrow> string \<Rightarrow> string \<Rightarrow> u64 \<Rightarrow> u64 option \<Rightarrow> u64 \<Rightarrow> reservations
      \<Rightarrow> reservations \<times> (io_error + (u64 + reservation))" where
  "reserve_within os uuid provider session tokens limit now =
     under_lock NoLock (\<lambda>d.
       let l = prune_dead os (load_ledger d provider);
           outstanding = tokens_total (lg_entries l);
           r = new_reservation os uuid session tokens now
       in if over_limit limit outstanding tokens then (d, Inr (Inl outstanding))
          else saving NoWrite (provider_slug provider) (push_entry r l) (Inr r) d)"

fun remove_first :: "('a \<Rightarrow> bool) \<Rightarrow> 'a list \<Rightarrow> ('a \<times> 'a list) option" where
  "remove_first P [] = None"
| "remove_first P (x # xs) =
     (if P x then Some (x, xs) else map_option (\<lambda>(y, ys). (y, x # ys)) (remove_first P xs))"

definition settle ::
    "processes \<Rightarrow> string \<Rightarrow> string \<Rightarrow> u64 \<Rightarrow> reservations \<Rightarrow> reservations \<times> (io_error + u64 option)" where
  "settle os provider rid actual_tokens =
     under_lock NoLock (\<lambda>d.
       let l = prune_dead os (load_ledger d provider) in
       case remove_first (\<lambda>e. rv_id e = rid) (lg_entries l) of
         None \<Rightarrow> saving NoWrite (provider_slug provider) l None d
       | Some (removed, rest) \<Rightarrow>
           saving NoWrite (provider_slug provider) (l\<lparr>lg_entries := rest\<rparr>)
             (Some (rv_tokens removed)) d)"

definition release ::
    "processes \<Rightarrow> string \<Rightarrow> string \<Rightarrow> reservations \<Rightarrow> reservations \<times> (io_error + bool)" where
  "release os provider rid =
     under_lock NoLock (\<lambda>d.
       let l = prune_dead os (load_ledger d provider);
           kept = filter (\<lambda>e. rv_id e \<noteq> rid) (lg_entries l)
       in saving NoWrite (provider_slug provider) (l\<lparr>lg_entries := kept\<rparr>)
            (length kept \<noteq> length (lg_entries l)) d)"

definition outstanding :: "processes \<Rightarrow> reservations \<Rightarrow> string \<Rightarrow> u64" where
  "outstanding os d provider =
     tokens_total (filter (is_owner_alive os) (lg_entries (load_ledger d provider)))"

definition active_count :: "processes \<Rightarrow> reservations \<Rightarrow> string \<Rightarrow> u32" where
  "active_count os d provider =
     min (length (filter (is_owner_alive os) (lg_entries (load_ledger d provider)))) (2 ^ 32 - 1)"

definition reservation_entries :: "reservations \<Rightarrow> string \<Rightarrow> reservation list" where
  "reservation_entries d provider = lg_entries (load_ledger d provider)"

definition prune_dead_locked ::
    "processes \<Rightarrow> string \<Rightarrow> reservations \<Rightarrow> reservations \<times> (io_error + reservation list)" where
  "prune_dead_locked os provider =
     under_lock NoLock (\<lambda>d.
       let l = load_ledger d provider;
           dead = filter (\<lambda>e. \<not> is_owner_alive os e) (lg_entries l)
       in if dead = [] then (d, Inr dead)
          else saving NoWrite (provider_slug provider) (prune_dead os l) dead d)"

section \<open>Runs of operations\<close>

text \<open>
  Any sequence of operations by any processes: each carries what the operating system says at
  that moment. An operation reports the reservation it resolved, if any.
\<close>

datatype ledger_op =
    OpReserve processes string string string u64 u64
  | OpReserveWithin processes string string string u64 "u64 option" u64
  | OpSettle processes string string u64
  | OpRelease processes string string
  | OpPrune processes string

datatype ledger_report = Quiet | Admitted string string u64 | Resolved string string "u64 option"

fun ledger_step :: "ledger_op \<Rightarrow> reservations \<Rightarrow> reservations \<times> ledger_report" where
  "ledger_step (OpReserve os uuid p session tokens now) d =
     (case reserve os uuid p session tokens now d of
        (d1, Inr r) \<Rightarrow> (d1, Admitted (provider_slug p) uuid tokens)
      | (d1, _) \<Rightarrow> (d1, Quiet))"
| "ledger_step (OpReserveWithin os uuid p session tokens limit now) d =
     (case reserve_within os uuid p session tokens limit now d of
        (d1, Inr (Inr r)) \<Rightarrow> (d1, Admitted (provider_slug p) uuid tokens)
      | (d1, _) \<Rightarrow> (d1, Quiet))"
| "ledger_step (OpSettle os p rid actual) d =
     (case settle os p rid actual d of
        (d1, Inr (Some t)) \<Rightarrow> (d1, Resolved (provider_slug p) rid (Some t))
      | (d1, _) \<Rightarrow> (d1, Quiet))"
| "ledger_step (OpRelease os p rid) d =
     (case release os p rid d of
        (d1, Inr True) \<Rightarrow> (d1, Resolved (provider_slug p) rid None)
      | (d1, _) \<Rightarrow> (d1, Quiet))"
| "ledger_step (OpPrune os p) d = (fst (prune_dead_locked os p d), Quiet)"

fun run_ledger :: "ledger_op list \<Rightarrow> reservations \<Rightarrow> reservations \<times> ledger_report list" where
  "run_ledger [] d = (d, [])"
| "run_ledger (x # xs) d =
     (let (d1, r) = ledger_step x d; (d2, rs) = run_ledger xs d1 in (d2, r # rs))"

section \<open>Totals\<close>

lemma foldl_sat_add:
  "foldl (\<lambda>sum e. sat_add sum (rv_tokens e)) (min u64_max a) es =
     min u64_max (a + sum_list (map rv_tokens es))"
proof (induction es arbitrary: a)
  case (Cons e es)
  have "sat_add (min u64_max a) (rv_tokens e) = min u64_max (a + rv_tokens e)"
    by (simp add: sat_add_def min_def)
  then show ?case using Cons [of "a + rv_tokens e"] by (simp add: add.assoc)
qed simp

lemma tokens_total_sum: "tokens_total es = min u64_max (sum_list (map rv_tokens es))"
  using foldl_sat_add [of 0 es] by (simp add: tokens_total_def)

lemma tokens_total_snoc: "tokens_total (es @ [e]) = sat_add (tokens_total es) (rv_tokens e)"
  by (simp add: tokens_total_def)

lemma sum_list_filter_le: "sum_list (map f (filter P xs)) \<le> sum_list (map (f :: 'a \<Rightarrow> nat) xs)"
  by (induction xs) simp_all

lemma tokens_total_filter: "tokens_total (filter P es) \<le> tokens_total es"
  using sum_list_filter_le [of rv_tokens P es] by (simp add: tokens_total_sum)

lemma remove_first_Some:
  assumes "remove_first P xs = Some (x, ys)"
  obtains as bs where "xs = as @ x # bs" "ys = as @ bs" "P x"
  using assms
proof (induction xs arbitrary: ys thesis)
  case (Cons z zs)
  show ?case
  proof (cases "P z")
    case True
    then show ?thesis using Cons.prems(1) [of "[]" zs] Cons.prems(2) by simp
  next
    case False
    then obtain ys' where "remove_first P zs = Some (x, ys')" "ys = z # ys'"
      using Cons.prems(2) by auto
    then show ?thesis using Cons.IH [of ys'] Cons.prems(1) [of "z # as" bs for as bs]
      by (metis append_Cons)
  qed
qed simp

lemma remove_first_None: "remove_first P xs = None \<longleftrightarrow> (\<forall>x\<in>set xs. \<not> P x)"
  by (induction xs) auto

section \<open>What one operation does to the ledgers\<close>

text \<open>The entries on disk under a slug.\<close>

definition entries_at :: "reservations \<Rightarrow> string \<Rightarrow> reservation list" where
  "entries_at d slug = (case held d slug of Some l \<Rightarrow> lg_entries l | None \<Rightarrow> [])"

lemma load_entries: "lg_entries (load_ledger d p) = entries_at d (provider_slug p)"
  by (simp add: load_ledger_def entries_at_def default_ledger_def split: option.split)

lemma prune_entries [simp]: "lg_entries (prune_dead os l) = filter (is_owner_alive os) (lg_entries l)"
  by (simp add: prune_dead_def)

lemma push_entries [simp]: "lg_entries (push_entry e l) = lg_entries l @ [e]"
  by (simp add: push_entry_def)

lemma entries_at_files: "files d = files d' \<Longrightarrow> entries_at d = entries_at d'"
  by (rule ext) (simp add: entries_at_def held_files [of d d'])

lemma entries_at_upd:
  "files d = (files d')(slug \<mapsto> Holds l) \<Longrightarrow> entries_at d = (entries_at d')(slug := lg_entries l)"
  by (rule ext) (simp add: entries_at_def held_upd [of d d'])

text \<open>
  The effect of an operation, as a relation between the entries before and after: it touches one
  slug, sweeps dead owners there, and then admits one entry, takes entries of one identifier away,
  or does nothing more.
\<close>

definition touches :: "ledger_op \<Rightarrow> string" where
  "touches x = (case x of OpReserve _ _ p _ _ _ \<Rightarrow> provider_slug p
     | OpReserveWithin _ _ p _ _ _ _ \<Rightarrow> provider_slug p | OpSettle _ p _ _ \<Rightarrow> provider_slug p
     | OpRelease _ p _ \<Rightarrow> provider_slug p | OpPrune _ p \<Rightarrow> provider_slug p)"

fun ledger_effect :: "reservation list \<Rightarrow> ledger_report \<Rightarrow> reservation list \<Rightarrow> bool" where
  "ledger_effect es Quiet es' \<longleftrightarrow> (\<exists>P. es' = filter P es)"
| "ledger_effect es (Admitted _ u t) es' \<longleftrightarrow>
     (\<exists>P r. es' = filter P es @ [r] \<and> rv_id r = u \<and> rv_tokens r = t)"
| "ledger_effect es (Resolved _ i (Some t)) es' \<longleftrightarrow>
     (\<exists>P as bs r. filter P es = as @ r # bs \<and> es' = as @ bs \<and> rv_id r = i \<and> rv_tokens r = t)"
| "ledger_effect es (Resolved _ i None) es' \<longleftrightarrow>
     (\<exists>P. es' = filter (\<lambda>e. rv_id e \<noteq> i) (filter P es) \<and> (\<exists>e\<in>set es. rv_id e = i))"

lemma effect_same [simp]: "ledger_effect es Quiet es"
  by (auto intro: exI [of _ "\<lambda>_. True"])

fun report_slug :: "ledger_report \<Rightarrow> string option" where
  "report_slug Quiet = None"
| "report_slug (Admitted k _ _) = Some k"
| "report_slug (Resolved k _ _) = Some k"

definition ledger_moves :: "string \<Rightarrow> reservations \<Rightarrow> ledger_report \<Rightarrow> reservations \<Rightarrow> bool" where
  "ledger_moves k d r d1 \<longleftrightarrow>
     (\<forall>j. j \<noteq> k \<longrightarrow> entries_at d1 j = entries_at d j) \<and>
     ledger_effect (entries_at d k) r (entries_at d1 k) \<and>
     (case report_slug r of None \<Rightarrow> True | Some j \<Rightarrow> j = k)"

lemma moves_still: "files d1 = files d \<Longrightarrow> ledger_moves k d Quiet d1"
  by (simp add: ledger_moves_def entries_at_files [of d1 d] del: ledger_effect.simps)

lemma moves_save:
  assumes "files d1 = (files d)(k \<mapsto> Holds l)" "ledger_effect (entries_at d k) r (lg_entries l)"
    "case report_slug r of None \<Rightarrow> True | Some j \<Rightarrow> j = k"
  shows "ledger_moves k d r d1"
  using assms by (simp add: ledger_moves_def entries_at_upd [OF assms(1)])

lemma moves_from: "files d = files d' \<Longrightarrow> ledger_moves k d r d1 = ledger_moves k d' r d1"
  by (simp add: ledger_moves_def entries_at_files [of d d'])

lemma transaction_moves:
  assumes "under_lock NoLock f d = (d1, res)" "rep (Inl NoLock) = Quiet"
    and "\<And>d'. files d' = files d \<Longrightarrow> f d' = (d1, res) \<Longrightarrow> ledger_moves k d' (rep res) d1"
  shows "ledger_moves k d (rep res) d1"
  using assms(1)
proof (cases rule: under_lock_cases)
  case refused
  then show ?thesis using assms(2) moves_still by simp
next
  case (entered d')
  then show ?thesis using assms(3) [of d'] moves_from [of d' d] by simp
qed

lemma saving_moves:
  assumes "saving NoWrite k l v d = (d1, res)" "rep (Inl NoWrite) = Quiet"
    and "ledger_effect (entries_at d k) (rep (Inr v)) (lg_entries l)"
    and "case report_slug (rep (Inr v)) of None \<Rightarrow> True | Some j \<Rightarrow> j = k"
  shows "ledger_moves k d (rep res) d1"
  using assms(1)
proof (cases rule: saving_cases)
  case failed
  then show ?thesis using assms(2) moves_still by simp
next
  case saved
  then show ?thesis using moves_save [OF saved(1) assms(3,4)] by simp
qed

definition admitted_report :: "string \<Rightarrow> string \<Rightarrow> u64 \<Rightarrow> 'e + reservation \<Rightarrow> ledger_report" where
  "admitted_report k u t res = (case res of Inl _ \<Rightarrow> Quiet | Inr _ \<Rightarrow> Admitted k u t)"

definition within_report :: "string \<Rightarrow> string \<Rightarrow> u64 \<Rightarrow> 'e + (u64 + reservation) \<Rightarrow> ledger_report" where
  "within_report k u t res = (case res of Inr (Inr _) \<Rightarrow> Admitted k u t | _ \<Rightarrow> Quiet)"

definition settled_report :: "string \<Rightarrow> string \<Rightarrow> 'e + u64 option \<Rightarrow> ledger_report" where
  "settled_report k i res = (case res of Inr (Some t) \<Rightarrow> Resolved k i (Some t) | _ \<Rightarrow> Quiet)"

definition released_report :: "string \<Rightarrow> string \<Rightarrow> 'e + bool \<Rightarrow> ledger_report" where
  "released_report k i res = (if res = Inr True then Resolved k i None else Quiet)"

lemmas report_defs = admitted_report_def within_report_def settled_report_def released_report_def

lemma effect_admitted:
  "rv_id r = u \<Longrightarrow> rv_tokens r = t \<Longrightarrow> ledger_effect es (Admitted k u t) (filter P es @ [r])"
  by auto

lemma effect_swept: "ledger_effect es Quiet (filter P es)"
  by auto

lemma effect_swept_twice: "ledger_effect es Quiet (filter Q (filter P es))"
  by (auto intro: exI [of _ "\<lambda>e. P e \<and> Q e"])

lemma effect_settled:
  assumes "remove_first (\<lambda>e. rv_id e = i) (filter P es) = Some (r, es')"
  shows "ledger_effect es (Resolved k i (Some (rv_tokens r))) es'"
  using assms by (elim remove_first_Some) auto

lemma effect_released:
  assumes "length (filter (\<lambda>e. rv_id e \<noteq> i) (filter P es)) \<noteq> length (filter P es)"
  shows "ledger_effect es (Resolved k i None) (filter (\<lambda>e. rv_id e \<noteq> i) (filter P es))"
proof -
  have "\<exists>e\<in>set (filter P es). rv_id e = i"
    using assms filter_True [of "filter P es" "\<lambda>e. rv_id e \<noteq> i"] by metis
  then show ?thesis by (auto simp del: filter_filter)
qed

lemma reserve_moves:
  assumes "reserve os u p se t now d = (d1, res)"
  shows "ledger_moves (provider_slug p) d (admitted_report (provider_slug p) u t res) d1"
  using assms unfolding reserve_def
  by (rule transaction_moves)
    (simp_all add: report_defs Let_def, erule saving_moves,
     auto simp: load_entries new_reservation_def intro!: effect_admitted simp del: ledger_effect.simps)

lemma reserve_within_moves:
  assumes "reserve_within os u p se t lim now d = (d1, res)"
  shows "ledger_moves (provider_slug p) d (within_report (provider_slug p) u t res) d1"
  using assms unfolding reserve_within_def
proof (rule transaction_moves, goal_cases)
  case (2 d')
  let ?es = "filter (is_owner_alive os) (entries_at d' (provider_slug p))"
  show ?case
  proof (cases "over_limit lim (tokens_total ?es) t")
    case True
    then show ?thesis using 2(2)
      by (auto simp: load_entries Let_def within_report_def intro: moves_still)
  next
    case False
    then have "saving NoWrite (provider_slug p)
        (push_entry (new_reservation os u se t now) (prune_dead os (load_ledger d' p)))
        (Inr (new_reservation os u se t now)) d' = (d1, res)"
      using 2(2) by (auto simp: load_entries Let_def)
    then show ?thesis
      by (rule saving_moves)
        (auto simp: within_report_def load_entries new_reservation_def intro!: effect_admitted
          simp del: ledger_effect.simps)
  qed
qed (simp add: within_report_def)

lemma settle_moves:
  assumes "settle os p i actual d = (d1, res)"
  shows "ledger_moves (provider_slug p) d (settled_report (provider_slug p) i res) d1"
  using assms unfolding settle_def
proof (rule transaction_moves, goal_cases)
  case (2 d')
  let ?l = "prune_dead os (load_ledger d' p)"
  show ?case
  proof (cases "remove_first (\<lambda>e. rv_id e = i) (lg_entries ?l)")
    case None
    then show ?thesis using 2(2) unfolding Let_def
      by (simp, elim saving_moves)
        (auto simp: settled_report_def load_entries intro: effect_swept simp del: ledger_effect.simps)
  next
    case (Some a)
    then show ?thesis using 2(2) unfolding Let_def
      by (cases a, simp, elim saving_moves)
        (auto simp: settled_report_def load_entries intro: effect_settled simp del: ledger_effect.simps)
  qed
qed (simp add: settled_report_def)

lemma release_moves:
  assumes "release os p i d = (d1, res)"
  shows "ledger_moves (provider_slug p) d (released_report (provider_slug p) i res) d1"
  using assms unfolding release_def
proof (rule transaction_moves, goal_cases)
  case (2 d')
  then show ?case unfolding Let_def
    by (elim saving_moves)
      (auto simp: released_report_def load_entries simp del: ledger_effect.simps filter_filter
        intro: effect_released effect_swept_twice)
qed (simp add: released_report_def)

lemma prune_dead_locked_moves:
  assumes "prune_dead_locked os p d = (d1, res)"
  shows "ledger_moves (provider_slug p) d Quiet d1"
  using assms unfolding prune_dead_locked_def
proof (rule transaction_moves [where rep = "\<lambda>_. Quiet"], goal_cases)
  case (2 d')
  then show ?case unfolding Let_def
    by (auto split: if_splits intro: moves_still simp: load_entries
      elim!: saving_moves [where rep = "\<lambda>_. Quiet"] intro!: effect_swept simp del: ledger_effect.simps)
qed simp

lemma ledger_step_moves: "ledger_step x d = (d1, r) \<Longrightarrow> ledger_moves (touches x) d r d1"
  by (cases x)
    (auto simp: touches_def admitted_report_def within_report_def settled_report_def
        released_report_def
      intro: prune_dead_locked_moves [OF surjective_pairing]
      dest!: reserve_moves reserve_within_moves settle_moves release_moves
      split: prod.splits sum.splits option.splits bool.splits simp del: ledger_effect.simps)

section \<open>Admissions stay within the limit\<close>

text \<open>An operation that can admit against the ledger \<open>k\<close> only under a limit of at most \<open>lim\<close>.\<close>

fun limited :: "u64 \<Rightarrow> string \<Rightarrow> ledger_op \<Rightarrow> bool" where
  "limited lim k (OpReserve _ _ p _ _ _) \<longleftrightarrow> provider_slug p \<noteq> k"
| "limited lim k (OpReserveWithin _ _ p _ _ own _) \<longleftrightarrow>
     provider_slug p \<noteq> k \<or> (case own of Some l \<Rightarrow> l \<le> lim | None \<Rightarrow> False)"
| "limited lim k _ \<longleftrightarrow> True"

lemma tokens_total_remove: "tokens_total (as @ bs) \<le> tokens_total (as @ r # bs)"
  by (simp add: tokens_total_sum)

lemma effect_total:
  assumes "ledger_effect es r es'" "\<And>k u t. r \<noteq> Admitted k u t"
  shows "tokens_total es' \<le> tokens_total es"
proof (cases r)
  case (Resolved k i o')
  show ?thesis
  proof (cases o')
    case None
    then obtain P where "es' = filter (\<lambda>e. rv_id e \<noteq> i) (filter P es)" using assms Resolved by auto
    then show ?thesis using tokens_total_filter le_trans by metis
  next
    case (Some t)
    then obtain P as bs x where "filter P es = as @ x # bs" "es' = as @ bs"
      using assms Resolved by auto
    then show ?thesis using tokens_total_filter [of P es] tokens_total_remove [of as bs x] by simp
  qed
next
  case Quiet
  then show ?thesis using assms tokens_total_filter by auto
qed (use assms in simp)

lemma reserve_within_bounded:
  assumes "reserve_within os u p se t (Some lim) now d = (d1, res)"
  shows "tokens_total (entries_at d1 (provider_slug p)) \<le>
    max lim (tokens_total (entries_at d (provider_slug p)))"
  using assms unfolding reserve_within_def
proof (cases rule: under_lock_cases)
  case refused
  then show ?thesis by (simp add: entries_at_files [of d1 d])
next
  case (entered d')
  let ?k = "provider_slug p"
  let ?es = "filter (is_owner_alive os) (entries_at d' ?k)"
  have d: "entries_at d' = entries_at d" using entered(1) by (rule entries_at_files)
  show ?thesis
  proof (cases "lim < sat_add (tokens_total ?es) t")
    case True
    then show ?thesis using entered(2) d by (simp add: Let_def over_limit_def load_entries)
  next
    case False
    then have "saving NoWrite ?k (push_entry (new_reservation os u se t now)
        (prune_dead os (load_ledger d' p))) (Inr (new_reservation os u se t now)) d' = (d1, res)"
      using entered(2) by (simp add: Let_def over_limit_def load_entries)
    then show ?thesis
    proof (cases rule: saving_cases)
      case failed
      then show ?thesis using d by (simp add: entries_at_files [of d1 d'])
    next
      case saved
      then have "entries_at d1 ?k = ?es @ [new_reservation os u se t now]"
        by (simp add: entries_at_upd [OF saved(1)] load_entries)
      then show ?thesis using False
        by (simp add: tokens_total_snoc new_reservation_def)
    qed
  qed
qed

lemma ledger_step_bounded:
  assumes "ledger_step x d = (d1, r)" "limited lim k x"
  shows "tokens_total (entries_at d1 k) \<le> max lim (tokens_total (entries_at d k))"
proof (cases "touches x = k")
  case False
  then show ?thesis using ledger_step_moves [OF assms(1)] by (auto simp: ledger_moves_def)
next
  case True
  note moves = ledger_step_moves [OF assms(1)]
  show ?thesis
  proof (cases "\<exists>k' u t. r = Admitted k' u t")
    case False
    then show ?thesis using moves True effect_total [of "entries_at d k" r "entries_at d1 k"]
      by (fastforce simp: ledger_moves_def)
  next
    case ad: True
    obtain os u p se t own now where x: "x = OpReserveWithin os u p se t own now"
      using ad assms True by (cases x) (auto simp: touches_def split: prod.splits sum.splits option.splits bool.splits)
    then obtain l where "own = Some l" "l \<le> lim" "provider_slug p = k"
      using True assms(2) by (auto simp: touches_def split: option.splits)
    then show ?thesis
      using x assms(1) reserve_within_bounded [of os u p se t l now d]
      by (fastforce split: prod.splits sum.splits)
  qed
qed

lemma run_ledger_bounded:
  "\<forall>x\<in>set xs. limited lim k x \<Longrightarrow>
   tokens_total (entries_at (fst (run_ledger xs d)) k) \<le> max lim (tokens_total (entries_at d k))"
proof (induction xs arbitrary: d)
  case (Cons x xs)
  obtain d1 r where s: "ledger_step x d = (d1, r)" by (cases "ledger_step x d")
  then show ?case
    using Cons.IH [of d1] Cons.prems ledger_step_bounded [OF s, of lim k]
    by (simp add: case_prod_unfold Let_def)
qed simp

text \<open>C18: Reservations stay within the provider's limit. Whatever a machine full of processes does
  to a provider's ledger, if every admission against it goes through the limit check with a limit
  of at most \<open>lim\<close> and the ledger started within it, the tokens outstanding never exceed \<open>lim\<close>, no
  matter which owners are alive at any moment, how providers are spelled, and which locks and
  writes fail.\<close>

theorem reservations_stay_within_the_limit:
  assumes "\<forall>x\<in>set ops. limited lim (provider_slug p) x"
    and "tokens_total (reservation_entries d p) \<le> lim"
  shows "outstanding os (fst (run_ledger ops d)) p \<le> lim"
proof -
  have "tokens_total (entries_at (fst (run_ledger ops d)) (provider_slug p)) \<le> lim"
    using run_ledger_bounded [OF assms(1), of d] assms(2)
    by (simp add: reservation_entries_def load_entries)
  then show ?thesis using tokens_total_filter le_trans
    unfolding outstanding_def load_entries by metis
qed

definition sample_processes :: processes where
  "sample_processes =
     \<lparr>probe_signal = (\<lambda>pid. if pid = 7 then CanSignal else NoSuchProcess),
      ps_etime = (\<lambda>_. None), own_pid = 7, clock = 1000\<rparr>"

definition sample_reservations :: "ledger_op list" where
  "sample_reservations =
     [OpReserveWithin sample_processes ''r1'' ''openai'' ''s'' 60 (Some 100) 1,
      OpReserveWithin sample_processes ''r2'' ''OpenAI'' ''s'' 60 (Some 100) 2,
      OpReserveWithin sample_processes ''r3'' ''openai'' ''s'' 40 (Some 100) 3,
      OpSettle sample_processes ''openai'' ''r1'' 55,
      OpSettle sample_processes ''openai'' ''r1'' 55]"

lemma sample_slugs [simp]:
  "provider_slug ''openai'' = ''openai''" "provider_slug ''OpenAI'' = ''openai''"
  by (simp_all add: provider_slug_def ascii_lower_char_def is_ascii_lowercase_def is_ascii_uppercase_def
    is_ascii_digit_def Let_def char_of_def bit_0)

lemmas ledger_evaluation = reserve_within_def settle_def under_lock_def acquire_lock_def
  take_failure_def saving_def write_private_def put_entry_def load_ledger_def held_def
  empty_dir_def default_ledger_def prune_dead_def push_entry_def new_reservation_def
  over_limit_def tokens_total_def sat_add_def u64_max_def is_owner_alive_def
  owner_is_alive_with_def pid_is_owner_def is_alive_def process_start_secs_def
  process_age_secs_def sample_processes_def outstanding_def

lemma sample_reservations_run:
  "outstanding sample_processes (fst (run_ledger (take 3 sample_reservations) empty_dir)) ''openai'' = 100"
  "outstanding sample_processes (fst (run_ledger sample_reservations empty_dir)) ''openai'' = 40"
  "snd (run_ledger sample_reservations empty_dir) =
     [Admitted ''openai'' ''r1'' 60, Quiet, Admitted ''openai'' ''r3'' 40,
      Resolved ''openai'' ''r1'' (Some 60), Quiet]"
  by (simp_all add: sample_reservations_def ledger_evaluation Let_def)

theorem reservations_stay_within_the_limit_witness:
  "outstanding sample_processes (fst (run_ledger sample_reservations empty_dir)) ''openai'' \<le> 100"
proof (rule reservations_stay_within_the_limit)
  show "\<forall>x\<in>set sample_reservations. limited 100 (provider_slug ''openai'') x"
    by (simp add: sample_reservations_def)
  show "tokens_total (reservation_entries empty_dir ''openai'') \<le> 100"
    by (simp add: reservation_entries_def load_entries entries_at_def held_def empty_dir_def tokens_total_def)
qed

section \<open>A reservation is resolved at most once\<close>

fun resolves :: "string \<Rightarrow> string \<Rightarrow> ledger_report \<Rightarrow> bool" where
  "resolves k i (Resolved k' i' _) \<longleftrightarrow> k' = k \<and> i' = i"
| "resolves k i _ \<longleftrightarrow> False"

fun admits :: "string \<Rightarrow> string \<Rightarrow> ledger_report \<Rightarrow> bool" where
  "admits k i (Admitted k' i' _) \<longleftrightarrow> k' = k \<and> i' = i"
| "admits k i _ \<longleftrightarrow> False"

definition occurrences :: "('a \<Rightarrow> bool) \<Rightarrow> 'a list \<Rightarrow> nat" where
  "occurrences P xs = length (filter P xs)"

lemma occurrences_append [simp]: "occurrences P (xs @ ys) = occurrences P xs + occurrences P ys"
  by (simp add: occurrences_def)

lemma occurrences_Nil [simp]: "occurrences P [] = 0"
  by (simp add: occurrences_def)

lemma occurrences_Cons [simp]: "occurrences P (x # xs) = (if P x then Suc (occurrences P xs) else occurrences P xs)"
  by (simp add: occurrences_def)

lemma occurrences_filter_le: "occurrences P (filter Q xs) \<le> occurrences P xs"
  by (induction xs) simp_all

lemma occurrences_pos: "x \<in> set xs \<Longrightarrow> P x \<Longrightarrow> 0 < occurrences P xs"
  by (auto simp: occurrences_def filter_empty_conv)

lemma occurrences_none: "(\<And>x. x \<in> set xs \<Longrightarrow> \<not> P x) \<Longrightarrow> occurrences P xs = 0"
  by (simp add: occurrences_def)

lemma effect_balance:
  assumes "ledger_effect es r es'"
    and "case report_slug r of None \<Rightarrow> True | Some j \<Rightarrow> j = k"
  shows "(if resolves k i r then 1 else 0) + occurrences (\<lambda>e. rv_id e = i) es'
    \<le> occurrences (\<lambda>e. rv_id e = i) es + (if admits k i r then 1 else 0)"
proof -
  let ?at = "occurrences (\<lambda>e. rv_id e = i)"
  have sw: "?at (filter P es) \<le> ?at es" for P by (rule occurrences_filter_le)
  show ?thesis
  proof (cases r)
    case Quiet
    then show ?thesis using assms(1) sw by auto
  next
    case (Admitted k' u t)
    then obtain P x where "es' = filter P es @ [x]" "rv_id x = u" using assms(1) by auto
    then show ?thesis using sw [of P] assms(2) Admitted by auto
  next
    case (Resolved k' j o')
    show ?thesis
    proof (cases o')
      case None
      then obtain P e where e: "es' = filter (\<lambda>e. rv_id e \<noteq> j) (filter P es)" "e \<in> set es" "rv_id e = j"
        using assms(1) Resolved by auto
      show ?thesis
      proof (cases "j = i")
        case True
        then have "?at es' = 0" using e(1) by (intro occurrences_none) auto
        then show ?thesis using occurrences_pos [OF e(2), of "\<lambda>e. rv_id e = i"] e(3) True Resolved by simp
      next
        case False
        then show ?thesis using e(1) sw occurrences_filter_le le_trans Resolved by fastforce
      qed
    next
      case (Some t)
      then obtain P as bs x where "filter P es = as @ x # bs" "es' = as @ bs" "rv_id x = j"
        using assms(1) Resolved by auto
      then show ?thesis using sw [of P] Resolved by (auto split: if_splits)
    qed
  qed
qed

lemma step_balance:
  assumes "ledger_step x d = (d1, r)"
  shows "(if resolves k i r then 1 else 0) + occurrences (\<lambda>e. rv_id e = i) (entries_at d1 k)
    \<le> occurrences (\<lambda>e. rv_id e = i) (entries_at d k) + (if admits k i r then 1 else 0)"
proof (cases "touches x = k")
  case True
  then show ?thesis using ledger_step_moves [OF assms] effect_balance
    by (simp add: ledger_moves_def del: ledger_effect.simps)
next
  case False
  then have "entries_at d1 k = entries_at d k" "\<not> resolves k i r"
    using ledger_step_moves [OF assms] by (cases r; auto simp: ledger_moves_def)+
  then show ?thesis by simp
qed

lemma run_balance:
  "occurrences (resolves k i) (snd (run_ledger xs d)) + occurrences (\<lambda>e. rv_id e = i) (entries_at (fst (run_ledger xs d)) k)
    \<le> occurrences (\<lambda>e. rv_id e = i) (entries_at d k) + occurrences (admits k i) (snd (run_ledger xs d))"
proof (induction xs arbitrary: d)
  case (Cons x xs)
  obtain d1 r where s: "ledger_step x d = (d1, r)" by (cases "ledger_step x d")
  show ?case using Cons [of d1] step_balance [OF s, of k i] s
    by (simp add: case_prod_unfold Let_def split: if_splits)
qed simp

text \<open>Every entry on disk, and every settled amount, was admitted in the run or was there before.\<close>

lemma step_origin:
  assumes "ledger_step x d = (d1, r)"
  shows "e \<in> set (entries_at d1 k) \<Longrightarrow>
      e \<in> set (entries_at d k) \<or> r = Admitted k (rv_id e) (rv_tokens e)"
    and "r = Resolved k i (Some t) \<Longrightarrow> \<exists>e\<in>set (entries_at d k). rv_id e = i \<and> rv_tokens e = t"
proof -
  note moves = ledger_step_moves [OF assms]
  show "e \<in> set (entries_at d1 k) \<Longrightarrow>
      e \<in> set (entries_at d k) \<or> r = Admitted k (rv_id e) (rv_tokens e)"
  proof (cases "touches x = k")
    case True
    assume e: "e \<in> set (entries_at d1 k)"
    have eff: "ledger_effect (entries_at d k) r (entries_at d1 k)" using moves True by (simp add: ledger_moves_def)
    have slug: "report_slug r = None \<or> report_slug r = Some k"
      using moves True by (auto simp: ledger_moves_def split: option.splits)
    show ?thesis
    proof (cases r)
      case (Resolved k' j o')
      show ?thesis
      proof (cases o')
        case (Some t)
        then obtain P as bs x where "filter P (entries_at d k) = as @ x # bs" "entries_at d1 k = as @ bs"
          using eff Resolved by auto
        then have "e \<in> set (filter P (entries_at d k))" using e by auto
        then show ?thesis by simp
      qed (use eff e Resolved in auto)
    qed (use eff e slug in auto)
  qed (use moves in \<open>simp add: ledger_moves_def\<close>)
  assume r: "r = Resolved k i (Some t)"
  then have "touches x = k" using moves by (simp add: ledger_moves_def)
  then obtain P as bs y where f: "filter P (entries_at d k) = as @ y # bs" "rv_id y = i" "rv_tokens y = t"
    using moves r by (auto simp: ledger_moves_def)
  then have "y \<in> set (filter P (entries_at d k))" by simp
  then show "\<exists>e\<in>set (entries_at d k). rv_id e = i \<and> rv_tokens e = t" using f(2,3) by auto
qed

lemma run_origin:
  assumes "Resolved k i (Some t) \<in> set (snd (run_ledger xs d))"
  shows "Admitted k i t \<in> set (snd (run_ledger xs d)) \<or>
    (\<exists>e\<in>set (entries_at d k). rv_id e = i \<and> rv_tokens e = t)"
  using assms
proof (induction xs arbitrary: d)
  case (Cons x xs)
  obtain d1 r where s: "ledger_step x d = (d1, r)" by (cases "ledger_step x d")
  have reports: "snd (run_ledger (x # xs) d) = r # snd (run_ledger xs d1)"
    using s by (simp add: case_prod_unfold Let_def)
  show ?case
  proof (cases "r = Resolved k i (Some t)")
    case True
    then show ?thesis using step_origin(2) [OF s] by blast
  next
    case False
    then have "Resolved k i (Some t) \<in> set (snd (run_ledger xs d1))" using Cons.prems reports by simp
    then show ?thesis using Cons.IH [of d1] step_origin(1) [OF s, of _ k] reports by fastforce
  qed
qed simp

text \<open>A reservation is resolved at most once. In every run of operations by every process, over
  a directory whose locks and writes may fail at any point, an identifier is settled or released
  no more often than it was admitted, so a settlement racing with a rollback is counted once; and
  every settlement reports exactly the tokens its reservation was admitted with.\<close>

theorem reservations_resolve_once:
  "let rs = snd (run_ledger ops (empty_dir\<lparr>lock_failures := ls, write_failures := ws\<rparr>)) in
     occurrences (resolves k i) rs \<le> occurrences (admits k i) rs \<and>
     {(j, t). Resolved k j (Some t) \<in> set rs} \<subseteq> {(j, t). Admitted k j t \<in> set rs}"
proof -
  let ?d = "empty_dir\<lparr>lock_failures := ls, write_failures := ws\<rparr> :: reservations"
  have none: "entries_at ?d k = []" by (simp add: entries_at_def held_def empty_dir_def)
  have "occurrences (resolves k i) (snd (run_ledger ops ?d)) \<le> occurrences (admits k i) (snd (run_ledger ops ?d))"
    using run_balance [of k i ops ?d] none by simp
  moreover have "{(j, t). Resolved k j (Some t) \<in> set (snd (run_ledger ops ?d))}
     \<subseteq> {(j, t). Admitted k j t \<in> set (snd (run_ledger ops ?d))}"
    using run_origin [of k _ _ ops ?d] none by auto
  ultimately show ?thesis unfolding Let_def by blast
qed

end
