(* ===== verification/Group.thy ===== *)
theory Group
  imports State_Dir "HOL-Library.Product_Lexorder" "HOL-Library.List_Lexorder" "HOL-Library.Char_ord"
begin

text \<open>
  Work groups, \<open>src/commands/ctx/group.rs\<close>: the persisted terms a batch of delegated work runs
  under, the admission of children against its child limit, deadline and token budget with the
  reservation of each child's ceiling, settlement and rollback of a reservation, closing, the
  claim of the group by a coordinator, and the command that creates and closes groups. One record
  file per group, mutated under that group's lock.

  Not modelled: the printed status, and the task cards it lists.
\<close>

section \<open>Data\<close>

record work_group =
  wg_id :: string
  wg_parent_session :: string
  wg_scope :: string
  wg_child_limit :: u32
  wg_token_budget :: "u64 option"
  wg_spent_tokens :: u64
  wg_reserved_tokens :: u64
  wg_deadline_secs :: "u64 option"
  wg_completion_contract :: string
  wg_created_at :: u64
  wg_closed_at :: "u64 option"
  wg_admitted_children :: u32
  wg_sub_orchestrator :: "string option"

type_synonym groups = "work_group dir"

datatype group_error =
    GroupIo io_error
  | NoGroup string
  | GroupClosed string
  | BudgetExhausted string u64
  | DeadlineElapsed string
  | ChildrenFull string u32
  | CeilingExhausted string u64 u64

text \<open>The message of each refusal; an input/output error carries its own.\<close>

fun group_error_text :: "group_error \<Rightarrow> string option" where
  "group_error_text (GroupIo _) = None"
| "group_error_text (NoGroup i) = Some (''no work group '' @ CHR 0x27 # i @ [CHR 0x27])"
| "group_error_text (GroupClosed i) =
     Some (''work group '' @ CHR 0x27 # i @ CHR 0x27 # '' is closed'')"
| "group_error_text (BudgetExhausted i spent) =
     Some (''work group '' @ CHR 0x27 # i @ CHR 0x27 # '' token budget is exhausted ('' @
       show_nat spent @ '' tokens spent)'')"
| "group_error_text (DeadlineElapsed i) =
     Some (''work group '' @ CHR 0x27 # i @ CHR 0x27 # '' deadline has elapsed'')"
| "group_error_text (ChildrenFull i limit) =
     Some (''work group '' @ CHR 0x27 # i @ CHR 0x27 # '' already has its full '' @
       show_nat limit @ '' children admitted'')"
| "group_error_text (CeilingExhausted i spent reserved) =
     Some (''work group '' @ CHR 0x27 # i @ CHR 0x27 # '' token budget is exhausted ('' @
       show_nat spent @ '' tokens spent, '' @ show_nat reserved @
       '' reserved for children already admitted)'')"

fun is_admission_exhausted :: "group_error \<Rightarrow> bool" where
  "is_admission_exhausted (BudgetExhausted _ _) = True"
| "is_admission_exhausted (DeadlineElapsed _) = True"
| "is_admission_exhausted (CeilingExhausted _ _ _) = True"
| "is_admission_exhausted _ = False"

section \<open>Files\<close>

definition create_group :: "work_group \<Rightarrow> groups \<Rightarrow> groups \<times> (group_error + unit)" where
  "create_group g = saving (GroupIo NoWrite) (wg_id g) g ()"

definition load_group :: "groups \<Rightarrow> string \<Rightarrow> work_group option" where
  "load_group d i = held d i"

text \<open>The listing takes the stems in the order the directory yields them.\<close>

definition list_groups :: "string list \<Rightarrow> groups \<Rightarrow> work_group list" where
  "list_groups stems d =
     sort_key (\<lambda>g. (- int (wg_created_at g), wg_id g)) (List.map_filter (held d) stems)"

text \<open>
  A load-modify-write: the change refuses, keeps the record as it is, or gives a record to write,
  and a value to return.
\<close>

definition with_group ::
    "string \<Rightarrow> (work_group \<Rightarrow> group_error + (work_group option \<times> 'r)) \<Rightarrow> groups
      \<Rightarrow> groups \<times> (group_error + 'r)" where
  "with_group i change =
     under_lock (GroupIo NoLock) (\<lambda>d.
       case load_group d i of
         None \<Rightarrow> (d, Inl (NoGroup i))
       | Some g \<Rightarrow> (case change g of
             Inl e \<Rightarrow> (d, Inl e)
           | Inr (None, v) \<Rightarrow> (d, Inr v)
           | Inr (Some g1, v) \<Rightarrow> saving (GroupIo NoWrite) (wg_id g1) g1 v d))"

section \<open>Operations\<close>

definition closed_group :: "u64 \<Rightarrow> work_group \<Rightarrow> work_group option" where
  "closed_group now g =
     (if wg_closed_at g = None then Some (g\<lparr>wg_closed_at := Some now\<rparr>) else None)"

definition close_group :: "string \<Rightarrow> u64 \<Rightarrow> groups \<Rightarrow> groups \<times> (group_error + unit)" where
  "close_group i now = with_group i (\<lambda>g. Inr (closed_group now g, ()))"

definition is_overdue :: "work_group \<Rightarrow> u64 \<Rightarrow> bool" where
  "is_overdue g now =
     (wg_closed_at g = None \<and>
      (case wg_deadline_secs g of None \<Rightarrow> False
       | Some deadline \<Rightarrow> sat_add (wg_created_at g) deadline < now))"

definition group_ceiling :: "work_group \<Rightarrow> u64 option \<Rightarrow> u64 option" where
  "group_ceiling g explicit =
     map_option (\<lambda>budget.
       let remaining = sat_sub (sat_sub budget (wg_spent_tokens g)) (wg_reserved_tokens g)
       in (case explicit of None \<Rightarrow> remaining | Some e \<Rightarrow> min remaining e)) (wg_token_budget g)"

definition ceiling_for :: "work_group \<Rightarrow> u64 option \<Rightarrow> u64 option" where
  "ceiling_for g explicit =
     (case group_ceiling g explicit of Some c \<Rightarrow> Some c | None \<Rightarrow> explicit)"

definition budget_spent :: "work_group \<Rightarrow> bool" where
  "budget_spent g = (case wg_token_budget g of None \<Rightarrow> False | Some b \<Rightarrow> b \<le> wg_spent_tokens g)"

definition admission_refusal :: "work_group \<Rightarrow> string \<Rightarrow> u64 \<Rightarrow> u64 option \<Rightarrow> group_error option" where
  "admission_refusal g i now explicit =
     (if wg_closed_at g \<noteq> None then Some (GroupClosed i)
      else if budget_spent g then Some (BudgetExhausted i (wg_spent_tokens g))
      else if is_overdue g now then Some (DeadlineElapsed i)
      else if wg_child_limit g \<le> wg_admitted_children g then Some (ChildrenFull i (wg_child_limit g))
      else if ceiling_for g explicit = Some 0
           then Some (CeilingExhausted i (wg_spent_tokens g) (wg_reserved_tokens g))
      else None)"

definition admitted_group :: "work_group \<Rightarrow> u64 option \<Rightarrow> work_group" where
  "admitted_group g explicit =
     g\<lparr>wg_reserved_tokens :=
         (case group_ceiling g explicit of
            None \<Rightarrow> wg_reserved_tokens g
          | Some reserved \<Rightarrow> sat_add (wg_reserved_tokens g) reserved),
       wg_admitted_children := wg_admitted_children g + 1\<rparr>"

definition admit_child ::
    "string \<Rightarrow> u64 \<Rightarrow> u64 option \<Rightarrow> groups \<Rightarrow> groups \<times> (group_error + (work_group \<times> u64 option))" where
  "admit_child i now explicit =
     with_group i (\<lambda>g.
       case admission_refusal g i now explicit of
         Some e \<Rightarrow> Inl e
       | None \<Rightarrow> Inr (Some (admitted_group g explicit), admitted_group g explicit, ceiling_for g explicit))"

definition settled_group :: "work_group \<Rightarrow> u64 \<Rightarrow> u64 \<Rightarrow> work_group" where
  "settled_group g reserved actual =
     g\<lparr>wg_reserved_tokens := sat_sub (wg_reserved_tokens g) reserved,
       wg_spent_tokens := sat_add (wg_spent_tokens g) actual\<rparr>"

definition settle_reservation ::
    "string \<Rightarrow> u64 \<Rightarrow> u64 \<Rightarrow> groups \<Rightarrow> groups \<times> (group_error + unit)" where
  "settle_reservation i reserved actual =
     with_group i (\<lambda>g. Inr (Some (settled_group g reserved actual), ()))"

definition rolled_back_group :: "work_group \<Rightarrow> u64 \<Rightarrow> work_group" where
  "rolled_back_group g reserved =
     g\<lparr>wg_admitted_children := sat_sub (wg_admitted_children g) 1,
       wg_reserved_tokens := sat_sub (wg_reserved_tokens g) reserved\<rparr>"

text \<open>\<open>rollback_admission\<close> prints its failures and returns nothing.\<close>

definition rollback_admission :: "string \<Rightarrow> u64 \<Rightarrow> groups \<Rightarrow> groups" where
  "rollback_admission i reserved d =
     fst (with_group i (\<lambda>g. Inr (Some (rolled_back_group g reserved), ())) d)"

text \<open>Removing the file may fail too; the schedule of writes covers it.\<close>

definition discard_if_unused :: "string \<Rightarrow> groups \<Rightarrow> groups \<times> bool" where
  "discard_if_unused i d =
     (let (locked, d1) = acquire_lock d in
      if \<not> locked then (d1, False)
      else case load_group d1 i of
          None \<Rightarrow> (d1, False)
        | Some g \<Rightarrow>
            if 0 < wg_admitted_children g \<or> wg_sub_orchestrator g \<noteq> None \<or> wg_closed_at g \<noteq> None
            then (d1, False)
            else let (failed, rest) = take_failure (write_failures d1);
                     d2 = d1\<lparr>write_failures := rest\<rparr>
                 in if failed then (d2, False) else (put_entry i None d2, True))"

definition claimed_group :: "string \<Rightarrow> work_group \<Rightarrow> work_group option" where
  "claimed_group session g =
     (if wg_sub_orchestrator g = None then Some (g\<lparr>wg_sub_orchestrator := Some session\<rparr>) else None)"

definition claim_sub_orchestrator ::
    "string \<Rightarrow> string \<Rightarrow> groups \<Rightarrow> groups \<times> (group_error + unit)" where
  "claim_sub_orchestrator i session = with_group i (\<lambda>g. Inr (claimed_group session g, ()))"

definition is_abandoned :: "work_group \<Rightarrow> bool \<Rightarrow> bool" where
  "is_abandoned g claimant_alive =
     (wg_closed_at g = None \<and> wg_sub_orchestrator g \<noteq> None \<and> \<not> claimant_alive)"

section \<open>The command\<close>

definition DEFAULT_CHILD_LIMIT :: u32 where "DEFAULT_CHILD_LIMIT = 3"

definition DEFAULT_COMPLETION_CONTRACT :: string where
  "DEFAULT_COMPLETION_CONTRACT =
     ''report a compact structured result by mail to the requesting session''"

record create_args =
  ca_scope :: string
  ca_child_limit :: u32
  ca_token_budget :: "u64 option"
  ca_deadline_secs :: "u64 option"
  ca_completion_contract :: string
  ca_parent_session :: "string option"

definition new_group :: "string \<Rightarrow> create_args \<Rightarrow> u64 \<Rightarrow> work_group" where
  "new_group i a now =
     \<lparr>wg_id = i,
      wg_parent_session = (case ca_parent_session a of None \<Rightarrow> [] | Some s \<Rightarrow> s),
      wg_scope = ca_scope a, wg_child_limit = ca_child_limit a,
      wg_token_budget = ca_token_budget a, wg_spent_tokens = 0, wg_reserved_tokens = 0,
      wg_deadline_secs = ca_deadline_secs a, wg_completion_contract = ca_completion_contract a,
      wg_created_at = now, wg_closed_at = None, wg_admitted_children = 0,
      wg_sub_orchestrator = None\<rparr>"

text \<open>The identifier that the random source mints is an argument.\<close>

definition run_create ::
    "string \<Rightarrow> create_args \<Rightarrow> u64 \<Rightarrow> groups \<Rightarrow> groups \<times> (group_error + (string \<times> string))" where
  "run_create uuid a now d =
     (let i = ''wg-'' @ uuid in
      case create_group (new_group i a now) d of
        (d1, Inl e) \<Rightarrow> (d1, Inl e)
      | (d1, Inr _) \<Rightarrow>
          (d1, Inr (i, ''work group '' @ i @ '' created (scope: '' @ ca_scope a @ '')'')))"

definition run_close :: "string \<Rightarrow> u64 \<Rightarrow> groups \<Rightarrow> groups \<times> (group_error + string)" where
  "run_close i now d =
     (case close_group i now d of
        (d1, Inl e) \<Rightarrow> (d1, Inl e)
      | (d1, Inr _) \<Rightarrow> (d1, Inr (''closed work group '' @ i)))"

section \<open>One operation\<close>

lemma with_group_cases:
  assumes "with_group i change d = (d1, res)"
  obtains (kept) "files d1 = files d"
      "\<And>v. res = Inr v \<Longrightarrow> \<exists>g. held d i = Some g \<and> change g = Inr (None, v)"
  | (written) g g1 v where "held d i = Some g" "change g = Inr (Some g1, v)"
      "files d1 = (files d)(wg_id g1 \<mapsto> Holds g1)" "res = Inr v"
  using assms unfolding with_group_def
proof (cases rule: under_lock_cases)
  case refused
  then show ?thesis using kept by simp
next
  case (entered d')
  have h: "held d' = held d" using entered(1) by (rule held_files)
  show ?thesis
  proof (cases "held d i")
    case None
    then show ?thesis using entered kept h by (auto simp: load_group_def)
  next
    case (Some g)
    consider (err) e where "change g = Inl e" | (keep) v where "change g = Inr (None, v)"
      | (wr) g1 v where "change g = Inr (Some g1, v)"
    proof (cases "change g")
      case (Inr x)
      then show ?thesis using keep wr by (cases x; cases "fst x") auto
    qed (use err in simp)
    then show ?thesis
    proof cases
      case err
      then show ?thesis using entered kept h Some by (auto simp: load_group_def)
    next
      case keep
      then show ?thesis using entered kept h Some by (auto simp: load_group_def)
    next
      case wr
      then have "saving (GroupIo NoWrite) (wg_id g1) g1 v d' = (d1, res)"
        using entered(2) h Some by (simp add: load_group_def)
      then show ?thesis
      proof (cases rule: saving_cases)
        case failed
        then show ?thesis using kept entered(1) by simp
      next
        case saved
        then show ?thesis using written [OF Some wr] entered(1) by simp
      qed
    qed
  qed
qed

lemma discard_cases:
  assumes "discard_if_unused i d = (d1, b)"
  obtains (kept) "files d1 = files d" "\<not> b"
  | (removed) g where "held d i = Some g" "wg_admitted_children g = 0" "wg_sub_orchestrator g = None"
      "wg_closed_at g = None" "files d1 = (files d)(i := None)" "b"
proof -
  obtain l d' where a: "acquire_lock d = (l, d')" by (cases "acquire_lock d")
  have f: "files d' = files d" and h: "held d' = held d" using a by simp_all
  show thesis
  proof (cases "l \<and> held d i \<noteq> None")
    case False
    then show ?thesis using assms a f h kept
      by (auto simp: discard_if_unused_def load_group_def split: if_splits)
  next
    case True
    then obtain g where g: "held d i = Some g" by auto
    obtain fl rest where t: "take_failure (write_failures d') = (fl, rest)"
      by (cases "take_failure (write_failures d')")
    show ?thesis
      using assms a f h g t True kept removed [OF g]
      by (auto simp: discard_if_unused_def load_group_def Let_def put_entry_def split: if_splits)
  qed
qed

section \<open>Runs\<close>

text \<open>
  A batch under one group: admissions, each of which hands its caller a ceiling; settlements and
  rollbacks of a ceiling a caller still holds (by position); closing, claims by coordinators, and
  discarding. The ghost state is the list of ceilings still held and the tokens that settled
  children spent beyond their ceilings.
\<close>

datatype group_op =
    GAdmit u64 "u64 option" | GSettle nat u64 | GRollback nat | GClose u64 | GClaim string | GDiscard

record batch =
  bt_groups :: groups
  bt_held :: "u64 list"
  bt_overshoot :: nat

definition take_out :: "nat \<Rightarrow> 'a list \<Rightarrow> 'a list" where
  "take_out n xs = take n xs @ drop (Suc n) xs"

definition held_at :: "nat \<Rightarrow> u64 list \<Rightarrow> u64" where
  "held_at n xs = (if n < length xs then xs ! n else 0)"

fun group_step :: "string \<Rightarrow> batch \<Rightarrow> group_op \<Rightarrow> batch" where
  "group_step i b (GAdmit now explicit) =
     (case admit_child i now explicit (bt_groups b) of
        (d, Inr (g, c)) \<Rightarrow> b\<lparr>bt_groups := d, bt_held := bt_held b @ [case c of Some x \<Rightarrow> x | None \<Rightarrow> 0]\<rparr>
      | (d, Inl e) \<Rightarrow> b\<lparr>bt_groups := d\<rparr>)"
| "group_step i b (GSettle n actual) =
     (if n < length (bt_held b)
      then b\<lparr>bt_groups := fst (settle_reservation i (bt_held b ! n) actual (bt_groups b)),
             bt_held := take_out n (bt_held b),
             bt_overshoot := bt_overshoot b + (actual - bt_held b ! n)\<rparr>
      else b)"
| "group_step i b (GRollback n) =
     (if n < length (bt_held b)
      then b\<lparr>bt_groups := rollback_admission i (bt_held b ! n) (bt_groups b),
             bt_held := take_out n (bt_held b)\<rparr>
      else b)"
| "group_step i b (GClose now) = b\<lparr>bt_groups := fst (close_group i now (bt_groups b))\<rparr>"
| "group_step i b (GClaim s) = b\<lparr>bt_groups := fst (claim_sub_orchestrator i s (bt_groups b))\<rparr>"
| "group_step i b GDiscard = b\<lparr>bt_groups := fst (discard_if_unused i (bt_groups b))\<rparr>"

lemma sum_take_out: "n < length xs \<Longrightarrow> sum_list (take_out n xs) + xs ! n = sum_list (xs :: nat list)"
  unfolding take_out_def by (subst (3) id_take_nth_drop [of n xs]) simp_all

lemma length_take_out: "n < length xs \<Longrightarrow> Suc (length (take_out n xs)) = length xs"
  by (simp add: take_out_def)

text \<open>The record of the group under its own file name.\<close>

definition group_of :: "string \<Rightarrow> groups \<Rightarrow> work_group option" where
  "group_of i d = (case held d i of Some g \<Rightarrow> if wg_id g = i then Some g else None | None \<Rightarrow> None)"

definition well_filed :: "string \<Rightarrow> groups \<Rightarrow> bool" where
  "well_filed i d = (case held d i of Some g \<Rightarrow> wg_id g = i | None \<Rightarrow> True)"

text \<open>
  What any operation may do to the record: the terms stay, a close and a claim are final, spend
  only grows.
\<close>

definition group_evolves :: "work_group \<Rightarrow> work_group \<Rightarrow> bool" where
  "group_evolves g g1 \<longleftrightarrow>
     wg_id g1 = wg_id g \<and> wg_child_limit g1 = wg_child_limit g \<and>
     wg_token_budget g1 = wg_token_budget g \<and> wg_deadline_secs g1 = wg_deadline_secs g \<and>
     wg_created_at g1 = wg_created_at g \<and> wg_scope g1 = wg_scope g \<and>
     wg_parent_session g1 = wg_parent_session g \<and>
     wg_completion_contract g1 = wg_completion_contract g \<and>
     (wg_closed_at g \<noteq> None \<longrightarrow> wg_closed_at g1 = wg_closed_at g \<and>
        wg_admitted_children g1 \<le> wg_admitted_children g) \<and>
     (wg_sub_orchestrator g \<noteq> None \<longrightarrow> wg_sub_orchestrator g1 = wg_sub_orchestrator g)"

lemma group_evolves_refl [simp]: "group_evolves g g"
  by (simp add: group_evolves_def)

lemma group_evolves_trans: "group_evolves g g1 \<Longrightarrow> group_evolves g1 g2 \<Longrightarrow> group_evolves g g2"
  by (auto simp: group_evolves_def)

lemma evolves_ops:
  "closed_group now g = Some g1 \<Longrightarrow> group_evolves g g1"
  "claimed_group s g = Some g1 \<Longrightarrow> group_evolves g g1"
  "admission_refusal g i now e = None \<Longrightarrow> group_evolves g (admitted_group g e)"
  "group_evolves g (settled_group g r a)"
  "group_evolves g (rolled_back_group g r)"
  by (auto simp: group_evolves_def closed_group_def claimed_group_def admitted_group_def
      settled_group_def rolled_back_group_def admission_refusal_def split: if_splits)

section \<open>What a step does to the record\<close>

definition step_to :: "string \<Rightarrow> groups \<Rightarrow> (work_group \<Rightarrow> work_group \<Rightarrow> bool) \<Rightarrow> groups \<Rightarrow> bool" where
  "step_to i d R d1 \<longleftrightarrow>
     held d1 = held d \<or>
     (\<exists>g g1. held d i = Some g \<and> wg_id g = i \<and> R g g1 \<and> held d1 = (held d)(i \<mapsto> g1) \<and> wg_id g1 = i)"

lemma with_group_step:
  assumes "with_group i change d = (d1, res)" "well_filed i d"
    and "\<And>g g1 v. change g = Inr (Some g1, v) \<Longrightarrow> R g g1 \<and> wg_id g1 = wg_id g"
  shows "step_to i d R d1"
  using assms(1)
proof (cases rule: with_group_cases)
  case kept
  then show ?thesis by (simp add: step_to_def held_files [of d1 d])
next
  case (written g g1 v)
  have "wg_id g = i" using assms(2) written(1) by (simp add: well_filed_def)
  moreover have "R g g1" "wg_id g1 = wg_id g" using assms(3) [OF written(2)] by simp_all
  moreover have "held d1 = (held d)(wg_id g1 \<mapsto> g1)" using written(3) by (rule held_upd)
  ultimately show ?thesis using written(1) unfolding step_to_def by auto
qed

lemma change_ids [simp]:
  "closed_group now g = Some g1 \<Longrightarrow> wg_id g1 = wg_id g"
  "claimed_group s g = Some g1 \<Longrightarrow> wg_id g1 = wg_id g"
  "wg_id (admitted_group g e) = wg_id g"
  "wg_id (settled_group g r a) = wg_id g"
  "wg_id (rolled_back_group g r) = wg_id g"
  by (auto simp: closed_group_def claimed_group_def admitted_group_def settled_group_def
      rolled_back_group_def split: if_splits)

lemma admit_step:
  assumes "admit_child i now e d = (d1, res)" "well_filed i d"
  shows "case res of
      Inl _ \<Rightarrow> held d1 = held d
    | Inr (g1, c) \<Rightarrow> \<exists>g. held d i = Some g \<and> wg_id g = i \<and> admission_refusal g i now e = None \<and>
        g1 = admitted_group g e \<and> c = ceiling_for g e \<and> held d1 = (held d)(i \<mapsto> g1)"
  using assms(1) unfolding admit_child_def
proof (cases rule: with_group_cases)
  case kept
  then show ?thesis by (auto simp: held_files [of d1 d] split: sum.splits option.splits)
next
  case (written g g1 v)
  have "wg_id g = i" using assms(2) written(1) by (simp add: well_filed_def)
  then show ?thesis using written held_upd [OF written(3)] by (auto split: option.splits)
qed

lemma settle_step:
  "well_filed i d \<Longrightarrow> step_to i d (\<lambda>g g1. g1 = settled_group g r a) (fst (settle_reservation i r a d))"
  unfolding settle_reservation_def
  by (rule with_group_step [OF surjective_pairing]) auto

lemma rollback_step:
  "well_filed i d \<Longrightarrow> step_to i d (\<lambda>g g1. g1 = rolled_back_group g r) (rollback_admission i r d)"
  unfolding rollback_admission_def
  by (rule with_group_step [OF surjective_pairing]) auto

lemma close_step:
  "well_filed i d \<Longrightarrow> step_to i d (\<lambda>g g1. closed_group now g = Some g1) (fst (close_group i now d))"
  unfolding close_group_def
  by (rule with_group_step [OF surjective_pairing]) auto

lemma claim_step:
  "well_filed i d \<Longrightarrow> step_to i d (\<lambda>g g1. claimed_group s g = Some g1) (fst (claim_sub_orchestrator i s d))"
  unfolding claim_sub_orchestrator_def
  by (rule with_group_step [OF surjective_pairing]) auto

lemma discard_step:
  "held (fst (discard_if_unused i d)) = held d \<or>
   (\<exists>g. held d i = Some g \<and> wg_closed_at g = None \<and> wg_admitted_children g = 0 \<and>
      held (fst (discard_if_unused i d)) = (held d)(i := None))"
proof (cases rule: discard_cases [OF surjective_pairing [of "discard_if_unused i d"]])
  case 1
  then show ?thesis by (simp add: held_files [of "fst (discard_if_unused i d)" d])
next
  case (2 g)
  have "held (fst (discard_if_unused i d)) = (held d)(i := None)"
    by (rule ext) (simp add: held_def 2(5))
  then show ?thesis using 2 by auto
qed

lemma well_filed_held: "held d1 = held d \<Longrightarrow> well_filed i d1 = well_filed i d"
  by (simp add: well_filed_def)

lemma step_to_well_filed: "step_to i d R d1 \<Longrightarrow> well_filed i d \<Longrightarrow> well_filed i d1"
  by (auto simp: step_to_def well_filed_def)

text \<open>Every step keeps the file well filed and the record evolves; a closed one is not discarded.\<close>

definition record_moves :: "string \<Rightarrow> groups \<Rightarrow> groups \<Rightarrow> bool" where
  "record_moves i d d1 \<longleftrightarrow> well_filed i d1 \<and>
     (\<forall>g1. held d1 i = Some g1 \<longrightarrow> (\<exists>g. held d i = Some g \<and> group_evolves g g1)) \<and>
     (\<forall>g. held d i = Some g \<longrightarrow> wg_closed_at g \<noteq> None \<longrightarrow> (\<exists>g1. held d1 i = Some g1))"

lemma step_to_moves:
  assumes "step_to i d R d1" "well_filed i d" "\<And>g g1. R g g1 \<Longrightarrow> group_evolves g g1"
  shows "record_moves i d d1"
  using assms step_to_well_filed [OF assms(1,2)] by (auto simp: record_moves_def step_to_def)

lemma group_step_moves:
  assumes "well_filed i (bt_groups b)"
  shows "record_moves i (bt_groups b) (bt_groups (group_step i b x))"
proof -
  have still: "record_moves i d d1" if "held d1 = held d" "well_filed i d" for d d1 :: groups
    using that well_filed_held [OF that(1)] by (auto simp: record_moves_def)
  show ?thesis
  proof (cases x)
    case (GAdmit now e)
    obtain d res where a: "admit_child i now e (bt_groups b) = (d, res)"
      by (cases "admit_child i now e (bt_groups b)")
    have "record_moves i (bt_groups b) d"
    proof (cases res)
      case (Inl e')
      then show ?thesis using admit_step [OF a assms] still [OF _ assms] by simp
    next
      case (Inr gc)
      then obtain g where "held (bt_groups b) i = Some g" "wg_id g = i"
          "admission_refusal g i now e = None" "held d = (held (bt_groups b))(i \<mapsto> admitted_group g e)"
        using admit_step [OF a assms] by (cases gc) auto
      then show ?thesis by (auto simp: record_moves_def well_filed_def intro: evolves_ops)
    qed
    moreover have "bt_groups (group_step i b x) = d" using GAdmit a by (auto split: sum.splits)
    ultimately show ?thesis by simp
  next
    case (GSettle n actual)
    then show ?thesis
      using step_to_moves [OF settle_step [OF assms] assms] evolves_ops still [OF refl assms] by auto
  next
    case (GRollback n)
    then show ?thesis
      using step_to_moves [OF rollback_step [OF assms] assms] evolves_ops still [OF refl assms] by auto
  next
    case (GClose now)
    then show ?thesis using step_to_moves [OF close_step [OF assms] assms] evolves_ops by auto
  next
    case (GClaim s)
    then show ?thesis using step_to_moves [OF claim_step [OF assms] assms] evolves_ops by auto
  next
    case GDiscard
    then show ?thesis using discard_step [of i "bt_groups b"] still [OF _ assms]
      by (auto simp: record_moves_def well_filed_def)
  qed
qed

section \<open>The budget\<close>

definition funds_ok :: "u64 \<Rightarrow> u32 \<Rightarrow> u64 list \<Rightarrow> nat \<Rightarrow> work_group \<Rightarrow> bool" where
  "funds_ok budget limit cs over g \<longleftrightarrow>
     wg_token_budget g = Some budget \<and> wg_child_limit g = limit \<and>
     wg_spent_tokens g + wg_reserved_tokens g \<le> budget + over \<and>
     sum_list cs \<le> wg_reserved_tokens g \<and>
     length cs \<le> wg_admitted_children g \<and> wg_admitted_children g \<le> limit"

definition batch_ok :: "string \<Rightarrow> u64 \<Rightarrow> u32 \<Rightarrow> batch \<Rightarrow> bool" where
  "batch_ok i budget limit b \<longleftrightarrow>
     well_filed i (bt_groups b) \<and>
     (\<forall>g. held (bt_groups b) i = Some g \<longrightarrow> funds_ok budget limit (bt_held b) (bt_overshoot b) g)"

lemma funds_admitted:
  assumes "funds_ok budget limit cs over g" "admission_refusal g i now e = None" "budget \<le> u64_max"
  shows "funds_ok budget limit (cs @ [case ceiling_for g e of Some x \<Rightarrow> x | None \<Rightarrow> 0]) over (admitted_group g e)"
proof -
  have b: "wg_token_budget g = Some budget" using assms(1) by (simp add: funds_ok_def)
  define c where "c = (case e of None \<Rightarrow> budget - wg_spent_tokens g - wg_reserved_tokens g
    | Some x \<Rightarrow> min (budget - wg_spent_tokens g - wg_reserved_tokens g) x)"
  have gc: "group_ceiling g e = Some c" "ceiling_for g e = Some c"
    using b by (cases e; simp add: group_ceiling_def ceiling_for_def c_def Let_def)+
  have pos: "c \<noteq> 0" and room: "wg_admitted_children g < limit"
    using assms(1,2) gc by (auto simp: admission_refusal_def funds_ok_def split: if_splits)
  have "c \<le> budget - wg_spent_tokens g - wg_reserved_tokens g"
    by (simp add: c_def split: option.split)
  then have fits: "wg_spent_tokens g + wg_reserved_tokens g + c \<le> budget" using pos by linarith
  then have "sat_add (wg_reserved_tokens g) c = wg_reserved_tokens g + c"
    using assms(3) by (intro sat_add_exact) linarith
  then show ?thesis using assms(1) gc fits room
    by (auto simp: funds_ok_def admitted_group_def)
qed

lemma funds_settled:
  assumes "funds_ok budget limit cs over g" "n < length cs"
  shows "funds_ok budget limit (take_out n cs) (over + (a - cs ! n)) (settled_group g (cs ! n) a)"
proof -
  have s: "sum_list (take_out n cs) + cs ! n = sum_list cs" using sum_take_out [OF assms(2)] .
  have "sat_add (wg_spent_tokens g) a \<le> wg_spent_tokens g + a" by (simp add: sat_add_def)
  moreover have "a \<le> cs ! n + (a - cs ! n)" by simp
  ultimately show ?thesis using assms(1) s length_take_out [OF assms(2)]
    by (simp add: funds_ok_def settled_group_def, intro conjI; linarith)
qed

lemma funds_rolled_back:
  assumes "funds_ok budget limit cs over g" "n < length cs"
  shows "funds_ok budget limit (take_out n cs) over (rolled_back_group g (cs ! n))"
  using assms sum_take_out [OF assms(2)] length_take_out [OF assms(2)]
  by (simp add: funds_ok_def rolled_back_group_def, intro conjI; linarith)

text \<open>A caller whose settlement or rollback could not be written gives its ceiling up all the same.\<close>

lemma funds_dropped:
  assumes "funds_ok budget limit cs over g" "n < length cs" "over \<le> over'"
  shows "funds_ok budget limit (take_out n cs) over' g"
  using assms sum_take_out [OF assms(2)] length_take_out [OF assms(2)]
  by (simp add: funds_ok_def)

lemma funds_fields:
  "funds_ok budget limit cs over (g\<lparr>wg_closed_at := x\<rparr>) = funds_ok budget limit cs over g"
  "funds_ok budget limit cs over (g\<lparr>wg_sub_orchestrator := y\<rparr>) = funds_ok budget limit cs over g"
  by (simp_all add: funds_ok_def)

lemma change_eqs:
  "closed_group now g = Some g1 \<Longrightarrow> g1 = g\<lparr>wg_closed_at := Some now\<rparr>"
  "claimed_group s g = Some g1 \<Longrightarrow> g1 = g\<lparr>wg_sub_orchestrator := Some s\<rparr>"
  unfolding closed_group_def claimed_group_def by (metis option.inject option.distinct(1))+

lemma funds_kept:
  "closed_group now g = Some g1 \<Longrightarrow> funds_ok budget limit cs over g1 = funds_ok budget limit cs over g"
  "claimed_group s g = Some g1 \<Longrightarrow> funds_ok budget limit cs over g1 = funds_ok budget limit cs over g"
  by (drule change_eqs, simp only: funds_fields)+

lemma step_to_funds:
  assumes "step_to i d R d1" "\<And>g. held d i = Some g \<Longrightarrow> funds_ok budget limit cs over g"
    and "\<And>g. funds_ok budget limit cs over g \<Longrightarrow> funds_ok budget limit cs' over' g"
    and "\<And>g g1. R g g1 \<Longrightarrow> funds_ok budget limit cs over g \<Longrightarrow> funds_ok budget limit cs' over' g1"
    and "held d1 i = Some g1"
  shows "funds_ok budget limit cs' over' g1"
  using assms(1) unfolding step_to_def
proof (elim disjE exE conjE)
  assume "held d1 = held d"
  then show ?thesis using assms(2,3,5) by simp
next
  fix g g2
  assume "held d i = Some g" "R g g2" "held d1 = (held d)(i \<mapsto> g2)"
  then show ?thesis using assms(2,4,5) by simp
qed

lemma batch_ok_step:
  assumes "batch_ok i budget limit b" "budget \<le> u64_max"
  shows "batch_ok i budget limit (group_step i b x)"
proof -
  have wf: "well_filed i (bt_groups b)"
    and funds: "\<And>g. held (bt_groups b) i = Some g \<Longrightarrow>
      funds_ok budget limit (bt_held b) (bt_overshoot b) g"
    using assms(1) by (simp_all add: batch_ok_def)
  have wf1: "well_filed i (bt_groups (group_step i b x))"
    using group_step_moves [OF wf] by (simp add: record_moves_def)
  have "funds_ok budget limit (bt_held (group_step i b x)) (bt_overshoot (group_step i b x)) g1"
    if h: "held (bt_groups (group_step i b x)) i = Some g1" for g1
  proof (cases x)
    case (GAdmit now e)
    obtain d res where a: "admit_child i now e (bt_groups b) = (d, res)"
      by (cases "admit_child i now e (bt_groups b)")
    show ?thesis
    proof (cases res)
      case (Inl e')
      then show ?thesis using admit_step [OF a wf] GAdmit a funds h by simp
    next
      case (Inr gc)
      then show ?thesis using admit_step [OF a wf] GAdmit a funds h funds_admitted assms(2)
        by (cases gc) auto
    qed
  next
    case (GSettle n actual)
    show ?thesis
    proof (cases "n < length (bt_held b)")
      case True
      have h1: "held (fst (settle_reservation i (bt_held b ! n) actual (bt_groups b))) i = Some g1" using h GSettle True by simp
      show ?thesis unfolding GSettle using True
        by (simp, intro step_to_funds [OF settle_step [OF wf] funds _ _ h1])
          (auto intro: funds_dropped funds_settled)
    qed (use h GSettle funds in simp)
  next
    case (GRollback n)
    show ?thesis
    proof (cases "n < length (bt_held b)")
      case True
      have h1: "held (rollback_admission i (bt_held b ! n) (bt_groups b)) i = Some g1" using h GRollback True by simp
      show ?thesis unfolding GRollback using True
        by (simp, intro step_to_funds [OF rollback_step [OF wf] funds _ _ h1])
          (auto intro: funds_dropped funds_rolled_back)
    qed (use h GRollback funds in simp)
  next
    case (GClose now)
    have h1: "held (fst (close_group i now (bt_groups b))) i = Some g1" using h GClose by simp
    show ?thesis unfolding GClose
      by (simp, intro step_to_funds [OF close_step [OF wf] funds _ _ h1]) (auto simp: funds_kept)
  next
    case (GClaim s)
    have h1: "held (fst (claim_sub_orchestrator i s (bt_groups b))) i = Some g1" using h GClaim by simp
    show ?thesis unfolding GClaim
      by (simp, intro step_to_funds [OF claim_step [OF wf] funds _ _ h1]) (auto simp: funds_kept)
  next
    case GDiscard
    then show ?thesis using h funds discard_step [of i "bt_groups b"] by auto
  qed
  then show ?thesis using wf1 by (simp add: batch_ok_def)
qed

lemma batch_ok_run:
  "batch_ok i budget limit b \<Longrightarrow> budget \<le> u64_max \<Longrightarrow>
   batch_ok i budget limit (foldl (group_step i) b ops)"
  by (rule foldl_inv) (auto intro: batch_ok_step)

text \<open>C17: A group's budget is never promised twice. Start from a fresh group with a token budget and
  run any sequence of admissions, settlements, rollbacks, closes, claims and discards by any
  number of callers, with locks and writes failing anywhere. The tokens spent plus the tokens
  reserved stay within the budget, up to what settled children themselves spent beyond their
  ceilings; the ceilings still held by callers are covered by the reservation; and no more than
  the child limit are ever counted as admitted.\<close>

theorem group_budget_is_never_promised_twice:
  assumes "b = foldl (group_step i) \<lparr>bt_groups = d, bt_held = [], bt_overshoot = 0\<rparr> ops"
    and "held d i = Some (new_group i args now)" "ca_token_budget args = Some budget" "budget \<le> u64_max"
    and "held (bt_groups b) i = Some g"
  shows "wg_spent_tokens g + wg_reserved_tokens g \<le> budget + bt_overshoot b \<and>
    sum_list (bt_held b) \<le> wg_reserved_tokens g \<and>
    length (bt_held b) \<le> wg_admitted_children g \<and> wg_admitted_children g \<le> ca_child_limit args"
proof -
  have "batch_ok i budget (ca_child_limit args) \<lparr>bt_groups = d, bt_held = [], bt_overshoot = 0\<rparr>"
    using assms(2,3) by (simp add: batch_ok_def well_filed_def funds_ok_def new_group_def)
  then have "batch_ok i budget (ca_child_limit args) b" unfolding assms(1) by (rule batch_ok_run) fact
  then show ?thesis using assms(5) by (simp add: batch_ok_def funds_ok_def)
qed

definition sample_group_args :: create_args where
  "sample_group_args =
     \<lparr>ca_scope = ''batch'', ca_child_limit = 2, ca_token_budget = Some 100, ca_deadline_secs = None,
      ca_completion_contract = DEFAULT_COMPLETION_CONTRACT, ca_parent_session = None\<rparr>"

definition sample_groups :: groups where
  "sample_groups = put_entry ''g'' (Some (Holds (new_group ''g'' sample_group_args 5))) empty_dir"

definition sample_batch :: batch where
  "sample_batch = foldl (group_step ''g'') \<lparr>bt_groups = sample_groups, bt_held = [], bt_overshoot = 0\<rparr>
     [GAdmit 6 (Some 60), GAdmit 7 None, GAdmit 8 None, GSettle 0 70]"

lemmas group_evaluation = admit_child_def settle_reservation_def with_group_def under_lock_def
  acquire_lock_def take_failure_def saving_def write_private_def put_entry_def load_group_def
  held_def empty_dir_def sample_groups_def new_group_def sample_group_args_def
  admission_refusal_def admitted_group_def ceiling_for_def group_ceiling_def budget_spent_def
  is_overdue_def settled_group_def sat_add_def u64_max_def take_out_def sample_batch_def Let_def

lemma sample_batch_values:
  "bt_held sample_batch = [40]" "bt_overshoot sample_batch = 10"
  "map_option (\<lambda>g. (wg_spent_tokens g, wg_reserved_tokens g, wg_admitted_children g))
     (held (bt_groups sample_batch) ''g'') = Some (70, 40, 2)"
  by (simp_all add: group_evaluation)

theorem group_budget_is_never_promised_twice_witness:
  "\<exists>g. held (bt_groups sample_batch) ''g'' = Some g \<and>
     wg_spent_tokens g + wg_reserved_tokens g \<le> 100 + bt_overshoot sample_batch"
proof -
  obtain g where "held (bt_groups sample_batch) ''g'' = Some g"
    using sample_batch_values(3) by auto
  moreover from this have "wg_spent_tokens g + wg_reserved_tokens g \<le> 100 + bt_overshoot sample_batch"
    by (intro conjunct1 [OF group_budget_is_never_promised_twice
          [OF sample_batch_def, of sample_group_args 5 100 g]])
      (simp_all add: sample_groups_def sample_group_args_def u64_max_def)
  ultimately show ?thesis by blast
qed

section \<open>Closing and claiming are final\<close>

lemma record_moves_run:
  assumes "well_filed i (bt_groups b)" "held (bt_groups b) i = Some g" "wg_closed_at g = Some t"
  shows "\<exists>g1. held (bt_groups (foldl (group_step i) b ops)) i = Some g1 \<and> group_evolves g g1 \<and>
    length (bt_held (foldl (group_step i) b ops)) \<le> length (bt_held b)"
proof -
  let ?P = "\<lambda>c :: batch. well_filed i (bt_groups c) \<and> length (bt_held c) \<le> length (bt_held b) \<and>
    (\<exists>g1. held (bt_groups c) i = Some g1 \<and> group_evolves g g1)"
  have "?P (foldl (group_step i) b ops)"
  proof (rule foldl_inv)
    show "?P b" using assms(1,2) by simp
    fix c :: batch and x assume c: "?P c"
    then obtain g1 where g1: "held (bt_groups c) i = Some g1" "group_evolves g g1" by auto
    have closed: "wg_closed_at g1 = Some t" using g1(2) assms(3) by (simp add: group_evolves_def)
    have moves: "record_moves i (bt_groups c) (bt_groups (group_step i c x))"
      using group_step_moves c by simp
    then obtain g2 where g2: "held (bt_groups (group_step i c x)) i = Some g2"
      using g1 closed by (auto simp: record_moves_def)
    then have "group_evolves g1 g2" using moves g1(1) by (auto simp: record_moves_def)
    then have ev: "group_evolves g g2" using g1(2) group_evolves_trans by blast
    have "length (bt_held (group_step i c x)) \<le> length (bt_held c)"
    proof (cases x)
      case (GAdmit now e)
      obtain d res where a: "admit_child i now e (bt_groups c) = (d, res)"
        by (cases "admit_child i now e (bt_groups c)")
      have wf: "well_filed i (bt_groups c)" using c by simp
      show ?thesis using admit_step [OF a wf] GAdmit a g1(1) closed
        by (cases res) (auto simp: admission_refusal_def)
    qed (simp_all add: take_out_def)
    then show "?P (group_step i c x)" using c moves g2 ev by (auto simp: record_moves_def)
  qed
  then show ?thesis by blast
qed

text \<open>Closing a group is final. Once a group is closed, no sequence of operations reopens it,
  moves its closing time, changes its terms, replaces the coordinator that claimed it, removes its
  record, or admits another child; every later admission is refused.\<close>

theorem closed_group_is_final:
  assumes "held d i = Some g" "wg_id g = i" "wg_closed_at g = Some t"
  shows "\<exists>g1. held (bt_groups (foldl (group_step i) (\<lparr>bt_groups = d, bt_held = cs, bt_overshoot = o1\<rparr>) ops)) i = Some g1 \<and>
    wg_closed_at g1 = Some t \<and> wg_token_budget g1 = wg_token_budget g \<and>
    wg_child_limit g1 = wg_child_limit g \<and> wg_admitted_children g1 \<le> wg_admitted_children g \<and>
    (wg_sub_orchestrator g = None \<or> wg_sub_orchestrator g1 = wg_sub_orchestrator g) \<and>
    length (bt_held (foldl (group_step i) (\<lparr>bt_groups = d, bt_held = cs, bt_overshoot = o1\<rparr>) ops)) \<le> length cs \<and>
    admission_refusal g1 i now explicit = Some (GroupClosed i)"
proof -
  have "well_filed i (bt_groups \<lparr>bt_groups = d, bt_held = cs, bt_overshoot = o1\<rparr>)"
    using assms(1,2) by (simp add: well_filed_def)
  from record_moves_run [OF this _ assms(3), of ops] assms(1,3)
  show ?thesis by (auto simp: group_evolves_def admission_refusal_def)
qed

theorem closed_group_is_final_witness:
  "\<exists>g1. held (bt_groups (foldl (group_step ''g'')
       \<lparr>bt_groups = fst (close_group ''g'' 9 sample_groups), bt_held = [], bt_overshoot = 0\<rparr>
       [GClose 11, GAdmit 12 None, GDiscard])) ''g'' = Some g1 \<and> wg_closed_at g1 = Some 9"
proof -
  have "held (fst (close_group ''g'' 9 sample_groups)) ''g'' =
      Some ((new_group ''g'' sample_group_args 5)\<lparr>wg_closed_at := Some 9\<rparr>)"
    by (simp add: close_group_def closed_group_def group_evaluation)
  then have "\<exists>g1. held (bt_groups (foldl (group_step ''g'')
       \<lparr>bt_groups = fst (close_group ''g'' 9 sample_groups), bt_held = [], bt_overshoot = 0\<rparr>
       [GClose 11, GAdmit 12 None, GDiscard])) ''g'' = Some g1 \<and> wg_closed_at g1 = Some 9 \<and> True"
    using closed_group_is_final [OF _ _ _, of "fst (close_group ''g'' 9 sample_groups)" "''g''" _ 9 "[]" 0
        "[GClose 11, GAdmit 12 None, GDiscard]"]
    unfolding new_group_def by (fastforce simp del: foldl.simps)
  then show ?thesis by blast
qed

section \<open>Rolling back an admission\<close>



end
