(* ===== verification/Task.thy ===== *)
theory Task
  imports State_Dir "HOL-Library.List_Lexorder" "HOL-Library.Char_ord"
begin

text \<open>
  Durable task cards, \<open>src/commands/ctx/task.rs\<close>: the append-only event log of a repository, its
  fold into the current cards, the pure transitions of a card, the recovery policy for a worker
  that ended, and the locked verbs that read the log, decide and append.

  The log of a repository is the text of one file; \<open>serde_json\<close> is a codec given as an argument,
  a pair of functions between an event and its line. A map from identifiers to cards is the
  association list that a \<open>BTreeMap\<close> iterates, sorted by identifier. The printing of the command
  line verbs is not modelled.
\<close>

section \<open>Data\<close>

datatype task_state = StTodo | StReady | StRunning | StBlocked | StReview | StDone | StArchived

fun task_state_text :: "task_state \<Rightarrow> string" where
  "task_state_text StTodo = ''todo''"
| "task_state_text StReady = ''ready''"
| "task_state_text StRunning = ''running''"
| "task_state_text StBlocked = ''blocked''"
| "task_state_text StReview = ''review''"
| "task_state_text StDone = ''done''"
| "task_state_text StArchived = ''archived''"

record task_claim =
  cl_session :: string
  cl_pid :: u32
  cl_pid_start_time :: "u64 option"
  cl_host :: string
  cl_claimed_at :: u64
  cl_ttl_secs :: u64

record block_note =
  bl_reason :: string
  bl_by :: string

record task_comment =
  cm_by :: string
  cm_text :: string
  cm_at :: u64

record card =
  cd_id :: string
  cd_repo_slug :: string
  cd_title :: string
  cd_brief :: string
  cd_state :: task_state
  cd_parents :: "string list"
  cd_claim :: "task_claim option"
  cd_block :: "block_note option"
  cd_comments :: "task_comment list"
  cd_workdir :: "string option"
  cd_group :: "string option"
  cd_outcome :: "string option"
  cd_attempts :: u32
  cd_created_at :: u64
  cd_updated_at :: u64

record created =
  cr_id :: string
  cr_repo_slug :: string
  cr_title :: string
  cr_brief :: string
  cr_parents :: "string list"
  cr_group :: "string option"
  cr_workdir :: "string option"
  cr_at :: u64

datatype task_event =
    EvCreated created
  | EvReadied string u64
  | EvClaimed string task_claim u32 u64
  | EvHeartbeat string u64 u64
  | EvCompleted string string u64
  | EvBlocked string string string u64
  | EvUnblocked string u64
  | EvCommented string task_comment
  | EvArchived string u64
  | EvCrash string u64
  | EvProtocol string string u64
  | EvRespawned string u64

section \<open>The fold of the log\<close>

type_synonym cards = "(string \<times> card) list"

definition card_of :: "cards \<Rightarrow> string \<Rightarrow> card option" where
  "card_of cs i = map_of cs i"

fun insert_card :: "string \<Rightarrow> card \<Rightarrow> cards \<Rightarrow> cards" where
  "insert_card i x [] = [(i, x)]"
| "insert_card i x ((j, y) # cs) =
     (if i < j then (i, x) # (j, y) # cs else (j, y) # insert_card i x cs)"

definition change_card :: "string \<Rightarrow> (card \<Rightarrow> card) \<Rightarrow> cards \<Rightarrow> cards" where
  "change_card i f cs = map (\<lambda>(j, y). (j, if j = i then f y else y)) cs"

definition fresh_card :: "created \<Rightarrow> card" where
  "fresh_card e =
     \<lparr>cd_id = cr_id e, cd_repo_slug = cr_repo_slug e, cd_title = cr_title e, cd_brief = cr_brief e,
      cd_state = (if cr_parents e = [] then StReady else StTodo), cd_parents = cr_parents e,
      cd_claim = None, cd_block = None, cd_comments = [], cd_workdir = cr_workdir e,
      cd_group = cr_group e, cd_outcome = None, cd_attempts = 0, cd_created_at = cr_at e,
      cd_updated_at = cr_at e\<rparr>"

text \<open>What an event other than a creation does to the card it names.\<close>

fun applied :: "task_event \<Rightarrow> card \<Rightarrow> card" where
  "applied (EvCreated _) x = x"
| "applied (EvReadied _ at) x = x\<lparr>cd_state := StReady, cd_updated_at := at\<rparr>"
| "applied (EvClaimed _ cl attempts at) x =
     x\<lparr>cd_state := StRunning, cd_claim := Some cl, cd_attempts := attempts, cd_updated_at := at\<rparr>"
| "applied (EvHeartbeat _ claimed_at at) x =
     x\<lparr>cd_claim := map_option (\<lambda>c. c\<lparr>cl_claimed_at := claimed_at\<rparr>) (cd_claim x), cd_updated_at := at\<rparr>"
| "applied (EvCompleted _ outcome at) x =
     x\<lparr>cd_state := StDone, cd_outcome := Some outcome, cd_claim := None, cd_updated_at := at\<rparr>"
| "applied (EvBlocked _ reason whom at) x =
     x\<lparr>cd_state := StBlocked, cd_block := Some \<lparr>bl_reason = reason, bl_by = whom\<rparr>, cd_claim := None,
       cd_updated_at := at\<rparr>"
| "applied (EvUnblocked _ at) x = x\<lparr>cd_state := StReady, cd_block := None, cd_updated_at := at\<rparr>"
| "applied (EvCommented _ c) x =
     x\<lparr>cd_updated_at := cm_at c, cd_comments := cd_comments x @ [c]\<rparr>"
| "applied (EvArchived _ at) x = x\<lparr>cd_state := StArchived, cd_updated_at := at\<rparr>"
| "applied (EvCrash _ at) x = x\<lparr>cd_state := StReady, cd_claim := None, cd_updated_at := at\<rparr>"
| "applied (EvProtocol _ _ at) x = x\<lparr>cd_state := StReady, cd_claim := None, cd_updated_at := at\<rparr>"
| "applied (EvRespawned _ at) x = x\<lparr>cd_updated_at := at\<rparr>"

fun event_id :: "task_event \<Rightarrow> string" where
  "event_id (EvCreated e) = cr_id e"
| "event_id (EvReadied i _) = i"
| "event_id (EvClaimed i _ _ _) = i"
| "event_id (EvHeartbeat i _ _) = i"
| "event_id (EvCompleted i _ _) = i"
| "event_id (EvBlocked i _ _ _) = i"
| "event_id (EvUnblocked i _) = i"
| "event_id (EvCommented i _) = i"
| "event_id (EvArchived i _) = i"
| "event_id (EvCrash i _) = i"
| "event_id (EvProtocol i _ _) = i"
| "event_id (EvRespawned i _) = i"

fun fold_event :: "cards \<Rightarrow> task_event \<Rightarrow> cards" where
  "fold_event cs (EvCreated e) =
     (if card_of cs (cr_id e) \<noteq> None then cs else insert_card (cr_id e) (fresh_card e) cs)"
| "fold_event cs ev = change_card (event_id ev) (applied ev) cs"

definition materialize :: "task_event list \<Rightarrow> cards" where
  "materialize evs = foldl fold_event [] evs"

section \<open>The log file\<close>

record task_codec =
  render_event :: "task_event \<Rightarrow> string"
  parse_event :: "string \<Rightarrow> task_event option"

type_synonym task_logs = "string dir"

datatype task_error = TaskIo io_error | LogUnreadable string

abbreviation newline :: char where "newline \<equiv> CHR 0x0A"

text \<open>\<open>str::lines\<close>: a final empty piece is dropped, and one carriage return before a line feed.\<close>

definition strip_cr :: "string \<Rightarrow> string" where
  "strip_cr l = (if l \<noteq> [] \<and> last l = CHR 0x0D then butlast l else l)"

definition text_lines :: "string \<Rightarrow> string list" where
  "text_lines t =
     (let ls = split_char newline t; complete = butlast ls; rest = last ls
      in map strip_cr complete @ (if rest = [] then [] else [rest]))"

definition read_text :: "task_codec \<Rightarrow> string \<Rightarrow> task_event list" where
  "read_text c t = List.map_filter (parse_event c) (text_lines t)"

definition read_events :: "task_codec \<Rightarrow> task_logs \<Rightarrow> string \<Rightarrow> task_event list" where
  "read_events c d slug = (case held d slug of None \<Rightarrow> [] | Some t \<Rightarrow> read_text c t)"

definition event_line :: "task_codec \<Rightarrow> task_event \<Rightarrow> string" where
  "event_line c e = render_event c e @ [newline]"

text \<open>
  A plain append. It is not atomic: an attempt that fails leaves the first \<open>kept\<close> characters of
  its line behind.
\<close>

definition write_event_locked ::
    "task_codec \<Rightarrow> nat \<Rightarrow> string \<Rightarrow> task_event \<Rightarrow> task_logs \<Rightarrow> task_logs \<times> (task_error + unit)" where
  "write_event_locked c kept slug e d =
     (let (failed, rest) = take_failure (write_failures d);
          d1 = d\<lparr>write_failures := rest\<rparr>;
          line = (if failed then take kept (event_line c e) else event_line c e);
          d2 = (case files d1 slug of
                  None \<Rightarrow> put_entry slug (Some (Holds line)) d1
                | Some Garbled \<Rightarrow> d1
                | Some (Holds t) \<Rightarrow> put_entry slug (Some (Holds (t @ line))) d1)
      in (d2, if failed then Inl (TaskIo NoWrite) else Inr ()))"

definition append_event ::
    "task_codec \<Rightarrow> nat \<Rightarrow> string \<Rightarrow> task_event \<Rightarrow> task_logs \<Rightarrow> task_logs \<times> (task_error + unit)" where
  "append_event c kept slug e = under_lock (TaskIo NoLock) (write_event_locked c kept slug e)"

definition with_final_newline :: "string \<Rightarrow> string" where
  "with_final_newline t = (if t \<noteq> [] \<and> last t \<noteq> newline then t @ [newline] else t)"

definition batch_text :: "task_codec \<Rightarrow> string \<Rightarrow> task_event list \<Rightarrow> string" where
  "batch_text c t evs = with_final_newline t @ concat (map (event_line c) evs)"

definition write_events_atomic_locked ::
    "task_codec \<Rightarrow> string \<Rightarrow> task_event list \<Rightarrow> task_logs \<Rightarrow> task_logs \<times> (task_error + unit)" where
  "write_events_atomic_locked c slug evs d =
     (case files d slug of
        Some Garbled \<Rightarrow> (d, Inl (LogUnreadable slug))
      | None \<Rightarrow> saving (TaskIo NoWrite) slug (batch_text c [] evs) () d
      | Some (Holds t) \<Rightarrow> saving (TaskIo NoWrite) slug (batch_text c t evs) () d)"

definition append_events_atomic ::
    "task_codec \<Rightarrow> string \<Rightarrow> task_event list \<Rightarrow> task_logs \<Rightarrow> task_logs \<times> (task_error + unit)" where
  "append_events_atomic c slug evs = under_lock (TaskIo NoLock) (write_events_atomic_locked c slug evs)"

definition load_cards :: "task_codec \<Rightarrow> task_logs \<Rightarrow> string \<Rightarrow> cards" where
  "load_cards c d slug = materialize (read_events c d slug)"

section \<open>The transitions of a card\<close>

datatype refusal =
    NotReady task_state
  | ParentsUnmet "string list"
  | NotClaimed
  | WrongClaimant string
  | ClaimantDead
  | CannotBlock task_state
  | CannotUnblock task_state
  | CannotArchive task_state

fun comma_joined :: "string list \<Rightarrow> string" where
  "comma_joined [] = []"
| "comma_joined [x] = x"
| "comma_joined (x # xs) = x @ '', '' @ comma_joined xs"

fun refusal_text :: "refusal \<Rightarrow> string" where
  "refusal_text (NotReady s) = ''not ready (state is '' @ task_state_text s @ '')''"
| "refusal_text (ParentsUnmet ps) = ''parents not all done: '' @ comma_joined ps"
| "refusal_text NotClaimed = ''not claimed''"
| "refusal_text (WrongClaimant s) = ''claimed by a different session ('' @ s @ '')''"
| "refusal_text ClaimantDead = ''claimant is no longer alive''"
| "refusal_text (CannotBlock s) = ''cannot block from state '' @ task_state_text s"
| "refusal_text (CannotUnblock s) = ''cannot unblock from state '' @ task_state_text s"
| "refusal_text (CannotArchive s) = ''cannot archive from state '' @ task_state_text s"

text \<open>Who asks for a claim: a session in a process on a host.\<close>

record claimant =
  who_session :: string
  who_pid :: u32
  who_pid_start_time :: "u64 option"
  who_host :: string

definition claim_card :: "card \<Rightarrow> claimant \<Rightarrow> u64 \<Rightarrow> u64 \<Rightarrow> bool \<Rightarrow> refusal + card" where
  "claim_card x who now ttl parents_done =
     (if cd_state x \<noteq> StReady then Inl (NotReady (cd_state x))
      else if \<not> parents_done then Inl (ParentsUnmet (cd_parents x))
      else Inr (x\<lparr>cd_state := StRunning,
                  cd_claim := Some \<lparr>cl_session = who_session who, cl_pid = who_pid who,
                     cl_pid_start_time = who_pid_start_time who, cl_host = who_host who,
                     cl_claimed_at = now, cl_ttl_secs = ttl\<rparr>,
                  cd_attempts := min (cd_attempts x + 1) (2 ^ 32 - 1), cd_updated_at := now\<rparr>))"

definition heartbeat_card :: "card \<Rightarrow> string \<Rightarrow> u64 \<Rightarrow> bool \<Rightarrow> refusal + card" where
  "heartbeat_card x session now claimant_alive =
     (case cd_claim x of
        None \<Rightarrow> Inl NotClaimed
      | Some c \<Rightarrow>
          if cl_session c \<noteq> session then Inl (WrongClaimant (cl_session c))
          else if \<not> claimant_alive then Inl ClaimantDead
          else Inr (x\<lparr>cd_claim := Some (c\<lparr>cl_claimed_at := now\<rparr>), cd_updated_at := now\<rparr>))"

definition is_ttl_expired :: "task_claim \<Rightarrow> u64 \<Rightarrow> bool" where
  "is_ttl_expired c now \<longleftrightarrow> cl_ttl_secs c < sat_sub now (cl_claimed_at c)"

definition reap_card :: "card \<Rightarrow> u64 \<Rightarrow> bool \<Rightarrow> card option" where
  "reap_card x now claimant_alive =
     (if cd_state x \<noteq> StRunning \<or> cd_claim x = None \<or> claimant_alive then None
      else Some (x\<lparr>cd_state := StReady, cd_claim := None, cd_updated_at := now\<rparr>))"

definition complete_card :: "card \<Rightarrow> string \<Rightarrow> u64 \<Rightarrow> card" where
  "complete_card x outcome now =
     x\<lparr>cd_state := StDone, cd_outcome := Some outcome, cd_claim := None, cd_updated_at := now\<rparr>"

definition block_card :: "card \<Rightarrow> string \<Rightarrow> string \<Rightarrow> u64 \<Rightarrow> refusal + card" where
  "block_card x reason whom now =
     (if cd_state x \<notin> {StTodo, StReady, StRunning, StReview} then Inl (CannotBlock (cd_state x))
      else Inr (x\<lparr>cd_state := StBlocked, cd_block := Some \<lparr>bl_reason = reason, bl_by = whom\<rparr>,
                  cd_claim := None, cd_updated_at := now\<rparr>))"

definition unblock_card :: "card \<Rightarrow> u64 \<Rightarrow> refusal + card" where
  "unblock_card x now =
     (if cd_state x \<noteq> StBlocked then Inl (CannotUnblock (cd_state x))
      else Inr (x\<lparr>cd_state := StReady, cd_block := None, cd_updated_at := now\<rparr>))"

definition archive_card :: "card \<Rightarrow> u64 \<Rightarrow> refusal + card" where
  "archive_card x now =
     (if cd_state x \<notin> {StDone, StBlocked} then Inl (CannotArchive (cd_state x))
      else Inr (x\<lparr>cd_state := StArchived, cd_updated_at := now\<rparr>))"

definition add_comment :: "card \<Rightarrow> string \<Rightarrow> string \<Rightarrow> u64 \<Rightarrow> card" where
  "add_comment x whom said now =
     x\<lparr>cd_comments := cd_comments x @ [\<lparr>cm_by = whom, cm_text = said, cm_at = now\<rparr>],
       cd_updated_at := now\<rparr>"

definition ready_when_parents_done :: "card \<Rightarrow> card list \<Rightarrow> u64 \<Rightarrow> card option" where
  "ready_when_parents_done x parents now =
     (if cd_state x \<noteq> StTodo then None
      else if length parents \<noteq> length (cd_parents x) then None
      else if \<not> list_all (\<lambda>p. cd_state p = StDone) parents then None
      else Some (x\<lparr>cd_state := StReady, cd_updated_at := now\<rparr>))"

section \<open>The recovery policy\<close>

datatype exit_kind = ExCrash | ExSilentZero | ExReported

datatype respawn_verdict = Respawn | AutoBlock string | RefuseRespawn string

definition DEFAULT_MAX_ATTEMPTS :: u32 where "DEFAULT_MAX_ATTEMPTS = 2"

definition DEFAULT_CLAIM_TTL_SECS :: u64 where "DEFAULT_CLAIM_TTL_SECS = 900"

definition text_contains :: "string \<Rightarrow> string \<Rightarrow> bool" where
  "text_contains needle hay = list_ex (prefix needle) (suffixes hay)"

text \<open>The block a respawn cannot fix: its reason speaks of credentials.\<close>

definition access_block :: "card \<Rightarrow> string option" where
  "access_block x =
     (case cd_block x of
        None \<Rightarrow> None
      | Some b \<Rightarrow>
          if text_contains ''auth'' (ascii_lower (bl_reason b)) \<or>
             text_contains ''credential'' (ascii_lower (bl_reason b))
          then Some (bl_reason b) else None)"

definition respawn_decision :: "card \<Rightarrow> exit_kind \<Rightarrow> u32 \<Rightarrow> respawn_verdict" where
  "respawn_decision x exit max_attempts =
     (if cd_state x = StDone then RefuseRespawn ''card already completed successfully''
      else case access_block x of
          Some reason \<Rightarrow>
            RefuseRespawn (''blocked on '' @ CHR 0x27 # reason @ CHR 0x27 # '': not retryable by respawning'')
        | None \<Rightarrow>
            (case exit of
               ExReported \<Rightarrow> RefuseRespawn ''the worker already reported an outcome''
             | ExCrash \<Rightarrow>
                 if max_attempts \<le> cd_attempts x
                 then AutoBlock (''crashed, retried the maximum of '' @ show_nat max_attempts @ '' times'')
                 else Respawn
             | ExSilentZero \<Rightarrow>
                 if max_attempts \<le> cd_attempts x
                 then AutoBlock (''exited 0 without a report-back, retried the maximum of '' @
                        show_nat max_attempts @ '' times'')
                 else Respawn))"

fun exit_kind_code :: "exit_kind \<Rightarrow> u32" where
  "exit_kind_code ExCrash = 1"
| "exit_kind_code ExSilentZero = 2"
| "exit_kind_code ExReported = 3"

record crash_signals =
  sg_access :: bool
  sg_configuration :: bool
  sg_missing_file :: bool
  sg_transient :: bool

definition contains_any :: "string list \<Rightarrow> string \<Rightarrow> bool" where
  "contains_any phrases t = list_ex (\<lambda>p. text_contains p t) phrases"

definition crash_signals_from_text :: "string \<Rightarrow> crash_signals" where
  "crash_signals_from_text t =
     (let l = ascii_lower (take 4096 t) in
      \<lparr>sg_access = contains_any [''token expired'', ''login again'', ''permission denied'', ''access denied''] l,
       sg_configuration =
         contains_any [''invalid config'', ''invalid setup'', ''parse error'', ''syntax error''] l \<or>
         text_contains ''setup'' l \<and> text_contains ''invalid'' l,
       sg_missing_file = contains_any [''missing file'', ''file not found''] l,
       sg_transient = contains_any [''timeout'', ''network'', ''rate limit'', ''out of memory'', ''connection reset''] l\<rparr>)"

text \<open>
  The advisory service. Its answer to the one question is decisive or not, with a choice; what it
  answers to the facts it is sent is an argument, as are the configuration switch and its gate.
\<close>

record advisory_answer =
  an_decisive :: bool
  an_choice :: "string option"

datatype advisory_status = Answered "advisory_answer option" | AdvDisabled | AdvMissingCredential | AdvFailed

record advisor =
  ad_supervisor :: bool
  ad_gate_open :: bool
  ad_advise :: "u32 list \<Rightarrow> advisory_status"

datatype crash_advice = AdviseBlock string | AdviseBaseline string

definition crash_cause_classify :: "advisory_answer option \<Rightarrow> crash_signals \<Rightarrow> string option" where
  "crash_cause_classify answer sig =
     (case answer of
        None \<Rightarrow> None
      | Some a \<Rightarrow>
          if \<not> an_decisive a then None
          else Some
            (if an_choice a = Some ''access'' \<and> sg_access sig then ''access''
             else if an_choice a = Some ''deterministic'' \<and> (sg_configuration sig \<or> sg_missing_file sig)
             then ''deterministic''
             else if an_choice a = Some ''transient'' then ''transient''
             else ''signal_mismatch''))"

definition crash_facts :: "crash_signals \<Rightarrow> exit_kind \<Rightarrow> u32 \<Rightarrow> u32 \<Rightarrow> u32 list" where
  "crash_facts sig exit attempt max_attempts =
     [exit_kind_code exit, min attempt 1000000, min max_attempts 1000000,
      of_bool (sg_access sig), of_bool (sg_configuration sig), of_bool (sg_missing_file sig),
      of_bool (sg_transient sig)]"

definition jev_crash_cause :: "advisor \<Rightarrow> crash_signals \<Rightarrow> exit_kind \<Rightarrow> u32 \<Rightarrow> u32 \<Rightarrow> crash_advice" where
  "jev_crash_cause adv sig exit attempt max_attempts =
     (if \<not> ad_supervisor adv then AdviseBaseline ''disabled''
      else if \<not> ad_gate_open adv then AdviseBaseline ''missing_credential''
      else if sg_transient sig \<or> \<not> (sg_access sig \<or> sg_configuration sig \<or> sg_missing_file sig)
      then AdviseBaseline ''insufficient_repeatable_signal''
      else case ad_advise adv (crash_facts sig exit attempt max_attempts) of
          AdvDisabled \<Rightarrow> AdviseBaseline ''disabled''
        | AdvMissingCredential \<Rightarrow> AdviseBaseline ''missing_credential''
        | AdvFailed \<Rightarrow> AdviseBaseline ''error''
        | Answered None \<Rightarrow> AdviseBaseline ''partial_answer''
        | Answered (Some a) \<Rightarrow>
            (case crash_cause_classify (Some a) sig of
               None \<Rightarrow> AdviseBaseline ''uncertain''
             | Some cause \<Rightarrow>
                 if cause \<in> {''access'', ''deterministic''} then AdviseBlock cause
                 else if cause = ''transient'' then AdviseBaseline ''transient''
                 else AdviseBaseline ''signal_mismatch''))"

definition respawn_decision_with_jev_signals ::
    "advisor \<Rightarrow> card \<Rightarrow> exit_kind \<Rightarrow> u32 \<Rightarrow> crash_signals option \<Rightarrow> respawn_verdict" where
  "respawn_decision_with_jev_signals adv x exit max_attempts failure_signals =
     (let base = respawn_decision x exit max_attempts in
      if base \<noteq> Respawn then base
      else case (case cd_block x of
                   Some b \<Rightarrow> Some (crash_signals_from_text (bl_reason b))
                 | None \<Rightarrow> failure_signals) of
          None \<Rightarrow> base
        | Some sig \<Rightarrow>
            (case jev_crash_cause adv sig exit (cd_attempts x) max_attempts of
               AdviseBlock cause \<Rightarrow>
                 AutoBlock (''blocked after a likely '' @ cause @
                   '' failure that a retry cannot fix; inspect with `zirv ctx task show '' @ cd_id x @
                   ''` and resume with `zirv ctx task unblock '' @ cd_id x @ ''`'')
             | AdviseBaseline _ \<Rightarrow> base))"

definition respawn_decision_with_jev :: "advisor \<Rightarrow> card \<Rightarrow> exit_kind \<Rightarrow> u32 \<Rightarrow> respawn_verdict" where
  "respawn_decision_with_jev adv x exit max_attempts =
     respawn_decision_with_jev_signals adv x exit max_attempts None"

section \<open>Reaping and promoting\<close>

definition promote_if_ready :: "cards \<Rightarrow> card \<Rightarrow> u64 \<Rightarrow> card \<times> task_event list" where
  "promote_if_ready cs x now =
     (if cd_state x \<noteq> StTodo then (x, [])
      else case ready_when_parents_done x (List.map_filter (card_of cs) (cd_parents x)) now of
          Some promoted \<Rightarrow> (promoted, [EvReadied (cd_id x) now])
        | None \<Rightarrow> (x, []))"

text \<open>The liveness of a claimant is the bare probe of its pid.\<close>

definition claimant_alive :: "processes \<Rightarrow> task_claim \<Rightarrow> bool" where
  "claimant_alive os c = is_alive os (cl_pid c)"

definition reap_if_stale :: "processes \<Rightarrow> card \<Rightarrow> u64 \<Rightarrow> card \<times> task_event list" where
  "reap_if_stale os x now =
     (case cd_claim x of
        None \<Rightarrow> (x, [])
      | Some c \<Rightarrow>
          if cd_state x \<noteq> StRunning \<or> \<not> is_ttl_expired c now then (x, [])
          else case reap_card x now (claimant_alive os c) of
              Some reaped \<Rightarrow> (reaped, [EvCrash (cd_id x) now])
            | None \<Rightarrow> (x, []))"

definition parents_done :: "cards \<Rightarrow> card \<Rightarrow> bool" where
  "parents_done cs x =
     list_all (\<lambda>p. case card_of cs p of Some y \<Rightarrow> cd_state y = StDone | None \<Rightarrow> False) (cd_parents x)"

section \<open>The locked verbs\<close>

type_synonym 'r decision_of = "(refusal + 'r) \<times> task_event list"

definition with_task_lock ::
    "task_codec \<Rightarrow> string \<Rightarrow> (cards \<Rightarrow> 'r decision_of option) \<Rightarrow> task_logs
      \<Rightarrow> task_logs \<times> (task_error + (refusal + 'r) option)" where
  "with_task_lock c slug decide =
     under_lock (TaskIo NoLock) (\<lambda>d.
       case decide (load_cards c d slug) of
         None \<Rightarrow> (d, Inr None)
       | Some (outcome, evs) \<Rightarrow>
           if evs = [] then (d, Inr (Some outcome))
           else (case write_events_atomic_locked c slug evs d of
                   (d1, Inl e) \<Rightarrow> (d1, Inl e)
                 | (d1, Inr _) \<Rightarrow> (d1, Inr (Some outcome))))"

definition claim_decision ::
    "processes \<Rightarrow> string \<Rightarrow> claimant \<Rightarrow> u64 \<Rightarrow> u64 \<Rightarrow> cards \<Rightarrow> card decision_of option" where
  "claim_decision os i who now ttl cs =
     (case card_of cs i of
        None \<Rightarrow> None
      | Some x0 \<Rightarrow>
          let (x1, ev1) = reap_if_stale os x0 now;
              (x2, ev2) = promote_if_ready cs x1 now
          in (case claim_card x2 who now ttl (parents_done cs x2) of
                Inr claimed \<Rightarrow>
                  Some (Inr claimed,
                    ev1 @ ev2 @ [EvClaimed (cd_id x2) (the (cd_claim claimed)) (cd_attempts claimed) now])
              | Inl r \<Rightarrow> Some (Inl r, ev1 @ ev2)))"

definition claim_locked ::
    "task_codec \<Rightarrow> processes \<Rightarrow> string \<Rightarrow> string \<Rightarrow> claimant \<Rightarrow> u64 \<Rightarrow> u64 \<Rightarrow> task_logs
      \<Rightarrow> task_logs \<times> (task_error + (refusal + card) option)" where
  "claim_locked c os slug i who now ttl = with_task_lock c slug (claim_decision os i who now ttl)"

text \<open>The other verbs: one transition of one card, its event written when it is not refused.\<close>

definition verb_decision ::
    "string \<Rightarrow> (card \<Rightarrow> refusal + card) \<Rightarrow> (card \<Rightarrow> task_event) \<Rightarrow> cards \<Rightarrow> card decision_of option" where
  "verb_decision i transition event cs =
     (case card_of cs i of
        None \<Rightarrow> None
      | Some x \<Rightarrow> (case transition x of
            Inr next_card \<Rightarrow> Some (Inr next_card, [event next_card])
          | Inl r \<Rightarrow> Some (Inl r, [])))"

definition heartbeat_decision :: "processes \<Rightarrow> string \<Rightarrow> string \<Rightarrow> u64 \<Rightarrow> cards \<Rightarrow> card decision_of option" where
  "heartbeat_decision os i session now =
     verb_decision i
       (\<lambda>x. heartbeat_card x session now
              (case cd_claim x of Some c \<Rightarrow> claimant_alive os c | None \<Rightarrow> False))
       (\<lambda>_. EvHeartbeat i now now)"

definition complete_decision :: "string \<Rightarrow> string \<Rightarrow> u64 \<Rightarrow> cards \<Rightarrow> card decision_of option" where
  "complete_decision i outcome now =
     verb_decision i (\<lambda>x. Inr (complete_card x outcome now))
       (\<lambda>y. EvCompleted i (case cd_outcome y of Some t \<Rightarrow> t | None \<Rightarrow> []) (cd_updated_at y))"

definition block_decision :: "string \<Rightarrow> string \<Rightarrow> string \<Rightarrow> u64 \<Rightarrow> cards \<Rightarrow> card decision_of option" where
  "block_decision i reason whom now =
     verb_decision i (\<lambda>x. block_card x reason whom now)
       (\<lambda>y. EvBlocked i (bl_reason (the (cd_block y))) (bl_by (the (cd_block y))) (cd_updated_at y))"

definition unblock_decision :: "string \<Rightarrow> u64 \<Rightarrow> cards \<Rightarrow> card decision_of option" where
  "unblock_decision i now =
     verb_decision i (\<lambda>x. unblock_card x now) (\<lambda>y. EvUnblocked i (cd_updated_at y))"

definition comment_decision :: "string \<Rightarrow> string \<Rightarrow> string \<Rightarrow> u64 \<Rightarrow> cards \<Rightarrow> card decision_of option" where
  "comment_decision i whom said now =
     verb_decision i (\<lambda>x. Inr (add_comment x whom said now))
       (\<lambda>y. EvCommented i (last (cd_comments y)))"

definition archive_decision :: "string \<Rightarrow> u64 \<Rightarrow> cards \<Rightarrow> card decision_of option" where
  "archive_decision i now =
     verb_decision i (\<lambda>x. archive_card x now) (\<lambda>y. EvArchived i (cd_updated_at y))"

definition reap_all_decide :: "processes \<Rightarrow> cards \<Rightarrow> u64 \<Rightarrow> string list \<times> task_event list" where
  "reap_all_decide os cs now =
     foldl (\<lambda>(ids, evs) (_, x). case snd (reap_if_stale os x now) of
               [] \<Rightarrow> (ids, evs)
             | new_evs \<Rightarrow> (ids @ [cd_id x], evs @ new_evs)) ([], []) cs"

definition reap_all_dry :: "task_codec \<Rightarrow> processes \<Rightarrow> string \<Rightarrow> u64 \<Rightarrow> task_logs \<Rightarrow> string list" where
  "reap_all_dry c os slug now d = fst (reap_all_decide os (load_cards c d slug) now)"

definition reap_all_locked ::
    "task_codec \<Rightarrow> processes \<Rightarrow> string \<Rightarrow> u64 \<Rightarrow> task_logs \<Rightarrow> task_logs \<times> (task_error + string list)" where
  "reap_all_locked c os slug now =
     under_lock (TaskIo NoLock) (\<lambda>d.
       let (ids, evs) = reap_all_decide os (load_cards c d slug) now in
       if evs = [] then (d, Inr ids)
       else (case write_events_atomic_locked c slug evs d of
               (d1, Inl e) \<Rightarrow> (d1, Inl e)
             | (d1, Inr _) \<Rightarrow> (d1, Inr ids)))"

section \<open>Creating cards and closing a delegation\<close>

record card_args =
  ca_title :: string
  ca_brief :: string
  ca_parents :: "string list"
  ca_group :: "string option"
  ca_workdir :: "string option"

text \<open>The identifier that the random source mints, after the prefix, is an argument.\<close>

definition create_card ::
    "task_codec \<Rightarrow> nat \<Rightarrow> string \<Rightarrow> string \<Rightarrow> card_args \<Rightarrow> u64 \<Rightarrow> task_logs
      \<Rightarrow> task_logs \<times> (task_error + string)" where
  "create_card c kept uuid slug a now d =
     (let i = ''task-'' @ uuid in
      case append_event c kept slug (EvCreated
             \<lparr>cr_id = i, cr_repo_slug = slug, cr_title = ca_title a, cr_brief = ca_brief a,
              cr_parents = ca_parents a, cr_group = ca_group a, cr_workdir = ca_workdir a, cr_at = now\<rparr>) d of
        (d1, Inl e) \<Rightarrow> (d1, Inl e)
      | (d1, Inr _) \<Rightarrow> (d1, Inr i))"

text \<open>
  \<open>finish_task_card\<close> (\<open>agent/mod.rs\<close>): what the supervisor of a delegation appends when its worker
  ended, from the card it read beforehand and outside the lock.
\<close>

definition finish_events ::
    "advisor \<Rightarrow> card \<Rightarrow> exit_kind \<Rightarrow> string \<Rightarrow> crash_signals option \<Rightarrow> u64 \<Rightarrow> task_event list" where
  "finish_events adv x exit outcome failure_signals now =
     (case exit of
        ExReported \<Rightarrow> [EvCompleted (cd_id x) outcome now]
      | other \<Rightarrow>
          let baseline = respawn_decision x other DEFAULT_MAX_ATTEMPTS;
              verdict = (case failure_signals of
                  Some sig \<Rightarrow> respawn_decision_with_jev_signals adv x other DEFAULT_MAX_ATTEMPTS (Some sig)
                | None \<Rightarrow> respawn_decision_with_jev adv x other DEFAULT_MAX_ATTEMPTS)
          in (case verdict of
                Respawn \<Rightarrow>
                  [if other = ExSilentZero
                   then EvProtocol (cd_id x) ''exited without a validated report-back'' now
                   else EvCrash (cd_id x) now,
                   EvRespawned (cd_id x) now]
              | AutoBlock reason \<Rightarrow>
                  [EvBlocked (cd_id x) reason
                     (if baseline = Respawn then ''system:jev-crash'' else ''system:respawn-guard'') now]
              | RefuseRespawn _ \<Rightarrow> []))"

fun append_each :: "task_codec \<Rightarrow> nat \<Rightarrow> string \<Rightarrow> task_event list \<Rightarrow> task_logs \<Rightarrow> task_logs" where
  "append_each c kept slug [] d = d"
| "append_each c kept slug (e # es) d = append_each c kept slug es (fst (append_event c kept slug e d))"

definition finish_task_card ::
    "task_codec \<Rightarrow> nat \<Rightarrow> advisor \<Rightarrow> string \<Rightarrow> cards \<Rightarrow> string option \<Rightarrow> exit_kind \<Rightarrow> string
      \<Rightarrow> crash_signals option \<Rightarrow> u64 \<Rightarrow> task_logs \<Rightarrow> task_logs" where
  "finish_task_card c kept adv slug snapshot task exit outcome failure_signals now d =
     (case task of
        None \<Rightarrow> d
      | Some i \<Rightarrow> (case card_of snapshot i of
            None \<Rightarrow> d
          | Some x \<Rightarrow> append_each c kept slug (finish_events adv x exit outcome failure_signals now) d))"

end
