(* ===== verification/Task_Codec.thy ===== *)
theory Task_Codec
  imports Task
begin

text \<open>
  The laws of the line codec of the task log, what they give for reading back appended text, and
  a concrete codec that satisfies them.

  \<open>serde_json\<close> renders an event as one line of JSON: it escapes control characters inside strings,
  an object ends in a brace, parsing reverses rendering, and trailing white space is ignored.
\<close>

section \<open>The laws\<close>

definition lawful :: "task_codec \<Rightarrow> bool" where
  "lawful c \<longleftrightarrow>
     (\<forall>e. parse_event c (render_event c e) = Some e \<and> newline \<notin> set (render_event c e)) \<and>
     (\<forall>l. parse_event c (l @ [CHR 0x0D]) = parse_event c l)"

lemma lawful_parse [simp]: "lawful c \<Longrightarrow> parse_event c (render_event c e) = Some e"
  by (simp add: lawful_def)

lemma lawful_line: "lawful c \<Longrightarrow> newline \<notin> set (render_event c e)"
  by (simp add: lawful_def)

lemma parse_strip_cr: "lawful c \<Longrightarrow> parse_event c (strip_cr l) = parse_event c l"
  unfolding lawful_def strip_cr_def by (metis append_butlast_last_id)

section \<open>Reading appended text\<close>

lemma text_lines_line:
  assumes "newline \<notin> set l"
  shows "text_lines (l @ newline # t) = strip_cr l # text_lines t"
proof -
  have "split_char newline (l @ newline # t) = l # split_char newline t"
    using split_char_append [of newline l t] split_char_whole [OF assms] by simp
  then show ?thesis by (simp add: text_lines_def Let_def)
qed

lemma text_lines_append:
  "text_lines (t @ newline # u) =
     map strip_cr (split_char newline t) @ text_lines u"
  by (simp add: text_lines_def Let_def split_char_append butlast_append)

lemma read_text_append:
  "read_text c (t @ newline # u) =
     List.map_filter (parse_event c) (map strip_cr (split_char newline t)) @ read_text c u"
  by (simp add: read_text_def text_lines_append map_filter_def)

lemma read_text_Nil [simp]: "read_text c [] = []"
  by (simp add: read_text_def text_lines_def map_filter_def)

text \<open>Completing a text with its missing newline changes nothing that is read.\<close>

lemma map_filter_strip:
  "lawful c \<Longrightarrow> List.map_filter (parse_event c) (map strip_cr ls) = List.map_filter (parse_event c) ls"
  by (induction ls) (simp_all add: map_filter_simps parse_strip_cr split: option.split)

lemma read_text_split:
  assumes "lawful c"
  shows "read_text c t =
    List.map_filter (parse_event c) (butlast (split_char newline t)) @
    (if last (split_char newline t) = [] then [] else
       List.map_filter (parse_event c) [last (split_char newline t)])"
  using map_filter_strip [OF assms, of "butlast (split_char newline t)"]
  by (simp add: read_text_def text_lines_def Let_def map_filter_def)

lemma complete_text:
  assumes "t \<noteq> []" "last t = newline"
  obtains s where "t = s @ [newline]"
  using assms by (metis append_butlast_last_id)

lemma map_filter_append [simp]:
  "List.map_filter f (xs @ ys) = List.map_filter f xs @ List.map_filter f ys"
  by (simp add: map_filter_def)

lemma last_split_open: "t \<noteq> [] \<Longrightarrow> last t \<noteq> newline \<Longrightarrow> last (split_char newline t) \<noteq> []"
proof (induction t)
  case (Cons x xs)
  show ?case
  proof (cases "xs = []")
    case True
    then show ?thesis using Cons.prems by simp
  next
    case False
    then have ih: "last (split_char newline xs) \<noteq> []" using Cons by simp
    obtain w ws where s: "split_char newline xs = w # ws" by (cases "split_char newline xs") simp_all
    show ?thesis using ih s Cons.prems by (cases ws) (auto split: list.splits)
  qed
qed simp

lemma read_with_newline:
  assumes "lawful c"
  shows "read_text c (with_final_newline t) = read_text c t"
proof (cases "t \<noteq> [] \<and> last t \<noteq> newline")
  case True
  then have "read_text c (with_final_newline t) = read_text c (t @ newline # [])"
    by (simp add: with_final_newline_def)
  also have "\<dots> = List.map_filter (parse_event c) (split_char newline t)"
    using map_filter_strip [OF assms] by (subst read_text_append) simp
  also have "\<dots> = List.map_filter (parse_event c) (butlast (split_char newline t) @ [last (split_char newline t)])"
    by simp
  also have "\<dots> = read_text c t"
    using last_split_open [of t] True unfolding read_text_split [OF assms] map_filter_append by simp
  finally show ?thesis .
qed (auto simp: with_final_newline_def)

text \<open>A complete text: empty, or ended by a newline.\<close>

definition complete_log :: "string \<Rightarrow> bool" where
  "complete_log t \<longleftrightarrow> t = [] \<or> last t = newline"

lemma complete_with_newline [simp]: "complete_log (with_final_newline t)"
  by (auto simp: complete_log_def with_final_newline_def)

lemma read_line_at_end:
  assumes "lawful c" "complete_log t"
  shows "read_text c (t @ event_line c e) = read_text c t @ [e]"
proof -
  have tail: "read_text c (event_line c e) = [e]"
    using text_lines_line [OF lawful_line [OF assms(1)], of e "[]"] assms(1)
    by (simp add: read_text_def event_line_def text_lines_def parse_strip_cr map_filter_simps)
  show ?thesis
  proof (cases "t = []")
    case False
    then obtain s where s: "t = s @ [newline]" using assms(2) complete_text [of t]
      unfolding complete_log_def by metis
    have "read_text c (t @ event_line c e) = read_text c (s @ newline # event_line c e)" using s by simp
    also have "\<dots> = read_text c (s @ newline # []) @ [e]"
      by (subst (1 2) read_text_append) (simp add: tail)
    finally show ?thesis using s by simp
  qed (simp add: tail)
qed

lemma complete_line [simp]: "complete_log (t @ event_line c e)"
  by (simp add: complete_log_def event_line_def)

lemma read_lines_at_end:
  assumes "lawful c" "complete_log t"
  shows "read_text c (t @ concat (map (event_line c) evs)) = read_text c t @ evs \<and>
    complete_log (t @ concat (map (event_line c) evs))"
  using assms(2)
proof (induction evs arbitrary: t)
  case (Cons e evs)
  then show ?case using Cons.IH [of "t @ event_line c e"] read_line_at_end [OF assms(1) Cons.prems]
    by simp
qed simp

lemma read_batch:
  assumes "lawful c"
  shows "read_text c (batch_text c t evs) = read_text c t @ evs" "complete_log (batch_text c t evs)"
  using read_lines_at_end [OF assms complete_with_newline, of t evs] read_with_newline [OF assms, of t]
  by (simp_all add: batch_text_def)

section \<open>A lawful codec\<close>

text \<open>
  Unary tokens of ones ended by a zero, decoded by combinators that return the rest of the input.
  A decoder is right for an encoder when it reads back any value followed by anything.
\<close>

type_synonym 'a decoder = "string \<Rightarrow> ('a \<times> string) option"

definition decodes :: "'a decoder \<Rightarrow> ('a \<Rightarrow> string) \<Rightarrow> bool" where
  "decodes dec enc \<longleftrightarrow> (\<forall>x rest. dec (enc x @ rest) = Some (x, rest) \<and> set (enc x) \<subseteq> {CHR ''0'', CHR ''1''})"

lemma decodesD: "decodes dec enc \<Longrightarrow> dec (enc x @ rest) = Some (x, rest)"
  by (simp add: decodes_def)

lemma decodes_chars: "decodes dec enc \<Longrightarrow> set (enc x) \<subseteq> {CHR ''0'', CHR ''1''}"
  by (simp add: decodes_def)

definition enc_nat :: "nat \<Rightarrow> string" where
  "enc_nat n = replicate n (CHR ''1'') @ [CHR ''0'']"

definition dec_nat :: "nat decoder" where
  "dec_nat s = (case dropWhile (\<lambda>c. c = CHR ''1'') s of
     [] \<Rightarrow> None | _ # rest \<Rightarrow> Some (length (takeWhile (\<lambda>c. c = CHR ''1'') s), rest))"

lemma decodes_nat: "decodes dec_nat enc_nat"
  by (auto simp: decodes_def dec_nat_def enc_nat_def dropWhile_append takeWhile_append
      dropWhile_replicate takeWhile_replicate)

definition enc_map :: "('b \<Rightarrow> 'a) \<Rightarrow> ('a \<Rightarrow> string) \<Rightarrow> 'b \<Rightarrow> string" where
  "enc_map f enc x = enc (f x)"

definition dec_map :: "('a \<Rightarrow> 'b) \<Rightarrow> 'a decoder \<Rightarrow> 'b decoder" where
  "dec_map f dec s = map_option (\<lambda>(x, rest). (f x, rest)) (dec s)"

lemma decodes_map: "decodes dec enc \<Longrightarrow> (\<And>x. g (f x) = x) \<Longrightarrow> decodes (dec_map g dec) (enc_map f enc)"
  by (simp add: decodes_def dec_map_def enc_map_def)

definition enc_pair :: "('a \<Rightarrow> string) \<Rightarrow> ('b \<Rightarrow> string) \<Rightarrow> 'a \<times> 'b \<Rightarrow> string" where
  "enc_pair e1 e2 p = e1 (fst p) @ e2 (snd p)"

definition dec_pair :: "'a decoder \<Rightarrow> 'b decoder \<Rightarrow> ('a \<times> 'b) decoder" where
  "dec_pair d1 d2 s = (case d1 s of None \<Rightarrow> None | Some (x, rest) \<Rightarrow>
     (case d2 rest of None \<Rightarrow> None | Some (y, rest2) \<Rightarrow> Some ((x, y), rest2)))"

lemma decodes_pair: "decodes d1 e1 \<Longrightarrow> decodes d2 e2 \<Longrightarrow> decodes (dec_pair d1 d2) (enc_pair e1 e2)"
  by (simp add: decodes_def dec_pair_def enc_pair_def)

fun dec_many :: "nat \<Rightarrow> 'a decoder \<Rightarrow> 'a list decoder" where
  "dec_many 0 dec s = Some ([], s)"
| "dec_many (Suc n) dec s = (case dec s of None \<Rightarrow> None | Some (x, rest) \<Rightarrow>
     (case dec_many n dec rest of None \<Rightarrow> None | Some (xs, rest2) \<Rightarrow> Some (x # xs, rest2)))"

definition enc_list :: "('a \<Rightarrow> string) \<Rightarrow> 'a list \<Rightarrow> string" where
  "enc_list enc xs = enc_nat (length xs) @ concat (map enc xs)"

definition dec_list :: "'a decoder \<Rightarrow> 'a list decoder" where
  "dec_list dec s = (case dec_nat s of None \<Rightarrow> None | Some (n, rest) \<Rightarrow> dec_many n dec rest)"

lemma decodes_list:
  assumes "decodes dec enc"
  shows "decodes (dec_list dec) (enc_list enc)"
proof -
  have many: "dec_many (length xs) dec (concat (map enc xs) @ rest) = Some (xs, rest)" for xs rest
    by (induction xs) (simp_all add: decodesD [OF assms])
  have "set (concat (map enc xs)) \<subseteq> {CHR ''0'', CHR ''1''}" for xs
    using decodes_chars [OF assms] by (auto simp: subset_iff)
  then show ?thesis
    using decodesD [OF decodes_nat] decodes_chars [OF decodes_nat] many
    by (auto simp: decodes_def dec_list_def enc_list_def)
qed

definition enc_opt :: "('a \<Rightarrow> string) \<Rightarrow> 'a option \<Rightarrow> string" where
  "enc_opt enc = enc_map (\<lambda>x. case x of None \<Rightarrow> [] | Some y \<Rightarrow> [y]) (enc_list enc)"

definition dec_opt :: "'a decoder \<Rightarrow> 'a option decoder" where
  "dec_opt dec = dec_map (\<lambda>xs. case xs of [] \<Rightarrow> None | y # _ \<Rightarrow> Some y) (dec_list dec)"

lemma decodes_opt: "decodes dec enc \<Longrightarrow> decodes (dec_opt dec) (enc_opt enc)"
  unfolding dec_opt_def enc_opt_def
  by (rule decodes_map [OF decodes_list]) (simp_all split: option.split)

definition enc_str :: "string \<Rightarrow> string" where
  "enc_str = enc_list (enc_map of_char enc_nat)"

definition dec_str :: "string decoder" where
  "dec_str = dec_list (dec_map char_of dec_nat)"

lemma decodes_str: "decodes dec_str enc_str"
  unfolding dec_str_def enc_str_def
  by (intro decodes_list decodes_map decodes_nat) simp

text \<open>An event as its tag, its strings, its numbers, its lists and its options.\<close>

type_synonym event_fields =
  "nat \<times> string list \<times> nat list \<times> string list \<times> nat option \<times> string option \<times> string option"

fun event_fields :: "task_event \<Rightarrow> event_fields" where
  "event_fields (EvCreated e) =
     (0, [cr_id e, cr_repo_slug e, cr_title e, cr_brief e], [cr_at e], cr_parents e, None, cr_group e, cr_workdir e)"
| "event_fields (EvReadied i t) = (1, [i], [t], [], None, None, None)"
| "event_fields (EvClaimed i c n t) =
     (2, [i, cl_session c, cl_host c], [cl_pid c, cl_claimed_at c, cl_ttl_secs c, n, t], [],
      cl_pid_start_time c, None, None)"
| "event_fields (EvHeartbeat i a t) = (3, [i], [a, t], [], None, None, None)"
| "event_fields (EvCompleted i oc t) = (4, [i, oc], [t], [], None, None, None)"
| "event_fields (EvBlocked i r w t) = (5, [i, r, w], [t], [], None, None, None)"
| "event_fields (EvUnblocked i t) = (6, [i], [t], [], None, None, None)"
| "event_fields (EvCommented i c) = (7, [i, cm_by c, cm_text c], [cm_at c], [], None, None, None)"
| "event_fields (EvArchived i t) = (8, [i], [t], [], None, None, None)"
| "event_fields (EvCrash i t) = (9, [i], [t], [], None, None, None)"
| "event_fields (EvProtocol i d t) = (10, [i, d], [t], [], None, None, None)"
| "event_fields (EvRespawned i t) = (11, [i], [t], [], None, None, None)"

definition fields_event :: "event_fields \<Rightarrow> task_event" where
  "fields_event f = (case f of (tag, ss, ns, ps, no, s1, s2) \<Rightarrow>
     if tag = 0 then EvCreated \<lparr>cr_id = ss ! 0, cr_repo_slug = ss ! 1, cr_title = ss ! 2,
         cr_brief = ss ! 3, cr_parents = ps, cr_group = s1, cr_workdir = s2, cr_at = ns ! 0\<rparr>
     else if tag = 1 then EvReadied (ss ! 0) (ns ! 0)
     else if tag = 2 then EvClaimed (ss ! 0)
         \<lparr>cl_session = ss ! 1, cl_pid = ns ! 0, cl_pid_start_time = no, cl_host = ss ! 2,
          cl_claimed_at = ns ! 1, cl_ttl_secs = ns ! 2\<rparr> (ns ! 3) (ns ! 4)
     else if tag = 3 then EvHeartbeat (ss ! 0) (ns ! 0) (ns ! 1)
     else if tag = 4 then EvCompleted (ss ! 0) (ss ! 1) (ns ! 0)
     else if tag = 5 then EvBlocked (ss ! 0) (ss ! 1) (ss ! 2) (ns ! 0)
     else if tag = 6 then EvUnblocked (ss ! 0) (ns ! 0)
     else if tag = 7 then EvCommented (ss ! 0) \<lparr>cm_by = ss ! 1, cm_text = ss ! 2, cm_at = ns ! 0\<rparr>
     else if tag = 8 then EvArchived (ss ! 0) (ns ! 0)
     else if tag = 9 then EvCrash (ss ! 0) (ns ! 0)
     else if tag = 10 then EvProtocol (ss ! 0) (ss ! 1) (ns ! 0)
     else EvRespawned (ss ! 0) (ns ! 0))"

lemma fields_event [simp]: "fields_event (event_fields e) = e"
  by (cases e) (simp_all add: fields_event_def eval_nat_numeral)

definition enc_event :: "task_event \<Rightarrow> string" where
  "enc_event = enc_map event_fields (enc_pair enc_nat (enc_pair (enc_list enc_str)
     (enc_pair (enc_list enc_nat) (enc_pair (enc_list enc_str)
       (enc_pair (enc_opt enc_nat) (enc_pair (enc_opt enc_str) (enc_opt enc_str)))))))"

definition dec_event :: "task_event decoder" where
  "dec_event = dec_map fields_event (dec_pair dec_nat (dec_pair (dec_list dec_str)
     (dec_pair (dec_list dec_nat) (dec_pair (dec_list dec_str)
       (dec_pair (dec_opt dec_nat) (dec_pair (dec_opt dec_str) (dec_opt dec_str)))))))"

lemma decodes_event: "decodes dec_event enc_event"
  unfolding dec_event_def enc_event_def
  by (intro decodes_map decodes_pair decodes_list decodes_opt decodes_str decodes_nat) simp

definition sample_codec :: task_codec where
  "sample_codec =
     \<lparr>render_event = enc_event,
      parse_event = (\<lambda>l. map_option fst (dec_event (filter (\<lambda>c. c = CHR ''0'' \<or> c = CHR ''1'') l)))\<rparr>"

lemma sample_codec_lawful: "lawful sample_codec"
proof -
  have chars: "set (enc_event e) \<subseteq> {CHR ''0'', CHR ''1''}" for e
    using decodes_chars [OF decodes_event] .
  then have "filter (\<lambda>c. c = CHR ''0'' \<or> c = CHR ''1'') (enc_event e) = enc_event e" for e
    by (intro filter_True) auto
  then show ?thesis
    using decodesD [OF decodes_event, of _ "[]"] chars by (auto simp: lawful_def sample_codec_def)
qed

end
