(* ===== verification/Task_Board.thy ===== *)
theory Task_Board
  imports Task_Codec
begin

text \<open>
  What the locked verbs of the task log guarantee: the card a verb returns is the one a fresh read
  of the log gives, a claim never takes a card from a live claimant and never passes an unfinished
  parent, the cards of a reachable log are well formed, and a dead claim is recovered.
\<close>

section \<open>The map of cards\<close>

lemma card_of_insert: "card_of cs i = None \<Longrightarrow> card_of (insert_card i x cs) j = (if j = i then Some x else card_of cs j)"
  unfolding card_of_def by (induction cs) (auto split: if_splits)

lemma card_of_change: "card_of (change_card i f cs) j = (if j = i then map_option f (card_of cs j) else card_of cs j)"
  unfolding card_of_def change_card_def by (induction cs) auto

text \<open>The association list is the sorted view of a map: keys in order, each card under its own.\<close>

definition board_ok :: "cards \<Rightarrow> bool" where
  "board_ok cs \<longleftrightarrow> sorted_wrt (<) (map fst cs) \<and> (\<forall>(i, x)\<in>set cs. cd_id x = i)"

lemma set_insert_card [simp]: "set (insert_card i x cs) = insert (i, x) (set cs)"
  by (induction cs) (auto split: if_splits)

lemma fst_insert_card: "fst ` set (insert_card i x cs) = insert i (fst ` set cs)"
  by simp

lemma sorted_insert_card:
  "sorted_wrt (<) (map fst cs) \<Longrightarrow> i \<notin> fst ` set cs \<Longrightarrow> sorted_wrt (<) (map fst (insert_card i x cs))"
proof (induction cs)
  case (Cons p cs)
  obtain j y where p: "p = (j, y)" by (cases p)
  show ?case
  proof (cases "i < j")
    case True
    then show ?thesis using Cons.prems p by auto
  next
    case False
    then have "j < i" using Cons.prems p by force
    then show ?thesis using Cons p False by auto
  qed
qed simp

lemma map_fst_change [simp]: "map fst (change_card i f cs) = map fst cs"
  by (simp add: change_card_def case_prod_unfold)

lemma applied_id [simp]: "cd_id (applied e x) = cd_id x"
  by (cases e) simp_all

lemma fresh_id [simp]: "cd_id (fresh_card e) = cr_id e"
  by (simp add: fresh_card_def)

lemma board_ok_change: "board_ok cs \<Longrightarrow> board_ok (change_card i (applied e) cs)"
  unfolding board_ok_def map_fst_change by (auto simp: change_card_def)

lemma board_ok_fold: "board_ok cs \<Longrightarrow> board_ok (fold_event cs e)"
proof (cases e)
  case (EvCreated a)
  assume "board_ok cs"
  then show ?thesis using EvCreated
    by (auto simp: board_ok_def card_of_def map_of_eq_None_iff intro!: sorted_insert_card)
qed (simp_all add: board_ok_change)

lemma board_ok_materialize [simp]: "board_ok (materialize evs)"
  unfolding materialize_def by (rule foldl_inv) (simp_all add: board_ok_def [of "[]"] board_ok_fold)

lemma board_ok_load [simp]: "board_ok (load_cards c d slug)"
  by (simp add: load_cards_def)

lemma card_of_id: "board_ok cs \<Longrightarrow> card_of cs i = Some x \<Longrightarrow> cd_id x = i"
  unfolding board_ok_def card_of_def by (auto dest: map_of_SomeD)

lemma card_of_set: "board_ok cs \<Longrightarrow> (i, x) \<in> set cs \<longleftrightarrow> card_of cs i = Some x"
  unfolding board_ok_def card_of_def
  by (metis map_of_SomeD map_of_eq_Some_iff strict_sorted_iff)

section \<open>What the writes leave to be read\<close>

definition log_text :: "task_logs \<Rightarrow> string \<Rightarrow> string" where
  "log_text d slug = (case held d slug of Some t \<Rightarrow> t | None \<Rightarrow> [])"

lemma read_log_text: "read_events c d slug = read_text c (log_text d slug)"
  by (simp add: read_events_def log_text_def split: option.split)

lemma materialize_append: "materialize (es @ evs) = foldl fold_event (materialize es) evs"
  by (simp add: materialize_def)

lemma write_batch_cases:
  assumes "write_events_atomic_locked c slug evs d = (d1, r)"
  obtains (failed) e where "files d1 = files d" "r = Inl e"
  | (written) "r = Inr ()" "files d1 = (files d)(slug \<mapsto> Holds (batch_text c (log_text d slug) evs))"
proof (cases "files d slug")
  case None
  then have "saving (TaskIo NoWrite) slug (batch_text c (log_text d slug) evs) () d = (d1, r)"
    using assms by (simp add: write_events_atomic_locked_def log_text_def held_def)
  then show ?thesis by (cases rule: saving_cases) (use failed written in auto)
next
  case (Some f)
  show ?thesis
  proof (cases f)
    case Garbled
    then show ?thesis using assms Some failed [of "LogUnreadable slug"]
      by (auto simp: write_events_atomic_locked_def)
  next
    case (Holds t)
    then have "saving (TaskIo NoWrite) slug (batch_text c (log_text d slug) evs) () d = (d1, r)"
      using assms Some by (simp add: write_events_atomic_locked_def log_text_def held_def)
    then show ?thesis by (cases rule: saving_cases) (use failed written in auto)
  qed
qed

lemma load_after_batch:
  assumes "lawful c" "files d1 = (files d)(slug \<mapsto> Holds (batch_text c (log_text d slug) evs))"
  shows "load_cards c d1 slug = foldl fold_event (load_cards c d slug) evs"
proof -
  have "log_text d1 slug = batch_text c (log_text d slug) evs"
    by (simp add: log_text_def held_def assms(2))
  then show ?thesis
    using read_batch(1) [OF assms(1)] by (simp add: load_cards_def read_log_text materialize_append)
qed

lemma load_files: "files d = files d' \<Longrightarrow> load_cards c d = load_cards c d'"
  by (rule ext) (simp add: load_cards_def read_events_def held_files [of d d'])

text \<open>One locked verb: it changes nothing, or it appends exactly what it decided.\<close>

lemma with_task_lock_cases:
  assumes "with_task_lock c slug decide d = (d1, r)"
  obtains (kept) "files d1 = files d"
      "\<And>res. r = Inr res \<Longrightarrow> map_option fst (decide (load_cards c d slug)) = res \<and>
          (case decide (load_cards c d slug) of Some (_, evs) \<Rightarrow> evs = [] | None \<Rightarrow> True)"
  | (written) outcome evs where "decide (load_cards c d slug) = Some (outcome, evs)"
      "r = Inr (Some outcome)"
      "files d1 = (files d)(slug \<mapsto> Holds (batch_text c (log_text d slug) evs))"
  using assms unfolding with_task_lock_def
proof (cases rule: under_lock_cases)
  case refused
  then show ?thesis using kept by simp
next
  case (entered d')
  have l: "load_cards c d' = load_cards c d" using entered(1) by (rule load_files)
  have t: "log_text d' = log_text d" using held_files [OF entered(1)] by (auto simp: log_text_def)
  show ?thesis
  proof (cases "decide (load_cards c d slug)")
    case None
    then show ?thesis using entered l kept by auto
  next
    case (Some oe)
    obtain outcome evs where oe: "oe = (outcome, evs)" by (cases oe)
    show ?thesis
    proof (cases "evs = []")
      case True
      then show ?thesis using entered l kept Some oe by auto
    next
      case False
      obtain d2 r2 where w: "write_events_atomic_locked c slug evs d' = (d2, r2)"
        by (cases "write_events_atomic_locked c slug evs d'")
      then show ?thesis
      proof (cases rule: write_batch_cases)
        case (failed e)
        then show ?thesis using entered l kept Some oe False w by auto
      next
        case written
        then show ?thesis using that(2) [of outcome evs] entered l t Some oe False w by auto
      qed
    qed
  qed
qed

section \<open>The verbs\<close>

datatype task_verb =
    VClaim processes claimant u64 u64
  | VHeartbeat processes string u64
  | VComplete string u64
  | VBlock string string u64
  | VUnblock u64
  | VComment string string u64
  | VArchive u64

fun verb_of :: "string \<Rightarrow> task_verb \<Rightarrow> cards \<Rightarrow> card decision_of option" where
  "verb_of i (VClaim os who now ttl) = claim_decision os i who now ttl"
| "verb_of i (VHeartbeat os session now) = heartbeat_decision os i session now"
| "verb_of i (VComplete outcome now) = complete_decision i outcome now"
| "verb_of i (VBlock reason whom now) = block_decision i reason whom now"
| "verb_of i (VUnblock now) = unblock_decision i now"
| "verb_of i (VComment whom said now) = comment_decision i whom said now"
| "verb_of i (VArchive now) = archive_decision i now"

definition run_verb ::
    "task_codec \<Rightarrow> string \<Rightarrow> string \<Rightarrow> task_verb \<Rightarrow> task_logs
      \<Rightarrow> task_logs \<times> (task_error + (refusal + card) option)" where
  "run_verb c slug i v = with_task_lock c slug (verb_of i v)"

lemma reap_events:
  assumes "reap_if_stale os x now = (y, evs)"
  shows "(evs = [] \<and> y = x) \<or>
    (evs = [EvCrash (cd_id x) now] \<and> y = applied (EvCrash (cd_id x) now) x \<and> cd_state x = StRunning \<and>
     (\<exists>cl. cd_claim x = Some cl \<and> is_ttl_expired cl now \<and> \<not> claimant_alive os cl))"
  using assms
  by (auto simp: reap_if_stale_def reap_card_def split: option.splits if_splits)

lemma promote_events:
  assumes "promote_if_ready cs x now = (y, evs)"
  shows "(evs = [] \<and> y = x) \<or>
    (evs = [EvReadied (cd_id x) now] \<and> y = applied (EvReadied (cd_id x) now) x \<and> cd_state x = StTodo)"
  using assms
  by (auto simp: promote_if_ready_def ready_when_parents_done_def split: option.splits if_splits)

lemma fold_event_other: "(\<nexists>a. e = EvCreated a) \<Longrightarrow> fold_event cs e = change_card (event_id e) (applied e) cs"
  by (cases e) auto

lemma claim_events:
  assumes "claim_card x who now ttl pd = Inr y"
  shows "y = applied (EvClaimed (cd_id x) (the (cd_claim y)) (cd_attempts y) now) x"
  using assms by (auto simp: claim_card_def split: if_splits)

lemma card_of_fold_other:
  "(\<nexists>a. e = EvCreated a) \<Longrightarrow>
   card_of (fold_event cs e) j = (if j = event_id e then map_option (applied e) (card_of cs j) else card_of cs j)"
  by (simp add: fold_event_other card_of_change)

text \<open>Folding what a verb decided gives the card it returned, and leaves the others.\<close>

lemma claim_decision_folds:
  assumes "claim_decision os i who now ttl cs = Some (res, evs)" "board_ok cs"
  obtains x x1 x2 ev1 ev2 where "card_of cs i = Some x" "cd_id x = i"
    "reap_if_stale os x now = (x1, ev1)" "promote_if_ready cs x1 now = (x2, ev2)"
    "\<And>j. card_of (foldl fold_event cs (ev1 @ ev2)) j = (if j = i then Some x2 else card_of cs j)"
    "cd_id x2 = i" "set ev1 \<subseteq> {EvCrash i now}" "set ev2 \<subseteq> {EvReadied i now}"
    "case claim_card x2 who now ttl (parents_done cs x2) of
       Inl r \<Rightarrow> res = Inl r \<and> evs = ev1 @ ev2
     | Inr y \<Rightarrow> res = Inr y \<and> evs = ev1 @ ev2 @ [EvClaimed i (the (cd_claim y)) (cd_attempts y) now]"
proof -
  obtain x where x: "card_of cs i = Some x" using assms(1)
    by (auto simp: claim_decision_def split: option.splits)
  have idx: "cd_id x = i" using card_of_id [OF assms(2) x] .
  obtain x1 ev1 where r: "reap_if_stale os x now = (x1, ev1)" by (cases "reap_if_stale os x now")
  obtain x2 ev2 where p: "promote_if_ready cs x1 now = (x2, ev2)" by (cases "promote_if_ready cs x1 now")
  note re = reap_events [OF r] and pe = promote_events [OF p]
  have ids: "cd_id x1 = i" "cd_id x2 = i" using re pe idx by auto
  have f1: "card_of (foldl fold_event cs ev1) j = (if j = i then Some x1 else card_of cs j)" for j
    using re x idx by (auto simp: card_of_change)
  have "card_of (foldl fold_event cs (ev1 @ ev2)) j = (if j = i then Some x2 else card_of cs j)" for j
    using pe ids f1 by (auto simp: card_of_change)
  moreover have "set ev1 \<subseteq> {EvCrash i now}" "set ev2 \<subseteq> {EvReadied i now}" using re pe idx ids by auto
  ultimately show ?thesis using that [OF x idx r p] ids assms(1) x r p
    by (auto simp: claim_decision_def split: sum.splits)
qed

lemma verb_decision_Inl: "verb_decision i tr ev cs = Some (Inl r, evs) \<Longrightarrow> evs = []"
  by (auto simp: verb_decision_def split: option.splits sum.splits)

lemma verb_decision_Inr:
  assumes "verb_decision i tr ev cs = Some (Inr y, evs)"
  obtains x where "card_of cs i = Some x" "tr x = Inr y" "evs = [ev y]"
  using assms by (auto simp: verb_decision_def split: option.splits sum.splits)

lemma verb_decision_folds:
  assumes "verb_decision i tr ev cs = Some (Inr y, evs)"
    and "\<And>x. tr x = Inr y \<Longrightarrow> y = applied (ev y) x"
    and "event_id (ev y) = i" "\<nexists>a. ev y = EvCreated a"
  shows "card_of (foldl fold_event cs evs) j = (if j = i then Some y else card_of cs j)"
  using assms(1)
proof (rule verb_decision_Inr)
  fix x assume x: "card_of cs i = Some x" "tr x = Inr y" "evs = [ev y]"
  have "card_of (foldl fold_event cs evs) j =
      (if j = i then map_option (applied (ev y)) (card_of cs j) else card_of cs j)"
    using card_of_fold_other [OF assms(4)] assms(3) x(3) by simp
  then show ?thesis using assms(2) [OF x(2)] x(1) by simp
qed

lemma transitions_applied:
  "heartbeat_card x s now al = Inr y \<Longrightarrow> y = applied (EvHeartbeat i now now) x"
  "block_card x reason whom now = Inr y \<Longrightarrow>
     y = applied (EvBlocked i (bl_reason (the (cd_block y))) (bl_by (the (cd_block y))) (cd_updated_at y)) x"
  "unblock_card x now = Inr y \<Longrightarrow> y = applied (EvUnblocked i (cd_updated_at y)) x"
  "archive_card x now = Inr y \<Longrightarrow> y = applied (EvArchived i (cd_updated_at y)) x"
  "complete_card x outcome now = y \<Longrightarrow>
     y = applied (EvCompleted i (case cd_outcome y of Some t \<Rightarrow> t | None \<Rightarrow> []) (cd_updated_at y)) x"
  "add_comment x whom said now = y \<Longrightarrow> y = applied (EvCommented i (last (cd_comments y))) x"
  by (auto simp: heartbeat_card_def block_card_def unblock_card_def archive_card_def
      complete_card_def add_comment_def split: option.splits if_splits)

lemma verb_folds:
  assumes "verb_of i v cs = Some (Inr y, evs)" "board_ok cs"
  shows "card_of (foldl fold_event cs evs) j = (if j = i then Some y else card_of cs j)"
proof (cases v)
  case (VClaim os who now ttl)
  then have "claim_decision os i who now ttl cs = Some (Inr y, evs)" using assms(1) by simp
  from this assms(2) show ?thesis
  proof (cases rule: claim_decision_folds)
    case (1 x x1 x2 ev1 ev2)
    then obtain pd where cl: "claim_card x2 who now ttl pd = Inr y"
      and evs: "evs = (ev1 @ ev2) @ [EvClaimed i (the (cd_claim y)) (cd_attempts y) now]"
      by (auto split: sum.splits)
    show ?thesis using 1(5) claim_events [OF cl] 1(6) unfolding evs
      by (simp add: card_of_change del: foldl_append) (simp add: card_of_change)
  qed
next
  case (VHeartbeat os s now)
  then have v: "heartbeat_decision os i s now cs = Some (Inr y, evs)" using assms(1) by simp
  show ?thesis
    by (rule verb_decision_folds [OF v [unfolded heartbeat_decision_def]])
      (erule transitions_applied(1), simp_all)
next
  case (VComplete outcome now)
  then have v: "complete_decision i outcome now cs = Some (Inr y, evs)" using assms(1) by simp
  show ?thesis
    by (rule verb_decision_folds [OF v [unfolded complete_decision_def]])
      (auto simp: complete_card_def add_comment_def intro: transitions_applied)
next
  case (VBlock reason whom now)
  then have v: "block_decision i reason whom now cs = Some (Inr y, evs)" using assms(1) by simp
  show ?thesis
    by (rule verb_decision_folds [OF v [unfolded block_decision_def]])
      (erule transitions_applied(2), simp_all)
next
  case (VUnblock now)
  then have v: "unblock_decision i now cs = Some (Inr y, evs)" using assms(1) by simp
  show ?thesis
    by (rule verb_decision_folds [OF v [unfolded unblock_decision_def]])
      (erule transitions_applied(3), simp_all)
next
  case (VComment whom said now)
  then have v: "comment_decision i whom said now cs = Some (Inr y, evs)" using assms(1) by simp
  show ?thesis
    by (rule verb_decision_folds [OF v [unfolded comment_decision_def]])
      (auto simp: complete_card_def add_comment_def intro: transitions_applied)
next
  case (VArchive now)
  then have v: "archive_decision i now cs = Some (Inr y, evs)" using assms(1) by simp
  show ?thesis
    by (rule verb_decision_folds [OF v [unfolded archive_decision_def]])
      (erule transitions_applied(4), simp_all)
qed

section \<open>A verb's answer is durable\<close>

text \<open>C19: The card a verb returns is the card every later read sees. When any of the verbs claim,
  heartbeat, complete, block, unblock, comment or archive succeeds, folding the log afresh gives
  exactly the returned card under its identifier and leaves every other card as it was; when it
  reports an error instead, no file has changed at all, so nothing half-done is ever read. The
  log may end in the torn line of an earlier crash.\<close>

theorem verbs_are_durable:
  assumes "lawful c" "run_verb c slug i v d = (d1, r)"
  shows "case r of
      Inl e \<Rightarrow> files d1 = files d
    | Inr None \<Rightarrow> files d1 = files d \<and> card_of (load_cards c d slug) i = None
    | Inr (Some (Inl refused)) \<Rightarrow> True
    | Inr (Some (Inr y)) \<Rightarrow>
        card_of (load_cards c d1 slug) = (card_of (load_cards c d slug))(i \<mapsto> y) \<and>
        (\<forall>other. other = slug \<or> load_cards c d1 other = load_cards c d other)"
  using assms(2) unfolding run_verb_def
proof (cases rule: with_task_lock_cases)
  case kept
  have none: "verb_of i v cs = None \<Longrightarrow> card_of cs i = None" for cs
    by (cases v) (auto simp: claim_decision_def heartbeat_decision_def complete_decision_def
        block_decision_def unblock_decision_def comment_decision_def archive_decision_def
        verb_decision_def split: option.splits sum.splits prod.splits)
  show ?thesis
  proof (cases r)
    case (Inr res)
    show ?thesis
    proof (cases res)
      case None
      then show ?thesis using kept Inr none by auto
    next
      case (Some outcome)
      then obtain evs where d: "verb_of i v (load_cards c d slug) = Some (outcome, evs)" "evs = []"
        using kept(2) [OF Inr] by auto
      show ?thesis
      proof (cases outcome)
        case (Inr y)
        then have "card_of (load_cards c d slug) j = (if j = i then Some y else card_of (load_cards c d slug) j)" for j
          using verb_folds [of i v "load_cards c d slug" y evs j] d by simp
        then have "card_of (load_cards c d slug) = (card_of (load_cards c d slug))(i \<mapsto> y)"
          by (intro ext) (metis fun_upd_apply)
        then show ?thesis using Some Inr \<open>r = Inr res\<close> load_files [OF kept(1), of c] by simp
      qed (use Some Inr in simp)
    qed
  qed (use kept in simp)
next
  case (written outcome evs)
  show ?thesis
  proof (cases outcome)
    case (Inr y)
    have "card_of (load_cards c d1 slug) j = (if j = i then Some y else card_of (load_cards c d slug) j)" for j
      using verb_folds [of i v _ y evs] written(1) Inr load_after_batch [OF assms(1) written(3)] by simp
    moreover have "load_cards c d1 other = load_cards c d other" if "other \<noteq> slug" for other
      using that written(3) by (simp add: load_cards_def read_events_def held_def)
    ultimately show ?thesis using written(2) Inr by auto
  qed (use written in simp)
qed

definition sample_created :: "string \<Rightarrow> string list \<Rightarrow> created" where
  "sample_created i parents =
     \<lparr>cr_id = i, cr_repo_slug = ''repo'', cr_title = ''t'', cr_brief = ''b'', cr_parents = parents,
      cr_group = None, cr_workdir = None, cr_at = 1\<rparr>"

definition sample_os :: processes where
  "sample_os = \<lparr>probe_signal = (\<lambda>pid. if pid = 7 then CanSignal else NoSuchProcess),
     ps_etime = (\<lambda>_. None), own_pid = 7, clock = 1000\<rparr>"

definition sample_claimant :: claimant where
  "sample_claimant = \<lparr>who_session = ''w'', who_pid = 7, who_pid_start_time = None, who_host = ''h''\<rparr>"

text \<open>A log of three lines: a parent, its child, and the completion of the parent.\<close>

definition sample_events :: "task_event list" where
  "sample_events = [EvCreated (sample_created ''p'' []), EvCreated (sample_created ''c'' [''p'']),
     EvCompleted ''p'' ''ok'' 2]"

definition sample_logs :: "task_event list \<Rightarrow> task_logs" where
  "sample_logs evs = put_entry ''repo'' (Some (Holds (batch_text sample_codec [] evs))) empty_dir"

lemma load_sample_logs [simp]: "load_cards sample_codec (sample_logs evs) ''repo'' = materialize evs"
  using read_batch(1) [OF sample_codec_lawful, of "[]" evs]
  by (simp add: load_cards_def read_events_def sample_logs_def)

lemmas task_evaluation = materialize_def card_of_def change_card_def fresh_card_def
  sample_events_def sample_created_def sample_os_def sample_claimant_def claim_decision_def
  reap_if_stale_def promote_if_ready_def ready_when_parents_done_def parents_done_def
  claim_card_def is_ttl_expired_def claimant_alive_def is_alive_def map_filter_def reap_card_def

text \<open>The child is claimable at once: the claim promotes it first.\<close>

definition sample_claimed :: card where
  "sample_claimed = (fresh_card (sample_created ''c'' [''p'']))\<lparr>cd_state := StRunning,
     cd_claim := Some \<lparr>cl_session = ''w'', cl_pid = 7, cl_pid_start_time = None, cl_host = ''h'',
       cl_claimed_at = 3, cl_ttl_secs = 900\<rparr>, cd_attempts := 1, cd_updated_at := 3\<rparr>"

lemma sample_claim:
  "claim_decision sample_os ''c'' sample_claimant 3 900 (materialize sample_events) =
     Some (Inr sample_claimed, [EvReadied ''c'' 3, EvClaimed ''c'' (the (cd_claim sample_claimed)) 1 3])"
  by (simp add: task_evaluation sample_claimed_def)

lemma run_sample_claim:
  "snd (run_verb sample_codec ''repo'' ''c'' (VClaim sample_os sample_claimant 3 900) (sample_logs sample_events)) =
     Inr (Some (Inr sample_claimed))"
proof -
  have "acquire_lock (sample_logs sample_events) = (True, sample_logs sample_events)"
    by (simp add: acquire_lock_def take_failure_def sample_logs_def put_entry_def empty_dir_def)
  moreover have "snd (write_events_atomic_locked sample_codec ''repo'' evs (sample_logs es)) = Inr ()" for evs es
    by (simp add: write_events_atomic_locked_def saving_def write_private_def take_failure_def
        sample_logs_def put_entry_def empty_dir_def)
  ultimately show ?thesis using sample_claim
    by (simp add: run_verb_def with_task_lock_def under_lock_def case_prod_unfold split: sum.splits)
qed

theorem verbs_are_durable_witness:
  "card_of (load_cards sample_codec
     (fst (run_verb sample_codec ''repo'' ''c'' (VClaim sample_os sample_claimant 3 900) (sample_logs sample_events)))
     ''repo'') ''c'' = Some sample_claimed"
proof -
  obtain d1 where "run_verb sample_codec ''repo'' ''c'' (VClaim sample_os sample_claimant 3 900)
      (sample_logs sample_events) = (d1, Inr (Some (Inr sample_claimed)))"
    using run_sample_claim by (metis surjective_pairing)
  from verbs_are_durable [OF sample_codec_lawful this] this show ?thesis by simp
qed

section \<open>Who may claim\<close>

lemma parents_done_iff:
  "parents_done cs x \<longleftrightarrow> (\<forall>p\<in>set (cd_parents x). \<exists>y. card_of cs p = Some y \<and> cd_state y = StDone)"
  by (auto simp: parents_done_def list_all_iff split: option.splits)

lemma claimable:
  assumes "claim_decision os i who now ttl cs = Some (Inr y, evs)" "board_ok cs"
  shows "\<exists>x. card_of cs i = Some x \<and> parents_done cs x \<and>
    (cd_state x = StReady \<or> cd_state x = StTodo \<or>
     cd_state x = StRunning \<and> (\<exists>cl. cd_claim x = Some cl \<and> is_ttl_expired cl now \<and> \<not> claimant_alive os cl)) \<and>
    cd_state y = StRunning \<and> map_option cl_session (cd_claim y) = Some (who_session who)"
  using assms
proof (cases rule: claim_decision_folds)
  case (1 x x1 x2 ev1 ev2)
  then have c: "claim_card x2 who now ttl (parents_done cs x2) = Inr y" by (auto split: sum.splits)
  have ready: "cd_state x2 = StReady" "parents_done cs x2"
    and y: "cd_state y = StRunning" "map_option cl_session (cd_claim y) = Some (who_session who)"
    using c by (auto simp: claim_card_def split: if_splits)
  have "cd_parents x2 = cd_parents x1" "cd_parents x1 = cd_parents x"
    using promote_events [OF 1(4)] reap_events [OF 1(3)] by auto
  then have "parents_done cs x" using ready(2) by (simp add: parents_done_iff)
  moreover have "cd_state x = StReady \<or> cd_state x = StTodo \<or>
     cd_state x = StRunning \<and> (\<exists>cl. cd_claim x = Some cl \<and> is_ttl_expired cl now \<and> \<not> claimant_alive os cl)"
    using promote_events [OF 1(4)] reap_events [OF 1(3)] ready(1) by auto
  ultimately show ?thesis using 1(1) y by blast
qed

text \<open>C4: A claim is exclusive and gated. A card is only ever claimed when every one of its parents
  exists and is done, and when nobody holds it: it was ready or waiting, or its claimant's time
  had run out and its process is gone. A live claimant is never robbed, however late its
  heartbeat, and neither is a dead one before its time has run out.\<close>

theorem claims_are_exclusive_and_gated:
  assumes "claim_locked c os slug i who now ttl d = (d1, Inr (Some (Inr y)))"
  shows "\<exists>x. card_of (load_cards c d slug) i = Some x \<and>
    (\<forall>p\<in>set (cd_parents x). \<exists>z. card_of (load_cards c d slug) p = Some z \<and> cd_state z = StDone) \<and>
    (cd_state x = StReady \<or> cd_state x = StTodo \<or>
     cd_state x = StRunning \<and>
       (\<exists>cl. cd_claim x = Some cl \<and> is_ttl_expired cl now \<and> \<not> is_alive os (cl_pid cl))) \<and>
    cd_state y = StRunning \<and> map_option cl_session (cd_claim y) = Some (who_session who)"
proof -
  obtain evs where "claim_decision os i who now ttl (load_cards c d slug) = Some (Inr y, evs)"
    using assms unfolding claim_locked_def
    by (cases rule: with_task_lock_cases) (auto split: option.splits)
  from claimable [OF this] show ?thesis by (simp add: parents_done_iff claimant_alive_def)
qed

theorem claims_are_exclusive_and_gated_witness:
  "\<exists>x. card_of (load_cards sample_codec (sample_logs sample_events) ''repo'') ''c'' = Some x \<and>
     cd_parents x = [''p'']"
proof -
  obtain d1 where "claim_locked sample_codec sample_os ''repo'' ''c'' sample_claimant 3 900
      (sample_logs sample_events) = (d1, Inr (Some (Inr sample_claimed)))"
    using run_sample_claim unfolding run_verb_def claim_locked_def verb_of.simps
    by (metis surjective_pairing)
  from claims_are_exclusive_and_gated [OF this]
  have "\<exists>x. card_of (load_cards sample_codec (sample_logs sample_events) ''repo'') ''c'' = Some x" by blast
  then show ?thesis by (simp add: task_evaluation)
qed

section \<open>A dead claim is recovered\<close>

lemma dead_claim_decision:
  assumes "board_ok cs" "card_of cs i = Some x" "cd_state x = StRunning" "cd_claim x = Some cl"
    "is_ttl_expired cl now" "\<not> is_alive os (cl_pid cl)" "parents_done cs x"
  shows "\<exists>y evs. claim_decision os i who now ttl cs = Some (Inr y, evs) \<and> evs \<noteq> [] \<and>
    map_option cl_session (cd_claim y) = Some (who_session who)"
proof -
  let ?x1 = "x\<lparr>cd_state := StReady, cd_claim := None, cd_updated_at := now\<rparr>"
  have "reap_if_stale os x now = (?x1, [EvCrash (cd_id x) now])"
    using assms by (simp add: reap_if_stale_def reap_card_def claimant_alive_def)
  moreover have "promote_if_ready cs ?x1 now = (?x1, [])" by (simp add: promote_if_ready_def)
  moreover have "parents_done cs ?x1" using assms(7) by (simp add: parents_done_def)
  ultimately show ?thesis using assms(2) by (simp add: claim_decision_def claim_card_def)
qed

text \<open>C39: A crashed worker never wedges its card. If a running card's claimant is dead, its time has
  run out and its parents are done, then the next claim succeeds in one step, without any
  maintenance pass in between, provided the lock and the write do not fail.\<close>

theorem dead_claims_are_recovered:
  assumes "card_of (load_cards c d slug) i = Some x" "cd_state x = StRunning" "cd_claim x = Some cl"
    "is_ttl_expired cl now" "\<not> is_alive os (cl_pid cl)" "parents_done (load_cards c d slug) x"
    "lock_failures d = []" "write_failures d = []" "files d slug \<noteq> Some Garbled"
  shows "\<exists>d1 y. claim_locked c os slug i who now ttl d = (d1, Inr (Some (Inr y))) \<and>
    map_option cl_session (cd_claim y) = Some (who_session who)"
proof -
  obtain y evs where cd: "claim_decision os i who now ttl (load_cards c d slug) = Some (Inr y, evs)"
    "evs \<noteq> []" "map_option cl_session (cd_claim y) = Some (who_session who)"
    using dead_claim_decision [OF board_ok_load assms(1-6)] by blast
  have lock: "acquire_lock d = (True, d)"
    using assms(7) by (simp add: acquire_lock_def take_failure_def)
  have "snd (write_events_atomic_locked c slug evs d) = Inr ()"
    using assms(8,9)
    by (auto simp: write_events_atomic_locked_def saving_def write_private_def take_failure_def
        split: option.splits stored.splits)
  then have "snd (claim_locked c os slug i who now ttl d) = Inr (Some (Inr y))"
    using cd lock
    by (simp add: claim_locked_def with_task_lock_def under_lock_def case_prod_unfold split: sum.splits)
  then show ?thesis using cd(3) by (metis surjective_pairing)
qed

text \<open>The same log, with a claim by a process that is gone.\<close>

definition dead_claim :: task_claim where
  "dead_claim = \<lparr>cl_session = ''v'', cl_pid = 9, cl_pid_start_time = None, cl_host = ''h'',
     cl_claimed_at = 3, cl_ttl_secs = 900\<rparr>"

theorem dead_claims_are_recovered_witness:
  "\<exists>d1 y. claim_locked sample_codec sample_os ''repo'' ''p'' sample_claimant 1000 900
      (sample_logs [EvCreated (sample_created ''p'' []), EvClaimed ''p'' dead_claim 1 3]) = (d1, Inr (Some (Inr y))) \<and>
    map_option cl_session (cd_claim y) = Some ''w''"
proof -
  have "card_of (load_cards sample_codec
      (sample_logs [EvCreated (sample_created ''p'' []), EvClaimed ''p'' dead_claim 1 3]) ''repo'') ''p'' =
      Some (applied (EvClaimed ''p'' dead_claim 1 3) (fresh_card (sample_created ''p'' [])))"
    by (simp add: task_evaluation)
  from dead_claims_are_recovered [OF this, of dead_claim 1000 sample_os sample_claimant 900]
  show ?thesis
    by (simp add: task_evaluation dead_claim_def sample_logs_def put_entry_def empty_dir_def)
qed

end
