(* ===== verification/Task_Runs.thy ===== *)
theory Task_Runs
  imports Task_Board
begin

text \<open>
  The task log as a state machine: every log the program can produce, the well-formedness of its
  cards, what the end of a delegation does to a card, and three behaviours of the code that the
  model brings out.
\<close>

section \<open>Well-formed cards\<close>

definition card_ok :: "card \<Rightarrow> bool" where
  "card_ok x \<longleftrightarrow>
     (cd_state x = StRunning \<longleftrightarrow> cd_claim x \<noteq> None) \<and>
     (cd_state x = StRunning \<longrightarrow> 0 < cd_attempts x) \<and>
     (cd_state x = StDone \<longrightarrow> cd_outcome x \<noteq> None) \<and>
     (cd_state x = StBlocked \<longrightarrow> cd_block x \<noteq> None) \<and>
     cd_state x \<noteq> StReview"

definition board_wf :: "cards \<Rightarrow> bool" where
  "board_wf cs \<longleftrightarrow> (\<forall>i x. card_of cs i = Some x \<longrightarrow> card_ok x)"

lemma board_wfD: "board_wf cs \<Longrightarrow> card_of cs i = Some x \<Longrightarrow> card_ok x"
  by (auto simp: board_wf_def)

lemma board_wf_upd:
  "board_wf cs \<Longrightarrow> (\<And>j. card_of cs1 j = (if j = i then Some y else card_of cs j)) \<Longrightarrow> card_ok y \<Longrightarrow> board_wf cs1"
  by (auto simp: board_wf_def split: if_splits)

text \<open>Events that keep any well-formed card well formed, whatever its state.\<close>

fun robust :: "task_event \<Rightarrow> bool" where
  "robust (EvReadied _ _) = False"
| "robust (EvUnblocked _ _) = False"
| "robust (EvArchived _ _) = False"
| "robust (EvClaimed _ _ n _) = (0 < n)"
| "robust _ = True"

lemma robust_applied: "robust e \<Longrightarrow> card_ok x \<Longrightarrow> card_ok (applied e x)"
  by (cases e) (auto simp: card_ok_def)

lemma fresh_ok: "card_ok (fresh_card a)"
  by (simp add: card_ok_def fresh_card_def)

lemma board_wf_fold: "board_wf cs \<Longrightarrow> robust e \<Longrightarrow> board_wf (fold_event cs e)"
proof (cases e)
  case (EvCreated a)
  assume "board_wf cs"
  then show ?thesis using EvCreated fresh_ok
    by (auto simp: board_wf_def card_of_insert split: if_splits)
qed (auto simp: board_wf_def card_of_change robust_applied simp del: applied.simps split: if_splits)

lemma board_wf_folds: "board_wf cs \<Longrightarrow> \<forall>e\<in>set evs. robust e \<Longrightarrow> board_wf (foldl fold_event cs evs)"
  by (rule foldl_inv) (auto intro: board_wf_fold)

lemma transitions_ok:
  "card_ok x \<Longrightarrow> claim_card x who now ttl pd = Inr y \<Longrightarrow> card_ok y"
  "card_ok x \<Longrightarrow> heartbeat_card x s now al = Inr y \<Longrightarrow> card_ok y"
  "card_ok x \<Longrightarrow> block_card x reason whom now = Inr y \<Longrightarrow> card_ok y"
  "card_ok x \<Longrightarrow> unblock_card x now = Inr y \<Longrightarrow> card_ok y"
  "card_ok x \<Longrightarrow> archive_card x now = Inr y \<Longrightarrow> card_ok y"
  "card_ok x \<Longrightarrow> card_ok (complete_card x outcome now)"
  "card_ok x \<Longrightarrow> card_ok (add_comment x whom said now)"
  by (auto simp: card_ok_def claim_card_def heartbeat_card_def block_card_def unblock_card_def
      archive_card_def complete_card_def add_comment_def split: option.splits if_splits)

lemma reaped_ok: "reap_if_stale os x now = (y, evs) \<Longrightarrow> card_ok x \<Longrightarrow> card_ok y"
  using reap_events by (fastforce simp: card_ok_def)

lemma promoted_ok: "promote_if_ready cs x now = (y, evs) \<Longrightarrow> card_ok x \<Longrightarrow> card_ok y"
  using promote_events by (fastforce simp: card_ok_def)

lemma verb_decision_ok:
  assumes "verb_decision i tr ev cs = Some (Inr y, evs)" "board_wf cs"
    "\<And>x. card_ok x \<Longrightarrow> tr x = Inr y \<Longrightarrow> card_ok y"
  shows "card_ok y"
  using assms(1) by (rule verb_decision_Inr) (use assms(2,3) board_wfD in blast)

lemma verb_wf:
  assumes "verb_of i v cs = Some (res, evs)" "board_wf cs" "board_ok cs"
  shows "board_wf (foldl fold_event cs evs)"
proof -
  have inr: "card_ok y" if "res = Inr y" "\<nexists>os who now ttl. v = VClaim os who now ttl" for y
    using assms(1,2) that
    by (cases v)
      (auto simp: heartbeat_decision_def complete_decision_def block_decision_def
        unblock_decision_def comment_decision_def archive_decision_def
        intro: transitions_ok elim!: verb_decision_ok)
  show ?thesis
  proof (cases "\<exists>os who now ttl. v = VClaim os who now ttl")
    case False
    show ?thesis
    proof (cases res)
      case (Inl r)
      then have "evs = []" using assms(1) False
        by (cases v) (auto simp: heartbeat_decision_def complete_decision_def block_decision_def
          unblock_decision_def comment_decision_def archive_decision_def dest: verb_decision_Inl)
      then show ?thesis using assms(2) by simp
    next
      case (Inr y)
      then show ?thesis using board_wf_upd [OF assms(2) verb_folds [of i v cs y evs] inr] assms False by blast
    qed
  next
    case True
    then obtain os who now ttl where v: "v = VClaim os who now ttl" by blast
    then have c: "claim_decision os i who now ttl cs = Some (res, evs)" using assms(1) by simp
    from c assms(3) show ?thesis
    proof (cases rule: claim_decision_folds)
      case (1 x x1 x2 ev1 ev2)
      have x2: "card_ok x2"
        using board_wfD [OF assms(2) 1(1)] reaped_ok [OF 1(3)] promoted_ok [OF 1(4)] by blast
      show ?thesis
      proof (cases res)
        case (Inl r)
        then have "evs = ev1 @ ev2" using 1(9) by (auto split: sum.splits)
        then show ?thesis using board_wf_upd [OF assms(2) 1(5) x2] by simp
      next
        case (Inr y)
        then have "claim_card x2 who now ttl (parents_done cs x2) = Inr y" using 1(9) by (auto split: sum.splits)
        then have "card_ok y" using transitions_ok(1) x2 by blast
        then show ?thesis using board_wf_upd [OF assms(2) verb_folds [of i v cs y evs]] assms Inr by blast
      qed
    qed
  qed
qed

section \<open>The logs the program produces\<close>

text \<open>
  Starting without a log: the verbs, card creation, an atomic batch of creations, the sweep of
  stale claims, and the end of a delegation, which may have read the cards at any earlier moment.
  Locks and writes may fail; a failed append is taken to leave nothing behind (a torn line is
  treated below).
\<close>

inductive task_reachable :: "task_codec \<Rightarrow> string \<Rightarrow> task_logs \<Rightarrow> bool" for c slug where
  start: "files d slug = None \<Longrightarrow> task_reachable c slug d"
| verb: "task_reachable c slug d \<Longrightarrow> run_verb c slug i v d = (d1, r) \<Longrightarrow> task_reachable c slug d1"
| create: "task_reachable c slug d \<Longrightarrow> create_card c 0 uuid slug a now d = (d1, r1) \<Longrightarrow> task_reachable c slug d1"
| batch: "task_reachable c slug d \<Longrightarrow> append_events_atomic c slug (map EvCreated as) d = (d1, r2)
    \<Longrightarrow> task_reachable c slug d1"
| reap: "task_reachable c slug d \<Longrightarrow> reap_all_locked c os slug now d = (d1, r3) \<Longrightarrow> task_reachable c slug d1"
| finish: "task_reachable c slug d
    \<Longrightarrow> finish_task_card c 0 adv slug snapshot task exit outcome sig now d = d1 \<Longrightarrow> task_reachable c slug d1"

definition log_ok :: "task_codec \<Rightarrow> string \<Rightarrow> task_logs \<Rightarrow> bool" where
  "log_ok c slug d \<longleftrightarrow> complete_log (log_text d slug) \<and> board_wf (load_cards c d slug)"

lemma log_ok_files: "files d1 = files d \<Longrightarrow> log_ok c slug d1 = log_ok c slug d"
  using held_files [of d1 d] load_files [of d1 d c] by (simp add: log_ok_def log_text_def)

lemma log_ok_batch:
  assumes "lawful c" "files d1 = (files d)(slug \<mapsto> Holds (batch_text c (log_text d slug) evs))"
    and "board_wf (foldl fold_event (load_cards c d slug) evs)"
  shows "log_ok c slug d1"
  using assms read_batch(2) [OF assms(1)] load_after_batch [OF assms(1,2)]
  by (simp add: log_ok_def log_text_def held_def)

lemma log_ok_append:
  assumes "lawful c" "log_ok c slug d" "robust e" "append_event c 0 slug e d = (d1, r)"
  shows "log_ok c slug d1"
  using assms(4) unfolding append_event_def
proof (cases rule: under_lock_cases)
  case refused
  then show ?thesis using assms(2) log_ok_files by blast
next
  case (entered d')
  have ok: "log_ok c slug d'" using entered(1) assms(2) log_ok_files by blast
  obtain fl rest where t: "take_failure (write_failures d') = (fl, rest)"
    by (cases "take_failure (write_failures d')")
  have texts: "log_text d1 slug = log_text d' slug @ (if fl then [] else event_line c e) \<or>
      log_text d1 slug = log_text d' slug"
    using entered(2) t
    by (auto simp: write_event_locked_def log_text_def held_def Let_def put_entry_def
        split: option.splits stored.splits if_splits)
  have cl: "complete_log (log_text d' slug)" using ok by (simp add: log_ok_def)
  have "log_text d1 slug = log_text d' slug \<or> log_text d1 slug = log_text d' slug @ event_line c e"
    using texts by (auto split: if_splits)
  then show ?thesis
  proof
    assume "log_text d1 slug = log_text d' slug"
    then show ?thesis using ok by (simp add: log_ok_def load_cards_def read_log_text)
  next
    assume new: "log_text d1 slug = log_text d' slug @ event_line c e"
    have "load_cards c d1 slug = fold_event (load_cards c d' slug) e"
      using read_line_at_end [OF assms(1) cl, of e] new
      by (simp add: load_cards_def read_log_text materialize_append)
    then show ?thesis using ok board_wf_fold [OF _ assms(3)] new by (simp add: log_ok_def)
  qed
qed

lemma log_ok_append_each:
  assumes "lawful c"
  shows "log_ok c slug d \<Longrightarrow> \<forall>e\<in>set es. robust e \<Longrightarrow> log_ok c slug (append_each c 0 slug es d)"
proof (induction es arbitrary: d)
  case (Cons e es)
  then have "log_ok c slug (fst (append_event c 0 slug e d))"
    using log_ok_append [OF assms _ _ surjective_pairing] by simp
  then show ?case using Cons by simp
qed simp

lemma finish_robust: "e \<in> set (finish_events adv x exit outcome sig now) \<Longrightarrow> robust e"
  by (auto simp: finish_events_def Let_def split: exit_kind.splits respawn_verdict.splits option.splits if_splits)

lemma reap_all_events:
  "set (snd (reap_all_decide os cs now)) \<subseteq> {EvCrash i now | i. True}"
proof -
  let ?f = "\<lambda>(ids, evs) (_, x). case snd (reap_if_stale os x now) of
      [] \<Rightarrow> (ids, evs) | new_evs \<Rightarrow> (ids @ [cd_id x], evs @ new_evs)"
  have "set (snd (foldl ?f ([], []) cs)) \<subseteq> {EvCrash i now | i. True}"
  proof (rule foldl_inv)
    fix s :: "string list \<times> task_event list" and p :: "string \<times> card"
    assume s: "set (snd s) \<subseteq> {EvCrash i now | i. True}"
    obtain y evs where r: "reap_if_stale os (snd p) now = (y, evs)" by (cases "reap_if_stale os (snd p) now")
    show "set (snd (?f s p)) \<subseteq> {EvCrash i now | i. True}"
      using s reap_events [OF r] r by (auto simp: case_prod_unfold split: list.splits)
  qed simp
  then show ?thesis by (simp add: reap_all_decide_def)
qed

lemma batch_step_ok:
  assumes "lawful c" "log_ok c slug d" "write_events_atomic_locked c slug evs d = (d1, r)"
    and "board_wf (foldl fold_event (load_cards c d slug) evs)"
  shows "log_ok c slug d1"
  using assms(3)
proof (cases rule: write_batch_cases)
  case (failed e)
  then show ?thesis using assms(2) log_ok_files by blast
next
  case written
  then show ?thesis using log_ok_batch assms(1,4) by blast
qed

lemma reachable_log_ok:
  assumes "lawful c" "task_reachable c slug d"
  shows "log_ok c slug d"
  using assms(2)
proof (induction rule: task_reachable.induct)
  case (start d)
  then show ?case
    by (simp add: log_ok_def log_text_def held_def complete_log_def load_cards_def read_events_def
        materialize_def board_wf_def card_of_def)
next
  case (verb d i v d1 r)
  have wf: "board_wf (load_cards c d slug)" using verb by (simp add: log_ok_def)
  from verb(2) show ?case unfolding run_verb_def
  proof (cases rule: with_task_lock_cases)
    case kept
    then show ?thesis using verb log_ok_files by blast
  next
    case (written outcome evs)
    then show ?thesis using log_ok_batch [OF assms(1) written(3)] verb_wf [OF written(1) wf] by simp
  qed
next
  case (create d uuid a now d1 r1)
  then show ?case unfolding create_card_def Let_def
    by (auto split: prod.splits sum.splits intro: log_ok_append [OF assms(1), rotated 2])
next
  case (batch d as d1 r2)
  have "append_events_atomic c slug (map EvCreated as) d = (d1, r2)" by fact
  then show ?case unfolding append_events_atomic_def
  proof (cases rule: under_lock_cases)
    case refused
    then show ?thesis using batch log_ok_files by blast
  next
    case (entered d')
    then have ok: "log_ok c slug d'" using batch log_ok_files by blast
    then have "board_wf (foldl fold_event (load_cards c d' slug) (map EvCreated as))"
      by (intro board_wf_folds) (auto simp: log_ok_def)
    then show ?thesis using batch_step_ok [OF assms(1) ok entered(2)] by blast
  qed
next
  case (reap d os now d1 r3)
  have "reap_all_locked c os slug now d = (d1, r3)" by fact
  then show ?case unfolding reap_all_locked_def
  proof (cases rule: under_lock_cases)
    case refused
    then show ?thesis using reap log_ok_files by blast
  next
    case (entered d')
    then have ok: "log_ok c slug d'" using reap log_ok_files by blast
    obtain ids evs where r: "reap_all_decide os (load_cards c d' slug) now = (ids, evs)"
      by (cases "reap_all_decide os (load_cards c d' slug) now")
    then have "\<forall>e\<in>set evs. robust e" using reap_all_events [of os "load_cards c d' slug" now] by auto
    then have wf: "board_wf (foldl fold_event (load_cards c d' slug) evs)"
      using ok by (intro board_wf_folds) (simp_all add: log_ok_def)
    show ?thesis
    proof (cases "evs = []")
      case True
      then show ?thesis using entered r ok by simp
    next
      case False
      then obtain r4 where "write_events_atomic_locked c slug evs d' = (d1, r4)"
        using entered r by (auto split: prod.splits sum.splits)
      then show ?thesis using batch_step_ok [OF assms(1) ok _ wf] by blast
    qed
  qed
next
  case (finish d adv snapshot task exit outcome sig now d1)
  then show ?case
    by (auto simp: finish_task_card_def split: option.splits
        intro: log_ok_append_each [OF assms(1)] finish_robust)
qed


definition sample_args :: card_args where
  "sample_args = \<lparr>ca_title = ''t'', ca_brief = ''b'', ca_parents = [], ca_group = None, ca_workdir = None\<rparr>"

definition sample_first :: task_logs where
  "sample_first = fst (create_card sample_codec 0 ''1'' ''repo'' sample_args 1 empty_dir)"

lemma load_sample_first:
  "load_cards sample_codec sample_first ''repo'' =
     materialize [EvCreated ((sample_created ''task-1'' [])\<lparr>cr_repo_slug := ''repo''\<rparr>)]"
proof -
  have "held sample_first ''repo'' =
      Some (event_line sample_codec (EvCreated ((sample_created ''task-1'' [])\<lparr>cr_repo_slug := ''repo''\<rparr>)))"
    by (simp add: sample_first_def create_card_def append_event_def under_lock_def acquire_lock_def
        take_failure_def write_event_locked_def empty_dir_def held_def put_entry_def sample_args_def
        sample_created_def Let_def)
  then have "load_cards sample_codec sample_first ''repo'' = materialize (read_text sample_codec
      ([] @ event_line sample_codec (EvCreated ((sample_created ''task-1'' [])\<lparr>cr_repo_slug := ''repo''\<rparr>))))"
    by (simp add: load_cards_def read_events_def)
  also have "\<dots> = materialize [EvCreated ((sample_created ''task-1'' [])\<lparr>cr_repo_slug := ''repo''\<rparr>)]"
    by (subst read_line_at_end [OF sample_codec_lawful]) (simp_all add: complete_log_def)
  finally show ?thesis .
qed


section \<open>The end of a delegation\<close>

text \<open>A worker that did not report back is never recorded as having succeeded, its card is not
  retried once the attempt limit is reached, and advice can only narrow. Whatever the card, the
  exit and the advice: no completion is written unless the worker reported; a card with two
  attempts behind it is never handed out again by the policy; a verdict other than a retry is
  final, and a retry can only become a retry or a block.\<close>

theorem recovery_is_bounded_and_advice_narrows:
  "(exit = ExReported \<or> (\<forall>i oc t. EvCompleted i oc t \<notin> set (finish_events adv x exit outcome sig now))) \<and>
   (cd_attempts x < DEFAULT_MAX_ATTEMPTS \<or>
      (\<forall>i t. EvCrash i t \<notin> set (finish_events adv x exit outcome sig now)) \<and>
      (\<forall>i w t. EvProtocol i w t \<notin> set (finish_events adv x exit outcome sig now))) \<and>
   (respawn_decision_with_jev_signals adv x exit m sig = respawn_decision x exit m \<or>
      respawn_decision x exit m = Respawn \<and>
      (\<exists>reason. respawn_decision_with_jev_signals adv x exit m sig = AutoBlock reason))"
proof -
  have narrow: "respawn_decision_with_jev_signals adv x exit m sig = respawn_decision x exit m \<or>
      respawn_decision x exit m = Respawn \<and>
      (\<exists>reason. respawn_decision_with_jev_signals adv x exit m sig = AutoBlock reason)" for m sig
    by (auto simp: respawn_decision_with_jev_signals_def Let_def split: option.splits crash_advice.splits)
  have capped: "respawn_decision_with_jev_signals adv x exit DEFAULT_MAX_ATTEMPTS s \<noteq> Respawn"
    if "\<not> cd_attempts x < DEFAULT_MAX_ATTEMPTS" for s
  proof -
    have "respawn_decision x exit DEFAULT_MAX_ATTEMPTS \<noteq> Respawn"
      using that by (auto simp: respawn_decision_def split: option.splits exit_kind.splits)
    then show ?thesis using narrow [of DEFAULT_MAX_ATTEMPTS s] by auto
  qed
  have "exit = ExReported \<or> (\<forall>i oc t. EvCompleted i oc t \<notin> set (finish_events adv x exit outcome sig now))"
    by (cases exit) (auto simp: finish_events_def Let_def split: respawn_verdict.splits)
  moreover have "cd_attempts x < DEFAULT_MAX_ATTEMPTS \<or>
      (\<forall>i t. EvCrash i t \<notin> set (finish_events adv x exit outcome sig now)) \<and>
      (\<forall>i w t. EvProtocol i w t \<notin> set (finish_events adv x exit outcome sig now))"
    using capped
    by (cases exit)
      (auto simp: finish_events_def Let_def respawn_decision_with_jev_def
        split: respawn_verdict.splits option.splits)
  ultimately show ?thesis using narrow by blast
qed

section \<open>What the model brings out\<close>

text \<open>
  Archiving a finished parent strands its children: an archived parent is not a done one, so no
  claim of the child succeeds any more, although every parent did finish.
\<close>

theorem archived_parent_strands_its_children:
  "claim_decision sample_os ''c'' sample_claimant 4 900
     (materialize (sample_events @ [EvArchived ''p'' 3])) = Some (Inl (NotReady StTodo), [])"
  by (simp add: task_evaluation)

text \<open>
  The end of one worker's delegation frees a card that another worker holds: the supervisor appends
  its crash without looking at who claims the card. Here the card was blocked and unblocked by the
  operator while worker \<open>v\<close> was still running, and worker \<open>w\<close> claimed it; when \<open>v\<close> crashes, the
  card is ready again and a third worker may claim it beside \<open>w\<close>.
\<close>

definition contended_events :: "task_event list" where
  "contended_events = [EvCreated (sample_created ''p'' []), EvClaimed ''p'' dead_claim 1 3,
     EvBlocked ''p'' ''wait'' ''operator'' 4, EvUnblocked ''p'' 5,
     EvClaimed ''p'' (dead_claim\<lparr>cl_session := ''w'', cl_pid := 7\<rparr>) 1 6]"

definition no_advisor :: advisor where
  "no_advisor = \<lparr>ad_supervisor = False, ad_gate_open = False, ad_advise = (\<lambda>_. AdvDisabled)\<rparr>"

lemma contended_snapshot:
  "card_of (materialize contended_events) ''p'' =
     Some ((fresh_card (sample_created ''p'' []))\<lparr>cd_state := StRunning, cd_attempts := 1, cd_updated_at := 6,
       cd_claim := Some (dead_claim\<lparr>cl_session := ''w'', cl_pid := 7\<rparr>)\<rparr>)"
  by (simp add: task_evaluation contended_events_def)

theorem finished_worker_frees_anothers_card:
  "case card_of (materialize contended_events) ''p'' of
     None \<Rightarrow> False
   | Some held_by_w \<Rightarrow>
       map_option cl_session (cd_claim held_by_w) = Some ''w'' \<and>
       (case card_of (materialize (contended_events @
             finish_events no_advisor held_by_w ExCrash [] None 7)) ''p'' of
          None \<Rightarrow> False
        | Some x \<Rightarrow> cd_state x = StReady \<and> cd_claim x = None)"
  unfolding contended_snapshot
  by (simp add: task_evaluation contended_events_def finish_events_def respawn_decision_def
      access_block_def respawn_decision_with_jev_def respawn_decision_with_jev_signals_def
      DEFAULT_MAX_ATTEMPTS_def dead_claim_def)

text \<open>
  A creation after a torn append is reported as done and lost: the plain append glues the new line
  to the unfinished one, and the batch append would have repaired it.
\<close>

theorem creation_after_a_torn_line_is_lost:
  assumes "lawful c" "held d slug = Some (partial)" "newline \<notin> set partial" "lock_failures d = []" "write_failures d = []"
    and "parse_event c (partial @ render_event c (EvCreated a)) = None"
  shows "snd (append_event c 0 slug (EvCreated a) d) = Inr () \<and>
    load_cards c (fst (append_event c 0 slug (EvCreated a) d)) slug = []"
proof -
  let ?line = "partial @ render_event c (EvCreated a)"
  have a: "append_event c 0 slug (EvCreated a) d =
      (put_entry slug (Some (Holds (partial @ event_line c (EvCreated a)))) (d\<lparr>lock_failures := [], write_failures := []\<rparr>), Inr ())"
    using assms(2,4,5)
    by (simp add: append_event_def under_lock_def acquire_lock_def take_failure_def
        write_event_locked_def held_Some put_entry_def)
  have "newline \<notin> set ?line" using assms(3) lawful_line [OF assms(1)] by simp
  from text_lines_line [OF this, of "[]"]
  have "text_lines (partial @ event_line c (EvCreated a)) = [strip_cr ?line]"
    by (simp add: event_line_def text_lines_def)
  then have "read_text c (partial @ event_line c (EvCreated a)) = []"
    using assms(6) parse_strip_cr [OF assms(1)] by (simp add: read_text_def map_filter_simps)
  then show ?thesis using a by (simp add: load_cards_def read_events_def materialize_def)
qed

end
