(* ===== verification/Seat.thy ===== *)
theory Seat
  imports State_Dir "HOL-Library.Word"
begin

text \<open>
  The orchestrator's seat, \<open>src/commands/ctx/seat.rs\<close>: the persisted record of which agent
  answers at a session's address, the prepare/commit/abort rollover transaction with its
  generation numbers, parking, pending causes, crash recovery, the failure backoff, and the
  generation fence every writing service consults. The automatic rollover decision itself
  (\<open>decide\<close>), which ranks candidates by floating-point headroom, is not modelled here.

  The state holds the seat files by short id and the conversation markers. Locks are blocking
  and can only fail to open; \<open>ss_locks\<close> and \<open>ss_writes\<close> are the schedules of such failures.
\<close>

section \<open>Data\<close>

text \<open>A headroom percentage is carried as the bits of its double; nothing here computes on it.\<close>

type_synonym f64 = "64 word"

datatype seat_runtime = SrHarness | SrNative | SrUnknown

record visit =
  vi_agent :: string
  vi_epoch :: u64
  vi_at :: u64

datatype cause =
    Proactive f64 u64
  | Reactive string u64
  | Reclaim f64 u64
  | Manual

fun cause_observed_at :: "cause \<Rightarrow> u64 option" where
  "cause_observed_at (Proactive _ t) = Some t"
| "cause_observed_at (Reactive _ t) = Some t"
| "cause_observed_at (Reclaim _ t) = Some t"
| "cause_observed_at Manual = None"

fun same_kind :: "cause \<Rightarrow> cause \<Rightarrow> bool" where
  "same_kind (Proactive _ _) (Proactive _ _) = True"
| "same_kind (Reactive _ _) (Reactive _ _) = True"
| "same_kind (Reclaim _ _) (Reclaim _ _) = True"
| "same_kind Manual Manual = True"
| "same_kind _ _ = False"

record displaced =
  dp_agent :: string
  dp_model :: "string option"
  dp_session :: string
  dp_conversation :: "string option"
  dp_runtime :: seat_runtime
  dp_since :: u64

record prepared =
  pr_agent :: string
  pr_model :: "string option"
  pr_runtime :: seat_runtime
  pr_generation :: u64
  pr_since :: u64
  pr_cause :: cause

datatype seat_phase =
    Idle
  | Prepared prepared
  | Parked (parked_until: u64) (parked_window: string) (parked_reason: string) (parked_since: u64)

record pending =
  pe_cause :: cause
  pe_since :: u64

record seat =
  se_short :: string
  se_session :: string
  se_generation :: u64
  se_agent :: string
  se_model :: "string option"
  se_provider :: string
  se_role :: string
  se_pinned :: bool
  se_phase :: seat_phase
  se_visited :: "visit list"
  se_last_rollover_at :: "u64 option"
  se_failures :: u32
  se_failed_observed_at :: "u64 option"
  se_pending :: "pending option"
  se_displaced :: "displaced option"
  se_created_at :: u64
  se_updated_at :: u64
  se_runtime :: seat_runtime

record conversation =
  cv_agent :: string
  cv_session :: string
  cv_conversation :: string
  cv_runtime :: seat_runtime

datatype seat_file = MalformedSeat | SeatFile seat

record seat_store =
  ss_seats :: "string \<Rightarrow> seat_file option"
  ss_markers :: "string \<Rightarrow> conversation option"
  ss_locks :: "bool list"
  ss_writes :: "bool list"

definition put_seat :: "string \<Rightarrow> seat_file option \<Rightarrow> seat_store \<Rightarrow> seat_store" where
  "put_seat short f st = st\<lparr>ss_seats := (ss_seats st)(short := f)\<rparr>"

interpretation seats: keyed_store ss_seats put_seat
  by unfold_locales (simp add: put_seat_def)

section \<open>Errors\<close>

datatype seat_error =
    LockFailed
  | WriteFailed
  | NoSeat string
  | SeatPinned string
  | AlreadyPrepared string
  | NothingPrepared string string
  | GenerationMismatch string u64 string u64

fun seat_error_text :: "seat_error \<Rightarrow> string option" where
  "seat_error_text LockFailed = None"
| "seat_error_text WriteFailed = None"
| "seat_error_text (NoSeat short) = Some (''zirv ctx seat: no seat record for '' @ short)"
| "seat_error_text (SeatPinned short) =
     Some (''zirv ctx seat: '' @ short @ '' is pinned; refusing to prepare a rollover'')"
| "seat_error_text (AlreadyPrepared short) =
     Some (''zirv ctx seat: '' @ short @ '' already has a rollover prepared'')"
| "seat_error_text (NothingPrepared short verb) =
     Some (''zirv ctx seat: '' @ short @ '' has no prepared rollover to '' @ verb)"
| "seat_error_text (GenerationMismatch short prepared_gen verb asked) =
     Some (''zirv ctx seat: '' @ short @ '' prepared generation '' @ show_nat prepared_gen @
       '' does not match '' @ verb @ '' request '' @ show_nat asked)"

section \<open>Identities from names and the environment\<close>

definition short_id :: "string \<Rightarrow> string" where
  "short_id session = take 8 (filter is_ascii_alphanumeric session)"

definition GENERATION_ENV :: string where "GENERATION_ENV = ''ZIRV_CTX_SEAT_GENERATION''"

definition generation_env :: "seat \<Rightarrow> string \<times> string" where
  "generation_env s = (GENERATION_ENV, show_nat (se_generation s))"

definition pin_from_env :: "string option \<Rightarrow> bool" where
  "pin_from_env v = (case v of None \<Rightarrow> False
     | Some raw \<Rightarrow> ascii_lower (trim raw) \<in> {''1'', ''true'', ''yes''})"

section \<open>Loading and storing\<close>

definition lock_seat :: "seat_store \<Rightarrow> bool \<times> seat_store" where
  "lock_seat st = (let (failed, rest) = take_failure (ss_locks st) in (\<not> failed, st\<lparr>ss_locks := rest\<rparr>))"

definition load_seat :: "seat_store \<Rightarrow> string \<Rightarrow> seat option" where
  "load_seat st short = (case ss_seats st short of Some (SeatFile s) \<Rightarrow> Some s | _ \<Rightarrow> None)"

definition store_seat :: "seat_store \<Rightarrow> seat \<Rightarrow> seat_store \<times> (seat_error + unit)" where
  "store_seat st s =
     (let (failed, rest) = take_failure (ss_writes st); st1 = st\<lparr>ss_writes := rest\<rparr> in
      if failed then (st1, Inl WriteFailed)
      else (put_seat (se_short s) (Some (SeatFile s)) st1, Inr ()))"

definition remove_seat :: "seat_store \<Rightarrow> string \<Rightarrow> seat_store" where
  "remove_seat st short = put_seat short None st"

definition record_conversation_on ::
    "seat_store \<Rightarrow> string \<Rightarrow> string \<Rightarrow> string \<Rightarrow> string \<Rightarrow> seat_runtime \<Rightarrow> seat_store" where
  "record_conversation_on st short agent session conv runtime =
     (if agent = [] \<or> session = [] \<or> conv = [] then st
      else let (failed, rest) = take_failure (ss_writes st); st1 = st\<lparr>ss_writes := rest\<rparr> in
        if failed then st1
        else st1\<lparr>ss_markers := (ss_markers st1)(short \<mapsto>
               \<lparr>cv_agent = agent, cv_session = session, cv_conversation = conv, cv_runtime = runtime\<rparr>)\<rparr>)"

definition native_conversation ::
    "seat_store \<Rightarrow> string \<Rightarrow> string \<Rightarrow> string \<Rightarrow> seat_runtime \<Rightarrow> string option" where
  "native_conversation st short agent session runtime =
     (case ss_markers st short of
        None \<Rightarrow> None
      | Some r \<Rightarrow>
          if eq_ignore_ascii_case (cv_agent r) agent \<and> cv_session r = session \<and>
             cv_runtime r = runtime \<and> cv_conversation r \<noteq> []
          then Some (cv_conversation r) else None)"

text \<open>
  The shape of every transaction: take the lock, load the record or report that there is none,
  compute the new record or refuse, write it back under the record's own short id.
\<close>

definition store_result :: "seat_store \<Rightarrow> seat_error + seat \<Rightarrow> seat_store \<times> (seat_error + seat)" where
  "store_result st r =
     (case r of
        Inl e \<Rightarrow> (st, Inl e)
      | Inr s \<Rightarrow> (case store_seat st s of (st1, Inl e) \<Rightarrow> (st1, Inl e) | (st1, Inr _) \<Rightarrow> (st1, Inr s)))"

definition with_seat ::
    "seat_store \<Rightarrow> string \<Rightarrow> (seat_store \<Rightarrow> seat \<Rightarrow> seat_error + seat)
      \<Rightarrow> seat_store \<times> (seat_error + seat)" where
  "with_seat st short f =
     (let (locked, st1) = lock_seat st in
      if \<not> locked then (st1, Inl LockFailed)
      else case load_seat st1 short of
          None \<Rightarrow> (st1, Inl (NoSeat short))
        | Some s \<Rightarrow> store_result st1 (f st1 s))"

section \<open>Registration\<close>

definition new_seat ::
    "string \<Rightarrow> string \<Rightarrow> string \<Rightarrow> string option \<Rightarrow> string \<Rightarrow> string \<Rightarrow> bool \<Rightarrow> u64 \<Rightarrow> seat" where
  "new_seat short session agent model provider role pinned now =
     \<lparr>se_short = short, se_session = session, se_generation = 1, se_agent = agent, se_model = model,
      se_provider = provider, se_role = role, se_pinned = pinned, se_phase = Idle, se_visited = [],
      se_last_rollover_at = None, se_failures = 0, se_failed_observed_at = None,
      se_pending = None, se_displaced = None, se_created_at = now, se_updated_at = now,
      se_runtime = SrHarness\<rparr>"

definition register ::
    "seat_store \<Rightarrow> string \<Rightarrow> string \<Rightarrow> string \<Rightarrow> string option \<Rightarrow> string \<Rightarrow> string \<Rightarrow> bool \<Rightarrow> u64
      \<Rightarrow> seat_store \<times> (seat_error + seat)" where
  "register st short session agent model provider role pinned now =
     (let (locked, st1) = lock_seat st in
      if \<not> locked then (st1, Inl LockFailed)
      else store_result st1 (Inr
        (case load_seat st1 short of
           Some s \<Rightarrow> s\<lparr>se_session := session, se_agent := agent, se_model := model,
                      se_provider := provider, se_updated_at := now\<rparr>
         | None \<Rightarrow> new_seat short session agent model provider role pinned now)))"

section \<open>The rollover transaction\<close>

definition admissible :: "seat \<Rightarrow> seat_error + unit" where
  "admissible s =
     (if se_pinned s then Inl (SeatPinned (se_short s))
      else case se_phase s of
          Prepared _ \<Rightarrow> Inl (AlreadyPrepared (se_short s))
        | _ \<Rightarrow> Inr ())"

definition may_prepare :: "seat_store \<Rightarrow> string \<Rightarrow> seat_store \<times> (seat_error + unit)" where
  "may_prepare st short =
     (let (locked, st1) = lock_seat st in
      if \<not> locked then (st1, Inl LockFailed)
      else case load_seat st1 short of
          None \<Rightarrow> (st1, Inl (NoSeat short))
        | Some s \<Rightarrow> (st1, admissible s))"

definition prepared_seat ::
    "seat \<Rightarrow> string \<Rightarrow> string option \<Rightarrow> seat_runtime \<Rightarrow> cause \<Rightarrow> u64 \<Rightarrow> seat_error + seat" where
  "prepared_seat s agent model runtime c now =
     (case admissible s of
        Inl e \<Rightarrow> Inl e
      | Inr _ \<Rightarrow>
          Inr (s\<lparr>se_phase := Prepared
                 \<lparr>pr_agent = agent, pr_model = model, pr_runtime = runtime,
                  pr_generation = wrap_add (se_generation s) 1, pr_since = now, pr_cause = c\<rparr>,
                 se_updated_at := now\<rparr>))"

fun reserved_generation :: "seat_phase \<Rightarrow> u64" where
  "reserved_generation (Prepared p) = pr_generation p"
| "reserved_generation _ = 0"

definition prepare_onto ::
    "seat_store \<Rightarrow> string \<Rightarrow> string \<Rightarrow> string option \<Rightarrow> seat_runtime \<Rightarrow> cause \<Rightarrow> u64
      \<Rightarrow> seat_store \<times> (seat_error + u64)" where
  "prepare_onto st short agent model runtime c now =
     (case with_seat st short (\<lambda>_ s. prepared_seat s agent model runtime c now) of
        (st1, Inl e) \<Rightarrow> (st1, Inl e)
      | (st1, Inr s) \<Rightarrow> (st1, Inr (reserved_generation (se_phase s))))"

definition prepare ::
    "seat_store \<Rightarrow> string \<Rightarrow> string \<Rightarrow> string option \<Rightarrow> cause \<Rightarrow> u64
      \<Rightarrow> seat_store \<times> (seat_error + u64)" where
  "prepare st short agent model c now = prepare_onto st short agent model SrHarness c now"

fun is_displacing :: "cause \<Rightarrow> bool" where
  "is_displacing (Proactive _ _) = True"
| "is_displacing (Reactive _ _) = True"
| "is_displacing _ = False"

definition owed_after_commit ::
    "seat \<Rightarrow> prepared \<Rightarrow> string option \<Rightarrow> u64 \<Rightarrow> displaced option" where
  "owed_after_commit s p conv now =
     (let previous = se_displaced s;
          coming_home = (case previous of
              None \<Rightarrow> False | Some d \<Rightarrow> eq_ignore_ascii_case (dp_agent d) (pr_agent p))
      in if coming_home then None
         else if is_displacing (pr_cause p)
         then (case previous of
                 Some d \<Rightarrow> Some d
               | None \<Rightarrow> Some \<lparr>dp_agent = se_agent s, dp_model = se_model s,
                    dp_session = se_session s, dp_conversation = conv,
                    dp_runtime = se_runtime s, dp_since = now\<rparr>)
         else previous)"

definition epoch_or :: "u64 \<Rightarrow> cause \<Rightarrow> u64" where
  "epoch_or now c = (case cause_observed_at c of Some t \<Rightarrow> t | None \<Rightarrow> now)"

definition committed_seat ::
    "seat \<Rightarrow> string \<Rightarrow> u64 \<Rightarrow> string \<Rightarrow> string option \<Rightarrow> u64 \<Rightarrow> seat_error + seat" where
  "committed_seat s short generation session conv now =
     (case se_phase s of
        Prepared p \<Rightarrow>
          if pr_generation p \<noteq> generation
          then Inl (GenerationMismatch short (pr_generation p) ''commit'' generation)
          else Inr (s\<lparr>se_visited := se_visited s @
                     [\<lparr>vi_agent = se_agent s, vi_epoch = epoch_or now (pr_cause p), vi_at = now\<rparr>],
                   se_generation := generation,
                   se_provider := provider_slug (pr_agent p),
                   se_agent := pr_agent p,
                   se_model := pr_model p,
                   se_session := session,
                   se_runtime := pr_runtime p,
                   se_displaced := owed_after_commit s p conv now,
                   se_last_rollover_at := Some now,
                   se_failures := 0,
                   se_failed_observed_at := None,
                   se_phase := Idle,
                   se_pending := None,
                   se_updated_at := now\<rparr>)
      | _ \<Rightarrow> Inl (NothingPrepared short ''commit''))"

definition commit ::
    "seat_store \<Rightarrow> string \<Rightarrow> u64 \<Rightarrow> string \<Rightarrow> u64 \<Rightarrow> seat_store \<times> (seat_error + seat)" where
  "commit st short generation session now =
     with_seat st short (\<lambda>st1 s. committed_seat s short generation session
       (native_conversation st1 short (se_agent s) (se_session s) (se_runtime s)) now)"

definition u32_max :: u32 where "u32_max = 4294967295"

definition aborted_seat :: "seat \<Rightarrow> string \<Rightarrow> u64 \<Rightarrow> u64 \<Rightarrow> seat_error + seat" where
  "aborted_seat s short generation now =
     (case se_phase s of
        Prepared p \<Rightarrow>
          if pr_generation p \<noteq> generation
          then Inl (GenerationMismatch short (pr_generation p) ''abort'' generation)
          else Inr (s\<lparr>se_visited := se_visited s @
                     [\<lparr>vi_agent = pr_agent p, vi_epoch = epoch_or now (pr_cause p), vi_at = now\<rparr>],
                   se_last_rollover_at := Some now,
                   se_failures := min u32_max (se_failures s + 1),
                   se_failed_observed_at := cause_observed_at (pr_cause p),
                   se_phase := Idle,
                   se_pending := None,
                   se_updated_at := now\<rparr>)
      | _ \<Rightarrow> Inl (NothingPrepared short ''abort''))"

definition abort :: "seat_store \<Rightarrow> string \<Rightarrow> u64 \<Rightarrow> u64 \<Rightarrow> seat_store \<times> (seat_error + seat)" where
  "abort st short generation now =
     with_seat st short (\<lambda>_ s. aborted_seat s short generation now)"

section \<open>Backoff after failed attempts\<close>

definition backoff_delay :: "u64 \<Rightarrow> u32 \<Rightarrow> u64" where
  "backoff_delay cooldown fails = min (sat_mul (max cooldown 60) (2 ^ min (fails - 1) 20)) 604800"

definition retry_at :: "u64 \<Rightarrow> u64 \<Rightarrow> u64 option \<Rightarrow> u64" where
  "retry_at failed_at delay resets_at =
     (case resets_at of
        Some reset \<Rightarrow> if failed_at < reset then min reset (sat_add failed_at delay) else sat_add failed_at delay
      | None \<Rightarrow> sat_add failed_at delay)"

definition failure_backoff_active ::
    "seat \<Rightarrow> u64 \<Rightarrow> u64 \<Rightarrow> u64 \<Rightarrow> u64 option \<Rightarrow> bool" where
  "failure_backoff_active s rollover_cooldown now observed_at resets_at =
     (if se_failures s = 0 then False
      else case se_last_rollover_at s of
          None \<Rightarrow> False
        | Some failed_at \<Rightarrow>
            now < retry_at failed_at (backoff_delay rollover_cooldown (se_failures s)) resets_at \<or>
            (case se_failed_observed_at s of Some failed \<Rightarrow> observed_at \<le> failed | None \<Rightarrow> False))"

section \<open>Parking, pending causes, recovery\<close>

definition park ::
    "seat_store \<Rightarrow> string \<Rightarrow> u64 \<Rightarrow> string \<Rightarrow> string \<Rightarrow> u64 \<Rightarrow> seat_store \<times> (seat_error + seat)" where
  "park st short until window reason now =
     with_seat st short (\<lambda>_ s. Inr (s\<lparr>se_phase := Parked until window reason now,
                                      se_updated_at := now\<rparr>))"

definition find_parked_by_prefix :: "seat_store \<Rightarrow> string list \<Rightarrow> string \<Rightarrow> seat list" where
  "find_parked_by_prefix st listing pre =
     filter (\<lambda>s. case se_phase s of Parked _ _ _ _ \<Rightarrow> True | _ \<Rightarrow> False)
       (List.map_filter (load_seat st) (filter (\<lambda>short. prefix pre short) listing))"

definition resume :: "seat_store \<Rightarrow> string \<Rightarrow> u64 \<Rightarrow> seat_store \<times> (seat_error + seat)" where
  "resume st short now =
     (let (locked, st1) = lock_seat st in
      if \<not> locked then (st1, Inl LockFailed)
      else case load_seat st1 short of
          None \<Rightarrow> (st1, Inl (NoSeat short))
        | Some s \<Rightarrow>
            (case se_phase s of
               Parked _ _ _ _ \<Rightarrow>
                 store_result st1 (Inr (s\<lparr>se_phase := Idle, se_updated_at := now\<rparr>))
             | _ \<Rightarrow> (st1, Inr s)))"

definition pending_since :: "pending option \<Rightarrow> cause \<Rightarrow> u64 \<Rightarrow> u64" where
  "pending_since p c now =
     (case p of Some q \<Rightarrow> if same_kind (pe_cause q) c then pe_since q else now | None \<Rightarrow> now)"

definition mark_pending :: "seat_store \<Rightarrow> string \<Rightarrow> cause \<Rightarrow> u64 \<Rightarrow> seat_store \<times> (seat_error + seat)"
  where
  "mark_pending st short c now =
     with_seat st short (\<lambda>_ s. Inr (s\<lparr>se_pending := Some \<lparr>pe_cause = c,
         pe_since = pending_since (se_pending s) c now\<rparr>, se_updated_at := now\<rparr>))"

definition clear_pending :: "seat_store \<Rightarrow> string \<Rightarrow> u64 \<Rightarrow> seat_store \<times> (seat_error + seat)" where
  "clear_pending st short now =
     with_seat st short (\<lambda>_ s. Inr (s\<lparr>se_pending := None, se_updated_at := now\<rparr>))"

text \<open>The first read of \<open>recover\<close> is outside the lock; the transaction it then runs reads again.\<close>

definition recover ::
    "seat_store \<Rightarrow> string \<Rightarrow> (u64 \<Rightarrow> string option) \<Rightarrow> u64
      \<Rightarrow> seat_store \<times> (seat_error + seat option)" where
  "recover st short successor_alive now =
     (case load_seat st short of
        None \<Rightarrow> (st, Inr None)
      | Some s \<Rightarrow>
          (case se_phase s of
             Prepared p \<Rightarrow>
               (case (case successor_alive (pr_generation p) of
                        Some session \<Rightarrow> commit st short (pr_generation p) session now
                      | None \<Rightarrow> abort st short (pr_generation p) now) of
                  (st1, Inl e) \<Rightarrow> (st1, Inl e)
                | (st1, Inr s') \<Rightarrow> (st1, Inr (Some s')))
           | _ \<Rightarrow> (st, Inr None)))"

section \<open>The generation fence\<close>

datatype stale_reason = Superseded | Uncommitted

record stale_generation =
  sg_short :: string
  sg_current :: u64
  sg_presented :: u64
  sg_reason :: stale_reason

definition stale_text :: "stale_generation \<Rightarrow> string" where
  "stale_text g =
     (case sg_reason g of
        Superseded \<Rightarrow>
          ''stale seat generation '' @ show_nat (sg_presented g) @ '' for '' @ sg_short g @
          '' (current '' @ show_nat (sg_current g) @
          ''): this session was superseded by a rollover; stop coordinating''
      | Uncommitted \<Rightarrow>
          ''uncommitted seat generation '' @ show_nat (sg_presented g) @ '' for '' @ sg_short g @
          '' (current '' @ show_nat (sg_current g) @
          ''): a rollover onto this successor is prepared but not committed; it may not write until it holds the seat'')"

definition authority :: "seat \<Rightarrow> u64 \<Rightarrow> stale_generation + unit" where
  "authority s generation =
     (if generation = se_generation s then Inr ()
      else Inl \<lparr>sg_short = se_short s, sg_current = se_generation s, sg_presented = generation,
               sg_reason = (if generation < se_generation s then Superseded else Uncommitted)\<rparr>)"

definition guard :: "seat_store \<Rightarrow> string \<Rightarrow> u64 \<Rightarrow> stale_generation + unit" where
  "guard st short generation =
     (case load_seat st short of Some s \<Rightarrow> authority s generation | None \<Rightarrow> Inr ())"

definition superseded_only :: "seat option \<Rightarrow> string option \<Rightarrow> stale_generation + unit" where
  "superseded_only seat env_generation =
     (case (seat, env_generation) of
        (Some s, Some raw) \<Rightarrow>
          (case parse_u64 raw of
             None \<Rightarrow> Inr ()
           | Some g \<Rightarrow>
               if g < se_generation s
               then Inl \<lparr>sg_short = se_short s, sg_current = se_generation s, sg_presented = g,
                        sg_reason = Superseded\<rparr>
               else Inr ())
      | _ \<Rightarrow> Inr ())"

text \<open>The two environment variables are an argument.\<close>

definition guard_from_env ::
    "seat_store \<Rightarrow> string option \<Rightarrow> string option \<Rightarrow> stale_generation + unit" where
  "guard_from_env st session generation =
     superseded_only (case session of None \<Rightarrow> None | Some s \<Rightarrow> load_seat st (short_id s)) generation"

definition seat_identity_from_env_values ::
    "string option \<Rightarrow> string option \<Rightarrow> (string \<times> u64) option" where
  "seat_identity_from_env_values session generation =
     (case session of
        None \<Rightarrow> None
      | Some s \<Rightarrow>
          (case generation of
             None \<Rightarrow> None
           | Some raw \<Rightarrow> map_option (\<lambda>g. (short_id s, g)) (parse_u64 raw)))"

datatype generation_lock = Unguarded | Guarded | LockRefused stale_generation | LockUnavailable

definition lock_generation :: "seat_store \<Rightarrow> string \<Rightarrow> u64 \<Rightarrow> seat_store \<times> generation_lock" where
  "lock_generation st short generation =
     (let (locked, st1) = lock_seat st in
      if \<not> locked then (st1, LockUnavailable)
      else case load_seat st1 short of
          None \<Rightarrow> (st1, Unguarded)
        | Some _ \<Rightarrow>
            (case guard st1 short generation of
               Inl e \<Rightarrow> (st1, LockRefused e) | Inr _ \<Rightarrow> (st1, Guarded)))"

section \<open>Transactions on the store\<close>

lemma lock_seat_keeps [simp]:
  "ss_seats (snd (lock_seat st)) = ss_seats st"
  "ss_markers (snd (lock_seat st)) = ss_markers st"
  "ss_writes (snd (lock_seat st)) = ss_writes st"
  by (simp_all add: lock_seat_def split_beta Let_def)

lemma load_seat_lock [simp]: "load_seat (snd (lock_seat st)) = load_seat st"
  by (simp add: load_seat_def fun_eq_iff)

lemma native_conversation_lock [simp]:
  "native_conversation (snd (lock_seat st)) = native_conversation st"
  by (simp add: native_conversation_def fun_eq_iff)

lemma store_result_cases:
  obtains (refused) e where "snd (store_result st r) = Inl e" "ss_seats (fst (store_result st r)) = ss_seats st"
  | (stored) s where "r = Inr s" "snd (store_result st r) = Inr s"
      "ss_seats (fst (store_result st r)) = (ss_seats st)(se_short s := Some (SeatFile s))"
proof (cases r)
  case (Inl e)
  then show ?thesis using refused [of e] by (simp add: store_result_def)
next
  case (Inr s)
  obtain failed rest where f: "take_failure (ss_writes st) = (failed, rest)"
    by (cases "take_failure (ss_writes st)")
  show ?thesis
  proof (cases failed)
    case True
    then show ?thesis using refused Inr f by (simp add: store_result_def store_seat_def Let_def)
  next
    case False
    then show ?thesis
      using stored Inr f by (simp add: store_result_def store_seat_def Let_def put_seat_def)
  qed
qed

lemma with_seat_cases:
  obtains (refused) e where "snd (with_seat st short f) = Inl e"
      "ss_seats (fst (with_seat st short f)) = ss_seats st"
  | (stored) s s' where "load_seat st short = Some s" "f (snd (lock_seat st)) s = Inr s'"
      "snd (with_seat st short f) = Inr s'"
      "ss_seats (fst (with_seat st short f)) = (ss_seats st)(se_short s' := Some (SeatFile s'))"
proof -
  have step: "with_seat st short f =
      (if \<not> fst (lock_seat st) then (snd (lock_seat st), Inl LockFailed)
       else case load_seat st short of
           None \<Rightarrow> (snd (lock_seat st), Inl (NoSeat short))
         | Some s \<Rightarrow> store_result (snd (lock_seat st)) (f (snd (lock_seat st)) s))"
    by (simp add: with_seat_def split_beta Let_def)
  consider "\<not> fst (lock_seat st)" | "fst (lock_seat st)" "load_seat st short = None"
    | s where "fst (lock_seat st)" "load_seat st short = Some s"
    by fastforce
  then show thesis
  proof cases
    case (3 s)
    then have eq: "with_seat st short f =
        store_result (snd (lock_seat st)) (f (snd (lock_seat st)) s)" by (simp add: step)
    show ?thesis
      by (rule store_result_cases [of "snd (lock_seat st)" "f (snd (lock_seat st)) s"])
        (use refused stored 3 in \<open>auto simp: eq\<close>)
  qed (use refused step in auto)
qed

section \<open>How one record may move\<close>

definition seat_inv :: "seat \<Rightarrow> bool" where
  "seat_inv s \<longleftrightarrow> (\<forall>p. se_phase s = Prepared p \<longrightarrow> pr_generation p = wrap_add (se_generation s) 1)"

definition pays_debt :: "seat \<Rightarrow> seat \<Rightarrow> bool" where
  "pays_debt s s' \<longleftrightarrow> (\<forall>d. se_displaced s = Some d \<longrightarrow> se_displaced s' = Some d \<or>
     (se_displaced s' = None \<and> eq_ignore_ascii_case (dp_agent d) (se_agent s')))"

definition evolves :: "seat \<Rightarrow> seat \<Rightarrow> bool" where
  "evolves s s' \<longleftrightarrow> se_short s' = se_short s \<and> pays_debt s s' \<and>
     (seat_inv s \<longrightarrow> seat_inv s' \<and>
        (se_generation s' = se_generation s \<or> se_generation s' = wrap_add (se_generation s) 1))"

inductive seat_moves :: "seat option \<Rightarrow> seat option \<Rightarrow> bool" where
  stays: "seat_moves x x"
| created: "se_short s = k \<Longrightarrow> seat_inv s \<Longrightarrow> seat_moves None (Some s)"
| changed: "evolves s s' \<Longrightarrow> seat_moves (Some s) (Some s')"

inductive_cases seat_moves_SomeE: "seat_moves (Some s) y"

lemma evolves_prepared: "prepared_seat s a m r c now = Inr s' \<Longrightarrow> evolves s s'"
  by (auto simp: prepared_seat_def evolves_def pays_debt_def seat_inv_def split: sum.splits unit.splits)

lemma owed_after_commit_debt:
  "se_displaced s = Some d \<Longrightarrow> owed_after_commit s p conv now = Some d \<or>
     (owed_after_commit s p conv now = None \<and> eq_ignore_ascii_case (dp_agent d) (pr_agent p))"
  by (simp add: owed_after_commit_def Let_def)

lemma evolves_committed:
  assumes "committed_seat s k g se conv now = Inr s'"
  shows "evolves s s'"
proof -
  from assms obtain p where p: "se_phase s = Prepared p" "pr_generation p = g"
    by (auto simp: committed_seat_def split: seat_phase.splits if_splits)
  have "pays_debt s s'" using assms p
    by (auto simp: committed_seat_def pays_debt_def dest: owed_after_commit_debt)
  then show ?thesis using assms p by (auto simp: committed_seat_def evolves_def seat_inv_def)
qed

lemma evolves_aborted: "aborted_seat s k g now = Inr s' \<Longrightarrow> evolves s s'"
  by (auto simp: aborted_seat_def evolves_def pays_debt_def seat_inv_def
      split: seat_phase.splits if_splits)

lemma evolves_updates:
  "evolves s (s\<lparr>se_phase := Parked u w r t, se_updated_at := now\<rparr>)"
  "evolves s (s\<lparr>se_phase := Idle, se_updated_at := now\<rparr>)"
  "evolves s (s\<lparr>se_pending := q, se_updated_at := now\<rparr>)"
  "evolves s (s\<lparr>se_session := a, se_agent := b, se_model := m, se_provider := p, se_updated_at := now\<rparr>)"
  by (simp_all add: evolves_def pays_debt_def seat_inv_def)

section \<open>Runs\<close>

datatype seat_op =
    SoRegister string string string "string option" string string bool
  | SoPrepare string string "string option" seat_runtime cause
  | SoCommit string u64 string
  | SoAbort string u64
  | SoPark string u64 string string
  | SoResume string
  | SoMark string cause
  | SoClear string
  | SoRecover string "u64 \<Rightarrow> string option"
  | SoConversation string string string string seat_runtime

fun apply_seat_op :: "seat_store \<Rightarrow> u64 \<times> seat_op \<Rightarrow> seat_store" where
  "apply_seat_op st (now, SoRegister k se a m pr ro pin) = fst (register st k se a m pr ro pin now)"
| "apply_seat_op st (now, SoPrepare k a m r c) = fst (prepare_onto st k a m r c now)"
| "apply_seat_op st (now, SoCommit k g se) = fst (commit st k g se now)"
| "apply_seat_op st (now, SoAbort k g) = fst (abort st k g now)"
| "apply_seat_op st (now, SoPark k u w r) = fst (park st k u w r now)"
| "apply_seat_op st (now, SoResume k) = fst (resume st k now)"
| "apply_seat_op st (now, SoMark k c) = fst (mark_pending st k c now)"
| "apply_seat_op st (now, SoClear k) = fst (clear_pending st k now)"
| "apply_seat_op st (now, SoRecover k alive) = fst (recover st k alive now)"
| "apply_seat_op st (now, SoConversation k a se c r) = record_conversation_on st k a se c r"

definition shorts_ok :: "seat_store \<Rightarrow> bool" where
  "shorts_ok st \<longleftrightarrow> (\<forall>k s. load_seat st k = Some s \<longrightarrow> se_short s = k \<and> seat_inv s)"

text \<open>A store on which a step let every record move as one record may.\<close>

definition store_moves :: "seat_store \<Rightarrow> seat_store \<Rightarrow> bool" where
  "store_moves st st' \<longleftrightarrow> (\<forall>k. seat_moves (load_seat st k) (load_seat st' k)) \<and> shorts_ok st'"

lemma load_seat_update:
  "ss_seats st' = (ss_seats st)(k := Some (SeatFile s)) \<Longrightarrow>
   load_seat st' j = (if j = k then Some s else load_seat st j)"
  by (simp add: load_seat_def)

lemma store_moves_same: "shorts_ok st \<Longrightarrow> ss_seats st' = ss_seats st \<Longrightarrow> store_moves st st'"
  by (simp add: store_moves_def shorts_ok_def load_seat_def stays)

lemma store_moves_update:
  assumes "shorts_ok st" "load_seat st k = Some s" "evolves s s'"
    "ss_seats st' = (ss_seats st)(se_short s' := Some (SeatFile s'))"
  shows "store_moves st st'"
proof -
  have k: "se_short s' = k" "seat_inv s'"
    using assms(1-3) by (auto simp: shorts_ok_def evolves_def)
  then show ?thesis
    using assms load_seat_update [OF assms(4)]
    by (auto simp: store_moves_def shorts_ok_def intro: stays changed)
qed

lemma with_seat_moves:
  assumes "shorts_ok st" "\<And>st1 s s'. f st1 s = Inr s' \<Longrightarrow> evolves s s'"
  shows "store_moves st (fst (with_seat st k f))"
  by (rule with_seat_cases [of st k f])
    (use assms store_moves_same store_moves_update in metis)+

lemma prepare_onto_fst:
  "fst (prepare_onto st k a m r c now) =
   fst (with_seat st k (\<lambda>_ s. prepared_seat s a m r c now))"
  by (simp add: prepare_onto_def split: prod.split sum.split)

lemma commit_moves: "shorts_ok st \<Longrightarrow> store_moves st (fst (commit st k g se now))"
  unfolding commit_def by (rule with_seat_moves) (auto intro: evolves_committed)

lemma abort_moves: "shorts_ok st \<Longrightarrow> store_moves st (fst (abort st k g now))"
  unfolding abort_def by (rule with_seat_moves) (auto intro: evolves_aborted)

lemma recover_fst:
  "fst (recover st k alive now) =
    (case load_seat st k of
       None \<Rightarrow> st
     | Some s \<Rightarrow>
         (case se_phase s of
            Prepared p \<Rightarrow>
              (case alive (pr_generation p) of
                 Some se \<Rightarrow> fst (commit st k (pr_generation p) se now)
               | None \<Rightarrow> fst (abort st k (pr_generation p) now))
          | _ \<Rightarrow> st))"
  by (auto simp: recover_def split: option.split seat_phase.split prod.split sum.split)

lemma register_moves:
  assumes "shorts_ok st"
  shows "store_moves st (fst (register st k se a m pr ro pin now))"
proof -
  let ?new = "case load_seat st k of
      Some s \<Rightarrow> s\<lparr>se_session := se, se_agent := a, se_model := m, se_provider := pr, se_updated_at := now\<rparr>
    | None \<Rightarrow> new_seat k se a m pr ro pin now"
  have eq: "fst (register st k se a m pr ro pin now) =
      (if \<not> fst (lock_seat st) then snd (lock_seat st)
       else fst (store_result (snd (lock_seat st)) (Inr ?new)))"
    by (simp add: register_def split_beta Let_def)
  show ?thesis
  proof (rule store_result_cases [of "snd (lock_seat st)" "Inr ?new"])
    fix s'
    assume s': "Inr ?new = Inr s'"
      and upd: "ss_seats (fst (store_result (snd (lock_seat st)) (Inr ?new))) =
        (ss_seats (snd (lock_seat st)))(se_short s' := Some (SeatFile s'))"
    show ?thesis
    proof (cases "load_seat st k")
      case (Some s)
      then have "evolves s s'" using s' by (auto simp: evolves_updates)
      then show ?thesis using eq assms upd store_moves_update [OF assms Some] store_moves_same
        by auto
    next
      case None
      then have n: "se_short s' = k" "seat_inv s'"
        using s' by (auto simp: new_seat_def seat_inv_def)
      have "store_moves st (fst (store_result (snd (lock_seat st)) (Inr ?new)))"
        using load_seat_update [OF upd] assms n None
        by (auto simp: store_moves_def shorts_ok_def intro: stays created)
      then show ?thesis using eq assms store_moves_same by auto
    qed
  qed (use eq assms store_moves_same in auto)
qed

lemma resume_moves:
  assumes "shorts_ok st"
  shows "store_moves st (fst (resume st k now))"
proof -
  have "fst (resume st k now) =
    (if \<not> fst (lock_seat st) then snd (lock_seat st)
     else case load_seat st k of
        None \<Rightarrow> snd (lock_seat st)
      | Some s \<Rightarrow> (case se_phase s of
           Parked _ _ _ _ \<Rightarrow> fst (store_result (snd (lock_seat st))
             (Inr (s\<lparr>se_phase := Idle, se_updated_at := now\<rparr>)))
         | _ \<Rightarrow> snd (lock_seat st)))"
    by (simp add: resume_def split_beta Let_def split: option.split seat_phase.split)
  moreover have "store_moves st (fst (store_result (snd (lock_seat st))
      (Inr (s\<lparr>se_phase := Idle, se_updated_at := now\<rparr>))))" if "load_seat st k = Some s" for s
    by (rule store_result_cases [of "snd (lock_seat st)" "Inr (s\<lparr>se_phase := Idle, se_updated_at := now\<rparr>)"])
      (use assms store_moves_same store_moves_update [OF assms that evolves_updates(2)] in auto)
  ultimately show ?thesis
    using assms store_moves_same by (auto split: option.split seat_phase.split)
qed

lemma conversation_seats: "ss_seats (record_conversation_on st k a se c r) = ss_seats st"
  by (simp add: record_conversation_on_def Let_def split_beta)

lemma seat_op_moves:
  assumes ok: "shorts_ok st"
  shows "store_moves st (apply_seat_op st (now, e))"
proof (cases e)
  case (SoPrepare k a m r c)
  then show ?thesis unfolding apply_seat_op.simps prepare_onto_fst SoPrepare
    by (intro with_seat_moves ok evolves_prepared)
next
  case (SoRecover k alive)
  then show ?thesis
    using commit_moves [OF ok] abort_moves [OF ok] store_moves_same [OF ok refl]
    by (simp add: recover_fst split: option.split seat_phase.split)
next
  case (SoPark k u w r)
  then show ?thesis unfolding apply_seat_op.simps SoPark park_def
    by (intro with_seat_moves ok) (auto simp: evolves_updates)
next
  case (SoMark k c)
  then show ?thesis unfolding apply_seat_op.simps SoMark mark_pending_def
    by (intro with_seat_moves ok) (auto simp: evolves_updates)
next
  case (SoClear k)
  then show ?thesis unfolding apply_seat_op.simps SoClear clear_pending_def
    by (intro with_seat_moves ok) (auto simp: evolves_updates)
qed (simp_all add: register_moves commit_moves abort_moves resume_moves ok
    store_moves_same conversation_seats)

definition run_seats :: "seat_store \<Rightarrow> (u64 \<times> seat_op) list \<Rightarrow> seat_store" where
  "run_seats = foldl apply_seat_op"

section \<open>Superseded for good\<close>

lemma run_seats_simps [simp]:
  "run_seats st [] = st" "run_seats st (x # xs) = run_seats (apply_seat_op st x) xs"
  by (simp_all add: run_seats_def)

lemma run_generation:
  assumes "shorts_ok st" "load_seat st k = Some s" "se_generation s + length ops \<le> u64_max"
  shows "\<exists>s'. load_seat (run_seats st ops) k = Some s' \<and>
    se_generation s \<le> se_generation s' \<and> se_generation s' \<le> se_generation s + length ops"
  using assms
proof (induction ops arbitrary: st s)
  case (Cons x ops)
  obtain now e where x: "x = (now, e)" by (cases x)
  have moves: "store_moves st (apply_seat_op st x)"
    unfolding x by (rule seat_op_moves [OF Cons.prems(1)])
  then have "seat_moves (Some s) (load_seat (apply_seat_op st x) k)" "shorts_ok (apply_seat_op st x)"
    using Cons.prems(2) by (auto simp: store_moves_def dest: spec [of _ k])
  moreover have "wrap_add (se_generation s) 1 = se_generation s + 1"
    using Cons.prems(3) by (intro wrap_add_exact) simp
  moreover have "seat_inv s" using Cons.prems(1,2) by (auto simp: shorts_ok_def)
  ultimately obtain s1 where s1: "load_seat (apply_seat_op st x) k = Some s1"
      "se_generation s1 = se_generation s \<or> se_generation s1 = se_generation s + 1"
    by (auto simp: evolves_def elim!: seat_moves_SomeE)
  then have "se_generation s1 + length ops \<le> u64_max" using Cons.prems(3) by auto
  from Cons.IH [OF \<open>shorts_ok (apply_seat_op st x)\<close> s1(1) this] s1(2) show ?case by auto
qed simp

text \<open>C2: Once a rollover has committed, the coordinator it replaced stays fenced off. Whatever
  registrations, rollovers, parks, recoveries and failures follow, in any order and by any
  process, a generation below the seat's is refused as superseded for as long as the record
  exists.\<close>

theorem superseded_forever:
  assumes "shorts_ok st" "load_seat st k = Some s" "g < se_generation s"
    and "se_generation s + length ops \<le> u64_max"
  shows "\<exists>e. guard (run_seats st ops) k g = Inl e \<and> sg_reason e = Superseded \<and>
           sg_presented e = g \<and> se_generation s \<le> sg_current e"
proof -
  obtain s' where "load_seat (run_seats st ops) k = Some s'" "se_generation s \<le> se_generation s'"
    using run_generation [OF assms(1,2,4)] by blast
  then show ?thesis using assms(3) by (simp add: guard_def authority_def)
qed

definition sample_seat :: seat where
  "sample_seat = (new_seat ''ab12cd34'' ''ab12cd34-ef'' ''claude'' None ''claude'' ''orchestrator'' False 10)
     \<lparr>se_generation := 3\<rparr>"

definition sample_seats :: seat_store where
  "sample_seats = put_seat ''ab12cd34'' (Some (SeatFile sample_seat))
     \<lparr>ss_seats = Map.empty, ss_markers = Map.empty, ss_locks = [], ss_writes = []\<rparr>"

lemma sample_load [simp]:
  "load_seat sample_seats k = (if k = ''ab12cd34'' then Some sample_seat else None)"
  by (simp add: load_seat_def sample_seats_def put_seat_def)

lemma sample_ok [simp]: "shorts_ok sample_seats"
  by (simp add: shorts_ok_def sample_seat_def new_seat_def seat_inv_def)

theorem superseded_forever_witness:
  "\<exists>e. guard (run_seats sample_seats
     [(20, SoPrepare ''ab12cd34'' ''codex'' None SrHarness Manual), (21, SoCommit ''ab12cd34'' 4 ''new''),
      (22, SoRegister ''ab12cd34'' ''x'' ''codex'' None ''codex'' ''orchestrator'' True)]) ''ab12cd34'' 2 = Inl e
     \<and> sg_reason e = Superseded"
  using superseded_forever [of sample_seats "''ab12cd34''" sample_seat 2
    "[(20, SoPrepare ''ab12cd34'' ''codex'' None SrHarness Manual), (21, SoCommit ''ab12cd34'' 4 ''new''),
      (22, SoRegister ''ab12cd34'' ''x'' ''codex'' None ''codex'' ''orchestrator'' True)]"]
  by (auto simp: sample_seat_def u64_max_def)

section \<open>The rollover protocol\<close>

lemma with_seat_InrD:
  assumes "with_seat st k f = (st', Inr s')" "shorts_ok st"
    and "\<And>st1 s s'. f st1 s = Inr s' \<Longrightarrow> se_short s' = se_short s"
  shows "\<exists>s. load_seat st k = Some s \<and> f (snd (lock_seat st)) s = Inr s' \<and>
    load_seat st' k = Some s'"
proof (rule with_seat_cases [of st k f])
  fix s s''
  assume a: "load_seat st k = Some s" "f (snd (lock_seat st)) s = Inr s''"
    "snd (with_seat st k f) = Inr s''"
    "ss_seats (fst (with_seat st k f)) = (ss_seats st)(se_short s'' := Some (SeatFile s''))"
  then have "s'' = s'" using assms(1) by simp
  moreover from a(1,2) assms(2,3) have "se_short s'' = k" by (auto simp: shorts_ok_def)
  moreover have "load_seat st' k = Some s''"
    using load_seat_update [OF a(4)] assms(1) calculation(2) by simp
  ultimately show ?thesis using a by auto
qed (use assms in simp)

lemma prepare_ontoD:
  assumes "prepare_onto st k a m r c now = (st', Inr g)" "shorts_ok st"
  shows "\<exists>s p. load_seat st k = Some s \<and> admissible s = Inr () \<and> g = wrap_add (se_generation s) 1 \<and>
    pr_generation p = g \<and> pr_agent p = a \<and> pr_cause p = c \<and> pr_model p = m \<and> pr_runtime p = r \<and>
    load_seat st' k = Some (s\<lparr>se_phase := Prepared p, se_updated_at := now\<rparr>) \<and> shorts_ok st'"
proof -
  from assms(1) obtain s' where w: "with_seat st k (\<lambda>_ s. prepared_seat s a m r c now) = (st', Inr s')"
      "g = reserved_generation (se_phase s')"
    by (auto simp: prepare_onto_def split: prod.splits sum.splits)
  have keep: "prepared_seat s a m r c now = Inr s' \<Longrightarrow> se_short s' = se_short s" for s s'
    using evolves_prepared by (simp add: evolves_def)
  from with_seat_InrD [OF w(1) assms(2) keep] obtain s where
    s: "load_seat st k = Some s" "prepared_seat s a m r c now = Inr s'" "load_seat st' k = Some s'"
    by blast
  moreover have "shorts_ok st'"
    using with_seat_moves [OF assms(2), of "\<lambda>_ s. prepared_seat s a m r c now" k] w(1)
      evolves_prepared by (auto simp: store_moves_def)
  moreover from s(2) have "admissible s = Inr ()" and s': "s' = s\<lparr>se_phase := Prepared
      \<lparr>pr_agent = a, pr_model = m, pr_runtime = r, pr_generation = wrap_add (se_generation s) 1,
       pr_since = now, pr_cause = c\<rparr>, se_updated_at := now\<rparr>"
    by (auto simp: prepared_seat_def split: sum.splits)
  ultimately show ?thesis using w(2) s
    by (intro exI [of _ s] exI [of _ "\<lparr>pr_agent = a, pr_model = m, pr_runtime = r,
        pr_generation = wrap_add (se_generation s) 1, pr_since = now, pr_cause = c\<rparr>"]) simp
qed

lemma commitD:
  assumes "commit st k g se now = (st', Inr s')" "shorts_ok st"
  shows "\<exists>s conv. load_seat st k = Some s \<and> committed_seat s k g se conv now = Inr s' \<and>
    load_seat st' k = Some s' \<and> shorts_ok st'"
proof -
  have keep: "committed_seat s k g se conv now = Inr s' \<Longrightarrow> se_short s' = se_short s" for s conv s'
    using evolves_committed by (simp add: evolves_def)
  have "shorts_ok st'" using commit_moves [OF assms(2), of k g se now] assms(1)
    by (simp add: store_moves_def)
  moreover obtain s where "load_seat st k = Some s" "committed_seat s k g se (native_conversation
      (snd (lock_seat st)) k (se_agent s) (se_session s) (se_runtime s)) now = Inr s'"
      "load_seat st' k = Some s'"
    using with_seat_InrD [OF assms(1) [unfolded commit_def] assms(2)] keep by metis
  ultimately show ?thesis by blast
qed

lemma abortD:
  assumes "abort st k g now = (st', Inr s')" "shorts_ok st"
  shows "\<exists>s. load_seat st k = Some s \<and> aborted_seat s k g now = Inr s' \<and>
    load_seat st' k = Some s' \<and> shorts_ok st'"
proof -
  have keep: "aborted_seat s k g now = Inr s' \<Longrightarrow> se_short s' = se_short s" for s s'
    using evolves_aborted by (simp add: evolves_def)
  have "shorts_ok st'" using abort_moves [OF assms(2), of k g now] assms(1)
    by (simp add: store_moves_def)
  then show ?thesis
    using with_seat_InrD [OF assms(1) [unfolded abort_def] assms(2) keep] by blast
qed

lemma committed_fields:
  assumes "committed_seat s k g se conv now = Inr s'"
  shows "se_generation s' = g" "se_phase s' = Idle" "se_session s' = se" "se_failures s' = 0"
    "\<exists>p. se_phase s = Prepared p \<and> pr_generation p = g \<and> se_agent s' = pr_agent p"
  using assms by (auto simp: committed_seat_def split: seat_phase.splits if_splits)

lemma aborted_fields:
  assumes "aborted_seat s k g now = Inr s'"
  shows "se_generation s' = se_generation s" "se_phase s' = Idle" "se_agent s' = se_agent s"
    "se_pinned s' = se_pinned s" "\<exists>p. se_phase s = Prepared p \<and> pr_generation p = g"
  using assms by (auto simp: aborted_seat_def split: seat_phase.splits if_splits)

definition may_write :: "seat_store \<Rightarrow> string \<Rightarrow> u64 \<Rightarrow> bool" where
  "may_write st k g \<longleftrightarrow> guard st k g = Inr ()"

lemma may_write_iff: "load_seat st k = Some s \<Longrightarrow> may_write st k g \<longleftrightarrow> g = se_generation s"
  by (simp add: may_write_def guard_def authority_def)

text \<open>C15: One writer through the whole handover. While a rollover is prepared the source
  generation alone may write and the successor may not; a commit hands the right to the
  successor and takes it from the source in one step; an abort leaves it with the source.\<close>

theorem rollover_has_one_writer:
  assumes "shorts_ok st" "load_seat st k = Some s" "se_generation s < u64_max"
    and "prepare_onto st k a m r c now = (st1, Inr g)"
  shows "(\<forall>x. may_write st1 k x \<longleftrightarrow> x = se_generation s) \<and> g = se_generation s + 1 \<and>
    (\<forall>se t st2 s2. commit st1 k g se t = (st2, Inr s2) \<longrightarrow> (\<forall>x. may_write st2 k x \<longleftrightarrow> x = g)) \<and>
    (\<forall>t st2 s2. abort st1 k g t = (st2, Inr s2) \<longrightarrow> (\<forall>x. may_write st2 k x \<longleftrightarrow> x = se_generation s))"
proof -
  obtain p where p: "g = wrap_add (se_generation s) 1" "shorts_ok st1"
      "load_seat st1 k = Some (s\<lparr>se_phase := Prepared p, se_updated_at := now\<rparr>)"
    using prepare_ontoD [OF assms(4,1)] assms(2) by auto
  have g: "g = se_generation s + 1" using p(1) assms(3) by (simp add: wrap_add_exact)
  have com: "may_write st2 k x \<longleftrightarrow> x = g" if "commit st1 k g se t = (st2, Inr s2)" for se t st2 s2 x
    using commitD [OF that p(2)] committed_fields(1) by (auto simp: may_write_iff)
  have abo: "may_write st2 k x \<longleftrightarrow> x = se_generation s" if "abort st1 k g t = (st2, Inr s2)" for t st2 s2 x
    using abortD [OF that p(2)] aborted_fields(1) p(3) by (auto simp: may_write_iff)
  have "may_write st1 k x \<longleftrightarrow> x = se_generation s" for x
    using may_write_iff [OF p(3)] by simp
  with com abo g show ?thesis by blast
qed

theorem rollover_has_one_writer_witness:
  "let st1 = fst (prepare_onto sample_seats ''ab12cd34'' ''codex'' None SrHarness Manual 20)
   in may_write st1 ''ab12cd34'' 3 \<and> \<not> may_write st1 ''ab12cd34'' 4"
proof -
  have gen: "se_generation sample_seat = 3" by (simp add: sample_seat_def)
  have ok: "snd (prepare_onto sample_seats ''ab12cd34'' ''codex'' None SrHarness Manual 20) = Inr 4"
    by (simp add: prepare_onto_def with_seat_def lock_seat_def take_failure_def sample_seats_def
        load_seat_def put_seat_def prepared_seat_def admissible_def sample_seat_def new_seat_def
        store_result_def store_seat_def Let_def wrap_add_def)
  then have "prepare_onto sample_seats ''ab12cd34'' ''codex'' None SrHarness Manual 20 =
      (fst (prepare_onto sample_seats ''ab12cd34'' ''codex'' None SrHarness Manual 20), Inr 4)"
    by (metis prod.collapse)
  from rollover_has_one_writer [OF sample_ok _ _ this] gen show ?thesis
    by (simp add: u64_max_def Let_def)
qed

text \<open>A transaction is decided once. After a commit or an abort has succeeded, neither can
  succeed again for any generation until the next prepare, and the failed attempt leaves every
  record as it was.\<close>

lemma rollover_is_decided_once:
  assumes "shorts_ok st"
    and "commit st k g se t = (st1, Inr s1) \<or> abort st k g t = (st1, Inr s1)"
  shows "(\<exists>e. snd (commit st1 k g' se' t') = Inl e) \<and> (\<exists>e. snd (abort st1 k g' t') = Inl e) \<and>
    ss_seats (fst (commit st1 k g' se' t')) = ss_seats st1 \<and>
    ss_seats (fst (abort st1 k g' t')) = ss_seats st1"
proof -
  have "load_seat st1 k = Some s1 \<and> se_phase s1 = Idle"
    using assms(2)
  proof
    assume "commit st k g se t = (st1, Inr s1)"
    from commitD [OF this assms(1)] show ?thesis using committed_fields(2) by blast
  next
    assume "abort st k g t = (st1, Inr s1)"
    from abortD [OF this assms(1)] show ?thesis using aborted_fields(2) by blast
  qed
  then have s1: "load_seat st1 k = Some s1" "se_phase s1 = Idle" by simp_all
  have "committed_seat s1 k g' se' conv t' = Inl (NothingPrepared k ''commit'')" for conv
    using s1(2) by (simp add: committed_seat_def)
  moreover have "aborted_seat s1 k g' t' = Inl (NothingPrepared k ''abort'')"
    using s1(2) by (simp add: aborted_seat_def)
  ultimately show ?thesis using s1(1)
    by (simp add: commit_def abort_def with_seat_def split_beta Let_def store_result_def)
qed

lemmas seat_eval =
  prepare_onto_def abort_def commit_def with_seat_def lock_seat_def take_failure_def load_seat_def
  put_seat_def prepared_seat_def admissible_def aborted_seat_def committed_seat_def
  store_result_def store_seat_def Let_def wrap_add_def sample_seats_def sample_seat_def new_seat_def

lemma rollover_is_decided_once_witness:
  "let st1 = fst (prepare_onto sample_seats ''ab12cd34'' ''codex'' None SrHarness Manual 20);
       st2 = fst (abort st1 ''ab12cd34'' 4 21)
   in \<exists>e. snd (commit st2 ''ab12cd34'' 4 ''late'' 22) = Inl e"
proof -
  let ?p1 = "prepare_onto sample_seats ''ab12cd34'' ''codex'' None SrHarness Manual 20"
  let ?p2 = "abort (fst ?p1) ''ab12cd34'' 4 21"
  have r: "snd ?p1 = Inr 4" "\<exists>s. snd ?p2 = Inr s" by (simp_all add: seat_eval)
  then obtain s2 where "?p1 = (fst ?p1, Inr 4)" "?p2 = (fst ?p2, Inr s2)" by (metis prod.collapse)
  then have "shorts_ok (fst ?p1)" using prepare_ontoD [OF _ sample_ok] by blast
  from rollover_is_decided_once [OF this disjI2 [OF \<open>?p2 = (fst ?p2, Inr s2)\<close>]] show ?thesis
    unfolding Let_def by blast
qed

text \<open>An aborted rollover gives its generation number back, and the next rollover is issued
  the same number. Once that one commits, a successor of the aborted attempt that is still
  running presents a generation the fence accepts: two processes hold the write right.\<close>

theorem aborted_generation_is_issued_again:
  assumes "shorts_ok st" "prepare_onto st k a m r c t0 = (st1, Inr g)"
    and "abort st1 k g t1 = (st2, Inr s2)"
    and "prepare_onto st2 k a' m' r' c' t2 = (st3, Inr g')"
    and "commit st3 k g' se t3 = (st4, Inr s4)"
  shows "g' = g \<and> may_write st4 k g"
proof -
  obtain s p where p: "g = wrap_add (se_generation s) 1" "shorts_ok st1"
      "load_seat st1 k = Some (s\<lparr>se_phase := Prepared p, se_updated_at := t0\<rparr>)"
    using prepare_ontoD [OF assms(2,1)] by blast
  then have a: "load_seat st2 k = Some s2" "shorts_ok st2" "se_generation s2 = se_generation s"
    using abortD [OF assms(3) p(2)] aborted_fields(1) by fastforce+
  have g': "g' = wrap_add (se_generation s2) 1" "shorts_ok st3"
    using prepare_ontoD [OF assms(4) a(2)] a(1) by auto
  have "load_seat st4 k = Some s4" "se_generation s4 = g'"
    using commitD [OF assms(5) g'(2)] committed_fields(1) by blast+
  then show ?thesis using p(1) a(3) g'(1) by (simp add: may_write_iff)
qed

theorem aborted_generation_is_issued_again_witness:
  "let k = ''ab12cd34'';
       st1 = fst (prepare_onto sample_seats k ''codex'' None SrHarness Manual 20);
       st2 = fst (abort st1 k 4 21);
       st3 = fst (prepare_onto st2 k ''gemini'' None SrHarness Manual 22);
       st4 = fst (commit st3 k 4 ''s'' 23)
   in may_write st4 k 4"
proof -
  let ?k = "''ab12cd34''"
  let ?p1 = "prepare_onto sample_seats ?k ''codex'' None SrHarness Manual 20"
  let ?p2 = "abort (fst ?p1) ?k 4 21"
  let ?p3 = "prepare_onto (fst ?p2) ?k ''gemini'' None SrHarness Manual 22"
  let ?p4 = "commit (fst ?p3) ?k 4 ''s'' 23"
  have r: "snd ?p1 = Inr 4" "\<exists>s. snd ?p2 = Inr s" "snd ?p3 = Inr 4" "\<exists>s. snd ?p4 = Inr s"
    by (simp_all add: seat_eval)
  then obtain s2 s4 where "snd ?p2 = Inr s2" "snd ?p4 = Inr s4" by blast
  with r have "?p1 = (fst ?p1, Inr 4)" "?p2 = (fst ?p2, Inr s2)" "?p3 = (fst ?p3, Inr 4)"
    "?p4 = (fst ?p4, Inr s4)" by (metis prod.collapse)+
  from aborted_generation_is_issued_again [OF sample_ok this] show ?thesis
    unfolding Let_def by blast
qed

section \<open>The displaced harness\<close>

text \<open>A seat that was rolled off a harness keeps owing it the return. Whatever operation runs,
  the recorded harness and its conversation stay exactly as first recorded, until a rollover
  moves the seat back onto that harness.\<close>

theorem only_coming_home_pays_the_debt:
  assumes "shorts_ok st" "load_seat st k = Some s" "se_displaced s = Some d"
  shows "\<exists>s'. load_seat (apply_seat_op st (now, e)) k = Some s' \<and>
    (se_displaced s' = Some d \<or>
     (se_displaced s' = None \<and> eq_ignore_ascii_case (dp_agent d) (se_agent s')))"
proof -
  have "seat_moves (Some s) (load_seat (apply_seat_op st (now, e)) k)"
    using seat_op_moves [OF assms(1), of now e] assms(2) by (auto simp: store_moves_def dest: spec [of _ k])
  then show ?thesis using assms(3)
    by (auto simp: evolves_def pays_debt_def elim!: seat_moves_SomeE)
qed

lemma load_seat_put [simp]:
  "load_seat (put_seat k (Some (SeatFile s)) st) j = (if j = k then Some s else load_seat st j)"
  by (simp add: load_seat_def put_seat_def)

definition owing_seat :: seat where
  "owing_seat = sample_seat\<lparr>se_displaced :=
     Some \<lparr>dp_agent = ''gemini'', dp_model = None, dp_session = ''g'', dp_conversation = Some ''c1'',
           dp_runtime = SrHarness, dp_since = 9\<rparr>\<rparr>"

definition owing_seats :: seat_store where
  "owing_seats = put_seat ''ab12cd34'' (Some (SeatFile owing_seat)) sample_seats"

lemma owing_ok: "shorts_ok owing_seats"
proof -
  have "se_short owing_seat = ''ab12cd34''" "seat_inv owing_seat"
    by (simp_all add: owing_seat_def sample_seat_def new_seat_def seat_inv_def)
  then show ?thesis by (simp add: shorts_ok_def owing_seats_def)
qed

theorem only_coming_home_pays_the_debt_witness:
  "\<exists>s'. load_seat (apply_seat_op owing_seats (30, SoPark ''ab12cd34'' 90 ''w'' ''r'')) ''ab12cd34'' = Some s' \<and>
    (se_displaced s' \<noteq> None \<or> eq_ignore_ascii_case ''gemini'' (se_agent s'))"
proof -
  have "load_seat owing_seats ''ab12cd34'' = Some owing_seat" by (simp add: owing_seats_def)
  moreover obtain d where "se_displaced owing_seat = Some d" "dp_agent d = ''gemini''"
    by (simp add: owing_seat_def)
  ultimately show ?thesis
    using only_coming_home_pays_the_debt [OF owing_ok] by (metis option.distinct(1))
qed

section \<open>Backoff\<close>

lemma backoff_delay_bounds: "60 \<le> backoff_delay cd n" "backoff_delay cd n \<le> 604800"
proof -
  have "60 * 1 \<le> max cd 60 * 2 ^ min (n - 1) 20"
    by (rule mult_le_mono) (simp_all add: Suc_le_eq)
  then show "60 \<le> backoff_delay cd n"
    by (simp add: backoff_delay_def sat_mul_def u64_max_def del: power_le_one_iff)
qed (simp add: backoff_delay_def)

lemma backoff_delay_mono: "m \<le> n \<Longrightarrow> backoff_delay cd m \<le> backoff_delay cd n"
proof -
  assume "m \<le> n"
  then have "(2::nat) ^ min (m - 1) 20 \<le> 2 ^ min (n - 1) 20"
    by (intro power_increasing) auto
  then have "max cd 60 * 2 ^ min (m - 1) 20 \<le> max cd 60 * 2 ^ min (n - 1) 20"
    by (intro mult_le_mono) simp_all
  then show ?thesis unfolding backoff_delay_def sat_mul_def by (intro min.mono) simp_all
qed

text \<open>A failed rollover is held back for at least a minute when no window reset is known, for
  longer the more attempts have failed, and never for more than a week: a week after the last
  attempt any reading newer than the failed one may try again.\<close>

theorem backoff_is_bounded:
  assumes "1 \<le> se_failures s" "se_last_rollover_at s = Some l" "l + 604800 \<le> u64_max"
  shows "(\<forall>now obs. now < l + 60 \<longrightarrow> failure_backoff_active s cd now obs None) \<and>
    (\<forall>now obs r. l + 604800 \<le> now \<and> (\<forall>f. se_failed_observed_at s = Some f \<longrightarrow> f < obs) \<longrightarrow>
       \<not> failure_backoff_active s cd now obs r) \<and>
    (\<forall>now obs n. failure_backoff_active s cd now obs None \<and> se_failures s \<le> n \<longrightarrow>
       failure_backoff_active (s\<lparr>se_failures := n\<rparr>) cd now obs None)"
proof -
  let ?d = "backoff_delay cd (se_failures s)"
  note b = backoff_delay_bounds [of cd]
  have sat: "sat_add l (backoff_delay cd n) = l + backoff_delay cd n" for n
    using b(2) [of n] assms(3) by (intro sat_add_exact) simp
  have hold: "failure_backoff_active s cd now obs None" if "now < l + 60" for now obs
    using that b(1) [of "se_failures s"] assms(1,2)
    by (simp add: failure_backoff_active_def retry_at_def sat)
  have release: "\<not> failure_backoff_active s cd now obs r"
    if "l + 604800 \<le> now" "\<forall>f. se_failed_observed_at s = Some f \<longrightarrow> f < obs" for now obs r
  proof -
    have "retry_at l ?d r \<le> l + 604800"
      using b(2) [of "se_failures s"] by (auto simp: retry_at_def sat split: option.split)
    then show ?thesis using that assms(1,2)
      by (auto simp: failure_backoff_active_def split: option.split)
  qed
  have mono: "failure_backoff_active (s\<lparr>se_failures := n\<rparr>) cd now obs None"
    if "failure_backoff_active s cd now obs None" "se_failures s \<le> n" for now obs n
    using that backoff_delay_mono [OF that(2), of cd] assms(1,2)
    by (auto simp: failure_backoff_active_def retry_at_def sat split: option.splits)
  show ?thesis using hold release mono by blast
qed

theorem backoff_is_bounded_witness:
  "failure_backoff_active (sample_seat\<lparr>se_failures := 2, se_last_rollover_at := Some 100\<rparr>) 600 130 5 None"
  using backoff_is_bounded [of "sample_seat\<lparr>se_failures := 2, se_last_rollover_at := Some 100\<rparr>" 100 600]
  by (simp add: u64_max_def)

section \<open>The fence carried in the environment\<close>

text \<open>The fence a child process carries in its environment agrees with the seat's own
  judgement. The generation printed into the environment parses back to the same number, and the
  environment check refuses exactly the supersessions the strict check refuses, with the same
  refusal; all it lets through beyond the strict check are successors not yet committed.\<close>

theorem environment_fence_agrees:
  assumes "se_generation child \<le> u64_max"
  shows "superseded_only (Some s) (Some (snd (generation_env child))) =
    (case authority s (se_generation child) of
       Inl e \<Rightarrow> if sg_reason e = Superseded then Inl e else Inr ()
     | Inr u \<Rightarrow> Inr ())"
  using assms by (simp add: superseded_only_def generation_env_def parse_show authority_def)

theorem environment_fence_agrees_witness:
  "superseded_only (Some sample_seat) (Some (snd (generation_env (sample_seat\<lparr>se_generation := 2\<rparr>))))
     \<noteq> Inr ()"
  using environment_fence_agrees [of "sample_seat\<lparr>se_generation := 2\<rparr>" sample_seat]
  by (simp add: u64_max_def authority_def sample_seat_def)

section \<open>Recovery\<close>

text \<open>Recovery decides an interrupted rollover. When it succeeds on a seat that was left
  prepared, the seat is idle again: on the successor's session and the reserved generation if
  the successor is alive, otherwise still on its own agent and generation with one more failed
  attempt counted.\<close>

theorem recovery_decides_the_rollover:
  assumes "shorts_ok st" "load_seat st k = Some s" "se_phase s = Prepared p"
    and "recover st k alive now = (st', Inr r)"
  shows "\<exists>s'. r = Some s' \<and> load_seat st' k = Some s' \<and> se_phase s' = Idle \<and>
    (case alive (pr_generation p) of
       Some se \<Rightarrow> se_session s' = se \<and> se_generation s' = pr_generation p \<and> se_agent s' = pr_agent p
     | None \<Rightarrow> se_agent s' = se_agent s \<and> se_generation s' = se_generation s \<and>
               se_failures s' = min u32_max (se_failures s + 1))"
proof (cases "alive (pr_generation p)")
  case None
  then obtain s' where s': "abort st k (pr_generation p) now = (st', Inr s')" "r = Some s'"
    using assms(2-4) by (auto simp: recover_def split: prod.splits sum.splits)
  from abortD [OF s'(1) assms(1)] assms(2) have
    "aborted_seat s k (pr_generation p) now = Inr s'" "load_seat st' k = Some s'" by auto
  then show ?thesis using None s'(2) assms(3) by (auto simp: aborted_seat_def)
next
  case (Some se)
  then obtain s' where s': "commit st k (pr_generation p) se now = (st', Inr s')" "r = Some s'"
    using assms(2-4) by (auto simp: recover_def split: prod.splits sum.splits)
  from commitD [OF s'(1) assms(1)] assms(2) obtain conv where
    "committed_seat s k (pr_generation p) se conv now = Inr s'" "load_seat st' k = Some s'" by auto
  then show ?thesis using Some s'(2) assms(3) by (auto simp: committed_seat_def)
qed

definition interrupted_seat :: seat where
  "interrupted_seat = sample_seat\<lparr>se_phase := Prepared \<lparr>pr_agent = ''codex'', pr_model = None,
     pr_runtime = SrHarness, pr_generation = 4, pr_since = 20, pr_cause = Manual\<rparr>\<rparr>"

theorem recovery_decides_the_rollover_witness:
  "let st = put_seat ''ab12cd34'' (Some (SeatFile interrupted_seat)) sample_seats
   in \<exists>s'. load_seat (fst (recover st ''ab12cd34'' (\<lambda>_. Some ''fresh'') 30)) ''ab12cd34'' = Some s' \<and>
        se_generation s' = 4"
proof -
  let ?st = "put_seat ''ab12cd34'' (Some (SeatFile interrupted_seat)) sample_seats"
  let ?p = "\<lparr>pr_agent = ''codex'', pr_model = None, pr_runtime = SrHarness, pr_generation = 4,
     pr_since = 20, pr_cause = Manual\<rparr>"
  have inv: "se_short interrupted_seat = ''ab12cd34''" "seat_inv interrupted_seat"
    by (simp_all add: interrupted_seat_def sample_seat_def new_seat_def seat_inv_def wrap_add_def)
  then have ok: "shorts_ok ?st" by (simp add: shorts_ok_def)
  have "\<exists>r. snd (recover ?st ''ab12cd34'' (\<lambda>_. Some ''fresh'') 30) = Inr r"
    by (simp add: recover_def seat_eval interrupted_seat_def)
  then obtain st' r where r: "recover ?st ''ab12cd34'' (\<lambda>_. Some ''fresh'') 30 = (st', Inr r)"
    by (metis prod.collapse)
  have ph: "se_phase interrupted_seat = Prepared ?p" by (simp add: interrupted_seat_def)
  from recovery_decides_the_rollover [OF ok _ ph r]
  have "\<exists>s'. load_seat st' ''ab12cd34'' = Some s' \<and> se_generation s' = 4" by auto
  then show ?thesis by (simp add: r Let_def)
qed

end
