(* ===== verification/Task_Command.thy ===== *)
theory Task_Command
  imports Task_Runs Seat "HOL-Library.Multiset"
begin

text \<open>
  The command line of the task log, \<open>src/commands/ctx/task.rs\<close>: the verbs behind the seat fence
  with their messages and exit codes, the swarm of cards that \<open>zirv ctx swarm\<close> lays out, the open
  cards of a handoff, and the task prompt of a worker with its bounded parent outcomes.

  The environment of the process, the current repository's slug and the identifiers a random
  source mints are arguments. Listing and showing cards is left out.
\<close>

section \<open>The fenced verbs\<close>

datatype command_error = FencedOff stale_generation | TaskFailed task_error

text \<open>The seat files with the two variables of the environment that the fence reads.\<close>

record fence_env =
  fe_seats :: seat_store
  fe_session :: "string option"
  fe_generation :: "string option"

definition fence :: "fence_env \<Rightarrow> stale_generation + unit" where
  "fence fe = guard_from_env (fe_seats fe) (fe_session fe) (fe_generation fe)"

definition behind_fence ::
    "fence_env \<Rightarrow> (task_logs \<Rightarrow> task_logs \<times> (task_error + 'r)) \<Rightarrow> task_logs
      \<Rightarrow> task_logs \<times> (command_error + 'r)" where
  "behind_fence fe act d =
     (case fence fe of
        Inl stale \<Rightarrow> (d, Inl (FencedOff stale))
      | Inr _ \<Rightarrow> (case act d of
            (d1, Inl e) \<Rightarrow> (d1, Inl (TaskFailed e))
          | (d1, Inr v) \<Rightarrow> (d1, Inr v)))"

text \<open>What a verb prints, with its exit code.\<close>

definition verb_report :: "string \<Rightarrow> string \<Rightarrow> string \<Rightarrow> (refusal + card) option \<Rightarrow> string \<times> int" where
  "verb_report i done_word cannot res =
     (case res of
        None \<Rightarrow> (''no task '' @ CHR 0x27 # i @ [CHR 0x27], 1)
      | Some (Inr _) \<Rightarrow> (done_word @ '' '' @ i, 0)
      | Some (Inl r) \<Rightarrow> (''cannot '' @ cannot @ '' '' @ i @ '': '' @ refusal_text r, 1))"

definition reporting ::
    "string \<Rightarrow> string \<Rightarrow> string \<Rightarrow> (task_logs \<Rightarrow> task_logs \<times> (task_error + (refusal + card) option))
      \<Rightarrow> task_logs \<Rightarrow> task_logs \<times> (task_error + string \<times> int)" where
  "reporting i done_word cannot act d =
     (case act d of
        (d1, Inl e) \<Rightarrow> (d1, Inl e)
      | (d1, Inr res) \<Rightarrow> (d1, Inr (verb_report i done_word cannot res)))"

definition claimant_here :: "processes \<Rightarrow> string \<Rightarrow> string \<Rightarrow> claimant" where
  "claimant_here os session host =
     \<lparr>who_session = session, who_pid = own_pid os,
      who_pid_start_time = process_start_secs os (own_pid os), who_host = host\<rparr>"

definition run_claim ::
    "fence_env \<Rightarrow> task_codec \<Rightarrow> processes \<Rightarrow> string \<Rightarrow> string \<Rightarrow> string \<Rightarrow> string \<Rightarrow> u64 option \<Rightarrow> u64
      \<Rightarrow> task_logs \<Rightarrow> task_logs \<times> (command_error + string \<times> int)" where
  "run_claim fe c os slug i session host ttl now =
     behind_fence fe (reporting i ''claimed'' ''claim''
       (claim_locked c os slug i (claimant_here os session host) now
          (case ttl of Some t \<Rightarrow> t | None \<Rightarrow> DEFAULT_CLAIM_TTL_SECS)))"

definition run_heartbeat ::
    "fence_env \<Rightarrow> task_codec \<Rightarrow> processes \<Rightarrow> string \<Rightarrow> string \<Rightarrow> string \<Rightarrow> u64
      \<Rightarrow> task_logs \<Rightarrow> task_logs \<times> (command_error + string \<times> int)" where
  "run_heartbeat fe c os slug i session now =
     behind_fence fe (reporting i ''heartbeat'' ''heartbeat''
       (with_task_lock c slug (heartbeat_decision os i session now)))"

definition run_complete ::
    "fence_env \<Rightarrow> task_codec \<Rightarrow> string \<Rightarrow> string \<Rightarrow> string \<Rightarrow> u64
      \<Rightarrow> task_logs \<Rightarrow> task_logs \<times> (command_error + string \<times> int)" where
  "run_complete fe c slug i outcome now =
     behind_fence fe (reporting i ''completed'' ''complete''
       (with_task_lock c slug (complete_decision i outcome now)))"

definition run_block ::
    "fence_env \<Rightarrow> task_codec \<Rightarrow> string \<Rightarrow> string \<Rightarrow> string \<Rightarrow> string option \<Rightarrow> u64
      \<Rightarrow> task_logs \<Rightarrow> task_logs \<times> (command_error + string \<times> int)" where
  "run_block fe c slug i reason whom now =
     behind_fence fe (reporting i ''blocked'' ''block''
       (with_task_lock c slug
          (block_decision i reason (case whom of Some w \<Rightarrow> w | None \<Rightarrow> ''operator'') now)))"

definition run_unblock ::
    "fence_env \<Rightarrow> task_codec \<Rightarrow> string \<Rightarrow> string \<Rightarrow> u64
      \<Rightarrow> task_logs \<Rightarrow> task_logs \<times> (command_error + string \<times> int)" where
  "run_unblock fe c slug i now =
     behind_fence fe (reporting i ''unblocked'' ''unblock''
       (with_task_lock c slug (unblock_decision i now)))"

definition run_comment ::
    "fence_env \<Rightarrow> task_codec \<Rightarrow> string \<Rightarrow> string \<Rightarrow> string \<Rightarrow> string option \<Rightarrow> u64
      \<Rightarrow> task_logs \<Rightarrow> task_logs \<times> (command_error + string \<times> int)" where
  "run_comment fe c slug i said whom now =
     behind_fence fe (reporting i ''commented on'' ''comment on''
       (with_task_lock c slug
          (comment_decision i (case whom of Some w \<Rightarrow> w | None \<Rightarrow> ''operator'') said now)))"

definition run_archive ::
    "fence_env \<Rightarrow> task_codec \<Rightarrow> string \<Rightarrow> string \<Rightarrow> u64
      \<Rightarrow> task_logs \<Rightarrow> task_logs \<times> (command_error + string \<times> int)" where
  "run_archive fe c slug i now =
     behind_fence fe (reporting i ''archived'' ''archive''
       (with_task_lock c slug (archive_decision i now)))"

definition run_create_card ::
    "fence_env \<Rightarrow> task_codec \<Rightarrow> nat \<Rightarrow> string \<Rightarrow> string \<Rightarrow> card_args \<Rightarrow> u64
      \<Rightarrow> task_logs \<Rightarrow> task_logs \<times> (command_error + string)" where
  "run_create_card fe c kept uuid slug a now = behind_fence fe (create_card c kept uuid slug a now)"

section \<open>Swarms\<close>

record swarm_ids =
  sw_root :: string
  sw_workers :: "string list"
  sw_verifier :: string
  sw_synthesizer :: string

definition swarm_card :: "string \<Rightarrow> string \<Rightarrow> string option \<Rightarrow> u64 \<Rightarrow> string \<Rightarrow> string \<Rightarrow> string list \<Rightarrow> created" where
  "swarm_card slug i group_id now title brief parents =
     \<lparr>cr_id = i, cr_repo_slug = slug, cr_title = title, cr_brief = brief, cr_parents = parents,
      cr_group = group_id, cr_workdir = None, cr_at = now\<rparr>"

text \<open>The \<open>k\<close>-th identifier minted is an argument.\<close>

definition build_swarm_events ::
    "(nat \<Rightarrow> string) \<Rightarrow> string \<Rightarrow> string \<Rightarrow> u32 \<Rightarrow> string option \<Rightarrow> u64
      \<Rightarrow> string + (created list \<times> swarm_ids)" where
  "build_swarm_events uuid scope slug workers group_id now =
     (if workers = 0 then Inl ''--workers must be at least 1''
      else
        let mint = (\<lambda>k. ''task-'' @ uuid k);
            card = swarm_card slug;
            root = mint 0;
            worker_ids = map (\<lambda>k. mint (Suc k)) [0 ..< workers];
            verifier = mint (workers + 1);
            synthesizer = mint (workers + 2)
        in Inr
          (card root group_id now (''swarm root: '' @ scope) scope [] #
           map (\<lambda>k. card (mint (Suc k)) group_id now
                  (scope @ '' -- worker '' @ show_nat (k + 1) @ ''/'' @ show_nat workers) scope [root])
             [0 ..< workers] @
           [card verifier group_id now (scope @ '' -- verify'')
              (''verify every worker'' @ CHR 0x27 # ''s result for: '' @ scope) worker_ids,
            card synthesizer group_id now (scope @ '' -- synthesize'')
              (''synthesize the verified results for: '' @ scope) [verifier]],
           \<lparr>sw_root = root, sw_workers = worker_ids, sw_verifier = verifier, sw_synthesizer = synthesizer\<rparr>))"

fun worker_lines :: "nat \<Rightarrow> string list \<Rightarrow> string list" where
  "worker_lines k [] = []"
| "worker_lines k (i # ids) = (''worker '' @ show_nat k @ '': '' @ i) # worker_lines (Suc k) ids"

definition run_swarm_with ::
    "fence_env \<Rightarrow> task_codec \<Rightarrow> (nat \<Rightarrow> string) \<Rightarrow> string \<Rightarrow> string \<Rightarrow> u32 \<Rightarrow> string option \<Rightarrow> u64
      \<Rightarrow> task_logs \<Rightarrow> task_logs \<times> (command_error + string list \<times> int)" where
  "run_swarm_with fe c uuid slug scope workers group_id now =
     behind_fence fe (\<lambda>d.
       case build_swarm_events uuid scope slug workers group_id now of
         Inl e \<Rightarrow> (d, Inr ([''swarm: '' @ e], 1))
       | Inr (creations, ids) \<Rightarrow>
           (case append_events_atomic c slug (map EvCreated creations) d of
              (d1, Inl e) \<Rightarrow> (d1, Inl e)
            | (d1, Inr _) \<Rightarrow> (d1, Inr ((''root: '' @ sw_root ids) # worker_lines 1 (sw_workers ids) @
                  [''verifier: '' @ sw_verifier ids, ''synthesizer: '' @ sw_synthesizer ids], 0))))"

section \<open>Open cards and the task prompt\<close>

definition open_reason :: "card \<Rightarrow> string" where
  "open_reason x =
     (case (cd_state x, cd_block x) of
        (StBlocked, Some b) \<Rightarrow> bl_reason b
      | (StTodo, _) \<Rightarrow> ''waiting on parents''
      | (StReady, _) \<Rightarrow> ''not yet claimed''
      | (StRunning, _) \<Rightarrow> ''in progress''
      | (StReview, _) \<Rightarrow> ''awaiting review''
      | (StBlocked, None) \<Rightarrow> ''blocked''
      | _ \<Rightarrow> [])"

definition open_card_lines :: "task_codec \<Rightarrow> task_logs \<Rightarrow> string \<Rightarrow> string list" where
  "open_card_lines c d slug =
     map (\<lambda>x. ''task:'' @ cd_id x @ '' '' @ task_state_text (cd_state x) @ '' -- '' @ open_reason x)
       (filter (\<lambda>x. cd_state x \<notin> {StDone, StArchived}) (map snd (load_cards c d slug)))"

definition parent_line :: "card \<Rightarrow> string" where
  "parent_line p =
     ''- '' @ cd_id p @ '' ('' @ cd_title p @ ''): '' @
     (case cd_outcome p of Some oc \<Rightarrow> oc | None \<Rightarrow> ''(no outcome recorded)'') @ [newline]"

text \<open>Most recently updated first; the sort is stable. A length in bytes is one in characters here.\<close>

definition by_recency :: "card list \<Rightarrow> card list" where
  "by_recency = sort_key (\<lambda>p. - int (cd_updated_at p))"

record prompt_fill =
  pf_out :: string
  pf_spent :: nat
  pf_cut :: bool
  pf_omitted :: nat
  pf_omitted_bytes :: nat

definition fill_line :: "nat \<Rightarrow> prompt_fill \<Rightarrow> string \<Rightarrow> prompt_fill" where
  "fill_line budget f line =
     (if \<not> pf_cut f \<and> pf_spent f + length line \<le> budget
      then f\<lparr>pf_spent := pf_spent f + length line, pf_out := pf_out f @ line\<rparr>
      else f\<lparr>pf_cut := True, pf_omitted := pf_omitted f + 1,
             pf_omitted_bytes := pf_omitted_bytes f + length line\<rparr>)"

definition filled :: "nat \<Rightarrow> string list \<Rightarrow> prompt_fill" where
  "filled budget ls = foldl (fill_line budget)
     \<lparr>pf_out = [], pf_spent = 0, pf_cut = False, pf_omitted = 0, pf_omitted_bytes = 0\<rparr> ls"

definition compile_task_prompt :: "card \<Rightarrow> card list \<Rightarrow> nat \<Rightarrow> string" where
  "compile_task_prompt x parents budget =
     newline # newline # ''## TASK CARD '' @ cd_id x @ [newline] @ cd_brief x @ [newline] @
     (if parents = [] then []
      else let f = filled budget (map parent_line (by_recency parents)) in
        newline # ''## PARENT OUTCOMES'' @ [newline] @ pf_out f @
        (if 0 < pf_omitted f
         then ''- [truncated '' @ show_nat (pf_omitted_bytes f) @ '' bytes: '' @
              show_nat (pf_omitted f) @ '' older parent outcome(s) omitted to fit the '' @
              show_nat budget @ '' byte budget]'' @ [newline]
         else []))"

section \<open>The fence\<close>

lemma fenced_off:
  assumes "fence fe = Inl stale"
  shows "behind_fence fe act d = (d, Inl (FencedOff stale))"
  using assms by (simp add: behind_fence_def)

lemma superseded_fence:
  assumes "shorts_ok st" "load_seat st (short_id session) = Some s" "g < se_generation s"
    and "se_generation s + length ops \<le> u64_max" "g \<le> u64_max"
  shows "\<exists>e. fence \<lparr>fe_seats = run_seats st ops, fe_session = Some session, fe_generation = Some (show_nat g)\<rparr> = Inl e \<and>
    sg_reason e = Superseded \<and> sg_presented e = g"
proof -
  obtain s1 where "load_seat (run_seats st ops) (short_id session) = Some s1" "se_generation s \<le> se_generation s1"
    using run_generation [OF assms(1,2,4)] by blast
  then show ?thesis using assms(3) parse_show [OF assms(5)]
    by (simp add: fence_def guard_from_env_def superseded_only_def)
qed

text \<open>C37: A superseded coordinator can no longer touch the task board. Once the seat has moved past the
  generation a process carries in its environment, then after any further operations on the seat
  every mutating task command of that process is refused as superseded and leaves every log
  exactly as it was: claiming, completing, blocking, archiving, creating a card and laying out a
  swarm alike.\<close>

theorem superseded_coordinator_cannot_touch_tasks:
  assumes "shorts_ok st" "load_seat st (short_id session) = Some s" "g < se_generation s"
    and "se_generation s + length ops \<le> u64_max" "g \<le> u64_max"
    and "fe = \<lparr>fe_seats = run_seats st ops, fe_session = Some session, fe_generation = Some (show_nat g)\<rparr>"
  shows "\<exists>e. sg_reason e = Superseded \<and> sg_presented e = g \<and>
    run_claim fe c os slug i claimer host ttl now d = (d, Inl (FencedOff e)) \<and>
    run_heartbeat fe c os slug i claimer now d = (d, Inl (FencedOff e)) \<and>
    run_complete fe c slug i outcome now d = (d, Inl (FencedOff e)) \<and>
    run_block fe c slug i reason whom now d = (d, Inl (FencedOff e)) \<and>
    run_unblock fe c slug i now d = (d, Inl (FencedOff e)) \<and>
    run_comment fe c slug i said whom now d = (d, Inl (FencedOff e)) \<and>
    run_archive fe c slug i now d = (d, Inl (FencedOff e)) \<and>
    run_create_card fe c kept uuid slug a now d = (d, Inl (FencedOff e)) \<and>
    run_swarm_with fe c mint slug scope workers group_id now d = (d, Inl (FencedOff e))"
proof -
  obtain e where e: "fence fe = Inl e" "sg_reason e = Superseded" "sg_presented e = g"
    using superseded_fence [OF assms(1-5)] assms(6) by blast
  then show ?thesis
    by (intro exI [of _ e])
      (simp add: run_claim_def run_heartbeat_def run_complete_def run_block_def run_unblock_def
        run_comment_def run_archive_def run_create_card_def run_swarm_with_def fenced_off [OF e(1)])
qed

theorem superseded_coordinator_cannot_touch_tasks_witness:
  "\<exists>e. run_complete \<lparr>fe_seats = run_seats sample_seats [], fe_session = Some ''ab12cd34-old'',
       fe_generation = Some (show_nat 2)\<rparr> sample_codec ''repo'' ''p'' ''done'' 9 empty_dir =
     (empty_dir, Inl (FencedOff e))"
proof -
  have short: "short_id ''ab12cd34-old'' = ''ab12cd34''" by code_simp
  have "load_seat sample_seats (short_id ''ab12cd34-old'') = Some sample_seat" by (simp add: short)
  from superseded_coordinator_cannot_touch_tasks [OF sample_ok this _ _ _ refl, of 2 "[]",
      where c = sample_codec and slug = "''repo''" and i = "''p''" and outcome = "''done''" and now = 9
        and d = empty_dir]
  show ?thesis by (simp add: sample_seat_def u64_max_def del: show_nat.simps) blast
qed

section \<open>The layout of a swarm\<close>

lemma build_swarm_Inr:
  assumes "build_swarm_events uuid scope slug n group_id now = Inr (creations, ids)"
  shows "0 < n" "sw_root ids = ''task-'' @ uuid 0"
    "sw_workers ids = map (\<lambda>k. ''task-'' @ uuid (Suc k)) [0 ..< n]"
    "sw_verifier ids = ''task-'' @ uuid (n + 1)" "sw_synthesizer ids = ''task-'' @ uuid (n + 2)"
    "map (\<lambda>e. (cr_id e, cr_parents e)) creations =
       (sw_root ids, []) # map (\<lambda>w. (w, [sw_root ids])) (sw_workers ids) @
       [(sw_verifier ids, sw_workers ids), (sw_synthesizer ids, [sw_verifier ids])]"
  using assms by (auto simp: build_swarm_events_def swarm_card_def Let_def split: if_splits)

text \<open>Folding creations of distinct, unknown cards adds exactly those cards.\<close>

lemma fold_creations:
  assumes "distinct (map cr_id es)" "\<forall>e\<in>set es. card_of cs (cr_id e) = None"
  shows "card_of (foldl fold_event cs (map EvCreated es)) i =
    (case find (\<lambda>e. cr_id e = i) es of Some e \<Rightarrow> Some (fresh_card e) | None \<Rightarrow> card_of cs i)"
  using assms
proof (induction es arbitrary: cs)
  case (Cons e es)
  let ?cs1 = "insert_card (cr_id e) (fresh_card e) cs"
  have cs1: "card_of ?cs1 j = (if j = cr_id e then Some (fresh_card e) else card_of cs j)" for j
    using Cons.prems(2) by (simp add: card_of_insert)
  have "\<forall>x\<in>set es. card_of ?cs1 (cr_id x) = None"
    using Cons.prems cs1 by (metis image_eqI distinct.simps(2) list.set_intros(2) list.set_map list.simps(9))
  then have ih: "card_of (foldl fold_event ?cs1 (map EvCreated es)) i =
      (case find (\<lambda>e. cr_id e = i) es of Some e \<Rightarrow> Some (fresh_card e) | None \<Rightarrow> card_of ?cs1 i)"
    using Cons.IH [of ?cs1] Cons.prems(1) by simp
  show ?case
  proof (cases "cr_id e = i")
    case True
    have "cr_id e \<notin> cr_id ` set es" using Cons.prems(1) by simp
    then have "find (\<lambda>e. cr_id e = i) es = None"
      unfolding find_None_iff using True by (metis image_eqI)
    then show ?thesis using ih True cs1 Cons.prems(2) by simp
  next
    case False
    then show ?thesis using ih cs1 Cons.prems(2) by (simp split: option.split)
  qed
qed simp

lemma swarm_positions:
  "map f [0 ..< n + 3] = f 0 # map (\<lambda>k. f (Suc k)) [0 ..< n] @ [f (Suc n), f (Suc (Suc n))]"
proof -
  have "map f [0 ..< n + 3] = map f [0 ..< Suc (Suc (Suc n))]" by (simp add: eval_nat_numeral)
  also have "\<dots> = f 0 # map (\<lambda>k. f (Suc k)) [0 ..< Suc (Suc n)]" by (rule map_upt_Suc)
  finally show ?thesis by simp
qed

text \<open>A swarm is laid out whole and runs in order. When the batch is written, the board gains
  exactly the root, the workers, the verifier and the synthesizer: the root is ready at once, the
  workers wait for the root, the verifier for every worker, the synthesizer for the verifier, and
  no other card changes. When the batch is not written, nothing changes; a swarm without workers
  is refused before anything is written.\<close>

theorem swarm_is_laid_out_whole:
  assumes "lawful c" "build_swarm_events uuid scope slug n group_id now = Inr (creations, ids)"
    and "inj uuid" "\<forall>e\<in>set creations. card_of (load_cards c d slug) (cr_id e) = None"
    and "append_events_atomic c slug (map EvCreated creations) d = (d1, r)"
  shows "case r of
      Inl e \<Rightarrow> load_cards c d1 = load_cards c d
    | Inr _ \<Rightarrow>
        map_option (\<lambda>x. (cd_state x, cd_parents x)) (card_of (load_cards c d1 slug) (sw_root ids)) = Some (StReady, []) \<and>
        (\<forall>w\<in>set (sw_workers ids). map_option (\<lambda>x. (cd_state x, cd_parents x)) (card_of (load_cards c d1 slug) w) =
           Some (StTodo, [sw_root ids])) \<and>
        map_option (\<lambda>x. (cd_state x, cd_parents x)) (card_of (load_cards c d1 slug) (sw_verifier ids)) =
           Some (StTodo, sw_workers ids) \<and>
        map_option (\<lambda>x. (cd_state x, cd_parents x)) (card_of (load_cards c d1 slug) (sw_synthesizer ids)) =
           Some (StTodo, [sw_verifier ids]) \<and>
        length (sw_workers ids) = n \<and>
        (\<forall>i. i \<in> insert (sw_root ids) (insert (sw_verifier ids) (insert (sw_synthesizer ids) (set (sw_workers ids)))) \<or>
           card_of (load_cards c d1 slug) i = card_of (load_cards c d slug) i)"
  using assms(5) unfolding append_events_atomic_def
proof (cases rule: under_lock_cases)
  case refused
  then show ?thesis using load_files [of d1 d c] by simp
next
  case (entered d')
  have l: "load_cards c d' = load_cards c d" using entered(1) by (rule load_files)
  note b = build_swarm_Inr [OF assms(2)]
  have shape: "map cr_id creations = sw_root ids # sw_workers ids @ [sw_verifier ids, sw_synthesizer ids]"
    using arg_cong [OF b(6), of "map fst"] by (simp add: comp_def)
  have "map cr_id creations = map (\<lambda>k. ''task-'' @ uuid k) [0 ..< n + 3]"
    unfolding shape b(2-5) by (simp add: swarm_positions)
  then have dist: "distinct (map cr_id creations)"
    using assms(3) by (simp add: distinct_map inj_on_def)
  from entered(2) show ?thesis
  proof (cases rule: write_batch_cases)
    case (failed e)
    then show ?thesis using l load_files [of d1 d' c] by simp
  next
    case written
    have at: "card_of (load_cards c d1 slug) i =
        (case find (\<lambda>e. cr_id e = i) creations of Some e \<Rightarrow> Some (fresh_card e) | None \<Rightarrow> card_of (load_cards c d slug) i)" for i
      using load_after_batch [OF assms(1) written(2)] fold_creations [OF dist assms(4)] l by simp
    have found: "map_option (\<lambda>x. (cd_state x, cd_parents x)) (card_of (load_cards c d1 slug) i) =
        Some (if ps = [] then StReady else StTodo, ps)"
      if known: "(i, ps) \<in> set (map (\<lambda>e. (cr_id e, cr_parents e)) creations)" for i ps
    proof -
      obtain e where e: "e \<in> set creations" "cr_id e = i" "cr_parents e = ps" using known by auto
      then obtain e' where f: "find (\<lambda>e. cr_id e = i) creations = Some e'"
        by (cases "find (\<lambda>e. cr_id e = i) creations") (auto simp: find_None_iff)
      then have "e' \<in> set creations" "cr_id e' = i" by (auto simp: find_Some_iff)
      then have "e' = e" using e dist by (metis distinct_map inj_onD)
      then show ?thesis using at [of i] f e(3) by (simp add: fresh_card_def)
    qed
    have other: "card_of (load_cards c d1 slug) i = card_of (load_cards c d slug) i"
      if "i \<notin> set (map cr_id creations)" for i
    proof -
      have "find (\<lambda>e. cr_id e = i) creations = None" using that by (auto simp: find_None_iff)
      then show ?thesis using at by simp
    qed
    have ws: "sw_workers ids \<noteq> []" using b(1,3) by simp
    have len: "length (sw_workers ids) = n" by (simp add: b(3))
    have root: "(sw_root ids, []) \<in> set (map (\<lambda>e. (cr_id e, cr_parents e)) creations)"
      and ver: "(sw_verifier ids, sw_workers ids) \<in> set (map (\<lambda>e. (cr_id e, cr_parents e)) creations)"
      and syn: "(sw_synthesizer ids, [sw_verifier ids]) \<in> set (map (\<lambda>e. (cr_id e, cr_parents e)) creations)"
      and work: "\<forall>w\<in>set (sw_workers ids).
        (w, [sw_root ids]) \<in> set (map (\<lambda>e. (cr_id e, cr_parents e)) creations)"
      unfolding b(6) by auto
    have rest: "\<forall>i. i \<in> insert (sw_root ids) (insert (sw_verifier ids) (insert (sw_synthesizer ids) (set (sw_workers ids)))) \<or>
        card_of (load_cards c d1 slug) i = card_of (load_cards c d slug) i"
      using other unfolding shape by fastforce
    have workers: "\<forall>w\<in>set (sw_workers ids).
        map_option (\<lambda>x. (cd_state x, cd_parents x)) (card_of (load_cards c d1 slug) w) =
          Some (StTodo, [sw_root ids])"
      using found [OF bspec [OF work]] by simp
    show ?thesis unfolding written(1) sum.case
      using found [OF root] found [OF ver] found [OF syn] workers ws len rest
      by (intro conjI) (simp_all only: if_False if_True list.distinct simp_thms)
  qed
qed

text \<open>The identifiers of the example: a run of as many dashes as were minted before.\<close>

definition dashes :: "nat \<Rightarrow> string" where
  "dashes k = replicate k (CHR ''-'')"

theorem swarm_is_laid_out_whole_witness:
  "map_option cd_parents (card_of (load_cards sample_codec (fst (append_events_atomic sample_codec ''repo''
      (map EvCreated (fst (projr (build_swarm_events dashes ''s'' ''repo'' 2 None 5)))) empty_dir)) ''repo'')
      ''task----'') = Some [''task--'', ''task---'']"
proof -
  obtain creations ids where b: "build_swarm_events dashes ''s'' ''repo'' 2 None 5 = Inr (creations, ids)"
    by (simp add: build_swarm_events_def Let_def)
  have shape: "sw_verifier ids = ''task----''" "sw_workers ids = [''task--'', ''task---'']"
    using build_swarm_Inr(3,4) [OF b] by (simp_all add: dashes_def eval_nat_numeral)
  have "inj dashes" unfolding dashes_def inj_def by (metis length_replicate)
  moreover have "append_events_atomic sample_codec ''repo'' (map EvCreated creations) empty_dir =
      (fst (append_events_atomic sample_codec ''repo'' (map EvCreated creations) empty_dir), Inr ())"
    by (simp add: append_events_atomic_def under_lock_def acquire_lock_def take_failure_def empty_dir_def
        write_events_atomic_locked_def saving_def write_private_def)
  ultimately show ?thesis
    using swarm_is_laid_out_whole [OF sample_codec_lawful b, of empty_dir
        "fst (append_events_atomic sample_codec ''repo'' (map EvCreated creations) empty_dir)" "Inr ()"] b shape
    by (auto simp: load_cards_def read_events_def held_def empty_dir_def materialize_def card_of_def)
qed

section \<open>The parent outcomes of a prompt\<close>

lemma filled_snoc: "filled budget (ls @ [l]) = fill_line budget (filled budget ls) l"
  by (simp add: filled_def)

lemma filled_spec:
  "\<exists>k\<le>length ls. filled budget ls =
     \<lparr>pf_out = concat (take k ls), pf_spent = length (concat (take k ls)), pf_cut = (k < length ls),
      pf_omitted = length ls - k, pf_omitted_bytes = length (concat (drop k ls))\<rparr> \<and>
     length (concat (take k ls)) \<le> budget \<and>
     (k = length ls \<or> budget < length (concat (take (Suc k) ls)))"
proof (induction ls rule: rev_induct)
  case Nil
  then show ?case by (simp add: filled_def)
next
  case (snoc l ls)
  then obtain k where k: "k \<le> length ls" "filled budget ls =
     \<lparr>pf_out = concat (take k ls), pf_spent = length (concat (take k ls)), pf_cut = (k < length ls),
      pf_omitted = length ls - k, pf_omitted_bytes = length (concat (drop k ls))\<rparr>"
     "length (concat (take k ls)) \<le> budget"
     "k = length ls \<or> budget < length (concat (take (Suc k) ls))" by blast
  show ?case
  proof (cases "k = length ls \<and> length (concat ls) + length l \<le> budget")
    case True
    then show ?thesis using k by (intro exI [of _ "Suc k"]) (simp add: filled_snoc fill_line_def)
  next
    case False
    then show ?thesis using k
      by (intro exI [of _ k]) (auto simp: filled_snoc fill_line_def Suc_diff_le)
  qed
qed

text \<open>The prior prose a worker is given is bounded and honestly cut. However many ancestors a
  card has and however long their outcomes, the outcomes quoted take at most the configured number
  of characters; they are the most recently updated ones, in order of recency, as many as fit
  before the first that does not; and when any is left out, a single line says exactly how many
  and how long they were.\<close>

theorem task_prompt_is_bounded_and_honest:
  assumes "parents \<noteq> []" "ls = map parent_line (by_recency parents)"
  shows "\<exists>k\<le>length ls.
    compile_task_prompt x parents budget =
      newline # newline # ''## TASK CARD '' @ cd_id x @ [newline] @ cd_brief x @ [newline] @
      newline # ''## PARENT OUTCOMES'' @ [newline] @ concat (take k ls) @
      (if k < length ls
       then ''- [truncated '' @ show_nat (length (concat (drop k ls))) @ '' bytes: '' @
            show_nat (length ls - k) @ '' older parent outcome(s) omitted to fit the '' @
            show_nat budget @ '' byte budget]'' @ [newline]
       else []) \<and>
    length (concat (take k ls)) \<le> budget \<and>
    (k = length ls \<or> budget < length (concat (take (Suc k) ls))) \<and>
    sorted_wrt (\<ge>) (map cd_updated_at (by_recency parents)) \<and>
    mset (by_recency parents) = mset parents"
proof -
  obtain k where k: "k \<le> length ls" "filled budget ls =
     \<lparr>pf_out = concat (take k ls), pf_spent = length (concat (take k ls)), pf_cut = (k < length ls),
      pf_omitted = length ls - k, pf_omitted_bytes = length (concat (drop k ls))\<rparr>"
     "length (concat (take k ls)) \<le> budget"
     "k = length ls \<or> budget < length (concat (take (Suc k) ls))"
    using filled_spec [of ls budget] by blast
  have "sorted (map (\<lambda>p. - int (cd_updated_at p)) (by_recency parents))"
    by (simp add: by_recency_def)
  then have "sorted_wrt (\<ge>) (map cd_updated_at (by_recency parents))"
    by (simp add: sorted_wrt_map)
  moreover have "mset (by_recency parents) = mset parents" by (simp add: by_recency_def)
  moreover have "0 < length ls - k \<longleftrightarrow> k < length ls" by auto
  ultimately show ?thesis using k assms
    by (intro exI [of _ k]) (simp add: compile_task_prompt_def Let_def)
qed

theorem task_prompt_is_bounded_and_honest_witness:
  "\<exists>k\<le>1. length (concat (take k (map parent_line (by_recency [sample_claimed])))) \<le> 10"
  using task_prompt_is_bounded_and_honest [of "[sample_claimed]" _ sample_claimed 10, OF _ refl]
  by (auto simp: by_recency_def simp del: map_eq_conv)

end
