(* ===== verification/Permit.thy ===== *)
theory Permit
  imports Seat Safety_Policy
begin

text \<open>
  The machine-wide permits, \<open>src/commands/ctx/permit.rs\<close>: the pool of heavy operations and the pool
  of writers, each a directory of numbered slot files claimed by exclusive creation, the exclusive
  claim of a checkout that a writer takes first, the sweep of slots whose owners died, and the
  release of a permit.

  Exclusive creation may be refused by the file system, or fail after the file exists and leave a
  torn one: a schedule of outcomes, one per attempt. The order in which a directory lists its
  entries, which torn files are older than the grace period, what the operating system says of
  the owners, and the hash that names a checkout's claim file are arguments. Removing a file is
  taken to work, and paths are ASCII, whose lower case is the lower case of its letters.
\<close>

section \<open>Data\<close>

datatype permit_kind = Heavy | Writer

record permit_record =
  pm_pid :: u32
  pm_pid_start_time :: "u64 option"
  pm_child_pid :: "u32 option"
  pm_child_start_time :: "u64 option"
  pm_label :: string
  pm_acquired_at :: u64
  pm_kind :: permit_kind
  pm_tree :: "string option"

datatype creation = Created | Declined | TornCreation

record slots =
  sl_files :: "string \<Rightarrow> permit_record stored option"
  sl_creations :: "creation list"

definition put_slot :: "string \<Rightarrow> permit_record stored option \<Rightarrow> slots \<Rightarrow> slots" where
  "put_slot path f s = s\<lparr>sl_files := (sl_files s)(path := f)\<rparr>"

interpretation slot_files: keyed_store sl_files put_slot
  by unfold_locales (simp add: put_slot_def)

definition BUILTIN_HEAVY_PATTERNS :: "string list" where
  "BUILTIN_HEAVY_PATTERNS =
     [''cargo build*'', ''cargo test*'', ''cargo nextest*'', ''cargo clippy*'', ''cargo package*'',
      ''cargo publish*'', ''npx --yes hyperframes@* render'', ''npx --yes hyperframes@* render *'',
      ''npx hyperframes render*'', ''hyperframes render*'']"

text \<open>The executable segments of the command come from the safety analysers.\<close>

definition is_heavy :: "string list \<Rightarrow> string list \<Rightarrow> bool" where
  "is_heavy segments extra_patterns =
     list_ex (\<lambda>candidate. list_ex (\<lambda>pattern. glob_match pattern candidate = Some True)
       (BUILTIN_HEAVY_PATTERNS @ extra_patterns)) segments"

section \<open>Liveness\<close>

definition permit_record_is_alive_with :: "processes \<Rightarrow> permit_record \<Rightarrow> u64 option \<Rightarrow> u64 option \<Rightarrow> bool" where
  "permit_record_is_alive_with os r parent_start child_start =
     (pid_is_owner os (pm_pid r) (pm_pid_start_time r) parent_start \<or>
      (case pm_child_pid r of None \<Rightarrow> False
       | Some pid \<Rightarrow> pid_is_owner os pid (pm_child_start_time r) child_start))"

definition permit_record_is_alive :: "processes \<Rightarrow> permit_record \<Rightarrow> bool" where
  "permit_record_is_alive os r =
     permit_record_is_alive_with os r (process_start_secs os (pm_pid r))
       (case pm_child_pid r of None \<Rightarrow> None | Some pid \<Rightarrow> process_start_secs os pid)"

section \<open>The sweep\<close>

text \<open>What the sweep makes of one file: a holder to list, a file to remove, or nothing.\<close>

datatype sweep_verdict = HolderLives permit_record | RemoveFile | LeaveFile

definition judge_file :: "processes \<Rightarrow> (string \<Rightarrow> bool) \<Rightarrow> slots \<Rightarrow> string \<Rightarrow> sweep_verdict" where
  "judge_file os stale s path =
     (case sl_files s path of
        None \<Rightarrow> LeaveFile
      | Some Garbled \<Rightarrow> if stale path then RemoveFile else LeaveFile
      | Some (Holds r) \<Rightarrow> if permit_record_is_alive os r then HolderLives r else RemoveFile)"

fun live_records_in ::
    "processes \<Rightarrow> (string \<Rightarrow> bool) \<Rightarrow> string list \<Rightarrow> slots \<Rightarrow> permit_record list \<times> slots" where
  "live_records_in os stale [] s = ([], s)"
| "live_records_in os stale (path # paths) s =
     (case judge_file os stale s path of
        HolderLives r \<Rightarrow> (let (found, s1) = live_records_in os stale paths s in (r # found, s1))
      | RemoveFile \<Rightarrow> live_records_in os stale paths (put_slot path None s)
      | LeaveFile \<Rightarrow> live_records_in os stale paths s)"

definition dead_records_in :: "processes \<Rightarrow> string list \<Rightarrow> slots \<Rightarrow> permit_record list" where
  "dead_records_in os paths s =
     List.map_filter (\<lambda>path. case sl_files s path of
         Some (Holds r) \<Rightarrow> if permit_record_is_alive os r then None else Some r
       | _ \<Rightarrow> None) paths"

section \<open>Claiming a slot\<close>

definition slot_path :: "nat \<Rightarrow> string" where
  "slot_path slot = ''slot-'' @ show_nat slot @ ''.json''"

text \<open>Exclusive creation. An existing file is left alone and takes nothing from the schedule.\<close>

definition create_new_private :: "string \<Rightarrow> permit_record \<Rightarrow> slots \<Rightarrow> bool \<times> slots" where
  "create_new_private path r s =
     (if sl_files s path \<noteq> None then (False, s)
      else
        let (outcome, rest) = (case sl_creations s of [] \<Rightarrow> (Created, []) | x # xs \<Rightarrow> (x, xs));
            s1 = s\<lparr>sl_creations := rest\<rparr>
        in (case outcome of
              Created \<Rightarrow> (True, put_slot path (Some (Holds r)) s1)
            | Declined \<Rightarrow> (False, s1)
            | TornCreation \<Rightarrow> (False, put_slot path (Some Garbled) s1)))"

function claim_any_slot :: "nat \<Rightarrow> nat \<Rightarrow> permit_record \<Rightarrow> slots \<Rightarrow> string option \<times> slots" where
  "claim_any_slot slot limit r s =
     (if slot < limit
      then (case create_new_private (slot_path slot) r s of
              (True, s1) \<Rightarrow> (Some (slot_path slot), s1)
            | (False, s1) \<Rightarrow> claim_any_slot (Suc slot) limit r s1)
      else (None, s))"
  by auto

termination by (relation "measure (\<lambda>(slot, limit, _). limit - slot)") auto

declare claim_any_slot.simps [simp del]

definition claim_is_verified :: "string \<Rightarrow> u32 \<Rightarrow> slots \<Rightarrow> bool" where
  "claim_is_verified path pid s =
     (case sl_files s path of Some (Holds r) \<Rightarrow> pm_pid r = pid | _ \<Rightarrow> False)"

definition CLAIM_VERIFY_ATTEMPTS :: nat where "CLAIM_VERIFY_ATTEMPTS = 3"

fun claim_attempts :: "nat \<Rightarrow> nat \<Rightarrow> permit_record \<Rightarrow> slots \<Rightarrow> string option \<times> slots" where
  "claim_attempts 0 limit r s = (None, s)"
| "claim_attempts (Suc k) limit r s =
     (case claim_any_slot 0 limit r s of
        (None, s1) \<Rightarrow> (None, s1)
      | (Some path, s1) \<Rightarrow>
          if claim_is_verified path (pm_pid r) s1 then (Some path, s1) else claim_attempts k limit r s1)"

text \<open>A permit: its slot file, and for a writer the claim file and the checkout.\<close>

record permit =
  pt_path :: string
  pt_tree_claim :: "string option"
  pt_tree :: "string option"

definition acquire_record ::
    "processes \<Rightarrow> (string \<Rightarrow> bool) \<Rightarrow> string list \<Rightarrow> nat \<Rightarrow> permit_record \<Rightarrow> slots \<Rightarrow> permit option \<times> slots" where
  "acquire_record os stale listing limit r s =
     (if limit = 0 then (None, s)
      else let (live, s1) = live_records_in os stale listing s in
        if limit \<le> length live then (None, s1)
        else (case claim_attempts CLAIM_VERIFY_ATTEMPTS limit r s1 of
                (None, s2) \<Rightarrow> (None, s2)
              | (Some path, s2) \<Rightarrow>
                  (Some \<lparr>pt_path = path, pt_tree_claim = None, pt_tree = pm_tree r\<rparr>, s2)))"

definition own_record :: "processes \<Rightarrow> string \<Rightarrow> permit_kind \<Rightarrow> string option \<Rightarrow> permit_record" where
  "own_record os label kind tree =
     \<lparr>pm_pid = own_pid os, pm_pid_start_time = process_start_secs os (own_pid os),
      pm_child_pid = None, pm_child_start_time = None, pm_label = label,
      pm_acquired_at = clock os, pm_kind = kind, pm_tree = tree\<rparr>"

definition acquire ::
    "processes \<Rightarrow> (string \<Rightarrow> bool) \<Rightarrow> string list \<Rightarrow> nat \<Rightarrow> string \<Rightarrow> slots \<Rightarrow> permit option \<times> slots" where
  "acquire os stale listing limit label =
     acquire_record os stale listing limit (own_record os label Heavy None)"

section \<open>Claiming a checkout\<close>

text \<open>\<open>folds_case\<close> is whether the build targets Windows or macOS.\<close>

definition tree_key :: "bool \<Rightarrow> string \<Rightarrow> string" where
  "tree_key folds_case tree = (if folds_case then ascii_lower tree else tree)"

definition tree_claim_path :: "(string \<Rightarrow> string) \<Rightarrow> string \<Rightarrow> string" where
  "tree_claim_path hash key = ''tree-'' @ hash key @ ''.json''"

datatype writer_refusal =
    TreeBusy string
  | PoolExhausted
  | StaleSeat stale_generation

fun claim_tree_attempts ::
    "nat \<Rightarrow> processes \<Rightarrow> (string \<Rightarrow> bool) \<Rightarrow> string \<Rightarrow> permit_record \<Rightarrow> slots
      \<Rightarrow> (writer_refusal + string) \<times> slots" where
  "claim_tree_attempts 0 os stale path r s =
     (Inl (TreeBusy ''(unknown -- contended claim)''), s)"
| "claim_tree_attempts (Suc k) os stale path r s =
     (case sl_files s path of
        None \<Rightarrow> (case create_new_private path r s of
            (True, s1) \<Rightarrow> (Inr path, s1)
          | (False, s1) \<Rightarrow> claim_tree_attempts k os stale path r s1)
      | Some (Holds existing) \<Rightarrow>
          if permit_record_is_alive os existing then (Inl (TreeBusy (pm_label existing)), s)
          else claim_tree_attempts k os stale path r (put_slot path None s)
      | Some Garbled \<Rightarrow>
          claim_tree_attempts k os stale path r (if stale path then put_slot path None s else s))"

definition claim_tree ::
    "bool \<Rightarrow> processes \<Rightarrow> (string \<Rightarrow> bool) \<Rightarrow> string \<Rightarrow> permit_record \<Rightarrow> slots
      \<Rightarrow> (writer_refusal + string) \<times> slots" where
  "claim_tree lock_opens os stale path r s =
     (if \<not> lock_opens then (Inl PoolExhausted, s)
      else claim_tree_attempts CLAIM_VERIFY_ATTEMPTS os stale path r s)"

record permit_dirs =
  pd_heavy :: slots
  pd_writers :: slots
  pd_trees :: slots

text \<open>How a writer proves that it may write: an explicit generation of a seat, or the environment.\<close>

datatype writer_fence = ExplicitFence string u64 | EnvFence "string option" "string option"

definition fence_refusal :: "seat_store \<Rightarrow> writer_fence \<Rightarrow> writer_refusal option" where
  "fence_refusal seats f =
     (case f of
        ExplicitFence short generation \<Rightarrow>
          (case snd (lock_generation seats short generation) of
             LockRefused stale \<Rightarrow> Some (StaleSeat stale)
           | LockUnavailable \<Rightarrow> Some PoolExhausted
           | _ \<Rightarrow> None)
      | EnvFence session generation \<Rightarrow>
          (case guard_from_env seats session generation of
             Inl stale \<Rightarrow> Some (StaleSeat stale) | Inr _ \<Rightarrow> None))"

definition effective_limit :: "nat \<Rightarrow> nat" where
  "effective_limit limit = (if limit = 0 then u64_max else limit)"

text \<open>What every permit operation is handed by its surroundings.\<close>

record permit_env =
  pe_os :: processes
  pe_stale :: "string \<Rightarrow> bool"
  pe_listing :: "string list"
  pe_lock_opens :: bool
  pe_hash :: "string \<Rightarrow> string"
  pe_folds_case :: bool

definition acquire_writer ::
    "permit_env \<Rightarrow> seat_store \<Rightarrow> nat \<Rightarrow> string \<Rightarrow> string \<Rightarrow> writer_fence \<Rightarrow> permit_dirs
      \<Rightarrow> (writer_refusal + permit) \<times> permit_dirs" where
  "acquire_writer e seats limit label tree f d =
     (case fence_refusal seats f of
        Some refusal \<Rightarrow> (Inl refusal, d)
      | None \<Rightarrow>
          let path = tree_claim_path (pe_hash e) (tree_key (pe_folds_case e) tree);
              r = own_record (pe_os e) label Writer (Some tree)
          in (case claim_tree (pe_lock_opens e) (pe_os e) (pe_stale e) path r (pd_trees d) of
                (Inl refusal, trees) \<Rightarrow> (Inl refusal, d\<lparr>pd_trees := trees\<rparr>)
              | (Inr claim, trees) \<Rightarrow>
                  (case acquire_record (pe_os e) (pe_stale e) (pe_listing e) (effective_limit limit) r
                          (pd_writers d) of
                     (Some p, writers) \<Rightarrow>
                       (Inr (p\<lparr>pt_tree_claim := Some claim\<rparr>), d\<lparr>pd_trees := trees, pd_writers := writers\<rparr>)
                   | (None, writers) \<Rightarrow>
                       (Inl PoolExhausted, d\<lparr>pd_trees := put_slot claim None trees, pd_writers := writers\<rparr>))))"

section \<open>Holding and releasing\<close>

text \<open>The directory of a permit: a writer's slot is in the writers' pool.\<close>

definition in_pool :: "permit \<Rightarrow> (slots \<Rightarrow> slots) \<Rightarrow> permit_dirs \<Rightarrow> permit_dirs" where
  "in_pool p f d =
     (if pt_tree_claim p = None then d\<lparr>pd_heavy := f (pd_heavy d)\<rparr> else d\<lparr>pd_writers := f (pd_writers d)\<rparr>)"

definition drop_permit :: "permit \<Rightarrow> permit_dirs \<Rightarrow> permit_dirs" where
  "drop_permit p d =
     (let d1 = in_pool p (put_slot (pt_path p) None) d in
      case pt_tree_claim p of
        None \<Rightarrow> d1
      | Some claim \<Rightarrow> d1\<lparr>pd_trees := put_slot claim None (pd_trees d1)\<rparr>)"

text \<open>Replacing a file may fail, which is ignored: \<open>writes\<close> is whether it works.\<close>

definition write_child_pid :: "processes \<Rightarrow> bool \<Rightarrow> u32 \<Rightarrow> string \<Rightarrow> slots \<Rightarrow> slots" where
  "write_child_pid os writes child path s =
     (case sl_files s path of
        Some (Holds r) \<Rightarrow>
          if writes
          then put_slot path (Some (Holds (r\<lparr>pm_child_pid := Some child,
                 pm_child_start_time := process_start_secs os child\<rparr>))) s
          else s
      | _ \<Rightarrow> s)"

definition set_child_pid :: "processes \<Rightarrow> bool \<Rightarrow> bool \<Rightarrow> permit \<Rightarrow> u32 \<Rightarrow> permit_dirs \<Rightarrow> permit_dirs" where
  "set_child_pid os slot_writes tree_writes p child d =
     (let d1 = in_pool p (write_child_pid os slot_writes child (pt_path p)) d in
      case pt_tree_claim p of
        None \<Rightarrow> d1
      | Some claim \<Rightarrow> d1\<lparr>pd_trees := write_child_pid os tree_writes child claim (pd_trees d1)\<rparr>)"

definition refusal_description ::
    "writer_refusal \<Rightarrow> permit_record list \<Rightarrow> nat \<Rightarrow> string \<Rightarrow> string" where
  "refusal_description refusal holders max_writers tree =
     (case refusal of
        TreeBusy holder_label \<Rightarrow>
          ''writer-busy: another writing worker already holds '' @ tree @ '' ('' @ holder_label @
          ''); retry once it finishes, or pass --worktree for an isolated checkout''
      | PoolExhausted \<Rightarrow>
          ''writer-busy: the writer-permit pool ('' @ show_nat (length holders) @ '' of '' @
          show_nat max_writers @ '' in use) is full; raise supervise.max_writers or '' @
          ''ZIRV_CTX_SUPERVISE_MAX_WRITERS (0 lifts the machine-wide cap), or retry once a writer finishes'' @
          concat (map (\<lambda>h. CHR 0x0A # ''  pid '' @ show_nat (pm_pid h) @ '' -- '' @ pm_label h @ '' -- '' @
            (case pm_tree h of Some t \<Rightarrow> t | None \<Rightarrow> ''(unknown tree)'')) holders)
      | StaleSeat stale \<Rightarrow>
          ''writer-refused: '' @ stale_text stale @
          ''. This session does not hold the orchestrator seat, so it may not take a writer lease on '' @
          tree @ ''; retrying will not change that.'')"

section \<open>What the operations do to the files\<close>

text \<open>The files that hold a living owner's record are kept.\<close>

definition keeps_live :: "processes \<Rightarrow> slots \<Rightarrow> slots \<Rightarrow> bool" where
  "keeps_live os s s1 \<longleftrightarrow>
     (\<forall>q r. sl_files s q = Some (Holds r) \<longrightarrow> permit_record_is_alive os r \<longrightarrow> sl_files s1 q = Some (Holds r))"

lemma keeps_live_refl [simp]: "keeps_live os s s"
  by (simp add: keeps_live_def)

lemma keeps_live_trans: "keeps_live os s s1 \<Longrightarrow> keeps_live os s1 s2 \<Longrightarrow> keeps_live os s s2"
  by (auto simp: keeps_live_def)

lemma sweep_keeps_live: "live_records_in os stale paths s = (found, s1) \<Longrightarrow> keeps_live os s s1"
proof (induction paths arbitrary: s found s1)
  case (Cons path paths)
  show ?case
  proof (cases "judge_file os stale s path")
    case (HolderLives r)
    obtain f s2 where l: "live_records_in os stale paths s = (f, s2)" by (cases "live_records_in os stale paths s")
    then show ?thesis using Cons.IH [OF l] Cons.prems HolderLives by simp
  next
    case RemoveFile
    have "keeps_live os s (put_slot path None s)"
      using RemoveFile by (auto simp: keeps_live_def judge_file_def slot_files.get_put
        split: option.splits stored.splits if_splits)
    then show ?thesis using Cons RemoveFile keeps_live_trans by fastforce
  next
    case LeaveFile
    then show ?thesis using Cons by simp
  qed
qed simp

text \<open>An exclusive creation touches nothing but the absent file it makes.\<close>

lemma create_new_cases:
  assumes "create_new_private path r s = (b, s1)"
  shows "(\<forall>q. sl_files s q \<noteq> None \<longrightarrow> sl_files s1 q = sl_files s q) \<and>
    (b \<longrightarrow> sl_files s path = None \<and> sl_files s1 path = Some (Holds r)) \<and>
    (\<forall>q. q \<noteq> path \<longrightarrow> sl_files s1 q = sl_files s q)"
  using assms
  by (auto simp: create_new_private_def Let_def put_slot_def split: if_splits list.splits creation.splits prod.splits)

lemma claim_any_cases:
  "claim_any_slot slot limit r s = (res, s1) \<Longrightarrow>
    (\<forall>q. sl_files s q \<noteq> None \<longrightarrow> sl_files s1 q = sl_files s q) \<and>
    (case res of None \<Rightarrow> True
     | Some path \<Rightarrow> path \<in> slot_path ` {slot ..< limit} \<and> sl_files s path = None \<and> sl_files s1 path = Some (Holds r))"
proof (induction slot limit r s arbitrary: res s1 rule: claim_any_slot.induct)
  case (1 slot limit r s)
  show ?case
  proof (cases "slot < limit")
    case False
    then show ?thesis using "1.prems" by (subst (asm) claim_any_slot.simps) auto
  next
    case True
    obtain b s2 where c: "create_new_private (slot_path slot) r s = (b, s2)"
      by (cases "create_new_private (slot_path slot) r s")
    show ?thesis
    proof (cases b)
      case True
      then show ?thesis using "1.prems" c create_new_cases [OF c] \<open>slot < limit\<close>
        by (subst (asm) claim_any_slot.simps) auto
    next
      case False
      then have rec: "claim_any_slot (Suc slot) limit r s2 = (res, s1)"
        using "1.prems" c \<open>slot < limit\<close> by (subst (asm) claim_any_slot.simps) simp
      have ih: "(\<forall>q. sl_files s2 q \<noteq> None \<longrightarrow> sl_files s1 q = sl_files s2 q) \<and>
          (case res of None \<Rightarrow> True
           | Some path \<Rightarrow> path \<in> slot_path ` {Suc slot ..< limit} \<and> sl_files s2 path = None \<and> sl_files s1 path = Some (Holds r))"
        using "1.IH" [OF \<open>slot < limit\<close> _ _ rec] c False by simp
      have keep: "\<forall>q. sl_files s q \<noteq> None \<longrightarrow> sl_files s2 q = sl_files s q"
        using create_new_cases [OF c] by blast
      have kept: "\<forall>q. sl_files s q \<noteq> None \<longrightarrow> sl_files s1 q = sl_files s q"
        using ih keep by metis
      show ?thesis
      proof (cases res)
        case None
        then show ?thesis using kept by simp
      next
        case (Some path)
        then have "sl_files s2 path = None" "path \<in> slot_path ` {Suc slot ..< limit}"
          "sl_files s1 path = Some (Holds r)" using ih by simp_all
        moreover from this(1) have "sl_files s path = None" using keep by (metis option.distinct(1))
        moreover from calculation(2) have "path \<in> slot_path ` {slot ..< limit}" by auto
        ultimately show ?thesis using kept Some by simp
      qed
    qed
  qed
qed

lemma claim_attempts_cases:
  "claim_attempts k limit r s = (res, s1) \<Longrightarrow>
    (\<forall>q. sl_files s q \<noteq> None \<longrightarrow> sl_files s1 q = sl_files s q) \<and>
    (case res of None \<Rightarrow> True
     | Some path \<Rightarrow> path \<in> slot_path ` {..< limit} \<and> sl_files s path = None \<and> sl_files s1 path = Some (Holds r))"
proof (cases k)
  case (Suc m)
  assume a: "claim_attempts k limit r s = (res, s1)"
  obtain p s2 where c: "claim_any_slot 0 limit r s = (p, s2)" by (cases "claim_any_slot 0 limit r s")
  note cc = claim_any_cases [OF c]
  show ?thesis
  proof (cases p)
    case None
    then show ?thesis using a Suc c cc by simp
  next
    case (Some path)
    then have "claim_is_verified path (pm_pid r) s2" using cc by (simp add: claim_is_verified_def)
    then show ?thesis using a Suc c cc Some by (auto simp: atLeast0LessThan)
  qed
qed simp

lemma acquire_record_cases:
  assumes "acquire_record os stale listing limit r s = (res, s1)"
  shows "keeps_live os s s1 \<and>
    (case res of None \<Rightarrow> True
     | Some p \<Rightarrow> pt_path p \<in> slot_path ` {..< limit} \<and> sl_files s1 (pt_path p) = Some (Holds r) \<and>
         (\<nexists>x. sl_files s (pt_path p) = Some (Holds x) \<and> permit_record_is_alive os x) \<and>
         pt_tree_claim p = None \<and> pt_tree p = pm_tree r)"
proof (cases "limit = 0")
  case True
  then show ?thesis using assms by (auto simp: acquire_record_def)
next
  case False
  obtain live s2 where l: "live_records_in os stale listing s = (live, s2)"
    by (cases "live_records_in os stale listing s")
  have k: "keeps_live os s s2" using sweep_keeps_live [OF l] .
  show ?thesis
  proof (cases "limit \<le> length live")
    case True
    then show ?thesis using assms False l k by (auto simp: acquire_record_def)
  next
    case free: False
    obtain p s3 where c: "claim_attempts CLAIM_VERIFY_ATTEMPTS limit r s2 = (p, s3)"
      by (cases "claim_attempts CLAIM_VERIFY_ATTEMPTS limit r s2")
    note cc = claim_attempts_cases [OF c]
    have "keeps_live os s2 s3" using cc by (auto simp: keeps_live_def)
    then have ks: "keeps_live os s s3" using k keeps_live_trans by blast
    show ?thesis
    proof (cases p)
      case None
      then show ?thesis using assms False l free c ks by (auto simp: acquire_record_def)
    next
      case (Some path)
      then have "sl_files s2 path = None" using cc by simp
      then have "\<nexists>x. sl_files s path = Some (Holds x) \<and> permit_record_is_alive os x"
        using k by (auto simp: keeps_live_def)
      then show ?thesis using assms False l free c cc ks Some by (auto simp: acquire_record_def)
    qed
  qed
qed

lemma claim_tree_attempts_cases:
  "claim_tree_attempts k os stale path r s = (res, s1) \<Longrightarrow>
    keeps_live os s s1 \<and>
    (case res of Inl _ \<Rightarrow> True
     | Inr c \<Rightarrow> c = path \<and> sl_files s1 path = Some (Holds r) \<and>
         (\<nexists>x. sl_files s path = Some (Holds x) \<and> permit_record_is_alive os x))"
proof (induction k arbitrary: s)
  case (Suc k)
  show ?case
  proof (cases "sl_files s path")
    case None
    obtain b s2 where c: "create_new_private path r s = (b, s2)" by (cases "create_new_private path r s")
    have k2: "keeps_live os s s2" using create_new_cases [OF c] by (auto simp: keeps_live_def)
    show ?thesis
    proof (cases b)
      case True
      then show ?thesis using Suc.prems c None create_new_cases [OF c] k2 by auto
    next
      case False
      then have "claim_tree_attempts k os stale path r s2 = (res, s1)" using Suc.prems c None by simp
      from Suc.IH [OF this] k2 None show ?thesis using keeps_live_trans by (auto split: sum.splits)
    qed
  next
    case (Some f)
    show ?thesis
    proof (cases f)
      case Garbled
      define s2 where "s2 = (if stale path then put_slot path None s else s)"
      have k2: "keeps_live os s s2"
        using Some Garbled by (auto simp: keeps_live_def s2_def slot_files.get_put)
      have "claim_tree_attempts k os stale path r s2 = (res, s1)"
        using Suc.prems Some Garbled by (simp add: s2_def)
      from Suc.IH [OF this] k2 Some Garbled show ?thesis using keeps_live_trans by (auto split: sum.splits)
    next
      case (Holds x)
      show ?thesis
      proof (cases "permit_record_is_alive os x")
        case True
        then show ?thesis using Suc.prems Some Holds by auto
      next
        case False
        have k2: "keeps_live os s (put_slot path None s)"
          using Some Holds False by (auto simp: keeps_live_def slot_files.get_put)
        have "claim_tree_attempts k os stale path r (put_slot path None s) = (res, s1)"
          using Suc.prems Some Holds False by simp
        from Suc.IH [OF this] k2 Some Holds False show ?thesis using keeps_live_trans by (auto split: sum.splits)
      qed
    qed
  qed
qed auto

lemma claim_tree_cases:
  assumes "claim_tree lo os stale path r s = (res, s1)"
  shows "keeps_live os s s1 \<and>
    (case res of Inl _ \<Rightarrow> True
     | Inr c \<Rightarrow> c = path \<and> sl_files s1 path = Some (Holds r) \<and>
         (\<nexists>x. sl_files s path = Some (Holds x) \<and> permit_record_is_alive os x))"
  using assms claim_tree_attempts_cases [of CLAIM_VERIFY_ATTEMPTS os stale path r s res s1]
  by (auto simp: claim_tree_def split: if_splits)

section \<open>The machine's permits\<close>

text \<open>
  The directories with the permits that processes hold. Operations run one after the other; the
  operating system is trusted to report a holder's process as alive for as long as the permit is
  held, and says nothing reliable of anyone else. A process may die with its permits, which leaves
  their files for a sweep.
\<close>

record permit_world =
  pw_dirs :: permit_dirs
  pw_held :: "permit list"

definition pool_of :: "permit \<Rightarrow> permit_dirs \<Rightarrow> slots" where
  "pool_of p d = (if pt_tree_claim p = None then pd_heavy d else pd_writers d)"

definition reported_alive :: "processes \<Rightarrow> slots \<Rightarrow> string \<Rightarrow> bool" where
  "reported_alive os s path = (case sl_files s path of Some (Holds r) \<Rightarrow> permit_record_is_alive os r | _ \<Rightarrow> True)"

definition truthful :: "processes \<Rightarrow> permit_world \<Rightarrow> bool" where
  "truthful os w = list_all (\<lambda>p. reported_alive os (pool_of p (pw_dirs w)) (pt_path p) \<and>
     (case pt_tree_claim p of None \<Rightarrow> True | Some c \<Rightarrow> reported_alive os (pd_trees (pw_dirs w)) c)) (pw_held w)"

definition empty_slots :: "creation list \<Rightarrow> slots" where
  "empty_slots outcomes = \<lparr>sl_files = (\<lambda>_. None), sl_creations = outcomes\<rparr>"

inductive permits_reachable :: "(string \<Rightarrow> string) \<Rightarrow> bool \<Rightarrow> nat \<Rightarrow> nat \<Rightarrow> permit_world \<Rightarrow> bool"
  for hash folds heavy_cap writer_cap where
  start: "permits_reachable hash folds heavy_cap writer_cap
    \<lparr>pw_dirs = \<lparr>pd_heavy = empty_slots a, pd_writers = empty_slots b, pd_trees = empty_slots c\<rparr>, pw_held = []\<rparr>"
| heavy: "permits_reachable hash folds heavy_cap writer_cap w \<Longrightarrow> truthful os w \<Longrightarrow> limit \<le> heavy_cap
    \<Longrightarrow> acquire os stale listing limit label (pd_heavy (pw_dirs w)) = (res, s1)
    \<Longrightarrow> permits_reachable hash folds heavy_cap writer_cap
        \<lparr>pw_dirs = (pw_dirs w)\<lparr>pd_heavy := s1\<rparr>,
         pw_held = (case res of Some p \<Rightarrow> p # pw_held w | None \<Rightarrow> pw_held w)\<rparr>"
| writer: "permits_reachable hash folds heavy_cap writer_cap w \<Longrightarrow> truthful (pe_os e) w
    \<Longrightarrow> pe_hash e = hash \<Longrightarrow> pe_folds_case e = folds \<Longrightarrow> effective_limit limit \<le> writer_cap
    \<Longrightarrow> acquire_writer e seats limit label tree f (pw_dirs w) = (res1, d1)
    \<Longrightarrow> permits_reachable hash folds heavy_cap writer_cap
        \<lparr>pw_dirs = d1, pw_held = (case res1 of Inr p \<Rightarrow> p # pw_held w | Inl _ \<Rightarrow> pw_held w)\<rparr>"
| release: "permits_reachable hash folds heavy_cap writer_cap w \<Longrightarrow> p \<in> set (pw_held w)
    \<Longrightarrow> permits_reachable hash folds heavy_cap writer_cap
        \<lparr>pw_dirs = drop_permit p (pw_dirs w), pw_held = remove1 p (pw_held w)\<rparr>"
| child: "permits_reachable hash folds heavy_cap writer_cap w \<Longrightarrow> p \<in> set (pw_held w)
    \<Longrightarrow> permits_reachable hash folds heavy_cap writer_cap (w\<lparr>pw_dirs := set_child_pid os slot_writes tree_writes p child (pw_dirs w)\<rparr>)"
| death: "permits_reachable hash folds heavy_cap writer_cap w
    \<Longrightarrow> permits_reachable hash folds heavy_cap writer_cap (w\<lparr>pw_held := filter survives (pw_held w)\<rparr>)"

definition holds_record :: "slots \<Rightarrow> string \<Rightarrow> bool" where
  "holds_record s path = (\<exists>r. sl_files s path = Some (Holds r))"

definition heavies :: "permit list \<Rightarrow> permit list" where
  "heavies ps = filter (\<lambda>p. pt_tree_claim p = None) ps"

definition writers :: "permit list \<Rightarrow> permit list" where
  "writers ps = filter (\<lambda>p. pt_tree_claim p \<noteq> None) ps"

definition permits_ok :: "(string \<Rightarrow> string) \<Rightarrow> bool \<Rightarrow> nat \<Rightarrow> nat \<Rightarrow> permit_world \<Rightarrow> bool" where
  "permits_ok hash folds heavy_cap writer_cap w \<longleftrightarrow>
     distinct (map pt_path (heavies (pw_held w))) \<and>
     distinct (map pt_path (writers (pw_held w))) \<and>
     distinct (map pt_tree_claim (writers (pw_held w))) \<and>
     (\<forall>p\<in>set (heavies (pw_held w)). pt_path p \<in> slot_path ` {..<heavy_cap} \<and>
        holds_record (pd_heavy (pw_dirs w)) (pt_path p)) \<and>
     (\<forall>p\<in>set (writers (pw_held w)). pt_path p \<in> slot_path ` {..<writer_cap} \<and>
        holds_record (pd_writers (pw_dirs w)) (pt_path p) \<and>
        (\<exists>c tree. pt_tree_claim p = Some c \<and> pt_tree p = Some tree \<and>
           c = tree_claim_path hash (tree_key folds tree) \<and> holds_record (pd_trees (pw_dirs w)) c))"

lemma heavies_simps [simp]:
  "heavies [] = []" "writers [] = []"
  "pt_tree_claim p = None \<Longrightarrow> heavies (p # ps) = p # heavies ps"
  "pt_tree_claim p = None \<Longrightarrow> writers (p # ps) = writers ps"
  "pt_tree_claim p = Some c \<Longrightarrow> heavies (p # ps) = heavies ps"
  "pt_tree_claim p = Some c \<Longrightarrow> writers (p # ps) = p # writers ps"
  by (simp_all add: heavies_def writers_def)

lemma truthful_keeps:
  assumes "truthful os w" "keeps_live os (pool_of p (pw_dirs w)) s1" "p \<in> set (pw_held w)"
    "holds_record (pool_of p (pw_dirs w)) (pt_path p)"
  shows "holds_record s1 (pt_path p)"
    "\<exists>x. sl_files (pool_of p (pw_dirs w)) (pt_path p) = Some (Holds x) \<and> permit_record_is_alive os x"
  using assms
  by (auto simp: truthful_def list_all_iff reported_alive_def holds_record_def keeps_live_def)

lemma truthful_keeps_tree:
  assumes "truthful os w" "keeps_live os (pd_trees (pw_dirs w)) s1" "p \<in> set (pw_held w)"
    "pt_tree_claim p = Some c" "holds_record (pd_trees (pw_dirs w)) c"
  shows "holds_record s1 c"
    "\<exists>x. sl_files (pd_trees (pw_dirs w)) c = Some (Holds x) \<and> permit_record_is_alive os x"
  using assms
  by (auto simp: truthful_def list_all_iff reported_alive_def holds_record_def keeps_live_def)

lemma heavy_ok:
  assumes ok: "permits_ok hash folds hc wc w" and true: "truthful os w" and lim: "limit \<le> hc"
    and a: "acquire os stale listing limit label (pd_heavy (pw_dirs w)) = (res, s1)"
  shows "permits_ok hash folds hc wc \<lparr>pw_dirs = (pw_dirs w)\<lparr>pd_heavy := s1\<rparr>,
    pw_held = (case res of Some p \<Rightarrow> p # pw_held w | None \<Rightarrow> pw_held w)\<rparr>"
proof -
  note ac = acquire_record_cases [OF a [unfolded acquire_def]]
  have held: "holds_record s1 (pt_path p) \<and>
      (\<exists>x. sl_files (pd_heavy (pw_dirs w)) (pt_path p) = Some (Holds x) \<and> permit_record_is_alive os x)"
    if p: "p \<in> set (heavies (pw_held w))" for p
  proof -
    have pool: "pool_of p (pw_dirs w) = pd_heavy (pw_dirs w)" "p \<in> set (pw_held w)"
      using p by (auto simp: heavies_def pool_of_def)
    have "holds_record (pool_of p (pw_dirs w)) (pt_path p)" using ok p pool(1) by (simp add: permits_ok_def)
    then show ?thesis using truthful_keeps [OF true _ pool(2), of s1] ac pool(1) by auto
  qed
  show ?thesis
  proof (cases res)
    case None
    then show ?thesis using ok held by (auto simp: permits_ok_def)
  next
    case (Some p)
    have new: "pt_path p \<notin> set (map pt_path (heavies (pw_held w)))"
    proof
      assume "pt_path p \<in> set (map pt_path (heavies (pw_held w)))"
      then obtain q where "q \<in> set (heavies (pw_held w))" "pt_path q = pt_path p" by auto
      then show False using held [of q] ac Some by auto
    qed
    have "pt_path p \<in> slot_path ` {..<hc}" using ac lim Some by auto
    moreover have "holds_record s1 (pt_path p)" using ac Some by (auto simp: holds_record_def)
    moreover have "pt_tree_claim p = None" using ac Some by simp
    ultimately show ?thesis using ok held new Some by (simp add: permits_ok_def)
  qed
qed

text \<open>What an attempt to become a writer does to the directories.\<close>

lemma acquire_writer_cases:
  assumes "acquire_writer e seats limit label tree f d = (res, d1)"
  shows "pd_heavy d1 = pd_heavy d \<and>
    keeps_live (pe_os e) (pd_writers d) (pd_writers d1) \<and>
    keeps_live (pe_os e) (pd_trees d) (pd_trees d1) \<and>
    (case res of Inl _ \<Rightarrow> True
     | Inr p \<Rightarrow> pt_path p \<in> slot_path ` {..< effective_limit limit} \<and>
         holds_record (pd_writers d1) (pt_path p) \<and>
         (\<nexists>x. sl_files (pd_writers d) (pt_path p) = Some (Holds x) \<and> permit_record_is_alive (pe_os e) x) \<and>
         pt_tree p = Some tree \<and>
         (\<exists>c. pt_tree_claim p = Some c \<and> c = tree_claim_path (pe_hash e) (tree_key (pe_folds_case e) tree) \<and>
            holds_record (pd_trees d1) c \<and>
            (\<nexists>x. sl_files (pd_trees d) c = Some (Holds x) \<and> permit_record_is_alive (pe_os e) x)))"
proof (cases "fence_refusal seats f")
  case (Some refusal)
  then show ?thesis using assms by (auto simp: acquire_writer_def)
next
  case None
  let ?path = "tree_claim_path (pe_hash e) (tree_key (pe_folds_case e) tree)"
  let ?r = "own_record (pe_os e) label Writer (Some tree)"
  obtain ct trees where c: "claim_tree (pe_lock_opens e) (pe_os e) (pe_stale e) ?path ?r (pd_trees d) = (ct, trees)"
    by (cases "claim_tree (pe_lock_opens e) (pe_os e) (pe_stale e) ?path ?r (pd_trees d)")
  note tc = claim_tree_cases [OF c]
  show ?thesis
  proof (cases ct)
    case (Inl refusal)
    then show ?thesis using assms None c tc by (auto simp: acquire_writer_def Let_def)
  next
    case (Inr claim)
    obtain ar ws where a: "acquire_record (pe_os e) (pe_stale e) (pe_listing e) (effective_limit limit) ?r
        (pd_writers d) = (ar, ws)"
      by (cases "acquire_record (pe_os e) (pe_stale e) (pe_listing e) (effective_limit limit) ?r (pd_writers d)")
    note ac = acquire_record_cases [OF a]
    have claim: "claim = ?path" "sl_files trees ?path = Some (Holds ?r)"
      "\<nexists>x. sl_files (pd_trees d) ?path = Some (Holds x) \<and> permit_record_is_alive (pe_os e) x"
      using tc Inr by simp_all
    show ?thesis
    proof (cases ar)
      case None2: None
      have "keeps_live (pe_os e) (pd_trees d) (put_slot claim None trees)"
        using tc claim by (auto simp: keeps_live_def slot_files.get_put)
      then show ?thesis using assms None c Inr a None2 ac by (auto simp: acquire_writer_def Let_def)
    next
      case (Some p)
      then have "res = Inr (p\<lparr>pt_tree_claim := Some claim\<rparr>)"
          "d1 = d\<lparr>pd_trees := trees, pd_writers := ws\<rparr>"
        using assms None c Inr a by (simp_all add: acquire_writer_def Let_def)
      then show ?thesis using ac tc claim Some by (auto simp: holds_record_def own_record_def)
    qed
  qed
qed

lemma writer_ok:
  assumes ok: "permits_ok hash folds hc wc w" and true: "truthful (pe_os e) w"
    and env: "pe_hash e = hash" "pe_folds_case e = folds" and lim: "effective_limit limit \<le> wc"
    and a: "acquire_writer e seats limit label tree f (pw_dirs w) = (res, d1)"
  shows "permits_ok hash folds hc wc \<lparr>pw_dirs = d1,
    pw_held = (case res of Inr p \<Rightarrow> p # pw_held w | Inl _ \<Rightarrow> pw_held w)\<rparr>"
proof -
  note ac = acquire_writer_cases [OF a]
  have slot: "holds_record (pd_writers d1) (pt_path p) \<and>
      (\<exists>x. sl_files (pd_writers (pw_dirs w)) (pt_path p) = Some (Holds x) \<and> permit_record_is_alive (pe_os e) x)"
    if p: "p \<in> set (writers (pw_held w))" for p
  proof -
    have pool: "pool_of p (pw_dirs w) = pd_writers (pw_dirs w)" "p \<in> set (pw_held w)"
      using p by (auto simp: writers_def pool_of_def)
    have "holds_record (pool_of p (pw_dirs w)) (pt_path p)" using ok p pool(1) by (simp add: permits_ok_def)
    then show ?thesis using truthful_keeps [OF true _ pool(2), of "pd_writers d1"] ac pool(1) by auto
  qed
  have tree: "holds_record (pd_trees d1) c \<and>
      (\<exists>x. sl_files (pd_trees (pw_dirs w)) c = Some (Holds x) \<and> permit_record_is_alive (pe_os e) x)"
    if p: "p \<in> set (writers (pw_held w))" "pt_tree_claim p = Some c" for p c
  proof -
    have "holds_record (pd_trees (pw_dirs w)) c" "p \<in> set (pw_held w)"
      using ok p by (auto simp: permits_ok_def writers_def)
    then show ?thesis using truthful_keeps_tree [OF true _ _ p(2)] ac by blast
  qed
  have kept: "\<forall>p\<in>set (writers (pw_held w)). pt_path p \<in> slot_path ` {..<wc} \<and>
        holds_record (pd_writers d1) (pt_path p) \<and>
        (\<exists>c tree. pt_tree_claim p = Some c \<and> pt_tree p = Some tree \<and>
           c = tree_claim_path hash (tree_key folds tree) \<and> holds_record (pd_trees d1) c)"
    using ok slot tree unfolding permits_ok_def by blast
  show ?thesis
  proof (cases res)
    case (Inl e')
    then show ?thesis using ok kept ac by (simp add: permits_ok_def)
  next
    case (Inr p)
    then obtain c where c: "pt_tree_claim p = Some c" "c = tree_claim_path hash (tree_key folds tree)"
        "holds_record (pd_trees d1) c" "pt_tree p = Some tree"
        "\<nexists>x. sl_files (pd_trees (pw_dirs w)) c = Some (Holds x) \<and> permit_record_is_alive (pe_os e) x"
      using ac env by auto
    have "pt_path p \<notin> set (map pt_path (writers (pw_held w)))"
    proof
      assume "pt_path p \<in> set (map pt_path (writers (pw_held w)))"
      then obtain q where "q \<in> set (writers (pw_held w))" "pt_path q = pt_path p" by auto
      then show False using slot [of q] ac Inr by auto
    qed
    moreover have "Some c \<notin> set (map pt_tree_claim (writers (pw_held w)))"
    proof
      assume "Some c \<in> set (map pt_tree_claim (writers (pw_held w)))"
      then obtain q where "q \<in> set (writers (pw_held w))" "pt_tree_claim q = Some c" by auto
      then show False using tree [of q c] c(5) by blast
    qed
    moreover have "pt_path p \<in> slot_path ` {..<wc}" using ac lim Inr by auto
    moreover have "holds_record (pd_writers d1) (pt_path p)" using ac Inr by simp
    ultimately show ?thesis using ok kept ac c Inr by (simp add: permits_ok_def)
  qed
qed

text \<open>Releasing a permit removes its own files only.\<close>

lemma set_remove1_map:
  assumes "distinct (map f xs)"
  shows "distinct (map f (remove1 x xs))"
    and "y \<in> set (remove1 x xs) \<Longrightarrow> y \<in> set xs \<and> (x \<in> set xs \<longrightarrow> f y \<noteq> f x)"
proof -
  have s: "distinct xs" "inj_on f (set xs)" "set (remove1 x xs) = set xs - {x}"
    using assms by (simp_all add: distinct_map)
  show "distinct (map f (remove1 x xs))" using s by (auto simp: distinct_map intro: inj_on_subset)
  show "y \<in> set (remove1 x xs) \<Longrightarrow> y \<in> set xs \<and> (x \<in> set xs \<longrightarrow> f y \<noteq> f x)"
    using s by (auto dest: inj_onD)
qed

lemma heavies_remove1: "heavies (remove1 p ps) = remove1 p (heavies ps)"
  by (simp add: heavies_def filter_remove1)

lemma writers_remove1: "writers (remove1 p ps) = remove1 p (writers ps)"
  by (simp add: writers_def filter_remove1)

lemma holds_record_put:
  "holds_record (put_slot path f s) q \<longleftrightarrow> (if q = path then \<exists>r. f = Some (Holds r) else holds_record s q)"
  by (auto simp: holds_record_def put_slot_def)

lemma release_ok:
  assumes ok: "permits_ok hash folds hc wc w" and p: "p \<in> set (pw_held w)"
  shows "permits_ok hash folds hc wc \<lparr>pw_dirs = drop_permit p (pw_dirs w), pw_held = remove1 p (pw_held w)\<rparr>"
proof (cases "pt_tree_claim p")
  case None
  have mem: "p \<in> set (heavies (pw_held w))" "p \<notin> set (writers (pw_held w))"
    using p None by (simp_all add: heavies_def writers_def)
  have "distinct (map pt_path (heavies (pw_held w)))" using ok by (simp add: permits_ok_def)
  note d = set_remove1_map [OF this, where x = p]
  have dirs: "drop_permit p (pw_dirs w) = (pw_dirs w)\<lparr>pd_heavy := put_slot (pt_path p) None (pd_heavy (pw_dirs w))\<rparr>"
    using None by (simp add: drop_permit_def in_pool_def Let_def)
  have "\<forall>q\<in>set (remove1 p (heavies (pw_held w))). pt_path q \<in> slot_path ` {..<hc} \<and>
      holds_record (put_slot (pt_path p) None (pd_heavy (pw_dirs w))) (pt_path q)"
    using d(2) mem(1) ok unfolding permits_ok_def holds_record_put by metis
  then show ?thesis
    using ok d(1) mem(2) unfolding permits_ok_def
    by (simp add: heavies_remove1 writers_remove1 dirs remove1_idem)
next
  case (Some c)
  have mem: "p \<notin> set (heavies (pw_held w))" "p \<in> set (writers (pw_held w))"
    using p Some by (simp_all add: heavies_def writers_def)
  have dist: "distinct (map pt_path (writers (pw_held w)))" "distinct (map pt_tree_claim (writers (pw_held w)))"
    using ok by (simp_all add: permits_ok_def)
  note d = set_remove1_map [OF dist(1), where x = p] and e = set_remove1_map [OF dist(2), where x = p]
  have dirs: "drop_permit p (pw_dirs w) = (pw_dirs w)
      \<lparr>pd_writers := put_slot (pt_path p) None (pd_writers (pw_dirs w)), pd_trees := put_slot c None (pd_trees (pw_dirs w))\<rparr>"
    using Some by (simp add: drop_permit_def in_pool_def Let_def)
  have kept: "\<forall>q\<in>set (remove1 p (writers (pw_held w))). pt_path q \<in> slot_path ` {..<wc} \<and>
      holds_record (put_slot (pt_path p) None (pd_writers (pw_dirs w))) (pt_path q) \<and>
      (\<exists>k tree. pt_tree_claim q = Some k \<and> pt_tree q = Some tree \<and> k = tree_claim_path hash (tree_key folds tree) \<and>
        holds_record (put_slot c None (pd_trees (pw_dirs w))) k)"
  proof
    fix q
    assume q: "q \<in> set (remove1 p (writers (pw_held w)))"
    then have n: "q \<in> set (writers (pw_held w))" "pt_path q \<noteq> pt_path p" "pt_tree_claim q \<noteq> Some c"
      using d(2) [OF q] e(2) [OF q] mem(2) Some by auto
    from ok n(1) obtain k tree where k: "pt_path q \<in> slot_path ` {..<wc}"
        "holds_record (pd_writers (pw_dirs w)) (pt_path q)"
        "pt_tree_claim q = Some k" "pt_tree q = Some tree" "k = tree_claim_path hash (tree_key folds tree)"
        "holds_record (pd_trees (pw_dirs w)) k"
      unfolding permits_ok_def by metis
    show "pt_path q \<in> slot_path ` {..<wc} \<and>
      holds_record (put_slot (pt_path p) None (pd_writers (pw_dirs w))) (pt_path q) \<and>
      (\<exists>k tree. pt_tree_claim q = Some k \<and> pt_tree q = Some tree \<and> k = tree_claim_path hash (tree_key folds tree) \<and>
        holds_record (put_slot c None (pd_trees (pw_dirs w))) k)"
      using k n(2,3) by (simp add: holds_record_put)
  qed
  then show ?thesis
    using ok d(1) e(1) mem(1) unfolding permits_ok_def
    by (simp add: heavies_remove1 writers_remove1 dirs remove1_idem)
qed

text \<open>Noting a child changes what a record says, never whether there is one.\<close>

lemma holds_record_child [simp]: "holds_record (write_child_pid os writes child path s) q = holds_record s q"
  by (auto simp: write_child_pid_def holds_record_def put_slot_def split: option.splits stored.splits)

lemma child_ok:
  "permits_ok hash folds hc wc w \<Longrightarrow> permits_ok hash folds hc wc (w\<lparr>pw_dirs := set_child_pid os slot_writes tree_writes p child (pw_dirs w)\<rparr>)"
  by (auto simp: permits_ok_def set_child_pid_def in_pool_def Let_def split: option.splits)

lemma heavies_filter: "heavies (filter survives ps) = filter survives (heavies ps)"
  by (simp add: heavies_def conj_commute)

lemma writers_filter: "writers (filter survives ps) = filter survives (writers ps)"
  by (simp add: writers_def conj_commute)

lemma death_ok:
  "permits_ok hash folds hc wc w \<Longrightarrow> permits_ok hash folds hc wc (w\<lparr>pw_held := filter survives (pw_held w)\<rparr>)"
  by (simp add: permits_ok_def heavies_filter writers_filter distinct_map_filter)

lemma reachable_permits_ok:
  "permits_reachable hash folds hc wc w \<Longrightarrow> permits_ok hash folds hc wc w"
proof (induction rule: permits_reachable.induct)
  case (heavy w os limit stale listing label res s1)
  then show ?case using heavy_ok by blast
next
  case (writer w e limit seats label tree f res1 d1)
  then show ?case using writer_ok by blast
next
  case (release w p)
  then show ?case using release_ok by blast
next
  case (child w p os slot_writes tree_writes pid)
  then show ?case using child_ok by blast
next
  case (death w survives)
  then show ?case using death_ok by blast
qed (simp add: permits_ok_def)

text \<open>A refused writer leaves no record behind that was not there.\<close>

definition adds_no_record :: "slots \<Rightarrow> slots \<Rightarrow> bool" where
  "adds_no_record s s1 \<longleftrightarrow> (\<forall>q r. sl_files s1 q = Some (Holds r) \<longrightarrow> sl_files s q = Some (Holds r))"

lemma adds_no_record_refl [simp]: "adds_no_record s s"
  by (simp add: adds_no_record_def)

lemma adds_no_record_trans: "adds_no_record s s1 \<Longrightarrow> adds_no_record s1 s2 \<Longrightarrow> adds_no_record s s2"
  by (auto simp: adds_no_record_def)

lemma adds_no_record_remove [simp]: "adds_no_record s (put_slot path None s)"
  by (simp add: adds_no_record_def put_slot_def)

lemma sweep_adds_nothing: "live_records_in os stale paths s = (found, s1) \<Longrightarrow> adds_no_record s s1"
proof (induction paths arbitrary: s found)
  case (Cons path paths)
  show ?case
  proof (cases "judge_file os stale s path")
    case (HolderLives r)
    then show ?thesis using Cons by (auto split: prod.splits)
  next
    case RemoveFile
    then have "live_records_in os stale paths (put_slot path None s) = (found, s1)" using Cons.prems by simp
    from Cons.IH [OF this] show ?thesis using adds_no_record_trans adds_no_record_remove by blast
  next
    case LeaveFile
    then show ?thesis using Cons by simp
  qed
qed simp

lemma failed_creation_adds_nothing: "create_new_private path r s = (False, s1) \<Longrightarrow> adds_no_record s s1"
  by (auto simp: create_new_private_def Let_def put_slot_def adds_no_record_def
      split: if_splits list.splits creation.splits prod.splits)

lemma failed_claim_adds_nothing: "claim_any_slot slot limit r s = (None, s1) \<Longrightarrow> adds_no_record s s1"
proof (induction slot limit r s arbitrary: s1 rule: claim_any_slot.induct)
  case (1 slot limit r s)
  show ?case
  proof (cases "slot < limit")
    case False
    then show ?thesis using "1.prems" by (subst (asm) claim_any_slot.simps) auto
  next
    case True
    obtain b s2 where c: "create_new_private (slot_path slot) r s = (b, s2)"
      by (cases "create_new_private (slot_path slot) r s")
    then have b: "\<not> b" using "1.prems" True by (subst (asm) claim_any_slot.simps) (auto split: if_splits)
    then have rec: "claim_any_slot (Suc slot) limit r s2 = (None, s1)"
      using "1.prems" c True by (subst (asm) claim_any_slot.simps) simp
    have "adds_no_record s2 s1" using "1.IH" [OF True _ _ rec] c b by simp
    then show ?thesis using failed_creation_adds_nothing c b adds_no_record_trans by simp blast
  qed
qed

lemma failed_acquire_adds_nothing:
  assumes "acquire_record os stale listing limit r s = (None, s1)"
  shows "adds_no_record s s1"
proof (cases "limit = 0")
  case True
  then show ?thesis using assms by (simp add: acquire_record_def)
next
  case False
  obtain live s2 where l: "live_records_in os stale listing s = (live, s2)"
    by (cases "live_records_in os stale listing s")
  note a = sweep_adds_nothing [OF l]
  show ?thesis
  proof (cases "limit \<le> length live")
    case True
    then show ?thesis using assms False l a by (auto simp: acquire_record_def)
  next
    case free: False
    obtain p s3 where c: "claim_any_slot 0 limit r s2 = (p, s3)" by (cases "claim_any_slot 0 limit r s2")
    have "claim_attempts CLAIM_VERIFY_ATTEMPTS limit r s2 = (None, s1)"
      using assms False l free by (auto simp: acquire_record_def split: prod.splits option.splits)
    then have "p = None \<and> s3 = s1"
      using c claim_any_cases [OF c]
      by (cases p) (auto simp: CLAIM_VERIFY_ATTEMPTS_def eval_nat_numeral claim_is_verified_def)
    then show ?thesis using failed_claim_adds_nothing c a adds_no_record_trans by blast
  qed
qed

lemma failed_tree_claim_adds_nothing:
  "claim_tree_attempts k os stale path r s = (Inl e, s1) \<Longrightarrow> adds_no_record s s1"
proof (induction k arbitrary: s)
  case (Suc k)
  show ?case
  proof (cases "sl_files s path")
    case None
    obtain b s2 where c: "create_new_private path r s = (b, s2)" by (cases "create_new_private path r s")
    then have b: "\<not> b" using Suc.prems None by (cases b) auto
    then have "claim_tree_attempts k os stale path r s2 = (Inl e, s1)" using Suc.prems c None by simp
    from Suc.IH [OF this] show ?thesis using failed_creation_adds_nothing c b adds_no_record_trans by simp blast
  next
    case (Some f)
    then obtain s2 where "s2 \<in> {s, put_slot path None s}"
        "claim_tree_attempts k os stale path r s2 = (Inl e, s1) \<or> s1 = s"
      using Suc.prems by (cases f) (auto split: if_splits)
    then show ?thesis using Suc.IH adds_no_record_trans [OF adds_no_record_remove] by auto
  qed
qed simp

lemma creation_adds_one:
  assumes "create_new_private path r s = (b, s1)"
  shows "adds_no_record s (put_slot path None s1)"
  using assms
  by (auto simp: create_new_private_def Let_def put_slot_def adds_no_record_def
      split: if_splits list.splits creation.splits prod.splits)

lemma claim_tree_attempts_adds_one:
  "claim_tree_attempts k os stale path r s = (res, s1) \<Longrightarrow> adds_no_record s (put_slot path None s1)"
proof (induction k arbitrary: s)
  case (Suc k)
  show ?case
  proof (cases "sl_files s path")
    case None
    obtain b s2 where c: "create_new_private path r s = (b, s2)" by (cases "create_new_private path r s")
    show ?thesis
    proof (cases b)
      case True
      then have "s1 = s2" using Suc.prems None c by simp
      then show ?thesis using creation_adds_one [OF c] by simp
    next
      case False
      then have "claim_tree_attempts k os stale path r s2 = (res, s1)" using Suc.prems c None by simp
      from Suc.IH [OF this] show ?thesis using failed_creation_adds_nothing c False adds_no_record_trans by simp blast
    qed
  next
    case (Some f)
    then obtain s2 where "s2 \<in> {s, put_slot path None s}"
        "claim_tree_attempts k os stale path r s2 = (res, s1) \<or> s1 = s"
      using Suc.prems by (cases f) (auto split: if_splits)
    then show ?thesis using Suc.IH adds_no_record_trans [OF adds_no_record_remove] by auto
  qed
qed simp

lemma claim_tree_adds_one:
  assumes "claim_tree lo os stale path r s = (res, s1)"
  shows "adds_no_record s (put_slot path None s1)"
  using assms claim_tree_attempts_adds_one [of CLAIM_VERIFY_ATTEMPTS os stale path r s res s1]
  by (auto simp: claim_tree_def split: if_splits)

section \<open>What the permits promise\<close>

lemma slots_within:
  assumes "distinct (map pt_path ps)" "\<forall>p\<in>set ps. pt_path p \<in> slot_path ` {..<cap}"
  shows "length ps \<le> cap"
proof -
  have "length ps = card (set (map pt_path ps))" using distinct_card [OF assms(1)] by simp
  also have "\<dots> \<le> card (slot_path ` {..<cap})" using assms(2) by (intro card_mono) auto
  also have "\<dots> \<le> card {..<cap}" by (rule card_image_le) simp
  finally show ?thesis by simp
qed

text \<open>C3: As long as operations run one after the other and the system tells the truth about the
  processes that hold permits, whatever it says of others, whatever the files' creations do and
  however processes die: no more heavy permits are held than the largest cap in use, no more
  writer permits than theirs, and no two writers hold the same checkout, under the case folding of
  the platform.\<close>

theorem permits_are_exclusive_and_capped:
  assumes "permits_reachable hash folds heavy_cap writer_cap w"
  shows "length (heavies (pw_held w)) \<le> heavy_cap \<and> length (writers (pw_held w)) \<le> writer_cap \<and>
    distinct (map (\<lambda>p. map_option (tree_key folds) (pt_tree p)) (writers (pw_held w)))"
proof -
  have ok: "permits_ok hash folds heavy_cap writer_cap w" using assms by (rule reachable_permits_ok)
  have "map pt_tree_claim (writers (pw_held w)) =
      map (map_option (tree_claim_path hash)) (map (\<lambda>p. map_option (tree_key folds) (pt_tree p)) (writers (pw_held w)))"
    using ok by (auto simp: permits_ok_def)
  moreover have "distinct (map pt_tree_claim (writers (pw_held w)))" using ok unfolding permits_ok_def by blast
  ultimately have "distinct (map (map_option (tree_claim_path hash))
      (map (\<lambda>p. map_option (tree_key folds) (pt_tree p)) (writers (pw_held w))))"
    by (rule subst)
  then have "distinct (map (\<lambda>p. map_option (tree_key folds) (pt_tree p)) (writers (pw_held w)))"
    by (simp only: distinct_map)
  then show ?thesis using ok slots_within unfolding permits_ok_def by blast
qed

definition sample_os :: "u32 \<Rightarrow> processes" where
  "sample_os pid = \<lparr>probe_signal = (\<lambda>p. if p = pid then CanSignal else NoSuchProcess),
     ps_etime = (\<lambda>_. None), own_pid = pid, clock = 100\<rparr>"

definition sample_env :: "u32 \<Rightarrow> permit_env" where
  "sample_env pid = \<lparr>pe_os = sample_os pid, pe_stale = (\<lambda>_. False), pe_listing = [], pe_lock_opens = True,
     pe_hash = (\<lambda>k. k), pe_folds_case = False\<rparr>"

definition no_seats :: seat_store where
  "no_seats = \<lparr>ss_seats = (\<lambda>_. None), ss_markers = (\<lambda>_. None), ss_locks = [], ss_writes = []\<rparr>"

definition no_permits :: permit_dirs where
  "no_permits = \<lparr>pd_heavy = empty_slots [], pd_writers = empty_slots [], pd_trees = empty_slots []\<rparr>"

lemma slot_0: "slot_path 0 = ''slot-0.json''"
  by code_simp

lemma sample_writer:
  "acquire_writer (sample_env 5) no_seats 1 ''edit'' ''/repo'' (EnvFence None None) no_permits =
    (let r = own_record (sample_os 5) ''edit'' Writer (Some ''/repo'') in
     (Inr \<lparr>pt_path = ''slot-0.json'', pt_tree_claim = Some ''tree-/repo.json'', pt_tree = Some ''/repo''\<rparr>,
      no_permits\<lparr>pd_writers := put_slot ''slot-0.json'' (Some (Holds r)) (empty_slots []),
                 pd_trees := put_slot ''tree-/repo.json'' (Some (Holds r)) (empty_slots [])\<rparr>))"
  by (simp add: acquire_writer_def fence_refusal_def guard_from_env_def superseded_only_def sample_env_def
      no_permits_def empty_slots_def tree_claim_path_def tree_key_def claim_tree_def CLAIM_VERIFY_ATTEMPTS_def
      eval_nat_numeral create_new_private_def Let_def put_slot_def acquire_record_def effective_limit_def
      claim_any_slot.simps slot_0 claim_is_verified_def own_record_def sample_os_def fun_eq_iff)

theorem permits_are_exclusive_and_capped_witness:
  "\<exists>w. permits_reachable (\<lambda>k. k) False 1 1 w \<and>
     map pt_tree (writers (pw_held w)) = [Some ''/repo''] \<and>
     length (heavies (pw_held w)) \<le> 1 \<and> length (writers (pw_held w)) \<le> 1 \<and>
     distinct (map (\<lambda>p. map_option (tree_key False) (pt_tree p)) (writers (pw_held w)))"
proof -
  let ?w0 = "\<lparr>pw_dirs = no_permits, pw_held = []\<rparr>"
  have start: "permits_reachable (\<lambda>k. k) False 1 1 ?w0"
    unfolding no_permits_def by (rule permits_reachable.start)
  obtain p d1 where p: "acquire_writer (sample_env 5) no_seats 1 ''edit'' ''/repo'' (EnvFence None None) (pw_dirs ?w0)
        = (Inr p, d1)" "pt_tree_claim p = Some ''tree-/repo.json''" "pt_tree p = Some ''/repo''"
    using sample_writer by (simp add: Let_def)
  define w where "w = \<lparr>pw_dirs = d1, pw_held = [p]\<rparr>"
  have r: "permits_reachable (\<lambda>k. k) False 1 1 w"
    using start permits_reachable.writer [of "\<lambda>k. k" False 1 1 ?w0 "sample_env 5", OF _ _ _ _ _ p(1)]
    by (simp add: truthful_def sample_env_def effective_limit_def w_def)
  have m: "map pt_tree (writers (pw_held w)) = [Some ''/repo'']"
    using p(2,3) by (simp add: w_def)
  show ?thesis
    using permits_are_exclusive_and_capped [OF r] r m by (intro exI [of _ w] conjI) simp_all
qed

text \<open>A writer that is turned away, by its fence, by a checkout in use or by a full pool, leaves
  no claim: every record that the pool and the claims hold afterwards was there before, and every
  record of a living owner is still there.\<close>

theorem refused_writer_leaves_no_claim:
  assumes "acquire_writer e seats limit label tree f d = (Inl refusal, d1)"
  shows "pd_heavy d1 = pd_heavy d \<and>
    adds_no_record (pd_writers d) (pd_writers d1) \<and> adds_no_record (pd_trees d) (pd_trees d1) \<and>
    keeps_live (pe_os e) (pd_writers d) (pd_writers d1) \<and> keeps_live (pe_os e) (pd_trees d) (pd_trees d1)"
proof -
  have "adds_no_record (pd_writers d) (pd_writers d1) \<and> adds_no_record (pd_trees d) (pd_trees d1)"
  proof (cases "fence_refusal seats f")
    case (Some r)
    then show ?thesis using assms by (simp add: acquire_writer_def)
  next
    case None
    let ?path = "tree_claim_path (pe_hash e) (tree_key (pe_folds_case e) tree)"
    let ?r = "own_record (pe_os e) label Writer (Some tree)"
    obtain ct trees where c: "claim_tree (pe_lock_opens e) (pe_os e) (pe_stale e) ?path ?r (pd_trees d) = (ct, trees)"
      by (cases "claim_tree (pe_lock_opens e) (pe_os e) (pe_stale e) ?path ?r (pd_trees d)")
    show ?thesis
    proof (cases ct)
      case (Inl r)
      then have "adds_no_record (pd_trees d) trees"
        using c failed_tree_claim_adds_nothing by (auto simp: claim_tree_def split: if_splits)
      then show ?thesis using assms None c Inl by (auto simp: acquire_writer_def Let_def)
    next
      case (Inr claim)
      have grown: "adds_no_record (pd_trees d) (put_slot ?path None trees)" "claim = ?path"
        using c Inr claim_tree_adds_one [OF c] claim_tree_cases [OF c] by auto
      obtain ar ws where a: "acquire_record (pe_os e) (pe_stale e) (pe_listing e) (effective_limit limit) ?r
          (pd_writers d) = (ar, ws)"
        by (cases "acquire_record (pe_os e) (pe_stale e) (pe_listing e) (effective_limit limit) ?r (pd_writers d)")
      then have "ar = None" using assms None c Inr by (auto simp: acquire_writer_def Let_def split: option.splits)
      then show ?thesis
        using assms None c Inr a grown failed_acquire_adds_nothing [of _ _ _ _ ?r "pd_writers d" ws]
        by (auto simp: acquire_writer_def Let_def)
    qed
  qed
  then show ?thesis using acquire_writer_cases [OF assms] by blast
qed

theorem refused_writer_leaves_no_claim_witness:
  "\<exists>refusal d1.
     acquire_writer (sample_env 5) no_seats 1 ''edit'' ''/repo'' (EnvFence None None)
       (no_permits\<lparr>pd_writers := put_slot ''slot-0.json'' (Some Garbled) (empty_slots [])\<rparr>) = (Inl refusal, d1) \<and>
     adds_no_record (empty_slots []) (pd_trees d1)"
proof -
  let ?d = "no_permits\<lparr>pd_writers := put_slot ''slot-0.json'' (Some Garbled) (empty_slots [])\<rparr>"
  have "\<exists>refusal d1. acquire_writer (sample_env 5) no_seats 1 ''edit'' ''/repo'' (EnvFence None None) ?d = (Inl refusal, d1)"
    by (simp add: acquire_writer_def fence_refusal_def guard_from_env_def superseded_only_def sample_env_def
      no_permits_def empty_slots_def tree_claim_path_def tree_key_def claim_tree_def CLAIM_VERIFY_ATTEMPTS_def
      eval_nat_numeral create_new_private_def Let_def put_slot_def acquire_record_def effective_limit_def
      claim_any_slot.simps slot_0 claim_is_verified_def own_record_def sample_os_def)
  then obtain refusal d1 where
    r: "acquire_writer (sample_env 5) no_seats 1 ''edit'' ''/repo'' (EnvFence None None) ?d = (Inl refusal, d1)"
    by blast
  from refused_writer_leaves_no_claim [OF r] have "adds_no_record (empty_slots []) (pd_trees d1)"
    by (simp add: no_permits_def)
  with r show ?thesis by blast
qed

section \<open>A sweep beside a claim\<close>

text \<open>
  The sweep reads a slot and removes the file afterwards. When another process claims the slot in
  between, its living claim is removed, and the sweeper then claims the same slot: a cap of one
  admits two. The claimer has verified its claim before the removal.
\<close>

theorem sweep_may_remove_a_living_claim:
  assumes "sl_files s (slot_path 0) = Some (Holds gone)" "sl_creations s = []"
    and "\<not> permit_record_is_alive os_a gone" "\<not> permit_record_is_alive os_b gone"
  shows "judge_file os_a stale s (slot_path 0) = RemoveFile \<and>
    (\<exists>s1. acquire os_b stale [slot_path 0] 1 label_b s =
            (Some \<lparr>pt_path = slot_path 0, pt_tree_claim = None, pt_tree = None\<rparr>, s1) \<and>
          fst (claim_attempts CLAIM_VERIFY_ATTEMPTS 1 r (put_slot (slot_path 0) None s1)) = Some (slot_path 0))"
  using assms
  by (simp add: judge_file_def acquire_def acquire_record_def CLAIM_VERIFY_ATTEMPTS_def eval_nat_numeral
      claim_any_slot.simps create_new_private_def Let_def put_slot_def claim_is_verified_def own_record_def)

end
