(* ===== verification/Workflow_Def.thy ===== *)
theory Workflow_Def
  imports Prelude "HOL-Library.List_Lexorder" "HOL-Library.Char_ord"
begin

text \<open>
  Workflow definitions, \<open>src/commands/workflow/definition.rs\<close> and the materialisation of
  \<open>src/commands/workflow/engine/definitions.rs\<close>: the declared steps with their dependencies, their
  structural validation (identifiers, skills, dependencies, variants, cycles, connectedness, gate
  references, the gating of external effects), and the flat list of steps that a classification
  selects: pruning by condition, a stable topological order, the profile's variants, the intent
  skill and the deploy tier.

  Titles, capabilities, inputs, outputs, limits and reasons of a definition are descriptive: the
  functions modelled here never read them. The byte length of the serialised definition and the
  known skills are arguments of the validation. Identifiers are ASCII, so that the order of byte
  strings is the order of character lists.
\<close>

section \<open>Data\<close>

datatype wf_phase =
  PhIntent | PhDesign | PhPlan | PhImplement | PhDebug | PhTest | PhReview | PhVerify | PhDeploy |
  PhDelegate | PhPresent

datatype complexity = CxTrivial | CxBounded | CxSubstantial | CxArchitectural

datatype risk_band = RkLow | RkMedium | RkHigh | RkCritical

datatype deploy_tier = TierDevelopment | TierStaging | TierProduction

datatype effect_class = EfNone | EfRepository | EfExternal

datatype artifact_stage = ArtIntent | ArtSpec | ArtPlan

datatype wf_profile = ProfileStandard | ProfileFrontend

datatype work_domain = DomainGeneral | DomainFrontend

fun complexity_rank :: "complexity \<Rightarrow> nat" where
  "complexity_rank CxTrivial = 0"
| "complexity_rank CxBounded = 1"
| "complexity_rank CxSubstantial = 2"
| "complexity_rank CxArchitectural = 3"

fun risk_rank :: "risk_band \<Rightarrow> nat" where
  "risk_rank RkLow = 0"
| "risk_rank RkMedium = 1"
| "risk_rank RkHigh = 2"
| "risk_rank RkCritical = 3"

fun tier_rank :: "deploy_tier \<Rightarrow> nat" where
  "tier_rank TierDevelopment = 0"
| "tier_rank TierStaging = 1"
| "tier_rank TierProduction = 2"

lemma rank_inj [simp]:
  "complexity_rank a = complexity_rank b \<longleftrightarrow> a = b"
  "risk_rank c = risk_rank d \<longleftrightarrow> c = d"
  "tier_rank e = tier_rank f \<longleftrightarrow> e = f"
  subgoal by (cases a; cases b) simp_all
  subgoal by (cases c; cases d) simp_all
  subgoal by (cases e; cases f) simp_all
  done

instantiation complexity :: linorder
begin

definition less_eq_complexity :: "complexity \<Rightarrow> complexity \<Rightarrow> bool" where
  "less_eq_complexity a b \<longleftrightarrow> complexity_rank a \<le> complexity_rank b"

definition less_complexity :: "complexity \<Rightarrow> complexity \<Rightarrow> bool" where
  "less_complexity a b \<longleftrightarrow> complexity_rank a < complexity_rank b"

instance
  by standard (auto simp: less_eq_complexity_def less_complexity_def)

end

instantiation risk_band :: linorder
begin

definition less_eq_risk_band :: "risk_band \<Rightarrow> risk_band \<Rightarrow> bool" where
  "less_eq_risk_band a b \<longleftrightarrow> risk_rank a \<le> risk_rank b"

definition less_risk_band :: "risk_band \<Rightarrow> risk_band \<Rightarrow> bool" where
  "less_risk_band a b \<longleftrightarrow> risk_rank a < risk_rank b"

instance
  by standard (auto simp: less_eq_risk_band_def less_risk_band_def)

end

instantiation deploy_tier :: linorder
begin

definition less_eq_deploy_tier :: "deploy_tier \<Rightarrow> deploy_tier \<Rightarrow> bool" where
  "less_eq_deploy_tier a b \<longleftrightarrow> tier_rank a \<le> tier_rank b"

definition less_deploy_tier :: "deploy_tier \<Rightarrow> deploy_tier \<Rightarrow> bool" where
  "less_deploy_tier a b \<longleftrightarrow> tier_rank a < tier_rank b"

instance
  by standard (auto simp: less_eq_deploy_tier_def less_deploy_tier_def)

end

datatype step_condition =
    Always
  | ComplexityAtLeast complexity
  | RiskAtLeast risk_band
  | ComplexityOrRisk complexity risk_band

text \<open>The classification, less the measured paths and the intent, which no transition reads.\<close>

record classification =
  cf_complexity :: complexity
  cf_risk :: risk_band
  cf_risk_score :: nat
  cf_changed_files :: nat
  cf_changed_lines :: nat
  cf_work_domain :: work_domain
  cf_measured :: bool

fun condition_applies :: "step_condition \<Rightarrow> classification \<Rightarrow> bool" where
  "condition_applies Always cl = True"
| "condition_applies (ComplexityAtLeast minimum) cl = (minimum \<le> cf_complexity cl)"
| "condition_applies (RiskAtLeast minimum) cl = (minimum \<le> cf_risk cl)"
| "condition_applies (ComplexityOrRisk cx rk) cl = (cx \<le> cf_complexity cl \<or> rk \<le> cf_risk cl)"

record step_v2 =
  sv_id :: string
  sv_phase :: wf_phase
  sv_skills :: "string list"
  sv_agent_role :: "string option"
  sv_depends_on :: "string list"
  sv_parallel_group :: "string option"
  sv_condition :: step_condition
  sv_approval :: bool
  sv_artifact :: "artifact_stage option"
  sv_max_attempts :: nat
  sv_effect :: effect_class
  sv_domains :: "string list"
  sv_overrides :: "string option"

record wf_definition =
  df_schema_version :: nat
  df_id :: string
  df_version :: nat
  df_title :: string
  df_description :: string
  df_steps :: "step_v2 list"
  df_gate_approval :: "string list"
  df_gate_validation :: "string list"
  df_gate_review :: "string list"

definition canonical_steps :: "wf_definition \<Rightarrow> step_v2 list" where
  "canonical_steps d = filter (\<lambda>s. sv_overrides s = None) (df_steps d)"

section \<open>Validation\<close>

definition DEFINITION_SCHEMA_VERSION :: nat where "DEFINITION_SCHEMA_VERSION = 1"

definition MAX_DEFINITION_BYTES :: nat where "MAX_DEFINITION_BYTES = 32 * 1024"

definition valid_id :: "string \<Rightarrow> bool" where
  "valid_id i =
     (case i of
        [] \<Rightarrow> False
      | c # cs \<Rightarrow> (is_ascii_lowercase c \<or> is_ascii_digit c) \<and>
          list_all (\<lambda>c. is_ascii_lowercase c \<or> is_ascii_digit c \<or> c \<in> {CHR ''.'', CHR ''_'', CHR ''-''}) cs)"

datatype def_error =
    BadSchema nat
  | BadDefinitionId
  | ZeroVersion
  | MissingText
  | NoSteps
  | TooLarge nat
  | BadStepId string
  | DuplicateStep string
  | NoSkill string
  | UnknownSkill string string
  | SelfDependency string
  | UnknownDependency string string
  | SelfOverride string
  | OverridesUnknown string string
  | OverridesVariant string string
  | VariantWithDependencies string
  | DependencyCycle string
  | UnreachableStep string string
  | UnknownGate string
  | UngatedExternal string

definition check :: "bool \<Rightarrow> 'e \<Rightarrow> 'e + unit" where
  "check ok e = (if ok then Inr () else Inl e)"

fun first_error :: "('x \<Rightarrow> 'e option) \<Rightarrow> 'x list \<Rightarrow> 'e + unit" where
  "first_error f [] = Inr ()"
| "first_error f (x # xs) = (case f x of Some e \<Rightarrow> Inl e | None \<Rightarrow> first_error f xs)"

lemma check_Inr [simp]: "check ok e = Inr u \<longleftrightarrow> ok"
  by (simp add: check_def)

lemma first_error_Inr [simp]: "first_error f xs = Inr u \<longleftrightarrow> (\<forall>x\<in>set xs. f x = None)"
  by (induction xs) (auto split: option.splits)

fun check_steps :: "string list \<Rightarrow> string list \<Rightarrow> step_v2 list \<Rightarrow> def_error + string list" where
  "check_steps known seen [] = Inr seen"
| "check_steps known seen (s # ss) =
     (if \<not> valid_id (sv_id s) then Inl (BadStepId (sv_id s))
      else if sv_id s \<in> set seen then Inl (DuplicateStep (sv_id s))
      else if sv_skills s = [] then Inl (NoSkill (sv_id s))
      else case find (\<lambda>k. k \<notin> set known) (sv_skills s) of
          Some k \<Rightarrow> Inl (UnknownSkill (sv_id s) k)
        | None \<Rightarrow> check_steps known (sv_id s # seen) ss)"

definition bad_dependency :: "string list \<Rightarrow> step_v2 \<Rightarrow> def_error option" where
  "bad_dependency seen s =
     (case find (\<lambda>d. d = sv_id s \<or> d \<notin> set seen) (sv_depends_on s) of
        None \<Rightarrow> None
      | Some d \<Rightarrow> Some (if d = sv_id s then SelfDependency (sv_id s) else UnknownDependency (sv_id s) d))"

text \<open>The variants, in the order of their identifiers.\<close>

definition variant_targets :: "wf_definition \<Rightarrow> (string \<times> string) list" where
  "variant_targets d =
     sort_key fst (List.map_filter (\<lambda>s. map_option (\<lambda>t. (sv_id s, t)) (sv_overrides s)) (df_steps d))"

definition bad_variant :: "string list \<Rightarrow> (string \<times> string) list \<Rightarrow> string \<times> string \<Rightarrow> def_error option" where
  "bad_variant seen targets v =
     (case v of (variant, target) \<Rightarrow>
        if target = variant then Some (SelfOverride variant)
        else if target \<notin> set seen then Some (OverridesUnknown variant target)
        else if target \<in> fst ` set targets then Some (OverridesVariant variant target)
        else None)"

text \<open>
  The search for a cycle: the loop over the keys and the loop over a step's dependencies are the
  same walk over a list of identifiers. A step is marked while it is being visited and again when
  all it depends on is done.
\<close>

datatype mark = Visiting | Done

definition deps_of :: "step_v2 list \<Rightarrow> string \<Rightarrow> string list" where
  "deps_of steps i = (case find (\<lambda>s. sv_id s = i) (rev steps) of None \<Rightarrow> [] | Some s \<Rightarrow> sv_depends_on s)"

definition nodes_of :: "step_v2 list \<Rightarrow> string set" where
  "nodes_of steps = sv_id ` set steps \<union> (\<Union>s\<in>set steps. set (sv_depends_on s))"

lemma finite_nodes [simp]: "finite (nodes_of steps)"
  by (simp add: nodes_of_def)

lemma find_mem: "find P xs = Some x \<Longrightarrow> x \<in> set xs \<and> P x"
  by (auto simp: find_Some_iff)

lemma deps_known: "deps_of steps i \<noteq> [] \<Longrightarrow> i \<in> nodes_of steps"
  by (auto simp: deps_of_def nodes_of_def split: option.splits dest: find_mem)

function visit_all ::
    "step_v2 list \<Rightarrow> string list \<Rightarrow> (string \<Rightarrow> mark option) \<Rightarrow> string option \<times> (string \<Rightarrow> mark option)" where
  "visit_all steps [] m = (None, m)"
| "visit_all steps (x # xs) m =
     (case m x of
        Some Visiting \<Rightarrow> (Some x, m)
      | Some Done \<Rightarrow> visit_all steps xs m
      | None \<Rightarrow>
          (case visit_all steps (deps_of steps x) (m(x \<mapsto> Visiting)) of
             (Some c, m1) \<Rightarrow> (Some c, m1)
           | (None, m1) \<Rightarrow> visit_all steps xs (m1(x \<mapsto> Done))))"
  by pat_completeness auto

lemma visit_marks_grow: "visit_all_dom (steps, xs, m) \<Longrightarrow> dom m \<subseteq> dom (snd (visit_all steps xs m))"
proof (induction steps xs m rule: visit_all.pinduct)
  case (1 steps m)
  then show ?case by (simp add: visit_all.psimps)
next
  case (2 steps x xs m)
  show ?case
  proof (cases "m x")
    case None
    obtain c m1 where v: "visit_all steps (deps_of steps x) (m(x \<mapsto> Visiting)) = (c, m1)"
      by (cases "visit_all steps (deps_of steps x) (m(x \<mapsto> Visiting))")
    have "dom (m(x \<mapsto> Visiting)) \<subseteq> dom m1" using "2.IH"(1) [OF None] by (simp only: v snd_conv)
    then have d: "insert x (dom m) \<subseteq> dom m1" by simp
    show ?thesis
    proof (cases c)
      case (Some y)
      then show ?thesis using 2 None v d by (simp add: visit_all.psimps)
    next
      case None2: None
      have "dom (m1(x \<mapsto> Done)) \<subseteq> dom (snd (visit_all steps xs (m1(x \<mapsto> Done))))"
        using "2.IH"(2) [OF None v [symmetric]] None2 by (simp only:)
      moreover have "dom m \<subseteq> dom (m1(x \<mapsto> Done))" using d by auto
      ultimately have "dom m \<subseteq> dom (snd (visit_all steps xs (m1(x \<mapsto> Done))))" by (rule subset_trans [rotated])
      then show ?thesis using 2 None v None2 by (simp add: visit_all.psimps)
    qed
  next
    case (Some k)
    then show ?thesis using 2 by (cases k) (auto simp: visit_all.psimps)
  qed
qed

termination visit_all
proof (relation "inv_image (finite_psubset <*lex*> less_than) (\<lambda>(steps, xs, m). (nodes_of steps - dom m, length xs))",
    goal_cases)
  case 1
  then show ?case by (auto intro: wf_finite_psubset)
next
  case (2 steps x xs m)
  have "nodes_of steps - dom (m(x \<mapsto> Visiting)) \<subset> nodes_of steps - dom m \<or>
      nodes_of steps - dom (m(x \<mapsto> Visiting)) = nodes_of steps - dom m \<and> deps_of steps x = []"
    using deps_known [of steps x] 2 by (cases "x \<in> nodes_of steps") auto
  then show ?case by (auto simp: finite_psubset_def)
next
  case (3 steps x xs m c m1)
  have "dom (m(x \<mapsto> Visiting)) \<subseteq> dom m1"
    using visit_marks_grow [OF 3(4)] by (simp only: 3(2) [symmetric] snd_conv)
  then have "nodes_of steps - dom (m1(x \<mapsto> Done)) \<subseteq> nodes_of steps - dom m" by auto
  then show ?case by (auto simp: finite_psubset_def psubset_eq)
next
  case (4 steps x xs m k)
  then show ?case by simp
qed

definition reject_cycles :: "wf_definition \<Rightarrow> def_error + unit" where
  "reject_cycles d =
     (case fst (visit_all (df_steps d) (sort (remdups (map sv_id (df_steps d)))) (\<lambda>_. None)) of
        Some c \<Rightarrow> Inl (DependencyCycle c)
      | None \<Rightarrow> Inr ())"

text \<open>
  The reachability check follows dependencies in both directions from the first canonical step. The
  queue is popped at its end: its top comes first here.
\<close>

definition edges_of :: "step_v2 list \<Rightarrow> (string \<times> string) list" where
  "edges_of steps = concat (map (\<lambda>s. concat (map (\<lambda>d. [(sv_id s, d), (d, sv_id s)]) (sv_depends_on s))) steps)"

definition neighbours :: "step_v2 list \<Rightarrow> string \<Rightarrow> string list" where
  "neighbours steps i = sort (remdups (map snd (filter (\<lambda>e. fst e = i) (edges_of steps))))"

function flood :: "step_v2 list \<Rightarrow> string list \<Rightarrow> string list \<Rightarrow> string list" where
  "flood steps [] reached = reached"
| "flood steps (i # queue) reached =
     (if i \<in> set reached then flood steps queue reached
      else flood steps (rev (neighbours steps i) @ queue) (i # reached))"
  by pat_completeness auto

lemma set_neighbours: "set (neighbours steps i) = {j. (i, j) \<in> set (edges_of steps)}"
  by (force simp: neighbours_def)

termination flood
proof (relation "inv_image (finite_psubset <*lex*> less_than)
      (\<lambda>(steps, queue, reached). (fst ` set (edges_of steps) - set reached, length queue))", goal_cases)
  case 1
  then show ?case by (auto intro: wf_finite_psubset)
next
  case (2 steps i queue reached)
  then show ?case by simp
next
  case (3 steps i queue reached)
  then have "fst ` set (edges_of steps) - set (i # reached) \<subset> fst ` set (edges_of steps) - set reached \<or>
      fst ` set (edges_of steps) - set (i # reached) = fst ` set (edges_of steps) - set reached \<and>
      neighbours steps i = []"
    by (cases "i \<in> fst ` set (edges_of steps)") (auto simp: set_neighbours image_iff simp flip: set_empty)
  then show ?case by (auto simp: finite_psubset_def)
qed

definition reject_unreachable :: "wf_definition \<Rightarrow> def_error + unit" where
  "reject_unreachable d =
     (case canonical_steps d of
        [] \<Rightarrow> Inr ()
      | s # _ \<Rightarrow>
          let reached = flood (canonical_steps d) [sv_id s] [] in
          first_error (\<lambda>t. if sv_id t \<in> set reached then None
                           else Some (UnreachableStep (sv_id t) (sv_id s))) (canonical_steps d))"

definition validate :: "string list \<Rightarrow> nat \<Rightarrow> wf_definition \<Rightarrow> def_error + unit" where
  "validate known bytes d =
     and_then (check (df_schema_version d = DEFINITION_SCHEMA_VERSION) (BadSchema (df_schema_version d))) (\<lambda>_.
     and_then (check (valid_id (df_id d)) BadDefinitionId) (\<lambda>_.
     and_then (check (df_version d \<noteq> 0) ZeroVersion) (\<lambda>_.
     and_then (check (trim (df_title d) \<noteq> [] \<and> trim (df_description d) \<noteq> []) MissingText) (\<lambda>_.
     and_then (check (df_steps d \<noteq> []) NoSteps) (\<lambda>_.
     and_then (check (bytes \<le> MAX_DEFINITION_BYTES) (TooLarge bytes)) (\<lambda>_.
     and_then (check_steps known [] (df_steps d)) (\<lambda>seen.
     and_then (first_error (bad_dependency seen) (df_steps d)) (\<lambda>_.
     and_then (first_error (bad_variant seen (variant_targets d)) (variant_targets d)) (\<lambda>_.
     and_then (first_error (\<lambda>s. if sv_overrides s \<noteq> None \<and> sv_depends_on s \<noteq> []
                 then Some (VariantWithDependencies (sv_id s)) else None) (df_steps d)) (\<lambda>_.
     and_then (reject_cycles d) (\<lambda>_.
     and_then (reject_unreachable d) (\<lambda>_.
     and_then (first_error (\<lambda>g. if g \<in> set seen then None else Some (UnknownGate g))
                 (df_gate_approval d @ df_gate_validation d @ df_gate_review d)) (\<lambda>_.
       first_error (\<lambda>s. if sv_effect s = EfExternal \<and> \<not> sv_approval s \<and> sv_id s \<notin> set (df_gate_approval d)
                        then Some (UngatedExternal (sv_id s)) else None) (df_steps d))))))))))))))"

section \<open>What validation guarantees\<close>

lemma check_steps_ok:
  "check_steps known seen ss = Inr seen1 \<Longrightarrow>
     distinct (map sv_id ss) \<and> set (map sv_id ss) \<inter> set seen = {} \<and>
     set seen1 = set (map sv_id ss) \<union> set seen \<and>
     (\<forall>s\<in>set ss. valid_id (sv_id s) \<and> sv_skills s \<noteq> [] \<and> set (sv_skills s) \<subseteq> set known)"
proof (induction known seen ss rule: check_steps.induct)
  case (2 known seen s ss)
  then have "find (\<lambda>k. k \<notin> set known) (sv_skills s) = None" "check_steps known (sv_id s # seen) ss = Inr seen1"
    and s: "valid_id (sv_id s)" "sv_id s \<notin> set seen" "sv_skills s \<noteq> []"
    by (auto split: if_splits option.splits)
  moreover from this(1) have "set (sv_skills s) \<subseteq> set known" by (auto simp: find_None_iff)
  ultimately show ?case using "2.IH" by auto
qed simp

text \<open>A ranking of the finished steps: what a step depends on is finished and ranks below it.\<close>

definition ranked :: "step_v2 list \<Rightarrow> (string \<Rightarrow> mark option) \<Rightarrow> (string \<Rightarrow> nat) \<Rightarrow> bool" where
  "ranked steps m rk \<longleftrightarrow>
     (\<forall>x. m x = Some Done \<longrightarrow> (\<forall>d\<in>set (deps_of steps x). m d = Some Done \<and> rk d < rk x))"

lemma ranked_finish:
  assumes "ranked steps m rk" "m x = Some Visiting" "\<forall>d\<in>set (deps_of steps x). m d = Some Done"
  shows "ranked steps (m(x \<mapsto> Done)) (rk(x := Suc (sum_list (map rk (deps_of steps x)))))"
proof -
  have ne: "d \<noteq> x" if "m d = Some Done" for d using that assms(2) by auto
  have "rk d < Suc (sum_list (map rk (deps_of steps x)))" if "d \<in> set (deps_of steps x)" for d
    using member_le_sum_list [of "rk d" "map rk (deps_of steps x)"] that by simp
  then show ?thesis
    using assms ne unfolding ranked_def by (auto simp: fun_upd_apply)
qed

lemma visit_all_sound:
  "visit_all steps xs m = (None, m1) \<Longrightarrow> ranked steps m rk \<Longrightarrow>
     (\<exists>rk1. ranked steps m1 rk1) \<and> (\<forall>x\<in>set xs. m1 x = Some Done) \<and> m \<subseteq>\<^sub>m m1"
proof (induction steps xs m arbitrary: m1 rk rule: visit_all.induct)
  case (1 steps m)
  then show ?case by auto
next
  case (2 steps x xs m)
  show ?case
  proof (cases "m x")
    case (Some k)
    then have k: "k = Done" "visit_all steps xs m = (None, m1)"
      using "2.prems"(1) by (auto split: mark.splits)
    then show ?thesis
      using "2.IH"(3) [OF Some k(1) k(2) "2.prems"(2)] Some by (auto simp: map_le_def dom_def)
  next
    case None
    obtain c m2 where v: "visit_all steps (deps_of steps x) (m(x \<mapsto> Visiting)) = (c, m2)"
      by (cases "visit_all steps (deps_of steps x) (m(x \<mapsto> Visiting))")
    then have c: "c = None" "visit_all steps xs (m2(x \<mapsto> Done)) = (None, m1)"
      using "2.prems"(1) None by (auto split: option.splits)
    have "ranked steps (m(x \<mapsto> Visiting)) rk"
      using "2.prems"(2) None unfolding ranked_def by (metis fun_upd_apply mark.distinct(1) option.distinct(1) option.inject)
    from "2.IH"(1) [OF None v [unfolded c(1)] this]
    obtain rk2 where in2: "ranked steps m2 rk2" "\<forall>d\<in>set (deps_of steps x). m2 d = Some Done"
        "m(x \<mapsto> Visiting) \<subseteq>\<^sub>m m2" by blast
    then have vis: "m2 x = Some Visiting" by (auto simp: map_le_def)
    from "2.IH"(2) [OF None v [symmetric, unfolded c(1)] refl c(2) ranked_finish [OF in2(1) vis in2(2)]]
    have out: "\<exists>rk1. ranked steps m1 rk1" "\<forall>y\<in>set xs. m1 y = Some Done" "m2(x \<mapsto> Done) \<subseteq>\<^sub>m m1" by blast+
    have "m1 x = Some Done" using out(3) by (auto simp: map_le_def)
    moreover have "m \<subseteq>\<^sub>m m1"
      using in2(3) out(3) None unfolding map_le_def by (metis domIff fun_upd_apply option.distinct(1))
    ultimately show ?thesis using out(1,2) by simp
  qed
qed

text \<open>An ordering of the steps by rank, in which dependencies come first.\<close>

definition acyclic_steps :: "step_v2 list \<Rightarrow> bool" where
  "acyclic_steps steps \<longleftrightarrow>
     (\<exists>rk :: string \<Rightarrow> nat. \<forall>s\<in>set steps. \<forall>d\<in>set (sv_depends_on s). rk d < rk (sv_id s))"

lemma find_unique:
  assumes "distinct (map f xs)" "x \<in> set xs"
  shows "find (\<lambda>y. f y = f x) (rev xs) = Some x"
proof (cases "find (\<lambda>y. f y = f x) (rev xs)")
  case None
  then show ?thesis using assms by (auto simp: find_None_iff)
next
  case (Some y)
  then show ?thesis using find_mem [OF Some] assms by (auto simp: distinct_map dest: inj_onD)
qed

lemma deps_of_step: "distinct (map sv_id steps) \<Longrightarrow> s \<in> set steps \<Longrightarrow> deps_of steps (sv_id s) = sv_depends_on s"
  by (simp add: deps_of_def find_unique)

lemma reject_cycles_ok:
  assumes "reject_cycles d = Inr u" "distinct (map sv_id (df_steps d))"
  shows "acyclic_steps (df_steps d)"
proof -
  let ?steps = "df_steps d"
  obtain m1 where v: "visit_all ?steps (sort (remdups (map sv_id ?steps))) (\<lambda>_. None) = (None, m1)"
    using assms(1) by (cases "visit_all ?steps (sort (remdups (map sv_id ?steps))) (\<lambda>_. None)")
      (auto simp: reject_cycles_def split: option.splits)
  have "ranked ?steps (\<lambda>_. None) (\<lambda>_. 0)" by (simp add: ranked_def)
  from visit_all_sound [OF v this]
  obtain rk where rk: "ranked ?steps m1 rk" and all: "\<forall>x\<in>set (sort (remdups (map sv_id ?steps))). m1 x = Some Done"
    by blast
  have "rk dep < rk (sv_id s)" if "s \<in> set ?steps" "dep \<in> set (sv_depends_on s)" for s dep
    using rk all that deps_of_step [OF assms(2) that(1)] unfolding ranked_def by auto
  then show ?thesis unfolding acyclic_steps_def by blast
qed

lemma flood_sound:
  "\<forall>j\<in>set queue \<union> set reached. (a, j) \<in> (set (edges_of steps))\<^sup>* \<Longrightarrow>
     \<forall>j\<in>set (flood steps queue reached). (a, j) \<in> (set (edges_of steps))\<^sup>*"
proof (induction steps queue reached rule: flood.induct)
  case (2 steps i queue reached)
  then show ?case by (auto simp: set_neighbours intro: rtrancl_into_rtrancl)
qed simp

declare flood.simps [simp del] visit_all.simps [simp del]

text \<open>What a validated definition is.\<close>

definition definition_ok :: "wf_definition \<Rightarrow> bool" where
  "definition_ok d \<longleftrightarrow>
     distinct (map sv_id (df_steps d)) \<and>
     (\<forall>s\<in>set (df_steps d). valid_id (sv_id s) \<and> sv_skills s \<noteq> [] \<and>
        set (sv_depends_on s) \<subseteq> set (map sv_id (df_steps d)) \<and>
        (sv_effect s = EfExternal \<longrightarrow> sv_approval s \<or> sv_id s \<in> set (df_gate_approval d))) \<and>
     acyclic_steps (df_steps d) \<and>
     (\<forall>s\<in>set (canonical_steps d). \<forall>t\<in>set (canonical_steps d).
        (sv_id s, sv_id t) \<in> (set (edges_of (canonical_steps d)))\<^sup>*)"

lemma edges_sym: "(a, b) \<in> set (edges_of steps) \<longleftrightarrow> (b, a) \<in> set (edges_of steps)"
  by (auto simp: edges_of_def)

lemma edges_rtrancl_sym: "(a, b) \<in> (set (edges_of steps))\<^sup>* \<Longrightarrow> (b, a) \<in> (set (edges_of steps))\<^sup>*"
  proof (induction rule: rtrancl_induct)
  case (step y z)
  then have "(z, y) \<in> set (edges_of steps)" using edges_sym by blast
  then show ?case using step.IH by (rule converse_rtrancl_into_rtrancl)
qed simp

lemma reject_unreachable_ok:
  assumes "reject_unreachable d = Inr u" "s \<in> set (canonical_steps d)" "t \<in> set (canonical_steps d)"
  shows "(sv_id s, sv_id t) \<in> (set (edges_of (canonical_steps d)))\<^sup>*"
proof (cases "canonical_steps d")
  case (Cons a rest)
  let ?E = "(set (edges_of (canonical_steps d)))\<^sup>*"
  have f: "\<forall>j\<in>set (flood (canonical_steps d) [sv_id a] []). (sv_id a, j) \<in> ?E"
    by (rule flood_sound) simp
  have mem: "\<forall>t\<in>set (canonical_steps d). sv_id t \<in> set (flood (canonical_steps d) [sv_id a] [])"
    using assms(1) unfolding reject_unreachable_def
    by (simp only: Cons list.case Let_def first_error_Inr) (auto split: if_splits)
  have "(sv_id a, sv_id s) \<in> ?E" using f mem assms(2) by simp
  moreover have "(sv_id a, sv_id t) \<in> ?E" using f mem assms(3) by simp
  ultimately show ?thesis using edges_rtrancl_sym [of "sv_id a" "sv_id s" "canonical_steps d"] by simp
qed (use assms in simp)

text \<open>A definition that passes validation is what the engine assumes of it: its step identifiers are
  well formed and distinct, every step has a skill, every dependency is a step of the definition, the
  dependencies can be ranked, so they have no cycle, every step with an external effect is gated by an
  approval, and the canonical steps form one connected graph.\<close>

theorem validated_ok:
  assumes "validate known bytes d = Inr u"
  shows "definition_ok d"
proof -
  from assms obtain seen where
    seen: "check_steps known [] (df_steps d) = Inr seen" and
    deps: "\<forall>s\<in>set (df_steps d). bad_dependency seen s = None" and
    cyc: "reject_cycles d = Inr ()" and
    conn: "reject_unreachable d = Inr ()" and
    ext: "\<forall>s\<in>set (df_steps d). sv_effect s = EfExternal \<longrightarrow> sv_approval s \<or> sv_id s \<in> set (df_gate_approval d)"
    unfolding validate_def by (auto simp: and_then_Inr_iff split: if_splits)
  note ids = check_steps_ok [OF seen]
  have "set (sv_depends_on s) \<subseteq> set (map sv_id (df_steps d))" if "s \<in> set (df_steps d)" for s
    using deps that ids by (auto simp: bad_dependency_def find_None_iff split: option.splits)
  then show ?thesis
    using ids ext reject_cycles_ok [OF cyc] reject_unreachable_ok [OF conn]
    unfolding definition_ok_def by blast
qed

end
