(* ===== verification/Workflow_Steps.thy ===== *)
theory Workflow_Steps
  imports Workflow_Def "HOL-Library.Multiset"
begin

text \<open>
  The steps that a definition gives for a classification, \<open>materialize_from_definition\<close> of
  \<open>src/commands/workflow/engine/definitions.rs\<close>: the canonical steps whose condition applies, in a
  topological order that is stable for the order of declaration, with the data of the profile's
  variants, the intent skill and the deploy tier's overlay.

  The maps of the ordering (indegrees, dependents, declaration order) are functions of the list of
  dependency edges. The loop runs once per surviving step; \<open>topological_correct\<close> shows that nothing is
  ready after that, for the definitions that pass validation.
\<close>

section \<open>The order\<close>

definition surviving :: "wf_definition \<Rightarrow> classification \<Rightarrow> step_v2 list" where
  "surviving d cl = filter (\<lambda>s. condition_applies (sv_condition s) cl) (canonical_steps d)"

text \<open>A dependency on a pruned step is vacuous.\<close>

definition order_edges :: "step_v2 list \<Rightarrow> (string \<times> string) list" where
  "order_edges primaries =
     concat (map (\<lambda>s. map (\<lambda>d. (d, sv_id s)) (filter (\<lambda>d. d \<in> sv_id ` set primaries) (sv_depends_on s))) primaries)"

definition indegree_of :: "(string \<times> string) list \<Rightarrow> string \<Rightarrow> nat" where
  "indegree_of edges i = length (filter (\<lambda>e. snd e = i) edges)"

definition dependents_of :: "(string \<times> string) list \<Rightarrow> string \<Rightarrow> string list" where
  "dependents_of edges i = map snd (filter (\<lambda>e. fst e = i) edges)"

definition declared_at :: "string list \<Rightarrow> string \<Rightarrow> nat" where
  "declared_at ids i = last (filter (\<lambda>k. ids ! k = i) [0..<length ids])"

text \<open>The dependents of a step that is placed lose an edge each; those that have none left are ready.\<close>

fun release_dependents :: "string list \<Rightarrow> (string \<Rightarrow> nat) \<times> string list \<Rightarrow> (string \<Rightarrow> nat) \<times> string list" where
  "release_dependents [] st = st"
| "release_dependents (x # xs) (deg, ready) =
     (let n = (if deg x = 0 then u64_max else deg x - 1)
      in release_dependents xs (deg(x := n), if n = 0 then ready @ [x] else ready))"

fun kahn ::
    "nat \<Rightarrow> string list \<Rightarrow> (string \<times> string) list \<Rightarrow> (string \<Rightarrow> nat) \<Rightarrow> string list \<Rightarrow> string list \<Rightarrow> string list" where
  "kahn 0 ids edges deg ready ordered = ordered"
| "kahn (Suc k) ids edges deg ready ordered =
     (case sort_key (declared_at ids) ready of
        [] \<Rightarrow> ordered
      | next # rest \<Rightarrow>
          let (deg1, ready1) = release_dependents (dependents_of edges next) (deg, rest)
          in kahn k ids edges deg1 ready1 (ordered @ [next]))"

definition topological :: "string list \<Rightarrow> (string \<times> string) list \<Rightarrow> string list" where
  "topological ids edges =
     kahn (length ids) ids edges (indegree_of edges) (filter (\<lambda>i. indegree_of edges i = 0) ids) []"

section \<open>The order is topological\<close>

lemma release_spec:
  "release_dependents xs (deg, ready) = (deg1, ready1) \<Longrightarrow> (\<forall>i. count_list xs i \<le> deg i) \<Longrightarrow>
     deg1 = (\<lambda>i. deg i - count_list xs i) \<and>
     set ready1 = set ready \<union> {i \<in> set xs. deg i = count_list xs i} \<and>
     (distinct ready \<longrightarrow> set ready \<inter> set xs = {} \<longrightarrow> distinct ready1)"
proof (induction xs arbitrary: deg ready)
  case (Cons x xs)
  let ?deg = "deg(x := deg x - 1)" and ?ready = "if deg x = 1 then ready @ [x] else ready"
  have pos: "1 \<le> deg x" "count_list xs x \<le> deg x - 1" using Cons.prems(2) [rule_format, of x] by auto
  have "release_dependents xs (?deg, ?ready) = (deg1, ready1)"
    using Cons.prems(1) pos(1) by (auto simp: Let_def split: if_splits)
  moreover have "\<forall>i. count_list xs i \<le> ?deg i"
    using Cons.prems(2) pos(2) by (auto split: if_splits)
  ultimately have ih: "deg1 = (\<lambda>i. ?deg i - count_list xs i)"
      "set ready1 = set ?ready \<union> {i \<in> set xs. ?deg i = count_list xs i}"
      "distinct ?ready \<longrightarrow> set ?ready \<inter> set xs = {} \<longrightarrow> distinct ready1"
    using Cons.IH by blast+
  have gone: "x \<notin> set xs" if "deg x = 1" using pos(2) that by (simp add: count_list_0_iff)
  have "deg1 = (\<lambda>i. deg i - count_list (x # xs) i)" using ih(1) by (auto simp: fun_eq_iff)
  moreover have "set ready1 = set ready \<union> {i \<in> set (x # xs). deg i = count_list (x # xs) i}"
  proof (rule set_eqI)
    fix i
    have e: "i \<in> set ready1 \<longleftrightarrow> i \<in> set ?ready \<or> i \<in> set xs \<and> ?deg i = count_list xs i"
      by (simp only: ih(2) Un_iff mem_Collect_eq)
    have r: "i \<in> set ?ready \<longleftrightarrow> i \<in> set ready \<or> i = x \<and> deg x = 1" by auto
    have x: "x \<in> set xs \<and> deg x - 1 = count_list xs x \<or> deg x = 1 \<longleftrightarrow> deg x = Suc (count_list xs x)"
      using pos gone count_list_0_iff [of xs x] by auto
    show "i \<in> set ready1 \<longleftrightarrow> i \<in> set ready \<union> {i \<in> set (x # xs). deg i = count_list (x # xs) i}"
    proof (cases "i = x")
      case False
      then show ?thesis unfolding e r by simp
    next
      case True
      then show ?thesis unfolding e r using x by auto
    qed
  qed
  moreover have "distinct ready1" if "distinct ready" "set ready \<inter> set (x # xs) = {}"
    using ih(3) that gone by auto
  ultimately show ?case by blast
qed auto

text \<open>
  What holds while the loop runs: the indegree of a step that is not placed counts its edges from
  steps that are not placed, it is ready when there is none, and every placed step follows what it
  depends on.
\<close>

definition placed_after :: "(string \<times> string) list \<Rightarrow> string list \<Rightarrow> bool" where
  "placed_after edges ordered \<longleftrightarrow>
     (\<forall>k<length ordered. \<forall>e\<in>set edges. snd e = ordered ! k \<longrightarrow> fst e \<in> set (take k ordered))"

definition kahn_inv ::
    "string list \<Rightarrow> (string \<times> string) list \<Rightarrow> (string \<Rightarrow> nat) \<Rightarrow> string list \<Rightarrow> string list \<Rightarrow> bool" where
  "kahn_inv ids edges deg ready ordered \<longleftrightarrow>
     distinct (ordered @ ready) \<and> set (ordered @ ready) \<subseteq> set ids \<and> placed_after edges ordered \<and>
     (\<forall>i\<in>set ids - set ordered.
        deg i = length (filter (\<lambda>e. snd e = i \<and> fst e \<notin> set ordered) edges) \<and> (i \<in> set ready \<longleftrightarrow> deg i = 0))"

definition edges_within :: "string list \<Rightarrow> (string \<times> string) list \<Rightarrow> bool" where
  "edges_within ids edges \<longleftrightarrow> (\<forall>e\<in>set edges. fst e \<in> set ids \<and> snd e \<in> set ids)"

definition edges_ranked :: "(string \<times> string) list \<Rightarrow> bool" where
  "edges_ranked edges \<longleftrightarrow> (\<exists>rk :: string \<Rightarrow> nat. \<forall>e\<in>set edges. rk (fst e) < rk (snd e))"

lemma placed_closed: "placed_after edges ordered \<Longrightarrow> e \<in> set edges \<Longrightarrow> snd e \<in> set ordered \<Longrightarrow> fst e \<in> set ordered"
  by (metis in_set_conv_nth placed_after_def in_set_takeD)

lemma placed_snoc:
  assumes "placed_after edges ordered" "\<forall>e\<in>set edges. snd e = x \<longrightarrow> fst e \<in> set ordered"
  shows "placed_after edges (ordered @ [x])"
  using assms unfolding placed_after_def
  by (auto simp: nth_append less_Suc_eq split: if_splits)

lemma count_dependents: "count_list (dependents_of edges n) i = length (filter (\<lambda>e. fst e = n \<and> snd e = i) edges)"
  by (induction edges) (auto simp: dependents_of_def)

lemma count_split:
  "n \<notin> S \<Longrightarrow> length (filter (\<lambda>e. snd e = i \<and> fst e \<notin> S) edges) =
     length (filter (\<lambda>e. fst e = n \<and> snd e = i) edges) +
     length (filter (\<lambda>e. snd e = i \<and> fst e \<notin> insert n S) edges)"
  by (induction edges) auto

lemma count_zero: "length (filter P xs) = 0 \<longleftrightarrow> (\<forall>x\<in>set xs. \<not> P x)"
  by (simp add: filter_empty_conv)

lemma kahn_step:
  assumes inv: "kahn_inv ids edges deg ready ordered" and w: "edges_within ids edges"
    and s: "sort_key (declared_at ids) ready = n # rest"
    and r: "release_dependents (dependents_of edges n) (deg, rest) = (deg1, ready1)"
  shows "kahn_inv ids edges deg1 ready1 (ordered @ [n])"
proof -
  have "mset ready = mset (n # rest)" using s by (metis mset_sort)
  then have rd: "set ready = insert n (set rest)" "distinct ready \<longleftrightarrow> distinct (n # rest)"
    by (metis list.set(2) set_mset_mset, metis mset_eq_imp_distinct_iff)
  have n: "n \<in> set ids" "n \<notin> set ordered" "n \<notin> set rest" "distinct rest" "set rest \<inter> set ordered = {}"
    using inv rd by (auto simp: kahn_inv_def)
  have placed: "placed_after edges ordered" using inv by (simp add: kahn_inv_def)
  have deg: "deg i = length (filter (\<lambda>e. snd e = i \<and> fst e \<notin> set ordered) edges)"
      "i \<in> set ready \<longleftrightarrow> deg i = 0" if "i \<in> set ids" "i \<notin> set ordered" for i
    using inv that by (auto simp: kahn_inv_def)
  have zero: "deg n = 0" using deg(2) n rd by blast
  have free: "\<forall>e\<in>set edges. snd e = n \<longrightarrow> fst e \<in> set ordered"
    using deg(1) [OF n(1,2)] zero by (auto simp: filter_empty_conv)
  have dep: "i \<in> set ids \<and> i \<notin> set ordered" if "i \<in> set (dependents_of edges n)" for i
  proof -
    have e: "(n, i) \<in> set edges" using that by (auto simp: dependents_of_def)
    then show ?thesis using w placed_closed [OF placed e] n(2) by (auto simp: edges_within_def)
  qed
  have le: "count_list (dependents_of edges n) i \<le> deg i" for i
  proof (cases "i \<in> set (dependents_of edges n)")
    case True
    then show ?thesis using deg(1) [of i] dep [OF True] count_split [OF n(2), of i edges] count_dependents by simp
  next
    case False
    then show ?thesis by (simp add: count_list_0_iff)
  qed
  have "n \<notin> set (dependents_of edges n)" using le [of n] zero by (simp add: count_list_0_iff)
  have out: "deg1 = (\<lambda>i. deg i - count_list (dependents_of edges n) i)"
      "set ready1 = set rest \<union> {i \<in> set (dependents_of edges n). deg i = count_list (dependents_of edges n) i}"
    using release_spec [OF r] le by blast+
  have "set rest \<inter> set (dependents_of edges n) = {}"
  proof -
    have "deg i \<noteq> 0" if "i \<in> set (dependents_of edges n)" for i using le [of i] that count_list_0_iff [of "dependents_of edges n" i] by auto
    moreover have "deg i = 0" if "i \<in> set rest" for i
    proof -
      have "i \<in> set ids" "i \<notin> set ordered" using inv rd n(5) that by (auto simp: kahn_inv_def)
      then show ?thesis using deg(2) rd that by blast
    qed
    ultimately show ?thesis by blast
  qed
  then have dist: "distinct ready1" using release_spec [OF r] le n(4) by blast
  have new: "deg1 i = length (filter (\<lambda>e. snd e = i \<and> fst e \<notin> set (ordered @ [n])) edges) \<and>
      (i \<in> set ready1 \<longleftrightarrow> deg1 i = 0)" if i: "i \<in> set ids - set (ordered @ [n])" for i
  proof -
    have d1: "deg1 i = length (filter (\<lambda>e. snd e = i \<and> fst e \<notin> set (ordered @ [n])) edges)"
      using deg(1) [of i] i count_split [OF n(2), of i edges] count_dependents [of edges n i] out(1) by simp
    have "i \<in> set ready1 \<longleftrightarrow> deg1 i = 0"
    proof (cases "i \<in> set (dependents_of edges n)")
      case True
      then show ?thesis using out le [of i] \<open>set rest \<inter> set (dependents_of edges n) = {}\<close> by auto
    next
      case False
      then have "deg1 i = deg i" using out(1) by (simp add: count_list_0_iff)
      then show ?thesis using out(2) False deg(2) [of i] i rd by auto
    qed
    with d1 show ?thesis ..
  qed
  have "set ready1 \<subseteq> set ids" "set ready1 \<inter> set (ordered @ [n]) = {}"
    using out(2) dep n rd inv \<open>n \<notin> set (dependents_of edges n)\<close> by (auto simp: kahn_inv_def)
  then show ?thesis
    using new dist placed_snoc [OF placed free] n inv unfolding kahn_inv_def by auto
qed

lemma ex_min_if_finite_rank: "j \<in> S \<Longrightarrow> \<exists>i\<in>S. \<forall>k\<in>S. (rk :: 'a \<Rightarrow> nat) i \<le> rk k"
  using ex_has_least_nat [of "\<lambda>i. i \<in> S" j rk] by blast

lemma kahn_progress:
  assumes inv: "kahn_inv ids edges deg [] ordered" and "edges_within ids edges" "edges_ranked edges"
  shows "set ordered = set ids"
proof (rule ccontr)
  assume "set ordered \<noteq> set ids"
  then obtain j where "j \<in> set ids - set ordered" using inv by (auto simp: kahn_inv_def)
  moreover obtain rk :: "string \<Rightarrow> nat" where rk: "\<forall>e\<in>set edges. rk (fst e) < rk (snd e)"
    using assms(3) by (auto simp: edges_ranked_def)
  ultimately obtain i where i: "i \<in> set ids - set ordered" "\<forall>k\<in>set ids - set ordered. rk i \<le> rk k"
    using ex_min_if_finite_rank [of j "set ids - set ordered" rk] by blast
  have "fst e \<in> set ordered" if "e \<in> set edges" "snd e = i" for e
    using i(2) rk that assms(2) unfolding edges_within_def by (metis DiffI not_le)
  then have none: "filter (\<lambda>e. snd e = i \<and> fst e \<notin> set ordered) edges = []" by (simp add: filter_empty_conv)
  have "deg i = length (filter (\<lambda>e. snd e = i \<and> fst e \<notin> set ordered) edges)" "i \<in> set [] \<longleftrightarrow> deg i = 0"
    using inv i(1) unfolding kahn_inv_def by blast+
  then show False using none by simp
qed

lemma kahn_correct:
  "kahn_inv ids edges deg ready ordered \<Longrightarrow> edges_within ids edges \<Longrightarrow> edges_ranked edges \<Longrightarrow>
     length ordered + fuel = card (set ids) \<Longrightarrow>
     distinct (kahn fuel ids edges deg ready ordered) \<and> set (kahn fuel ids edges deg ready ordered) = set ids \<and>
     placed_after edges (kahn fuel ids edges deg ready ordered)"
proof (induction fuel arbitrary: deg ready ordered)
  case 0
  then have "distinct ordered" "set ordered \<subseteq> set ids" "placed_after edges ordered" by (auto simp: kahn_inv_def)
  moreover from this(1) have "card (set ordered) = card (set ids)" using 0(4) by (simp add: distinct_card)
  ultimately show ?case using card_subset_eq [of "set ids" "set ordered"] by simp
next
  case (Suc fuel)
  show ?case
  proof (cases "sort_key (declared_at ids) ready")
    case Nil
    then have "ready = []" by (metis length_0_conv length_sort)
    then have "set ordered = set ids" using kahn_progress Suc.prems by blast
    then show ?thesis using Suc.prems(1) Nil by (simp add: kahn_inv_def)
  next
    case (Cons n rest)
    obtain deg1 ready1 where r: "release_dependents (dependents_of edges n) (deg, rest) = (deg1, ready1)"
      by (cases "release_dependents (dependents_of edges n) (deg, rest)")
    have "kahn_inv ids edges deg1 ready1 (ordered @ [n])"
      using kahn_step [OF Suc.prems(1,2) Cons r] .
    from Suc.IH [OF this Suc.prems(2,3)] show ?thesis using Suc.prems(4) Cons r by simp
  qed
qed

lemma topological_correct:
  assumes "distinct ids" "edges_within ids edges" "edges_ranked edges"
  shows "distinct (topological ids edges)" "set (topological ids edges) = set ids"
    "placed_after edges (topological ids edges)"
proof -
  have "kahn_inv ids edges (indegree_of edges) (filter (\<lambda>i. indegree_of edges i = 0) ids) []"
    using assms(1) by (auto simp: kahn_inv_def placed_after_def indegree_of_def)
  from kahn_correct [OF this assms(2,3), of "length ids"]
  show "distinct (topological ids edges)" "set (topological ids edges) = set ids"
    "placed_after edges (topological ids edges)"
    using assms(1) by (simp_all add: topological_def distinct_card)
qed

section \<open>Materialisation\<close>

record wf_step =
  st_id :: string
  st_phase :: wf_phase
  st_skill :: string
  st_agent :: "string option"
  st_artifact :: "artifact_stage option"
  st_condition :: step_condition
  st_approval :: bool
  st_max_attempts :: nat
  st_parallel_group :: "string option"
  st_effect :: effect_class

definition profile_invariant :: "wf_phase \<Rightarrow> bool" where
  "profile_invariant p = (p \<in> {PhIntent, PhDeploy, PhDelegate, PhPresent})"

definition select_step_data :: "wf_definition \<Rightarrow> step_v2 \<Rightarrow> wf_profile \<Rightarrow> step_v2" where
  "select_step_data d primary profile =
     (case profile of
        ProfileStandard \<Rightarrow> primary
      | ProfileFrontend \<Rightarrow>
          (case find (\<lambda>c. sv_overrides c = Some (sv_id primary) \<and> ''frontend'' \<in> set (sv_domains c)) (df_steps d) of
             Some c \<Rightarrow> c | None \<Rightarrow> primary))"

text \<open>A step without any skill, which validation refuses, makes the code panic; \<open>hd\<close> is unspecified there.\<close>

definition skill_of :: "step_v2 \<Rightarrow> step_v2 \<Rightarrow> string" where
  "skill_of effective primary = (case sv_skills effective of s # _ \<Rightarrow> s | [] \<Rightarrow> hd (sv_skills primary))"

definition step_of :: "wf_definition \<Rightarrow> wf_profile \<Rightarrow> step_v2 \<Rightarrow> wf_step" where
  "step_of d profile primary =
     (let effective = (if profile_invariant (sv_phase primary) then primary else select_step_data d primary profile)
      in \<lparr>st_id = sv_id primary, st_phase = sv_phase primary, st_skill = skill_of effective primary,
          st_agent = sv_agent_role effective, st_artifact = sv_artifact effective,
          st_condition = sv_condition primary, st_approval = sv_approval effective,
          st_max_attempts = sv_max_attempts effective, st_parallel_group = sv_parallel_group primary,
          st_effect = sv_effect effective\<rparr>)"

text \<open>\<open>apply_profile\<close>, which re-selects the data of steps in place.\<close>

definition reprofiled :: "wf_definition \<Rightarrow> wf_profile \<Rightarrow> wf_step \<Rightarrow> wf_step" where
  "reprofiled d profile s =
     (if profile_invariant (st_phase s) then s
      else case find (\<lambda>c. sv_id c = st_id s) (canonical_steps d) of
          None \<Rightarrow> s
        | Some primary \<Rightarrow>
            let effective = select_step_data d primary profile
            in s\<lparr>st_skill := skill_of effective primary, st_agent := sv_agent_role effective,
                 st_approval := sv_approval effective, st_artifact := sv_artifact effective,
                 st_max_attempts := sv_max_attempts effective, st_effect := sv_effect effective\<rparr>)"

definition apply_profile :: "wf_definition \<Rightarrow> wf_profile \<Rightarrow> wf_step list \<Rightarrow> wf_step list" where
  "apply_profile d profile = map (reprofiled d profile)"

definition is_legacy_pack :: "string \<Rightarrow> bool" where
  "is_legacy_pack i = (i \<in> {''feature'', ''bugfix'', ''refactor'', ''spike'', ''review''})"

definition apply_brainstorm_selection :: "bool \<Rightarrow> bool \<Rightarrow> wf_step list \<Rightarrow> wf_step list" where
  "apply_brainstorm_selection brainstorm eligible steps =
     (if \<not> eligible then steps
      else map (\<lambda>s. if st_phase s = PhIntent
                    then s\<lparr>st_skill := (if brainstorm then ''brainstorm'' else ''write-intent'')\<rparr> else s) steps)"

definition MAX_STEP_ATTEMPTS :: nat where "MAX_STEP_ATTEMPTS = 3"

definition review_gate_step :: wf_step where
  "review_gate_step =
     \<lparr>st_id = ''__review'', st_phase = PhReview, st_skill = ''review'', st_agent = Some ''reviewer'',
      st_artifact = None, st_condition = Always, st_approval = False, st_max_attempts = MAX_STEP_ATTEMPTS,
      st_parallel_group = None, st_effect = EfNone\<rparr>"

definition with_review_gate :: "deploy_tier \<Rightarrow> wf_step list \<Rightarrow> wf_step list" where
  "with_review_gate tier steps =
     (if tier = TierProduction \<and> \<not> list_ex (\<lambda>s. st_phase s = PhReview) steps \<and>
         list_ex (\<lambda>s. st_phase s = PhVerify) steps
      then takeWhile (\<lambda>s. st_phase s \<noteq> PhVerify) steps @ review_gate_step #
             dropWhile (\<lambda>s. st_phase s \<noteq> PhVerify) steps
      else steps)"

definition apply_deploy_tier :: "deploy_tier \<Rightarrow> wf_step list \<Rightarrow> wf_step list" where
  "apply_deploy_tier tier steps =
     map (\<lambda>s. if st_phase s = PhDeploy then s\<lparr>st_approval := st_approval s \<or> TierStaging \<le> tier\<rparr> else s)
       (with_review_gate tier steps)"

definition ordered_steps :: "wf_definition \<Rightarrow> classification \<Rightarrow> step_v2 list" where
  "ordered_steps d cl =
     (let primaries = surviving d cl in
      List.map_filter (\<lambda>i. find (\<lambda>s. sv_id s = i) (rev primaries))
        (topological (map sv_id primaries) (order_edges primaries)))"

definition materialize_from_definition ::
    "wf_definition \<Rightarrow> classification \<Rightarrow> wf_profile \<Rightarrow> deploy_tier \<Rightarrow> bool \<Rightarrow> wf_step list" where
  "materialize_from_definition d cl profile tier brainstorm =
     apply_deploy_tier tier
       (apply_brainstorm_selection brainstorm (is_legacy_pack (df_id d))
         (map (step_of d profile) (ordered_steps d cl)))"

section \<open>What materialisation gives\<close>

lemma surviving_subset: "s \<in> set (surviving d cl) \<Longrightarrow> s \<in> set (df_steps d) \<and> sv_overrides s = None"
  by (auto simp: surviving_def canonical_steps_def)

lemma distinct_surviving: "definition_ok d \<Longrightarrow> distinct (map sv_id (surviving d cl))"
  by (simp add: definition_ok_def surviving_def canonical_steps_def distinct_map_filter)

lemma order_edges_iff:
  "(a, b) \<in> set (order_edges ps) \<longleftrightarrow> (\<exists>s\<in>set ps. b = sv_id s \<and> a \<in> set (sv_depends_on s) \<and> a \<in> sv_id ` set ps)"
  by (auto simp: order_edges_def)

lemma order_edges_ok:
  assumes "definition_ok d"
  shows "edges_within (map sv_id (surviving d cl)) (order_edges (surviving d cl))"
    "edges_ranked (order_edges (surviving d cl))"
proof -
  show "edges_within (map sv_id (surviving d cl)) (order_edges (surviving d cl))"
    by (auto simp: edges_within_def order_edges_iff)
  obtain rk :: "string \<Rightarrow> nat" where
    rk: "\<forall>s\<in>set (df_steps d). \<forall>x\<in>set (sv_depends_on s). rk x < rk (sv_id s)"
    using assms by (auto simp: definition_ok_def acyclic_steps_def)
  have "rk (fst e) < rk (snd e)" if "e \<in> set (order_edges (surviving d cl))" for e
  proof -
    obtain a b where e: "e = (a, b)" by (cases e)
    then show ?thesis using that rk surviving_subset unfolding e order_edges_iff by auto
  qed
  then show "edges_ranked (order_edges (surviving d cl))" unfolding edges_ranked_def by blast
qed

lemma map_find_ids:
  assumes "distinct (map sv_id ps)" "set is \<subseteq> sv_id ` set ps"
  shows "map sv_id (List.map_filter (\<lambda>i. find (\<lambda>s. sv_id s = i) (rev ps)) is) = is"
  using assms(2)
proof (induction "is")
  case (Cons i rest)
  then obtain s where s: "s \<in> set ps" "sv_id s = i" by auto
  then have "find (\<lambda>s. sv_id s = i) (rev ps) = Some s" using find_unique [OF assms(1) s(1)] by simp
  then show ?case using Cons s by (simp add: List.map_filter_simps)
qed (simp add: List.map_filter_simps)

lemma set_ordered_steps:
  assumes "definition_ok d"
  shows "map sv_id (ordered_steps d cl) = topological (map sv_id (surviving d cl)) (order_edges (surviving d cl))"
    "set (ordered_steps d cl) = set (surviving d cl)"
proof -
  let ?ps = "surviving d cl"
  note t = topological_correct [OF distinct_surviving [OF assms] order_edges_ok [OF assms], of cl]
  show ids: "map sv_id (ordered_steps d cl) = topological (map sv_id ?ps) (order_edges ?ps)"
    unfolding ordered_steps_def Let_def
    by (rule map_find_ids [OF distinct_surviving [OF assms]]) (use t(2) in simp)
  have sub: "set (ordered_steps d cl) \<subseteq> set ?ps"
    by (auto simp: ordered_steps_def Let_def set_map_filter dest: find_mem)
  moreover have "set ?ps \<subseteq> set (ordered_steps d cl)"
  proof
    fix s assume s: "s \<in> set ?ps"
    then have "sv_id s \<in> set (map sv_id (ordered_steps d cl))" using ids t(2) by simp
    then obtain r where r: "r \<in> set (ordered_steps d cl)" "sv_id r = sv_id s" by auto
    then have "r = s" using sub s distinct_surviving [OF assms, of cl] by (auto simp: distinct_map dest: inj_onD)
    then show "s \<in> set (ordered_steps d cl)" using r by simp
  qed
  ultimately show "set (ordered_steps d cl) = set ?ps" by blast
qed

lemma ids_brainstorm [simp]: "map st_id (apply_brainstorm_selection b e steps) = map st_id steps"
  by (auto simp: apply_brainstorm_selection_def)

lemma phases_brainstorm [simp]: "map st_phase (apply_brainstorm_selection b e steps) = map st_phase steps"
  by (auto simp: apply_brainstorm_selection_def)

lemma ids_profile [simp]: "map st_id (apply_profile d profile steps) = map st_id steps"
  by (auto simp: apply_profile_def reprofiled_def Let_def split: option.splits)

lemma ids_step_of [simp]: "map st_id (map (step_of d profile) ps) = map sv_id ps"
  by (simp add: step_of_def Let_def)

lemma ids_tier: "map st_id (apply_deploy_tier tier steps) = map st_id (with_review_gate tier steps)"
  by (auto simp: apply_deploy_tier_def)

lemma with_review_gate_cases:
  obtains "with_review_gate tier steps = steps"
  | xs ys where "steps = xs @ ys" "with_review_gate tier steps = xs @ review_gate_step # ys"
proof (cases "tier = TierProduction \<and> \<not> list_ex (\<lambda>s. st_phase s = PhReview) steps \<and>
    list_ex (\<lambda>s. st_phase s = PhVerify) steps")
  case True
  then have "with_review_gate tier steps = takeWhile (\<lambda>s. st_phase s \<noteq> PhVerify) steps @ review_gate_step #
      dropWhile (\<lambda>s. st_phase s \<noteq> PhVerify) steps"
    by (simp add: with_review_gate_def)
  then show ?thesis using that(2) takeWhile_dropWhile_id [symmetric] by blast
next
  case False
  then show ?thesis using that(1) by (auto simp: with_review_gate_def)
qed

text \<open>The identifier of the inserted review is none that a definition can declare.\<close>

lemma review_id_reserved: "\<not> valid_id ''__review''"
  by (simp add: valid_id_def is_ascii_lowercase_def is_ascii_digit_def)

definition comes_before :: "'a list \<Rightarrow> 'a \<Rightarrow> 'a \<Rightarrow> bool" where
  "comes_before xs a b \<longleftrightarrow> (\<exists>us vs ws. xs = us @ a # vs @ b # ws)"

lemma comes_before_Nil [simp]: "\<not> comes_before [] a b"
  by (simp add: comes_before_def)

lemma comes_before_Cons [simp]: "comes_before (x # xs) a b \<longleftrightarrow> x = a \<and> b \<in> set xs \<or> comes_before xs a b"
proof
  assume "comes_before (x # xs) a b"
  then obtain us vs ws where "x # xs = us @ a # vs @ b # ws" by (auto simp: comes_before_def)
  then show "x = a \<and> b \<in> set xs \<or> comes_before xs a b" by (cases us) (auto simp: comes_before_def)
next
  assume "x = a \<and> b \<in> set xs \<or> comes_before xs a b"
  then show "comes_before (x # xs) a b"
  proof
    assume "x = a \<and> b \<in> set xs"
    moreover from this obtain vs ws where "xs = vs @ b # ws" by (auto dest: split_list)
    ultimately have "x # xs = [] @ a # vs @ b # ws" by simp
    then show ?thesis unfolding comes_before_def by blast
  next
    assume "comes_before xs a b"
    then obtain us vs ws where "xs = us @ a # vs @ b # ws" by (auto simp: comes_before_def)
    then have "x # xs = (x # us) @ a # vs @ b # ws" by simp
    then show ?thesis unfolding comes_before_def by blast
  qed
qed

lemma comes_before_filter: "comes_before (filter P xs) a b \<Longrightarrow> comes_before xs a b"
  by (induction xs) (auto split: if_splits)

lemma placed_comes_before:
  assumes "placed_after edges xs" "(a, b) \<in> set edges" "b \<in> set xs"
  shows "comes_before xs a b"
proof -
  obtain k where k: "k < length xs" "xs ! k = b" using assms(3) by (auto simp: in_set_conv_nth)
  then have "a \<in> set (take k xs)" using assms(1,2) unfolding placed_after_def by fastforce
  then obtain us vs where "take k xs = us @ a # vs" by (auto dest: split_list)
  then have "xs = us @ a # vs @ b # drop (Suc k) xs" using id_take_nth_drop [OF k(1)] k(2) by simp
  then show ?thesis unfolding comes_before_def by blast
qed

text \<open>C22: For a definition that passes validation and any classification, profile, tier and intent
  mode, the materialised list holds every canonical step whose condition applies exactly once, and
  nothing else but the production tier's inserted review; every step comes after the steps it depends
  on, where those were not pruned. In particular the ordering loop places every step, as the code
  asserts.\<close>

theorem materialised_steps_follow_their_dependencies:
  assumes "validate known bytes d = Inr u"
  shows "let ids = map st_id (materialize_from_definition d cl profile tier brainstorm) in
    distinct ids \<and>
    set ids - {''__review''} = sv_id ` set (surviving d cl) \<and>
    (''__review'' \<in> set ids \<longrightarrow> tier = TierProduction) \<and>
    (\<forall>s\<in>set (surviving d cl). \<forall>a\<in>set (sv_depends_on s).
       a \<in> sv_id ` set (surviving d cl) \<longrightarrow> comes_before ids a (sv_id s))"
proof -
  have ok: "definition_ok d" using validated_ok [OF assms(1)] .
  let ?ps = "surviving d cl"
  let ?base = "apply_brainstorm_selection brainstorm (is_legacy_pack (df_id d)) (map (step_of d profile) (ordered_steps d cl))"
  let ?top = "topological (map sv_id ?ps) (order_edges ?ps)"
  note t = topological_correct [OF distinct_surviving [OF ok] order_edges_ok [OF ok], of cl]
  have base: "map st_id ?base = ?top" unfolding ids_brainstorm ids_step_of by (rule set_ordered_steps(1) [OF ok])
  have fresh: "''__review'' \<notin> set ?top"
    using ok review_id_reserved t(2) surviving_subset unfolding definition_ok_def by fastforce
  define ids where "ids = map st_id (materialize_from_definition d cl profile tier brainstorm)"
  have ids: "ids = map st_id (with_review_gate tier ?base)"
    unfolding ids_def materialize_from_definition_def ids_tier ..
  have "distinct ids \<and> filter (\<lambda>i. i \<noteq> ''__review'') ids = ?top \<and> (''__review'' \<in> set ids \<longrightarrow> tier = TierProduction)"
  proof (cases rule: with_review_gate_cases [of tier ?base])
    case 1
    then show ?thesis using ids base t(1) fresh by (auto simp: filter_id_conv)
  next
    case (2 xs ys)
    have eq: "?top = map st_id xs @ map st_id ys" using base 2(1) by simp
    have "with_review_gate tier ?base \<noteq> ?base" using 2 by auto
    then have "tier = TierProduction" by (auto simp: with_review_gate_def split: if_splits)
    moreover have list: "ids = map st_id xs @ ''__review'' # map st_id ys" using ids 2(2) by (simp add: review_gate_step_def)
    moreover have "filter (\<lambda>i. i \<noteq> ''__review'') ids = ?top"
    proof -
      have "filter (\<lambda>i. i \<noteq> ''__review'') ids = filter (\<lambda>i. i \<noteq> ''__review'') ?top" unfolding list eq by simp
      also have "\<dots> = ?top" using fresh by (auto intro: filter_True)
      finally show ?thesis .
    qed
    ultimately show ?thesis using t(1) fresh eq by simp
  qed
  then have f: "distinct ids" "filter (\<lambda>i. i \<noteq> ''__review'') ids = ?top" "''__review'' \<in> set ids \<longrightarrow> tier = TierProduction"
    by blast+
  have "set ids - {''__review''} = set (filter (\<lambda>i. i \<noteq> ''__review'') ids)" by auto
  then have "set ids - {''__review''} = set ?top" using f(2) by simp
  moreover have "comes_before ids a (sv_id s)"
    if "s \<in> set ?ps" "a \<in> set (sv_depends_on s)" "a \<in> sv_id ` set ?ps" for s a
  proof -
    have "(a, sv_id s) \<in> set (order_edges ?ps)" using that order_edges_iff by blast
    then have "comes_before ?top a (sv_id s)" using placed_comes_before t(2,3) that(1) by fastforce
    then show ?thesis using comes_before_filter f(2) by metis
  qed
  ultimately show ?thesis using f t(2) unfolding ids_def [symmetric] Let_def by simp
qed

text \<open>A pack with a declaration order that its dependencies turn round, and a step for higher risks.\<close>

definition plain_step :: "string \<Rightarrow> wf_phase \<Rightarrow> string list \<Rightarrow> step_condition \<Rightarrow> step_v2" where
  "plain_step i phase deps condition =
     \<lparr>sv_id = i, sv_phase = phase, sv_skills = [''do''], sv_agent_role = None, sv_depends_on = deps,
      sv_parallel_group = None, sv_condition = condition, sv_approval = False, sv_artifact = None,
      sv_max_attempts = 3, sv_effect = EfNone, sv_domains = [], sv_overrides = None\<rparr>"

definition sample_pack :: wf_definition where
  "sample_pack =
     \<lparr>df_schema_version = 1, df_id = ''feature'', df_version = 1, df_title = ''t'', df_description = ''d'',
      df_steps = [(plain_step ''v'' PhVerify [''r'', ''b''] Always), (plain_step ''b'' PhImplement [''p''] Always)\<lparr>sv_approval := True\<rparr>,
        (plain_step ''r'' PhReview [''b''] (RiskAtLeast RkHigh)),
        (plain_step ''p'' PhPlan [] (RiskAtLeast RkMedium))\<lparr>sv_artifact := Some ArtPlan, sv_approval := True\<rparr>],
      df_gate_approval = [], df_gate_validation = [''v''], df_gate_review = []\<rparr>"

definition sample_class :: "risk_band \<Rightarrow> classification" where
  "sample_class rk = \<lparr>cf_complexity = CxTrivial, cf_risk = rk, cf_risk_score = 0, cf_changed_files = 0,
     cf_changed_lines = 0, cf_work_domain = DomainGeneral, cf_measured = True\<rparr>"

lemma sample_pack_valid: "validate [''do''] 100 sample_pack = Inr ()"
  by code_simp

lemma sample_pack_steps:
  "map st_id (materialize_from_definition sample_pack (sample_class RkLow) ProfileStandard TierProduction False) =
     [''b'', ''__review'', ''v'']"
  "map st_id (materialize_from_definition sample_pack (sample_class RkHigh) ProfileStandard TierProduction False) =
     [''p'', ''b'', ''r'', ''v'']"
  by code_simp+

theorem materialised_steps_follow_their_dependencies_witness:
  "validate [''do''] 100 sample_pack = Inr () \<and>
   (let ids = map st_id (materialize_from_definition sample_pack (sample_class RkHigh) ProfileStandard TierProduction False)
    in length ids = 4 \<and> distinct ids \<and> comes_before ids ''r'' ''v'')"
proof -
  have r: "plain_step ''v'' PhVerify [''r'', ''b''] Always \<in> set (surviving sample_pack (sample_class RkHigh))"
    "''r'' \<in> sv_id ` set (surviving sample_pack (sample_class RkHigh))"
    by code_simp+
  from materialised_steps_follow_their_dependencies [OF sample_pack_valid,
      of "sample_class RkHigh" ProfileStandard TierProduction False] r
  have "comes_before (map st_id (materialize_from_definition sample_pack (sample_class RkHigh) ProfileStandard TierProduction False)) ''r'' ''v''"
    "distinct (map st_id (materialize_from_definition sample_pack (sample_class RkHigh) ProfileStandard TierProduction False))"
    unfolding Let_def by (fastforce simp: plain_step_def)+
  then show ?thesis using sample_pack_valid by (simp add: sample_pack_steps)
qed

end
