(* ===== verification/Workflow_Engine.thy ===== *)
theory Workflow_Engine
  imports Workflow_Steps State_Dir
begin

text \<open>
  The durable state of a workflow, \<open>src/commands/workflow/engine/state.rs\<close>, with the files that hold the
  states and the active pointer, and the parts of \<open>transition.rs\<close> that change a state in memory: the
  start from a definition, the pinning and the drift of accepted artifacts, the re-materialisation
  after a raised risk or deploy tier, and the re-classification at a gate.

  What a transition asks of other parts of the program and of the machine is an argument: the clock,
  the artifact files, the effective deploy tier, the change measured by git, the detector, render and
  verification evidence and the supervisor's ruling. Telemetry, attention notes, automatic workers and
  outcome rows are written after a transition and never read by one; they are not modelled. Fields
  that no transition reads (task, adapter, plan, selection, usage) are left out.
\<close>

section \<open>State\<close>

datatype wf_status = WfRunning | WfAwaitingApproval | WfFailed | WfCompleted | WfClosed

datatype wf_kind = KindFeature | KindBugfix | KindRefactor | KindSpike | KindReview

fun kind_as_str :: "wf_kind \<Rightarrow> string" where
  "kind_as_str KindFeature = ''feature''"
| "kind_as_str KindBugfix = ''bugfix''"
| "kind_as_str KindRefactor = ''refactor''"
| "kind_as_str KindSpike = ''spike''"
| "kind_as_str KindReview = ''review''"

fun kind_from_pack_id :: "string \<Rightarrow> wf_kind option" where
  "kind_from_pack_id i =
     (if i = ''feature'' then Some KindFeature else if i = ''bugfix'' then Some KindBugfix
      else if i = ''refactor'' then Some KindRefactor else if i = ''spike'' then Some KindSpike
      else if i = ''review'' then Some KindReview else None)"

fun artifact_key :: "artifact_stage \<Rightarrow> string" where
  "artifact_key ArtIntent = ''intent''"
| "artifact_key ArtSpec = ''spec''"
| "artifact_key ArtPlan = ''plan''"

fun artifact_file_name :: "artifact_stage \<Rightarrow> string" where
  "artifact_file_name ArtIntent = ''intent.md''"
| "artifact_file_name ArtSpec = ''spec.md''"
| "artifact_file_name ArtPlan = ''plan.md''"

record artifact_record =
  ar_rel_path :: string
  ar_accepted_hash :: "string option"
  ar_accepted_at :: "string option"

record definition_ref =
  dr_id :: string
  dr_version :: nat
  dr_inline :: "wf_definition option"

datatype finding_severity = SevNote | SevMinor | SevMajor | SevCritical

datatype finding_disposition = DispOpen | DispAccepted | DispDismissed | DispFixed | DispResidual

record review_finding =
  rf_id :: string
  rf_severity :: finding_severity
  rf_summary :: string
  rf_path :: "string option"
  rf_line :: "u32 option"
  rf_disposition :: finding_disposition
  rf_recommended :: "finding_disposition option"
  rf_created_at :: u64

record accepted_preexisting =
  ap_step :: string
  ap_at :: string
  ap_blocking :: nat
  ap_total :: nat

record wf_state =
  ws_id :: string
  ws_kind :: wf_kind
  ws_profile :: wf_profile
  ws_operator_profile :: bool
  ws_classification :: classification
  ws_deploy_tier :: deploy_tier
  ws_steps :: "wf_step list"
  ws_current :: nat
  ws_completed :: "string list"
  ws_attempts :: "string \<Rightarrow> nat"
  ws_durations :: "string \<Rightarrow> u64 option"
  ws_artifacts :: "artifact_stage \<Rightarrow> artifact_record option"
  ws_definition :: "definition_ref option"
  ws_findings :: "review_finding list"
  ws_evidence :: "nat list"
  ws_accepted_preexisting :: "accepted_preexisting option"
  ws_phase_started_at :: u64
  ws_step_approved :: "string option"
  ws_brainstorm :: bool
  ws_status :: wf_status
  ws_closed_reason :: "string option"
  ws_closed_at :: "u64 option"
  ws_created_at :: u64
  ws_updated_at :: u64

definition current_step :: "wf_state \<Rightarrow> wf_step option" where
  "current_step w = (if ws_current w < length (ws_steps w) then Some (ws_steps w ! ws_current w) else None)"

definition gated :: "wf_step \<Rightarrow> bool" where
  "gated s = (st_approval s \<or> st_effect s = EfExternal)"

definition step_requires_approval :: "wf_state \<Rightarrow> wf_step \<Rightarrow> bool" where
  "step_requires_approval w s = (gated s \<and> ws_step_approved w \<noteq> Some (st_id s))"

text \<open>The status that the current step asks for, computed at the end of every transition.\<close>

definition status_now :: "wf_state \<Rightarrow> wf_status" where
  "status_now w =
     (case current_step w of
        None \<Rightarrow> WfCompleted
      | Some s \<Rightarrow> if step_requires_approval w s then WfAwaitingApproval else WfRunning)"

definition first_open :: "wf_step list \<Rightarrow> string list \<Rightarrow> nat" where
  "first_open steps completed = length (takeWhile (\<lambda>s. st_id s \<in> set completed) steps)"

definition new_record :: "string \<Rightarrow> artifact_stage \<Rightarrow> artifact_record" where
  "new_record i stage =
     \<lparr>ar_rel_path = ''.zirv/work/'' @ i @ ''/'' @ artifact_file_name stage, ar_accepted_hash = None, ar_accepted_at = None\<rparr>"

fun with_records ::
    "string \<Rightarrow> wf_step list \<Rightarrow> (artifact_stage \<Rightarrow> artifact_record option) \<Rightarrow> artifact_stage \<Rightarrow> artifact_record option" where
  "with_records i [] m = m"
| "with_records i (s # ss) m =
     (case st_artifact s of
        None \<Rightarrow> with_records i ss m
      | Some stage \<Rightarrow> with_records i ss (if m stage = None then m(stage \<mapsto> new_record i stage) else m))"

definition sync_artifact_records :: "wf_state \<Rightarrow> wf_state" where
  "sync_artifact_records w = w\<lparr>ws_artifacts := with_records (ws_id w) (ws_steps w) (ws_artifacts w)\<rparr>"

section \<open>What a transition is told\<close>

datatype artifact_file = PathRefused string | NoFile | Unreadable | Content string

record frontend_report =
  fr_introduced :: nat
  fr_preexisting :: nat
  fr_preexisting_total :: nat
  fr_truncated :: bool

datatype render_result = RenderInconclusive | RenderFailed | RenderPassed

record gate_advice =
  ga_sensitive :: bool
  ga_frontend :: bool

record wf_env =
  we_now :: u64
  we_builtin :: "string \<Rightarrow> wf_definition option"
  we_effective_tier :: deploy_tier
  we_file :: "artifact_stage \<Rightarrow> artifact_file"
  we_hash :: "string \<Rightarrow> string"
  we_measured :: "classification option"
  we_advice :: "gate_advice option"
  we_supervisor :: "bool \<Rightarrow> bool \<Rightarrow> string option"
  we_detector_fresh :: "bool \<Rightarrow> string + bool"
  we_detector_report :: "bool \<Rightarrow> string + frontend_report"
  we_visual_fresh :: "string + bool"
  we_render :: "string + render_result"
  we_visual_passes :: "string + bool"
  we_fingerprint :: "string + nat"
  we_verified :: "bool \<Rightarrow> string + bool"

datatype wf_error =
    NotInFlight wf_status
  | ArtifactChanged artifact_stage
  | StepAwaitsApproval
  | NoCurrentStep
  | SupervisorRefuses string
  | FrontendBlocked string nat nat
  | RenderedEvidenceMissing string
  | VisualReviewFailed string
  | EvidenceUnreadable string
  | ProductionFindingsOpen
  | ProductionUnreviewed
  | ProductionUnverified
  | FindingsOpen
  | ReviewsMissing nat nat
  | NoFreshEvidence string bool
  | NotAwaitingApproval
  | ReapproveFirst artifact_stage artifact_stage
  | NoArtifactToApprove
  | TemplateUntouched artifact_stage
  | RecordGone
  | NoOwningStep artifact_stage
  | PathProblem string
  | CannotClose wf_status
  | CloseWithFindings nat
  | CloseWhileAwaiting
  | NotAtFirstGate
  | StepsCompleted
  | ArtifactsAccepted
  | CannotReclassify wf_status
  | BadWorkflowId string
  | UnknownWorkflow string
  | UnreadableState string
  | WfIo io_error

section \<open>Files\<close>

record wf_store =
  wt_files :: "wf_state dir"
  wt_active :: "string option"

definition valid_state_id :: "string \<Rightarrow> bool" where
  "valid_state_id i = list_all (\<lambda>c. is_ascii_alphanumeric c \<or> c = CHR ''-'') i"

definition write_state_file :: "wf_state \<Rightarrow> wf_store \<Rightarrow> wf_store \<times> (wf_error + unit)" where
  "write_state_file w t =
     (if \<not> valid_state_id (ws_id w) then (t, Inl (BadWorkflowId (ws_id w)))
      else let (d, res) = saving (WfIo NoWrite) (ws_id w) w () (wt_files t)
           in (t\<lparr>wt_files := d\<rparr>, res))"

definition set_active :: "string option \<Rightarrow> wf_store \<Rightarrow> wf_store \<times> (wf_error + unit)" where
  "set_active p t =
     (let (failed, rest) = take_failure (write_failures (wt_files t));
          t1 = t\<lparr>wt_files := (wt_files t)\<lparr>write_failures := rest\<rparr>\<rparr>
      in if failed then (t1, Inl (WfIo NoWrite)) else (t1\<lparr>wt_active := p\<rparr>, Inr ()))"

definition save_state :: "wf_state \<Rightarrow> bool \<Rightarrow> wf_store \<Rightarrow> wf_store \<times> (wf_error + unit)" where
  "save_state w active t =
     (case write_state_file w t of
        (t1, Inl e) \<Rightarrow> (t1, Inl e)
      | (t1, Inr _) \<Rightarrow>
          if active then set_active (Some (ws_id w)) t1
          else if wt_active t1 \<noteq> None then set_active None t1
          else (t1, Inr ()))"

definition save_inactive_if_active :: "wf_state \<Rightarrow> wf_store \<Rightarrow> wf_store \<times> (wf_error + unit)" where
  "save_inactive_if_active w t =
     (case write_state_file w t of
        (t1, Inl e) \<Rightarrow> (t1, Inl e)
      | (t1, Inr _) \<Rightarrow> if wt_active t1 = Some (ws_id w) then set_active None t1 else (t1, Inr ()))"

text \<open>Saving a transition's result and returning it; \<open>refusing\<close> saves and returns an error.\<close>

definition saved :: "wf_state \<Rightarrow> bool \<Rightarrow> wf_store \<Rightarrow> wf_store \<times> (wf_error + wf_state)" where
  "saved w active t =
     (case save_state w active t of (t1, Inl e) \<Rightarrow> (t1, Inl e) | (t1, Inr _) \<Rightarrow> (t1, Inr w))"

definition refusing :: "wf_error \<Rightarrow> wf_state \<Rightarrow> wf_store \<Rightarrow> wf_store \<times> (wf_error + wf_state)" where
  "refusing e w t =
     (case save_state w True t of (t1, Inl e1) \<Rightarrow> (t1, Inl e1) | (t1, Inr _) \<Rightarrow> (t1, Inl e))"

definition in_flight :: "wf_status \<Rightarrow> bool" where
  "in_flight s = (s = WfRunning \<or> s = WfAwaitingApproval)"

text \<open>
  Loading by identifier and through the active pointer, for the one checkout that the store holds; the
  search of sibling checkouts is not modelled.
\<close>

definition load_state :: "string \<Rightarrow> wf_store \<Rightarrow> wf_error + wf_state" where
  "load_state i t =
     (if \<not> valid_state_id i then Inl (BadWorkflowId i)
      else case files (wt_files t) i of
          None \<Rightarrow> Inl (UnknownWorkflow i)
        | Some Garbled \<Rightarrow> Inl (UnreadableState i)
        | Some (Holds w) \<Rightarrow> Inr w)"

definition load_active :: "wf_store \<Rightarrow> wf_error + wf_state option" where
  "load_active t =
     (case wt_active t of
        None \<Rightarrow> Inr None
      | Some i \<Rightarrow> and_then (load_state i t) (\<lambda>w. Inr (Some w)))"

section \<open>Definitions and steps\<close>

definition default_brainstorm_for_kind :: "wf_kind \<Rightarrow> bool" where
  "default_brainstorm_for_kind k = (k = KindFeature \<or> k = KindSpike)"

definition for_classification :: "classification \<Rightarrow> wf_profile" where
  "for_classification cl =
     (case cf_work_domain cl of DomainFrontend \<Rightarrow> ProfileFrontend | DomainGeneral \<Rightarrow> ProfileStandard)"

text \<open>Every kind has a built-in pack; the code panics where one has none, and \<open>the\<close> is unspecified there.\<close>

definition resolve_definition_for_state :: "wf_env \<Rightarrow> wf_state \<Rightarrow> wf_definition" where
  "resolve_definition_for_state env w =
     (let fallback = the (we_builtin env (kind_as_str (ws_kind w))) in
      case ws_definition w of
        None \<Rightarrow> fallback
      | Some r \<Rightarrow>
          (case dr_inline r of
             Some d \<Rightarrow> d
           | None \<Rightarrow> (case we_builtin env (dr_id r) of Some d \<Rightarrow> d | None \<Rightarrow> fallback)))"

definition desired_steps :: "wf_env \<Rightarrow> wf_state \<Rightarrow> deploy_tier \<Rightarrow> wf_step list" where
  "desired_steps env w tier =
     materialize_from_definition (resolve_definition_for_state env w) (ws_classification w) (ws_profile w)
       tier (ws_brainstorm w)"

definition start_with_definition ::
    "wf_env \<Rightarrow> string \<Rightarrow> wf_kind \<Rightarrow> wf_definition \<Rightarrow> bool \<Rightarrow> classification \<Rightarrow> wf_state" where
  "start_with_definition env i kind d builtin cl =
     (let profile = for_classification cl;
          brainstorm = default_brainstorm_for_kind kind;
          steps = materialize_from_definition d cl profile TierDevelopment brainstorm
      in \<lparr>ws_id = i, ws_kind = kind, ws_profile = profile, ws_operator_profile = False,
          ws_classification = cl, ws_deploy_tier = TierDevelopment, ws_steps = steps, ws_current = 0,
          ws_completed = [], ws_attempts = (\<lambda>_. 0), ws_durations = (\<lambda>_. None),
          ws_artifacts = with_records i steps (\<lambda>_. None),
          ws_definition = Some \<lparr>dr_id = df_id d, dr_version = df_version d,
                                 dr_inline = (if builtin then None else Some d)\<rparr>,
          ws_findings = [], ws_evidence = [], ws_accepted_preexisting = None,
          ws_phase_started_at = we_now env, ws_step_approved = None, ws_brainstorm = brainstorm,
          ws_status = (case steps of s # _ \<Rightarrow> if gated s then WfAwaitingApproval else WfRunning | [] \<Rightarrow> WfRunning),
          ws_closed_reason = None, ws_closed_at = None, ws_created_at = we_now env,
          ws_updated_at = we_now env\<rparr>)"

definition start_from_pack :: "wf_env \<Rightarrow> string \<Rightarrow> wf_definition \<Rightarrow> bool \<Rightarrow> classification \<Rightarrow> wf_state" where
  "start_from_pack env i d builtin cl =
     start_with_definition env i
       (case kind_from_pack_id (df_id d) of Some k \<Rightarrow> k | None \<Rightarrow> KindFeature) d builtin cl"

definition set_profile :: "wf_env \<Rightarrow> wf_profile \<Rightarrow> wf_state \<Rightarrow> wf_state" where
  "set_profile env profile w =
     (let w1 = w\<lparr>ws_profile := profile, ws_operator_profile := True\<rparr>
      in w1\<lparr>ws_steps := apply_profile (resolve_definition_for_state env w1) profile (ws_steps w1)\<rparr>)"

section \<open>Artifacts\<close>

definition unlines :: "string list \<Rightarrow> string" where
  "unlines ls = concat (map (\<lambda>l. l @ [CHR 0x0A]) ls)"

definition INTENT_TEMPLATE :: string where
  "INTENT_TEMPLATE = unlines
     [''# Intent'',
      [],
      ''## Problem'',
      [],
      ''<!-- What problem are we solving, for whom, and why now? -->'',
      [],
      ''## Desired outcome'',
      [],
      ''<!-- Describe the observable end state. -->'',
      [],
      ''## Constraints'',
      [],
      ''<!-- Technical, product, policy, compatibility, time, or scope constraints. -->'',
      [],
      ''## Open questions'',
      [],
      ''<!-- Keep only questions that materially affect correctness. Use \"None\" when resolved. -->'',
      [],
      ''## Acceptance criteria'',
      [],
      ''- [ ] <!-- Observable outcome -->'']"

definition SPEC_TEMPLATE :: string where
  "SPEC_TEMPLATE = unlines
     [''# Specification'',
      [],
      ''## Context'',
      [],
      ''<!-- Existing behavior, architecture, and evidence that constrain the design. -->'',
      [],
      ''## Goals'',
      [],
      ''- <!-- Goal -->'',
      [],
      ''## Non-goals'',
      [],
      ''- <!-- Explicitly out of scope -->'',
      [],
      ''## Design'',
      [],
      ''<!-- Chosen approach, affected boundaries, data/control flow, compatibility, and tradeoffs. -->'',
      [],
      ''## Testing strategy'',
      [],
      ''<!-- Deterministic checks and evidence required before completion. -->'',
      [],
      ''## Risks'',
      [],
      ''<!-- Material risks and mitigations. -->'']"

definition PLAN_TEMPLATE :: string where
  "PLAN_TEMPLATE = unlines
     [''# Implementation plan'',
      [],
      ''## Ordered tasks'',
      [],
      ''- [ ] T1: <!-- concrete task -->'',
      ''  - Files: <!-- exact paths or bounded areas -->'',
      ''  - Verify: <!-- exact command/check -->'',
      [],
      ''## Execution ledger'',
      [],
      ''| Task | Started | Finished | Evidence |'',
      ''| --- | --- | --- | --- |'',
      ''| T1 |  |  |  |'']"

fun artifact_template :: "artifact_stage \<Rightarrow> string" where
  "artifact_template ArtIntent = INTENT_TEMPLATE"
| "artifact_template ArtSpec = SPEC_TEMPLATE"
| "artifact_template ArtPlan = PLAN_TEMPLATE"

text \<open>The audit timestamp, the proleptic Gregorian calendar from seconds since the epoch.\<close>

definition civil_from_days :: "int \<Rightarrow> int \<times> int \<times> int" where
  "civil_from_days days =
     (let z = days + 719468;
          era = (if 0 \<le> z then z else z - 146096) div 146097;
          doe = z - era * 146097;
          yoe = (doe - doe div 1460 + doe div 36524 - doe div 146096) div 365;
          year = yoe + era * 400;
          doy = doe - (365 * yoe + yoe div 4 - yoe div 100);
          mp = (5 * doy + 2) div 153;
          day = doy - (153 * mp + 2) div 5 + 1;
          month = mp + (if mp < 10 then 3 else - 9)
      in (year + (if month \<le> 2 then 1 else 0), month, day))"

definition padded :: "nat \<Rightarrow> int \<Rightarrow> string" where
  "padded width n = (let s = show_nat (nat n) in replicate (width - length s) (CHR ''0'') @ s)"

definition rfc3339 :: "u64 \<Rightarrow> string" where
  "rfc3339 now =
     (let seconds = int (min now (2 ^ 63 - 1));
          sod = seconds mod 86400;
          (year, month, day) = civil_from_days (seconds div 86400)
      in padded 4 year @ ''-'' @ padded 2 month @ ''-'' @ padded 2 day @ ''T'' @ padded 2 (sod div 3600) @ '':'' @
         padded 2 (sod mod 3600 div 60) @ '':'' @ padded 2 (sod mod 60) @ ''Z'')"

definition workflow_artifact_path :: "wf_env \<Rightarrow> wf_state \<Rightarrow> artifact_stage \<Rightarrow> wf_error + artifact_file" where
  "workflow_artifact_path env w stage =
     (case ws_artifacts w stage of
        None \<Rightarrow> Inl (PathProblem (artifact_key stage))
      | Some r \<Rightarrow>
          if ar_rel_path r \<noteq> ar_rel_path (new_record (ws_id w) stage) then Inl (PathProblem (ar_rel_path r))
          else case we_file env stage of PathRefused m \<Rightarrow> Inl (PathProblem m) | f \<Rightarrow> Inr f)"

text \<open>The first accepted artifact whose file is gone or no longer has the accepted bytes.\<close>

fun drift_among :: "wf_env \<Rightarrow> wf_state \<Rightarrow> artifact_stage list \<Rightarrow> wf_error + artifact_stage option" where
  "drift_among env w [] = Inr None"
| "drift_among env w (stage # rest) =
     (case ws_artifacts w stage of
        None \<Rightarrow> drift_among env w rest
      | Some r \<Rightarrow>
          (case ar_accepted_hash r of
             None \<Rightarrow> drift_among env w rest
           | Some accepted \<Rightarrow>
               (case workflow_artifact_path env w stage of
                  Inl e \<Rightarrow> Inl e
                | Inr (Content body) \<Rightarrow>
                    if we_hash env body \<noteq> accepted then Inr (Some stage) else drift_among env w rest
                | Inr NoFile \<Rightarrow> Inr (Some stage)
                | Inr _ \<Rightarrow> Inl (EvidenceUnreadable (artifact_key stage)))))"

definition artifact_drift :: "wf_env \<Rightarrow> wf_state \<Rightarrow> wf_error + artifact_stage option" where
  "artifact_drift env w = drift_among env w [ArtIntent, ArtSpec, ArtPlan]"

text \<open>A file that is missing or cannot be read counts as the untouched template.\<close>

definition pin_current_artifact :: "wf_env \<Rightarrow> wf_state \<Rightarrow> wf_error + wf_state \<times> artifact_stage" where
  "pin_current_artifact env w =
     (case Option.bind (current_step w) st_artifact of
        None \<Rightarrow> Inl NoArtifactToApprove
      | Some stage \<Rightarrow> and_then (workflow_artifact_path env w stage) (\<lambda>f.
          let body = (case f of Content b \<Rightarrow> b | _ \<Rightarrow> artifact_template stage) in
          if trim body = trim (artifact_template stage) then Inl (TemplateUntouched stage)
          else case ws_artifacts w stage of
              None \<Rightarrow> Inl RecordGone
            | Some r \<Rightarrow>
                Inr (w\<lparr>ws_artifacts := (ws_artifacts w)(stage \<mapsto>
                       r\<lparr>ar_accepted_hash := Some (we_hash env body), ar_accepted_at := Some (rfc3339 (we_now env))\<rparr>)\<rparr>,
                     stage)))"

definition position :: "('a \<Rightarrow> bool) \<Rightarrow> 'a list \<Rightarrow> nat option" where
  "position P xs = (let k = length (takeWhile (\<lambda>x. \<not> P x) xs) in if k < length xs then Some k else None)"

definition keep_approval :: "(string \<Rightarrow> bool) \<Rightarrow> string option \<Rightarrow> string option" where
  "keep_approval P a = (case a of Some i \<Rightarrow> if P i then Some i else None | None \<Rightarrow> None)"

definition reopen_artifact_gate :: "artifact_stage \<Rightarrow> wf_state \<Rightarrow> wf_error + wf_state" where
  "reopen_artifact_gate stage w =
     (case position (\<lambda>s. st_artifact s = Some stage) (ws_steps w) of
        None \<Rightarrow> Inl (NoOwningStep stage)
      | Some index \<Rightarrow>
          let invalid = st_id ` set (drop index (ws_steps w)) in
          Inr (w\<lparr>ws_completed := filter (\<lambda>i. i \<notin> invalid) (ws_completed w),
                 ws_step_approved := keep_approval (\<lambda>i. i \<notin> invalid) (ws_step_approved w),
                 ws_current := index, ws_status := WfAwaitingApproval,
                 ws_artifacts := (case ws_artifacts w stage of
                    None \<Rightarrow> ws_artifacts w
                  | Some r \<Rightarrow> (ws_artifacts w)(stage \<mapsto> r\<lparr>ar_accepted_hash := None, ar_accepted_at := None\<rparr>))\<rparr>))"

section \<open>Re-materialisation\<close>

definition rematerialize_after_risk_increase :: "wf_env \<Rightarrow> wf_state \<Rightarrow> wf_state" where
  "rematerialize_after_risk_increase env w =
     (let desired = desired_steps env w (ws_deploy_tier w);
          known = st_id ` set (ws_steps w)
      in case position (\<lambda>s. st_id s \<notin> known \<and>
             (st_artifact s \<noteq> None \<or> st_phase s \<in> {PhReview, PhVerify})) desired of
           None \<Rightarrow> w
         | Some cutoff \<Rightarrow>
             let safe = st_id ` set (take cutoff desired);
                 w1 = sync_artifact_records
                   (w\<lparr>ws_completed := filter (\<lambda>i. i \<in> safe) (ws_completed w), ws_steps := desired\<rparr>)
             in w1\<lparr>ws_current := first_open desired (ws_completed w1)\<rparr>)"

definition apply_effective_deploy_tier :: "wf_env \<Rightarrow> deploy_tier \<Rightarrow> wf_state \<Rightarrow> wf_state" where
  "apply_effective_deploy_tier env effective w =
     (let target = max (ws_deploy_tier w) effective;
          desired = desired_steps env w target;
          known = st_id ` set (ws_steps w);
          w1 = (case position (\<lambda>s. st_id s \<notin> known) desired of
                  None \<Rightarrow> w
                | Some cutoff \<Rightarrow>
                    if ws_deploy_tier w < target then
                      let safe = st_id ` set (take cutoff desired)
                      in w\<lparr>ws_completed := filter (\<lambda>i. i \<in> safe) (ws_completed w),
                           ws_step_approved := keep_approval (\<lambda>i. i \<in> safe) (ws_step_approved w)\<rparr>
                    else w);
          w2 = sync_artifact_records (w1\<lparr>ws_deploy_tier := target, ws_steps := desired\<rparr>);
          w3 = w2\<lparr>ws_current := first_open desired (ws_completed w2)\<rparr>
      in w3\<lparr>ws_status := status_now w3\<rparr>)"

definition refresh_deploy_tier :: "wf_env \<Rightarrow> wf_state \<Rightarrow> wf_state" where
  "refresh_deploy_tier env w = apply_effective_deploy_tier env (we_effective_tier env) w"

section \<open>Re-classification at a gate\<close>

fun escalate_one_band :: "risk_band \<Rightarrow> risk_band" where
  "escalate_one_band RkLow = RkMedium"
| "escalate_one_band RkMedium = RkHigh"
| "escalate_one_band RkHigh = RkCritical"
| "escalate_one_band RkCritical = RkCritical"

fun score_floor_for_band :: "risk_band \<Rightarrow> nat" where
  "score_floor_for_band RkLow = 0"
| "score_floor_for_band RkMedium = 20"
| "score_floor_for_band RkHigh = 45"
| "score_floor_for_band RkCritical = 70"

definition mark_unavailable :: "classification \<Rightarrow> bool \<times> classification" where
  "mark_unavailable cl =
     (let escalated = escalate_one_band (cf_risk cl) in
      if escalated \<noteq> cf_risk cl then
        (True, cl\<lparr>cf_risk := escalated, cf_risk_score := max (cf_risk_score cl) (score_floor_for_band escalated),
                  cf_measured := False\<rparr>)
      else (False, cl\<lparr>cf_measured := False\<rparr>))"

text \<open>
  The advice of the estimator, after the decisions of \<open>gate_sensitive_surface_action\<close> and
  \<open>gate_work_domain_action\<close>; it only raises. Its tags are not read by a transition.
\<close>

definition apply_jev_gate_advice :: "gate_advice option \<Rightarrow> wf_state \<Rightarrow> classification \<Rightarrow> classification" where
  "apply_jev_gate_advice advice w measured =
     (case advice of
        None \<Rightarrow> measured
      | Some a \<Rightarrow>
          let m1 = measured\<lparr>cf_risk := max (cf_risk measured) (cf_risk (ws_classification w))\<rparr>;
              m2 = (if cf_work_domain (ws_classification w) = DomainFrontend
                    then m1\<lparr>cf_work_domain := DomainFrontend\<rparr> else m1);
              m3 = (if ga_sensitive a
                    then m2\<lparr>cf_risk := max (cf_risk m2) RkHigh, cf_risk_score := max (cf_risk_score m2) 45\<rparr> else m2)
          in if cf_work_domain m3 = DomainGeneral \<and> ga_frontend a then m3\<lparr>cf_work_domain := DomainFrontend\<rparr> else m3)"

definition select_frontend :: "wf_env \<Rightarrow> classification \<Rightarrow> wf_state \<Rightarrow> wf_state" where
  "select_frontend env measured w =
     (if cf_work_domain measured = DomainFrontend \<and> ws_profile w = ProfileStandard then
        let w1 = w\<lparr>ws_profile := ProfileFrontend,
                   ws_classification := (ws_classification w)\<lparr>cf_work_domain := DomainFrontend\<rparr>\<rparr>
        in w1\<lparr>ws_steps := apply_profile (resolve_definition_for_state env w1) ProfileFrontend (ws_steps w1)\<rparr>
      else w)"

definition reclassify_at_gate :: "wf_env \<Rightarrow> wf_state \<Rightarrow> wf_state" where
  "reclassify_at_gate env w =
     (case current_step w of
        None \<Rightarrow> w
      | Some s \<Rightarrow>
          if st_phase s \<notin> {PhReview, PhVerify} then w
          else case we_measured env of
              None \<Rightarrow>
                (let (raised, cl) = mark_unavailable (ws_classification w); w1 = w\<lparr>ws_classification := cl\<rparr>
                 in if raised then rematerialize_after_risk_increase env w1 else w1)
            | Some m0 \<Rightarrow>
                let m = apply_jev_gate_advice (we_advice env) w m0;
                    w1 = select_frontend env m w;
                    cl = ws_classification w1
                in if cf_risk m \<le> cf_risk cl then w1
                   else rematerialize_after_risk_increase env
                     (w1\<lparr>ws_classification := cl\<lparr>cf_risk := cf_risk m,
                        cf_risk_score := max (cf_risk_score cl) (cf_risk_score m),
                        cf_changed_files := cf_changed_files m, cf_changed_lines := cf_changed_lines m\<rparr>\<rparr>))"

end
