(* ===== verification/Workflow_Transition.thy ===== *)
theory Workflow_Transition
  imports Workflow_Engine
begin

text \<open>
  The transitions of a stored workflow, \<open>src/commands/workflow/engine/transition.rs\<close> and
  \<open>lifecycle.rs\<close>: advancing the current step through its evidence gates, approving a gate, waiving the
  first one, closing, changing the profile and applying the recommended dispositions of the review
  findings. Each takes the state as it was loaded and the store it is saved to; an early return of the
  code is an error value, and what was saved before it stays in the store.
\<close>

section \<open>Review depth\<close>

datatype review_depth = SelfVerification | OneIndependentReviewer | StrongIndependentReview

fun depth_for_risk :: "risk_band \<Rightarrow> review_depth" where
  "depth_for_risk RkLow = SelfVerification"
| "depth_for_risk RkMedium = OneIndependentReviewer"
| "depth_for_risk RkHigh = OneIndependentReviewer"
| "depth_for_risk RkCritical = StrongIndependentReview"

definition required_independent_reviews :: "risk_band \<Rightarrow> nat" where
  "required_independent_reviews risk =
     (case depth_for_risk risk of
        SelfVerification \<Rightarrow> 0 | OneIndependentReviewer \<Rightarrow> 1 | StrongIndependentReview \<Rightarrow> 2)"

definition whitespace_normal :: "string \<Rightarrow> string" where
  "whitespace_normal s =
     join_char (CHR '' '') (filter (\<lambda>w. w \<noteq> []) (split_char (CHR '' '') (map (\<lambda>c. if is_space c then CHR '' '' else c) s)))"

definition finding_key :: "review_finding \<Rightarrow> string" where
  "finding_key f =
     (case rf_path f of
        Some p \<Rightarrow> ascii_lower (replace_char (CHR 0x5C) (CHR ''/'') p) @ '':'' @
          show_nat (case rf_line f of Some n \<Rightarrow> n | None \<Rightarrow> 0)
      | None \<Rightarrow> ascii_lower (whitespace_normal (rf_summary f)))"

text \<open>A finding of weight that was raised under one key in more than one round.\<close>

definition meaningful :: "review_finding \<Rightarrow> bool" where
  "meaningful f = (rf_severity f \<in> {SevMajor, SevCritical} \<and> rf_disposition f \<noteq> DispDismissed)"

fun recurs :: "(string \<times> u64) list \<Rightarrow> review_finding list \<Rightarrow> bool" where
  "recurs seen [] = False"
| "recurs seen (f # fs) =
     (if \<not> meaningful f then recurs seen fs
      else if \<exists>r\<in>set seen. fst r = finding_key f \<and> snd r \<noteq> rf_created_at f then True
      else recurs ((finding_key f, rf_created_at f) # seen) fs)"

definition has_repeated_meaningful_finding :: "review_finding list \<Rightarrow> bool" where
  "has_repeated_meaningful_finding fs = recurs [] fs"

definition required_independent_reviews_for :: "wf_state \<Rightarrow> nat" where
  "required_independent_reviews_for w =
     (let b0 = required_independent_reviews (cf_risk (ws_classification w));
          b1 = (if ws_deploy_tier w = TierProduction then max b0 1 else b0)
      in if 0 < b1 \<and> has_repeated_meaningful_finding (ws_findings w) then max b1 2 else b1)"

section \<open>Evidence gates\<close>

definition open_findings :: "wf_state \<Rightarrow> review_finding list" where
  "open_findings w = filter (\<lambda>f. rf_disposition f = DispOpen) (ws_findings w)"

definition unreadable :: "string + 'a \<Rightarrow> wf_error + 'a" where
  "unreadable r = (case r of Inl m \<Rightarrow> Inl (EvidenceUnreadable m) | Inr a \<Rightarrow> Inr a)"

definition fresh_independent_reviews :: "wf_env \<Rightarrow> wf_state \<Rightarrow> wf_error + nat" where
  "fresh_independent_reviews env w =
     and_then (unreadable (we_fingerprint env)) (\<lambda>p. Inr (length (filter (\<lambda>e. e = p) (ws_evidence w))))"

definition production_gate_satisfied :: "wf_env \<Rightarrow> wf_state \<Rightarrow> wf_error + unit" where
  "production_gate_satisfied env w =
     (if ws_deploy_tier w \<noteq> TierProduction then Inr ()
      else if open_findings w \<noteq> [] then Inl ProductionFindingsOpen
      else and_then (fresh_independent_reviews env w) (\<lambda>n.
        if n = 0 then Inl ProductionUnreviewed
        else and_then (unreadable (we_verified env True)) (\<lambda>fresh.
          if fresh then Inr () else Inl ProductionUnverified)))"

definition supervisor_gate :: "wf_env \<Rightarrow> wf_step \<Rightarrow> wf_state \<Rightarrow> wf_error + unit" where
  "supervisor_gate env s w =
     (case we_supervisor env (st_phase s = PhPlan) (length (ws_steps w) \<le> ws_current w + 1) of
        Some m \<Rightarrow> Inl (SupervisorRefuses m) | None \<Rightarrow> Inr ())"

definition late_phase :: "wf_step \<Rightarrow> bool" where
  "late_phase s = (st_phase s \<in> {PhReview, PhVerify})"

text \<open>
  The detector gate of a frontend workflow. Accepting the findings that were there before is saved at
  once, since a later gate of the same transition may still refuse.
\<close>

definition detector_needed :: "wf_step \<Rightarrow> wf_state \<Rightarrow> bool" where
  "detector_needed s w = (ws_profile w = ProfileFrontend \<and> st_phase s \<in> {PhTest, PhReview, PhVerify})"

definition detector_blocks :: "bool \<Rightarrow> wf_state \<Rightarrow> frontend_report \<Rightarrow> bool" where
  "detector_blocks accept w r =
     (fr_truncated r \<or> 0 < fr_introduced r \<or>
      0 < fr_preexisting r \<and> \<not> (accept \<or> ws_accepted_preexisting w \<noteq> None))"

definition accepting :: "wf_env \<Rightarrow> wf_step \<Rightarrow> frontend_report \<Rightarrow> wf_state \<Rightarrow> wf_state" where
  "accepting env s r w =
     w\<lparr>ws_accepted_preexisting := Some \<lparr>ap_step = st_id s, ap_at = rfc3339 (we_now env),
         ap_blocking = fr_preexisting r, ap_total = fr_preexisting_total r\<rparr>,
       ws_updated_at := we_now env\<rparr>"

definition detector_gate ::
    "wf_env \<Rightarrow> bool \<Rightarrow> wf_step \<Rightarrow> wf_state \<Rightarrow> wf_store \<Rightarrow> wf_store \<times> (wf_error + wf_state)" where
  "detector_gate env accept s w t =
     (if \<not> detector_needed s w then (t, Inr w)
      else case we_detector_fresh env (late_phase s) of
          Inl m \<Rightarrow> (t, Inl (EvidenceUnreadable m))
        | Inr True \<Rightarrow> (t, Inr w)
        | Inr False \<Rightarrow>
            (case we_detector_report env (late_phase s) of
               Inl m \<Rightarrow> (t, Inl (EvidenceUnreadable m))
             | Inr r \<Rightarrow>
                 if detector_blocks accept w r
                 then (t, Inl (FrontendBlocked (st_id s) (fr_introduced r) (fr_preexisting r)))
                 else if 0 < fr_preexisting r \<and> accept \<and> ws_accepted_preexisting w = None
                 then saved (accepting env s r w) True t
                 else (t, Inr w)))"

definition visual_gate :: "wf_env \<Rightarrow> wf_step \<Rightarrow> wf_state \<Rightarrow> wf_error + unit" where
  "visual_gate env s w =
     (if ws_profile w \<noteq> ProfileFrontend \<or> \<not> late_phase s then Inr ()
      else and_then (unreadable (we_visual_fresh env)) (\<lambda>fresh.
        if fresh then Inr ()
        else and_then (unreadable (we_render env)) (\<lambda>render.
          case render of
            RenderInconclusive \<Rightarrow> Inr ()
          | RenderFailed \<Rightarrow> Inl (RenderedEvidenceMissing (st_id s))
          | RenderPassed \<Rightarrow> and_then (unreadable (we_visual_passes env)) (\<lambda>pass.
              if pass then Inr () else Inl (VisualReviewFailed (st_id s))))))"

definition deploy_gate :: "wf_env \<Rightarrow> wf_step \<Rightarrow> wf_state \<Rightarrow> wf_error + unit" where
  "deploy_gate env s w = (if st_phase s = PhDeploy then production_gate_satisfied env w else Inr ())"

definition review_gate :: "wf_env \<Rightarrow> wf_step \<Rightarrow> wf_state \<Rightarrow> wf_error + unit" where
  "review_gate env s w =
     (if st_phase s \<noteq> PhReview then Inr ()
      else if open_findings w \<noteq> [] then Inl FindingsOpen
      else let required = required_independent_reviews_for w in
        if required = 0 then Inr ()
        else if ws_evidence w = [] then Inl (ReviewsMissing required 0)
        else and_then (fresh_independent_reviews env w) (\<lambda>n.
          if n < required then Inl (ReviewsMissing required n) else Inr ()))"

definition evidence_gate :: "wf_env \<Rightarrow> wf_step \<Rightarrow> wf_error + unit" where
  "evidence_gate env s =
     (if st_phase s \<notin> {PhTest, PhVerify} then Inr ()
      else and_then (unreadable (we_verified env (st_phase s = PhVerify))) (\<lambda>fresh.
        if fresh then Inr () else Inl (NoFreshEvidence (st_id s) (st_phase s = PhVerify))))"

definition gates :: "wf_env \<Rightarrow> wf_step \<Rightarrow> wf_state \<Rightarrow> wf_error + unit" where
  "gates env s w =
     and_then (visual_gate env s w) (\<lambda>_.
     and_then (deploy_gate env s w) (\<lambda>_.
     and_then (review_gate env s w) (\<lambda>_. evidence_gate env s)))"

section \<open>Advancing\<close>

definition phase_elapsed_ms :: "wf_env \<Rightarrow> wf_state \<Rightarrow> u64" where
  "phase_elapsed_ms env w = sat_mul (sat_sub (we_now env) (ws_phase_started_at w)) 1000"

definition record_step_duration_ms :: "wf_env \<Rightarrow> string \<Rightarrow> wf_state \<Rightarrow> wf_state" where
  "record_step_duration_ms env i w = w\<lparr>ws_durations := (ws_durations w)(i \<mapsto> phase_elapsed_ms env w)\<rparr>"

definition stamped :: "wf_env \<Rightarrow> wf_state \<Rightarrow> wf_state" where
  "stamped env w = w\<lparr>ws_updated_at := we_now env, ws_phase_started_at := we_now env\<rparr>"

definition moved_on :: "wf_env \<Rightarrow> wf_state \<Rightarrow> wf_state" where
  "moved_on env w =
     (let w1 = sync_artifact_records (reclassify_at_gate env (w\<lparr>ws_current := ws_current w + 1\<rparr>))
      in w1\<lparr>ws_status := status_now w1\<rparr>)"

definition passed_step :: "wf_env \<Rightarrow> wf_step \<Rightarrow> wf_state \<Rightarrow> wf_state" where
  "passed_step env s w =
     (let w1 = record_step_duration_ms env (st_id s) w
      in moved_on env (w1\<lparr>ws_completed := ws_completed w1 @ [st_id s]\<rparr>))"

definition failed_step :: "wf_step \<Rightarrow> wf_state \<Rightarrow> wf_state" where
  "failed_step s w =
     (let n = min 255 (ws_attempts w (st_id s) + 1);
          w1 = w\<lparr>ws_attempts := (ws_attempts w)(st_id s := n)\<rparr>
      in if st_max_attempts s \<le> n then w1\<lparr>ws_status := WfFailed\<rparr> else w1)"

datatype step_outcome = StepSuccess | StepFailure

definition outcome_step ::
    "wf_env \<Rightarrow> step_outcome \<Rightarrow> bool \<Rightarrow> wf_step \<Rightarrow> wf_state \<Rightarrow> wf_store \<Rightarrow> wf_store \<times> (wf_error + wf_state)" where
  "outcome_step env outcome accept s w t =
     (case outcome of
        StepFailure \<Rightarrow> (t, Inr (failed_step s w))
      | StepSuccess \<Rightarrow>
          (case supervisor_gate env s w of
             Inl e \<Rightarrow> (t, Inl e)
           | Inr _ \<Rightarrow>
               (case detector_gate env accept s w t of
                  (t1, Inl e) \<Rightarrow> (t1, Inl e)
                | (t1, Inr w1) \<Rightarrow>
                    (case gates env s w1 of
                       Inl e \<Rightarrow> (t1, Inl e)
                     | Inr _ \<Rightarrow> (t1, Inr (passed_step env s w1))))))"

text \<open>Reopening the gate of a changed artifact: saved, and the transition refuses with \<open>e\<close>.\<close>

definition reopen_and_refuse ::
    "wf_error \<Rightarrow> artifact_stage \<Rightarrow> (wf_state \<Rightarrow> wf_state) \<Rightarrow> wf_state \<Rightarrow> wf_store \<Rightarrow>
      wf_store \<times> (wf_error + wf_state)" where
  "reopen_and_refuse e stage touch w t =
     (case reopen_artifact_gate stage w of Inl e1 \<Rightarrow> (t, Inl e1) | Inr w1 \<Rightarrow> refusing e (touch w1) t)"

definition advance_with_evidence ::
    "wf_env \<Rightarrow> step_outcome \<Rightarrow> bool \<Rightarrow> wf_state \<Rightarrow> wf_store \<Rightarrow> wf_store \<times> (wf_error + wf_state)" where
  "advance_with_evidence env outcome accept w0 t =
     (if \<not> in_flight (ws_status w0) then (t, Inl (NotInFlight (ws_status w0)))
      else let w = refresh_deploy_tier env w0 in
        case artifact_drift env w of
          Inl e \<Rightarrow> (t, Inl e)
        | Inr (Some stage) \<Rightarrow>
            reopen_and_refuse (ArtifactChanged stage) stage (\<lambda>w1. w1\<lparr>ws_updated_at := we_now env\<rparr>) w t
        | Inr None \<Rightarrow>
            if ws_status w = WfAwaitingApproval then (t, Inl StepAwaitsApproval)
            else if ws_status w \<noteq> WfRunning then (t, Inl (NotInFlight (ws_status w)))
            else case current_step w of
                None \<Rightarrow> (t, Inl NoCurrentStep)
              | Some s \<Rightarrow>
                  (case outcome_step env outcome accept s w t of
                     (t1, Inl e) \<Rightarrow> (t1, Inl e)
                   | (t1, Inr w1) \<Rightarrow> saved (stamped env w1) (in_flight (ws_status w1)) t1))"

section \<open>Approving\<close>

definition approve_artifact ::
    "wf_env \<Rightarrow> wf_step \<Rightarrow> artifact_stage \<Rightarrow> wf_state \<Rightarrow> wf_store \<Rightarrow> wf_store \<times> (wf_error + wf_state)" where
  "approve_artifact env s stage w t =
     (case artifact_drift env w of
        Inl e \<Rightarrow> (t, Inl e)
      | Inr drifted \<Rightarrow>
          if drifted \<noteq> None \<and> drifted \<noteq> Some stage
          then reopen_and_refuse (ReapproveFirst (the drifted) stage) (the drifted) (\<lambda>w1. w1) w t
          else case pin_current_artifact env w of
              Inl e \<Rightarrow> (t, Inl e)
            | Inr (w1, _) \<Rightarrow>
                let w2 = (if st_id s \<in> set (ws_completed w1) then w1
                          else let w11 = record_step_duration_ms env (st_id s) w1
                               in w11\<lparr>ws_completed := ws_completed w11 @ [st_id s]\<rparr>);
                    w3 = moved_on env w2
                in saved (stamped env w3) (in_flight (ws_status w3)) t)"

definition approve_gate :: "wf_env \<Rightarrow> wf_state \<Rightarrow> wf_store \<Rightarrow> wf_store \<times> (wf_error + wf_state)" where
  "approve_gate env w t =
     (let w1 = (case current_step w of Some s \<Rightarrow> w\<lparr>ws_step_approved := Some (st_id s)\<rparr> | None \<Rightarrow> w)
      in saved (stamped env (w1\<lparr>ws_status := WfRunning\<rparr>)) True t)"

definition approve :: "wf_env \<Rightarrow> wf_state \<Rightarrow> wf_store \<Rightarrow> wf_store \<times> (wf_error + wf_state)" where
  "approve env w0 t =
     (if ws_status w0 \<noteq> WfAwaitingApproval then (t, Inl NotAwaitingApproval)
      else let w = refresh_deploy_tier env w0 in
        case current_step w of
          Some s \<Rightarrow> (case st_artifact s of Some stage \<Rightarrow> approve_artifact env s stage w t | None \<Rightarrow> approve_gate env w t)
        | None \<Rightarrow> approve_gate env w t)"

definition waive_first_gate :: "wf_env \<Rightarrow> wf_state \<Rightarrow> wf_store \<Rightarrow> wf_store \<times> (wf_error + wf_state)" where
  "waive_first_gate env w t =
     (if ws_status w \<noteq> WfAwaitingApproval \<or> ws_completed w \<noteq> [] then (t, Inr w)
      else case current_step w of
          None \<Rightarrow> (t, Inr w)
        | Some s \<Rightarrow>
            if st_effect s = EfExternal then (t, Inr w)
            else saved (w\<lparr>ws_step_approved := Some (st_id s), ws_status := WfRunning, ws_updated_at := we_now env\<rparr>) True t)"

section \<open>Closing and the other operations\<close>

definition finish_close :: "wf_env \<Rightarrow> string option \<Rightarrow> wf_state \<Rightarrow> wf_store \<Rightarrow> wf_store \<times> (wf_error + wf_state)" where
  "finish_close env reason w t =
     (let w1 = w\<lparr>ws_status := WfClosed, ws_closed_reason := reason, ws_closed_at := Some (we_now env),
                ws_updated_at := we_now env\<rparr>
      in case save_inactive_if_active w1 t of (t1, Inl e) \<Rightarrow> (t1, Inl e) | (t1, Inr _) \<Rightarrow> (t1, Inr w1))"

definition close_workflow ::
    "wf_env \<Rightarrow> string option \<Rightarrow> wf_state \<Rightarrow> wf_store \<Rightarrow> wf_store \<times> (wf_error + wf_state)" where
  "close_workflow env reason w t =
     (if \<not> in_flight (ws_status w) then (t, Inl (CannotClose (ws_status w)))
      else if open_findings w \<noteq> [] then (t, Inl (CloseWithFindings (length (open_findings w))))
      else if ws_status w = WfAwaitingApproval then (t, Inl CloseWhileAwaiting)
      else finish_close env reason w t)"

definition any_accepted :: "wf_state \<Rightarrow> bool" where
  "any_accepted w =
     list_ex (\<lambda>stage. case ws_artifacts w stage of Some r \<Rightarrow> ar_accepted_hash r \<noteq> None | None \<Rightarrow> False)
       [ArtIntent, ArtSpec, ArtPlan]"

definition close_unstarted ::
    "wf_env \<Rightarrow> string option \<Rightarrow> wf_state \<Rightarrow> wf_store \<Rightarrow> wf_store \<times> (wf_error + wf_state)" where
  "close_unstarted env reason w t =
     (if \<not> in_flight (ws_status w) then (t, Inl (CannotClose (ws_status w)))
      else if ws_status w \<noteq> WfAwaitingApproval then (t, Inl NotAtFirstGate)
      else if ws_completed w \<noteq> [] then (t, Inl StepsCompleted)
      else if any_accepted w then (t, Inl ArtifactsAccepted)
      else finish_close env reason w t)"

record applied_disposition =
  ad_finding_id :: string
  ad_applied :: "finding_disposition option"
  ad_explicit :: bool

definition needs_explicit :: "review_finding \<Rightarrow> bool" where
  "needs_explicit f = (rf_recommended f = Some DispDismissed \<and> rf_severity f \<in> {SevCritical, SevMajor})"

definition recommended :: "review_finding \<Rightarrow> finding_disposition option" where
  "recommended f = (if needs_explicit f then None else rf_recommended f)"

definition dispose :: "review_finding \<Rightarrow> review_finding" where
  "dispose f =
     (if rf_disposition f \<noteq> DispOpen then f
      else case recommended f of None \<Rightarrow> f | Some r \<Rightarrow> f\<lparr>rf_disposition := r\<rparr>)"

definition apply_recommended_dispositions ::
    "wf_env \<Rightarrow> wf_state \<Rightarrow> wf_store \<Rightarrow> wf_store \<times> (wf_error + wf_state \<times> applied_disposition list)" where
  "apply_recommended_dispositions env w t =
     (let results = map (\<lambda>f. \<lparr>ad_finding_id = rf_id f, ad_applied = recommended f, ad_explicit = needs_explicit f\<rparr>)
            (open_findings w);
          w1 = w\<lparr>ws_findings := map dispose (ws_findings w), ws_updated_at := we_now env\<rparr>
      in case save_state w1 (in_flight (ws_status w1)) t of
           (t1, Inl e) \<Rightarrow> (t1, Inl e) | (t1, Inr _) \<Rightarrow> (t1, Inr (w1, results)))"

definition reclassify ::
    "wf_env \<Rightarrow> wf_profile \<Rightarrow> wf_state \<Rightarrow> wf_store \<Rightarrow> wf_store \<times> (wf_error + wf_state)" where
  "reclassify env profile w t =
     (if \<not> in_flight (ws_status w) then (t, Inl (CannotReclassify (ws_status w)))
      else let w1 = sync_artifact_records (set_profile env profile w);
               w2 = w1\<lparr>ws_status := status_now w1, ws_updated_at := we_now env\<rparr>
           in saved w2 (in_flight (ws_status w2)) t)"

text \<open>
  The completion check of the native loop: nothing blocks when there is no workflow in flight at a Test
  or Verify step, and evidence that cannot be read blocks.
\<close>

definition native_completion_gate :: "wf_env \<Rightarrow> wf_store \<Rightarrow> wf_error option" where
  "native_completion_gate env t =
     (case load_active t of
        Inr (Some w) \<Rightarrow>
          (if \<not> in_flight (ws_status w) then None
           else case current_step w of
               None \<Rightarrow> None
             | Some s \<Rightarrow>
                 if st_phase s \<notin> {PhTest, PhVerify} then None
                 else case we_verified env (st_phase s = PhVerify) of
                     Inl m \<Rightarrow> Some (EvidenceUnreadable m)
                   | Inr fresh \<Rightarrow>
                       if fresh then None else Some (NoFreshEvidence (st_id s) (st_phase s = PhVerify)))
      | _ \<Rightarrow> None)"

section \<open>Operations by identifier\<close>

text \<open>A verb loads the state file and runs one operation; the result's findings list is dropped.\<close>

datatype wf_op =
    OpAdvance step_outcome bool
  | OpApprove
  | OpWaive
  | OpClose "string option"
  | OpCloseUnstarted "string option"
  | OpReclassify wf_profile
  | OpDispose

fun run_op :: "wf_env \<Rightarrow> wf_op \<Rightarrow> wf_state \<Rightarrow> wf_store \<Rightarrow> wf_store \<times> (wf_error + wf_state)" where
  "run_op env (OpAdvance outcome accept) w t = advance_with_evidence env outcome accept w t"
| "run_op env OpApprove w t = approve env w t"
| "run_op env OpWaive w t = waive_first_gate env w t"
| "run_op env (OpClose reason) w t = close_workflow env reason w t"
| "run_op env (OpCloseUnstarted reason) w t = close_unstarted env reason w t"
| "run_op env (OpReclassify profile) w t = reclassify env profile w t"
| "run_op env OpDispose w t =
     (case apply_recommended_dispositions env w t of
        (t1, Inl e) \<Rightarrow> (t1, Inl e) | (t1, Inr (w1, _)) \<Rightarrow> (t1, Inr w1))"

definition run_verb :: "wf_env \<Rightarrow> string \<times> wf_op \<Rightarrow> wf_store \<Rightarrow> wf_store \<times> (wf_error + wf_state)" where
  "run_verb env v t =
     (case load_state (fst v) t of Inl e \<Rightarrow> (t, Inl e) | Inr w \<Rightarrow> run_op env (snd v) w t)"

end
