(* ===== verification/Workflow_Runs.thy ===== *)
theory Workflow_Runs
  imports Workflow_Transition
begin

text \<open>
  What a verb writes: only the file of the workflow it names, and there a state whose completed steps
  were completed before or are earned by this verb, through the evidence of its phase or the approval
  of a written artifact; a terminal workflow keeps its status.
\<close>

section \<open>What a verb writes\<close>

abbreviation state_of :: "wf_store \<Rightarrow> string \<Rightarrow> wf_state option" where
  "state_of t \<equiv> held (wt_files t)"

lemma sync_fields [simp]:
  "ws_id (sync_artifact_records w) = ws_id w" "ws_completed (sync_artifact_records w) = ws_completed w"
  "ws_steps (sync_artifact_records w) = ws_steps w" "ws_current (sync_artifact_records w) = ws_current w"
  "ws_status (sync_artifact_records w) = ws_status w" "ws_step_approved (sync_artifact_records w) = ws_step_approved w"
  "ws_deploy_tier (sync_artifact_records w) = ws_deploy_tier w" "ws_attempts (sync_artifact_records w) = ws_attempts w"
  "ws_classification (sync_artifact_records w) = ws_classification w" "ws_profile (sync_artifact_records w) = ws_profile w"
  "ws_findings (sync_artifact_records w) = ws_findings w" "ws_evidence (sync_artifact_records w) = ws_evidence w"
  "ws_definition (sync_artifact_records w) = ws_definition w" "ws_kind (sync_artifact_records w) = ws_kind w"
  "ws_brainstorm (sync_artifact_records w) = ws_brainstorm w"
  by (simp_all add: sync_artifact_records_def)

lemma id_risk [simp]: "ws_id (rematerialize_after_risk_increase env w) = ws_id w"
  by (simp add: rematerialize_after_risk_increase_def Let_def split: option.splits)

lemma id_tier [simp]: "ws_id (apply_effective_deploy_tier env e w) = ws_id w"
  by (simp add: apply_effective_deploy_tier_def Let_def split: option.splits)

lemma id_refresh [simp]: "ws_id (refresh_deploy_tier env w) = ws_id w"
  by (simp add: refresh_deploy_tier_def)

lemma id_select [simp]: "ws_id (select_frontend env m w) = ws_id w"
  by (simp add: select_frontend_def Let_def)

lemma completed_select [simp]: "ws_completed (select_frontend env m w) = ws_completed w"
  by (simp add: select_frontend_def Let_def)

lemma id_gate [simp]: "ws_id (reclassify_at_gate env w) = ws_id w"
  by (simp add: reclassify_at_gate_def Let_def split: option.splits prod.splits)

lemma completed_risk: "set (ws_completed (rematerialize_after_risk_increase env w)) \<subseteq> set (ws_completed w)"
  by (auto simp: rematerialize_after_risk_increase_def Let_def split: option.splits)

lemma completed_tier: "set (ws_completed (apply_effective_deploy_tier env e w)) \<subseteq> set (ws_completed w)"
  by (auto simp: apply_effective_deploy_tier_def Let_def split: option.splits)

lemma completed_refresh: "set (ws_completed (refresh_deploy_tier env w)) \<subseteq> set (ws_completed w)"
  by (simp add: refresh_deploy_tier_def completed_tier)

lemma completed_gate: "set (ws_completed (reclassify_at_gate env w)) \<subseteq> set (ws_completed w)"
proof -
  have "set (ws_completed (rematerialize_after_risk_increase env (w\<lparr>ws_classification := cl\<rparr>))) \<subseteq> set (ws_completed w)" for cl
    using completed_risk [of env "w\<lparr>ws_classification := cl\<rparr>"] by simp
  moreover have "set (ws_completed (rematerialize_after_risk_increase env (select_frontend env m w\<lparr>ws_classification := cl\<rparr>)))
      \<subseteq> set (ws_completed w)" for m cl
    using completed_risk [of env "select_frontend env m w\<lparr>ws_classification := cl\<rparr>"] by simp
  ultimately show ?thesis
    by (simp add: reclassify_at_gate_def Let_def split: option.splits prod.splits)
qed

lemma id_moved [simp]: "ws_id (moved_on env w) = ws_id w"
  by (simp add: moved_on_def Let_def)

lemma completed_moved: "set (ws_completed (moved_on env w)) \<subseteq> set (ws_completed w)"
  using completed_gate [of env "w\<lparr>ws_current := ws_current w + 1\<rparr>"] by (simp add: moved_on_def Let_def)

lemma id_passed [simp]: "ws_id (passed_step env s w) = ws_id w"
  by (simp add: passed_step_def Let_def record_step_duration_ms_def)

lemma completed_passed: "set (ws_completed (passed_step env s w)) \<subseteq> insert (st_id s) (set (ws_completed w))"
  using completed_moved [of env "(record_step_duration_ms env (st_id s) w)\<lparr>ws_completed := ws_completed w @ [st_id s]\<rparr>"]
  by (simp add: passed_step_def Let_def record_step_duration_ms_def)

lemma fields_failed [simp]:
  "ws_id (failed_step s w) = ws_id w" "ws_completed (failed_step s w) = ws_completed w"
  "ws_steps (failed_step s w) = ws_steps w" "ws_current (failed_step s w) = ws_current w"
  by (simp_all add: failed_step_def Let_def)

lemma fields_stamped [simp]:
  "ws_id (stamped env w) = ws_id w" "ws_completed (stamped env w) = ws_completed w"
  "ws_status (stamped env w) = ws_status w" "ws_steps (stamped env w) = ws_steps w"
  "ws_current (stamped env w) = ws_current w" "ws_attempts (stamped env w) = ws_attempts w"
  by (simp_all add: stamped_def)

text \<open>The outcome of a save: nothing is written, or the one file holds the new state.\<close>

definition writes :: "wf_store \<Rightarrow> wf_store \<Rightarrow> string \<Rightarrow> (wf_state \<Rightarrow> bool) \<Rightarrow> bool" where
  "writes t t1 i P \<longleftrightarrow> state_of t1 = state_of t \<or> (\<exists>w. P w \<and> state_of t1 = (state_of t)(i \<mapsto> w))"

lemma writes_refl [simp]: "writes t t i P"
  by (simp add: writes_def)

lemma writes_mono: "writes t t1 i P \<Longrightarrow> (\<And>w. P w \<Longrightarrow> Q w) \<Longrightarrow> writes t t1 i Q"
  by (auto simp: writes_def)

lemma writes_trans: "writes t t1 i P \<Longrightarrow> writes t1 t2 i P \<Longrightarrow> writes t t2 i P"
  by (auto simp: writes_def)

lemma write_state_file_cases:
  assumes "write_state_file w t = (t1, r)"
  obtains e where "r = Inl e" "state_of t1 = state_of t" "wt_active t1 = wt_active t"
  | "r = Inr ()" "state_of t1 = (state_of t)(ws_id w \<mapsto> w)" "wt_active t1 = wt_active t" "valid_state_id (ws_id w)"
proof (cases "valid_state_id (ws_id w)")
  case False
  then show ?thesis using assms that(1) by (auto simp: write_state_file_def)
next
  case True
  obtain d res where s: "saving (WfIo NoWrite) (ws_id w) w () (wt_files t) = (d, res)"
    by (cases "saving (WfIo NoWrite) (ws_id w) w () (wt_files t)")
  then have "t1 = t\<lparr>wt_files := d\<rparr>" "r = res" using assms True by (simp_all add: write_state_file_def)
  with s that True show ?thesis
    by (auto simp: saving_def write_private_def Let_def take_failure_def put_entry_def held_def fun_eq_iff
        split: list.splits if_splits)
qed

lemma set_active_state [simp]: "set_active p t = (t1, r) \<Longrightarrow> state_of t1 = state_of t"
  by (auto simp: set_active_def Let_def take_failure_def held_def fun_eq_iff split: list.splits if_splits)

lemma save_state_cases:
  assumes "save_state w active t = (t1, r)"
  obtains e where "r = Inl e" "state_of t1 = state_of t \<or> state_of t1 = (state_of t)(ws_id w \<mapsto> w)"
  | "r = Inr ()" "state_of t1 = (state_of t)(ws_id w \<mapsto> w)" "wt_active t1 = (if active then Some (ws_id w) else None)"
proof -
  obtain t2 r2 where w2: "write_state_file w t = (t2, r2)" by (cases "write_state_file w t")
  show ?thesis
  proof (cases rule: write_state_file_cases [OF w2])
    case (1 e)
    then show ?thesis using assms w2 that(1) by (auto simp: save_state_def)
  next
    case 2
    obtain p t3 r3 where p: "(t3, r3) = set_active p t2" "p = (if active then Some (ws_id w) else None)"
      by (metis surj_pair)
    have s3: "state_of t3 = (state_of t)(ws_id w \<mapsto> w)" using p(1) [symmetric] 2(2) by simp
    have a3: "r3 = Inr () \<Longrightarrow> wt_active t3 = p"
      using p(1) by (auto simp: set_active_def Let_def split: prod.splits if_splits)
    have "r3 = Inr () \<or> (\<exists>e. r3 = Inl e)" by (cases r3) auto
    then show ?thesis
      using assms w2 2 p s3 a3 that by (auto simp: save_state_def split: if_splits)
  qed
qed

lemma save_state_writes: "save_state w active t = (t1, r) \<Longrightarrow> P w \<Longrightarrow> writes t t1 (ws_id w) P"
  by (erule save_state_cases) (auto simp: writes_def)

lemma saved_writes: "saved w active t = (t1, r) \<Longrightarrow> P w \<Longrightarrow> ws_id w = i \<Longrightarrow> writes t t1 i P"
  by (auto simp: saved_def split: prod.splits sum.splits dest: save_state_writes)

lemma refusing_writes: "refusing e w t = (t1, r) \<Longrightarrow> P w \<Longrightarrow> ws_id w = i \<Longrightarrow> writes t t1 i P"
  by (auto simp: refusing_def split: prod.splits sum.splits dest: save_state_writes)

lemma save_inactive_writes:
  assumes "save_inactive_if_active w t = (t1, r)" "P w"
  shows "writes t t1 (ws_id w) P"
proof -
  obtain t2 r2 where w2: "write_state_file w t = (t2, r2)" by (cases "write_state_file w t")
  show ?thesis
  proof (cases rule: write_state_file_cases [OF w2])
    case (1 e)
    then show ?thesis using assms w2 by (simp add: save_inactive_if_active_def writes_def)
  next
    case 2
    then show ?thesis using assms w2 by (auto simp: save_inactive_if_active_def writes_def split: if_splits)
  qed
qed

lemma load_state_held: "load_state i t = Inr w \<Longrightarrow> state_of t i = Some w"
  by (auto simp: load_state_def held_def split: if_splits option.splits stored.splits)


section \<open>What earns a step\<close>

text \<open>
  The evidence that the phases ask for, stated without the order in which the code asks: fresh passing
  checks for Test and Verify, disposed findings and enough fresh independent reviews for Review, all of
  it for a production Deploy, and rendered evidence for the late phases of a frontend workflow.
\<close>

definition reviewed_afresh :: "wf_env \<Rightarrow> nat \<Rightarrow> wf_state \<Rightarrow> bool" where
  "reviewed_afresh env n w \<longleftrightarrow> n = 0 \<or>
     (\<exists>p. we_fingerprint env = Inr p \<and> n \<le> count_list (ws_evidence w) p)"

definition step_evidence :: "wf_env \<Rightarrow> wf_step \<Rightarrow> wf_state \<Rightarrow> bool" where
  "step_evidence env s w \<longleftrightarrow>
     (st_phase s = PhTest \<longrightarrow> we_verified env False = Inr True) \<and>
     (st_phase s = PhVerify \<longrightarrow> we_verified env True = Inr True) \<and>
     (st_phase s = PhReview \<longrightarrow>
        open_findings w = [] \<and> reviewed_afresh env (required_independent_reviews_for w) w) \<and>
     (st_phase s = PhDeploy \<and> ws_deploy_tier w = TierProduction \<longrightarrow>
        open_findings w = [] \<and> reviewed_afresh env 1 w \<and> we_verified env True = Inr True) \<and>
     (ws_profile w = ProfileFrontend \<and> st_phase s \<in> {PhReview, PhVerify} \<longrightarrow>
        we_visual_fresh env = Inr True \<or> we_render env = Inr RenderInconclusive \<or>
        we_render env = Inr RenderPassed \<and> we_visual_passes env = Inr True) \<and>
     (ws_profile w = ProfileFrontend \<and> st_phase s \<in> {PhTest, PhReview, PhVerify} \<longrightarrow>
        we_detector_fresh env (st_phase s \<noteq> PhTest) = Inr True \<or>
        (\<exists>r. we_detector_report env (st_phase s \<noteq> PhTest) = Inr r \<and> fr_introduced r = 0 \<and> \<not> fr_truncated r))"

definition advanced_with :: "wf_env \<Rightarrow> wf_step \<Rightarrow> wf_state \<Rightarrow> bool" where
  "advanced_with env s w \<longleftrightarrow>
     artifact_drift env w = Inr None \<and> \<not> step_requires_approval w s \<and>
     we_supervisor env (st_phase s = PhPlan) (length (ws_steps w) \<le> ws_current w + 1) = None \<and>
     step_evidence env s w"

definition written_artifact :: "wf_env \<Rightarrow> wf_step \<Rightarrow> wf_state \<Rightarrow> bool" where
  "written_artifact env s w \<longleftrightarrow>
     (\<exists>stage body. st_artifact s = Some stage \<and> we_file env stage = Content body \<and>
        trim body \<noteq> trim (artifact_template stage))"

definition earned :: "wf_env \<Rightarrow> wf_op \<Rightarrow> wf_state \<Rightarrow> string \<Rightarrow> bool" where
  "earned env op w0 i \<longleftrightarrow>
     (let w = refresh_deploy_tier env w0 in
      \<exists>s. current_step w = Some s \<and> st_id s = i \<and>
        ((\<exists>accept. op = OpAdvance StepSuccess accept) \<and> in_flight (ws_status w0) \<and> advanced_with env s w \<or>
         op = OpApprove \<and> ws_status w0 = WfAwaitingApproval \<and> written_artifact env s w))"

lemma unreadable_Inr [simp]: "unreadable r = Inr a \<longleftrightarrow> r = Inr a"
  by (cases r) (simp_all add: unreadable_def)

lemma length_filter_count: "length (filter (\<lambda>e. e = p) xs) = count_list xs p"
  by (induction xs) auto

lemma fresh_reviews_Inr:
  "fresh_independent_reviews env w = Inr n \<longleftrightarrow>
     (\<exists>p. we_fingerprint env = Inr p \<and> n = count_list (ws_evidence w) p)"
  by (auto simp: fresh_independent_reviews_def and_then_Inr_iff length_filter_count)

lemma review_gate_ok:
  "review_gate env s w = Inr u \<Longrightarrow> st_phase s = PhReview \<Longrightarrow>
     open_findings w = [] \<and> reviewed_afresh env (required_independent_reviews_for w) w"
  by (auto simp: review_gate_def Let_def reviewed_afresh_def and_then_Inr_iff fresh_reviews_Inr split: if_splits)

lemma deploy_gate_ok:
  "deploy_gate env s w = Inr u \<Longrightarrow> st_phase s = PhDeploy \<Longrightarrow> ws_deploy_tier w = TierProduction \<Longrightarrow>
     open_findings w = [] \<and> reviewed_afresh env 1 w \<and> we_verified env True = Inr True"
  by (fastforce simp: deploy_gate_def production_gate_satisfied_def reviewed_afresh_def and_then_Inr_iff
      fresh_reviews_Inr split: if_splits)

lemma evidence_gate_ok:
  "evidence_gate env s = Inr u \<Longrightarrow> st_phase s = PhTest \<Longrightarrow> we_verified env False = Inr True"
  "evidence_gate env s = Inr u \<Longrightarrow> st_phase s = PhVerify \<Longrightarrow> we_verified env True = Inr True"
  by (auto simp: evidence_gate_def and_then_Inr_iff split: if_splits)

lemma visual_gate_ok:
  "visual_gate env s w = Inr u \<Longrightarrow> ws_profile w = ProfileFrontend \<Longrightarrow> st_phase s \<in> {PhReview, PhVerify} \<Longrightarrow>
     we_visual_fresh env = Inr True \<or> we_render env = Inr RenderInconclusive \<or>
     we_render env = Inr RenderPassed \<and> we_visual_passes env = Inr True"
  by (auto simp: visual_gate_def late_phase_def and_then_Inr_iff split: if_splits render_result.split_asm)
    (metis render_result.exhaust)+

text \<open>The detector gate changes only what was accepted and the time.\<close>

definition as_accepted :: "wf_state \<Rightarrow> wf_state \<Rightarrow> bool" where
  "as_accepted w w1 \<longleftrightarrow>
     (\<exists>a n. w1 = w\<lparr>ws_accepted_preexisting := a, ws_updated_at := n\<rparr>)"

lemma as_accepted_refl: "as_accepted w w"
  unfolding as_accepted_def by (rule exI [of _ "ws_accepted_preexisting w"], rule exI [of _ "ws_updated_at w"]) simp

lemma detector_gate_ok:
  assumes "detector_gate env accept s w t = (t1, Inr w1)"
  shows "as_accepted w w1 \<and> (ws_profile w = ProfileFrontend \<and> st_phase s \<in> {PhTest, PhReview, PhVerify} \<longrightarrow>
      we_detector_fresh env (st_phase s \<noteq> PhTest) = Inr True \<or>
      (\<exists>r. we_detector_report env (st_phase s \<noteq> PhTest) = Inr r \<and> fr_introduced r = 0 \<and> \<not> fr_truncated r))"
proof -
  have late: "st_phase s \<in> {PhTest, PhReview, PhVerify} \<Longrightarrow> late_phase s = (st_phase s \<noteq> PhTest)"
    by (auto simp: late_phase_def)
  have acc: "as_accepted w (accepting env s r w)" for r by (auto simp: as_accepted_def accepting_def)
  have sv: "saved x a t = (t1, Inr w1) \<Longrightarrow> w1 = x" for x a by (auto simp: saved_def split: prod.splits sum.splits)
  show ?thesis
    using assms acc late as_accepted_refl sv
    by (auto simp: detector_gate_def detector_needed_def detector_blocks_def split: if_splits sum.splits bool.splits)
qed

lemma detector_gate_writes:
  assumes "detector_gate env accept s w t = (t1, r)"
  shows "writes t t1 (ws_id w) (\<lambda>x. as_accepted w x)"
proof -
  have "as_accepted w (accepting env s r w)" "ws_id (accepting env s r w) = ws_id w" for r
    by (auto simp: as_accepted_def accepting_def)
  then show ?thesis
    using assms by (auto simp: detector_gate_def split: if_splits sum.splits bool.splits intro: saved_writes)
qed

lemma evidence_as_accepted:
  assumes "as_accepted w w1" "gates env s w1 = Inr u"
    "ws_profile w = ProfileFrontend \<and> st_phase s \<in> {PhTest, PhReview, PhVerify} \<longrightarrow>
      we_detector_fresh env (st_phase s \<noteq> PhTest) = Inr True \<or>
      (\<exists>r. we_detector_report env (st_phase s \<noteq> PhTest) = Inr r \<and> fr_introduced r = 0 \<and> \<not> fr_truncated r)"
  shows "step_evidence env s w"
proof -
  obtain a n where w1: "w1 = w\<lparr>ws_accepted_preexisting := a, ws_updated_at := n\<rparr>" using assms(1) by (auto simp: as_accepted_def)
  have same: "open_findings w1 = open_findings w" "required_independent_reviews_for w1 = required_independent_reviews_for w"
      "reviewed_afresh env k w1 = reviewed_afresh env k w" "ws_deploy_tier w1 = ws_deploy_tier w" "ws_profile w1 = ws_profile w" for k
    unfolding w1 by (simp_all add: open_findings_def required_independent_reviews_for_def reviewed_afresh_def)
  have g: "visual_gate env s w1 = Inr ()" "deploy_gate env s w1 = Inr ()" "review_gate env s w1 = Inr ()"
      "evidence_gate env s = Inr ()"
    using assms(2) by (auto simp: gates_def and_then_Inr_iff)
  show ?thesis
    unfolding step_evidence_def
    using visual_gate_ok [OF g(1)] deploy_gate_ok [OF g(2)] review_gate_ok [OF g(3)] evidence_gate_ok [OF g(4)] assms(3)
    by (simp add: same)
qed

definition op_writes :: "wf_env \<Rightarrow> wf_op \<Rightarrow> wf_state \<Rightarrow> wf_state \<Rightarrow> bool" where
  "op_writes env op w x \<longleftrightarrow>
     ws_id x = ws_id w \<and> (\<forall>i\<in>set (ws_completed x). i \<in> set (ws_completed w) \<or> earned env op w i) \<and>
     (\<not> in_flight (ws_status w) \<longrightarrow> ws_status x = ws_status w \<and> ws_completed x = ws_completed w)"

lemma op_writesI:
  "ws_id x = ws_id w \<Longrightarrow> in_flight (ws_status w) \<Longrightarrow>
     (\<And>i. i \<in> set (ws_completed x) \<Longrightarrow> i \<in> set (ws_completed (refresh_deploy_tier env w)) \<or> earned env op w i) \<Longrightarrow>
     op_writes env op w x"
  using completed_refresh [of env w] by (auto simp: op_writes_def)

lemma op_writes_subset:
  "ws_id x = ws_id w \<Longrightarrow> in_flight (ws_status w) \<Longrightarrow> set (ws_completed x) \<subseteq> set (ws_completed w) \<Longrightarrow>
     op_writes env op w x"
  by (auto simp: op_writes_def)

lemma reopen_fields:
  assumes "reopen_artifact_gate stage w = Inr w1"
  shows "ws_id w1 = ws_id w" "set (ws_completed w1) \<subseteq> set (ws_completed w)"
  using assms by (auto simp: reopen_artifact_gate_def Let_def split: option.splits)

lemma reopen_and_refuse_writes:
  assumes "reopen_and_refuse e stage touch (refresh_deploy_tier env w) t = (t1, r)"
    "in_flight (ws_status w)"
    "\<And>x. ws_id (touch x) = ws_id x" "\<And>x. ws_completed (touch x) = ws_completed x"
  shows "writes t t1 (ws_id w) (op_writes env op w)"
proof (cases "reopen_artifact_gate stage (refresh_deploy_tier env w)")
  case (Inl e1)
  then show ?thesis using assms(1) by (simp add: reopen_and_refuse_def)
next
  case (Inr w1)
  note f = reopen_fields [OF Inr]
  have "op_writes env op w (touch w1)"
    using f assms(2-4) by (intro op_writesI) auto
  then show ?thesis using assms(1) Inr f(1) assms(3) by (auto simp: reopen_and_refuse_def intro: refusing_writes)
qed

lemma outcome_step_writes:
  assumes o: "outcome_step env outcome accept s (refresh_deploy_tier env w) t = (t1, r)"
    and w: "in_flight (ws_status w)" "current_step (refresh_deploy_tier env w) = Some s"
      "artifact_drift env (refresh_deploy_tier env w) = Inr None"
      "\<not> step_requires_approval (refresh_deploy_tier env w) s"
  shows "writes t t1 (ws_id w) (op_writes env (OpAdvance outcome accept) w)"
    and "\<And>w1. r = Inr w1 \<Longrightarrow> ws_id w1 = ws_id w \<and>
       (\<forall>i\<in>set (ws_completed w1). i \<in> set (ws_completed (refresh_deploy_tier env w)) \<or> earned env (OpAdvance outcome accept) w i)"
proof -
  let ?w = "refresh_deploy_tier env w"
  have acc: "op_writes env (OpAdvance outcome accept) w x" if "as_accepted ?w x" for x
    using that w(1) by (intro op_writesI) (auto simp: as_accepted_def)
  have det: "writes t t2 (ws_id w) (op_writes env (OpAdvance outcome accept) w)"
    if "detector_gate env accept s ?w t = (t2, r2)" for t2 r2
    using writes_mono [OF detector_gate_writes [OF that] acc] by simp
  show "writes t t1 (ws_id w) (op_writes env (OpAdvance outcome accept) w)"
    using o det by (auto simp: outcome_step_def split: step_outcome.splits sum.splits prod.splits)
  fix w1 assume r: "r = Inr w1"
  show "ws_id w1 = ws_id w \<and>
       (\<forall>i\<in>set (ws_completed w1). i \<in> set (ws_completed ?w) \<or> earned env (OpAdvance outcome accept) w i)"
  proof (cases outcome)
    case StepFailure
    then show ?thesis using o r by (auto simp: outcome_step_def)
  next
    case StepSuccess
    then obtain w2 t2 where d: "detector_gate env accept s ?w t = (t2, Inr w2)" and g: "gates env s w2 = Inr ()"
      and sup: "supervisor_gate env s ?w = Inr ()" and w1: "w1 = passed_step env s w2"
      using o r by (auto simp: outcome_step_def split: sum.splits prod.splits)
    have a: "as_accepted ?w w2" and ev: "step_evidence env s ?w"
      using detector_gate_ok [OF d] evidence_as_accepted [OF _ g] by blast+
    have "advanced_with env s ?w"
      using ev sup w(3,4) by (auto simp: advanced_with_def supervisor_gate_def split: option.splits)
    then have e: "earned env (OpAdvance outcome accept) w (st_id s)"
      using w(1,2) StepSuccess by (auto simp: earned_def Let_def)
    have "set (ws_completed w1) \<subseteq> insert (st_id s) (set (ws_completed ?w))" "ws_id w1 = ws_id w"
      using completed_passed [of env s w2] a w1 by (auto simp: as_accepted_def)
    then show ?thesis using e by auto
  qed
qed

lemma advance_writes:
  assumes "advance_with_evidence env outcome accept w t = (t1, r)"
  shows "writes t t1 (ws_id w) (op_writes env (OpAdvance outcome accept) w)"
proof (cases "in_flight (ws_status w)")
  case False
  then show ?thesis using assms by (simp add: advance_with_evidence_def)
next
  case fl: True
  let ?w = "refresh_deploy_tier env w"
  show ?thesis
  proof (cases "artifact_drift env ?w")
    case (Inl e)
    then show ?thesis using assms fl by (simp add: advance_with_evidence_def Let_def)
  next
    case d: (Inr drifted)
    show ?thesis
    proof (cases drifted)
      case (Some stage)
      then show ?thesis using assms fl d
        by (auto simp: advance_with_evidence_def Let_def intro: reopen_and_refuse_writes)
    next
      case None
      show ?thesis
      proof (cases "ws_status ?w = WfRunning \<and> current_step ?w \<noteq> None")
        case False
        then show ?thesis using assms fl d None
          by (auto simp: advance_with_evidence_def Let_def split: if_splits option.splits)
      next
        case True
        then obtain s where s: "current_step ?w = Some s" "ws_status ?w = WfRunning" by auto
        have "status_now ?w = ws_status ?w"
          by (simp add: refresh_deploy_tier_def apply_effective_deploy_tier_def Let_def status_now_def current_step_def
              step_requires_approval_def)
        then have na: "\<not> step_requires_approval ?w s" using s by (auto simp: status_now_def split: if_splits)
        obtain t2 r2 where o: "outcome_step env outcome accept s ?w t = (t2, r2)"
          by (cases "outcome_step env outcome accept s ?w t")
        note os = outcome_step_writes [OF o fl s(1) _ na]
        have drift: "artifact_drift env ?w = Inr None" using d None by simp
        show ?thesis
        proof (cases r2)
          case (Inl e)
          then show ?thesis using assms fl d None s o os(1) [OF drift] by (simp add: advance_with_evidence_def Let_def)
        next
          case (Inr w1)
          then have sv: "saved (stamped env w1) (in_flight (ws_status w1)) t2 = (t1, r)"
            using assms fl d None s o by (simp add: advance_with_evidence_def Let_def)
          have "op_writes env (OpAdvance outcome accept) w (stamped env w1)"
            using os(2) [OF drift Inr] fl by (intro op_writesI) auto
          then have "writes t2 t1 (ws_id w) (op_writes env (OpAdvance outcome accept) w)"
            using saved_writes [OF sv] os(2) [OF drift Inr] by auto
          then show ?thesis using writes_trans os(1) [OF drift] by blast
        qed
      qed
    qed
  qed
qed

lemma pin_fields:
  assumes "pin_current_artifact env w = Inr (w1, stage)" "current_step w = Some s"
  shows "ws_id w1 = ws_id w" "ws_completed w1 = ws_completed w" "written_artifact env s w"
proof -
  obtain f where st: "st_artifact s = Some stage" and f: "workflow_artifact_path env w stage = Inr f"
    and body: "trim (case f of Content b \<Rightarrow> b | _ \<Rightarrow> artifact_template stage) \<noteq> trim (artifact_template stage)"
    and w1: "ws_id w1 = ws_id w" "ws_completed w1 = ws_completed w"
    using assms by (auto simp: pin_current_artifact_def Let_def and_then_Inr_iff split: option.splits if_splits)
  show "ws_id w1 = ws_id w" "ws_completed w1 = ws_completed w" using w1 .
  obtain b where "f = Content b" using body by (cases f) auto
  moreover have "we_file env stage = f"
    using f by (auto simp: workflow_artifact_path_def split: option.splits if_splits artifact_file.splits)
  ultimately show "written_artifact env s w" using st body by (auto simp: written_artifact_def)
qed

lemma approve_artifact_writes:
  assumes a: "approve_artifact env s stage (refresh_deploy_tier env w) t = (t1, r)"
    and w: "ws_status w = WfAwaitingApproval" "current_step (refresh_deploy_tier env w) = Some s"
  shows "writes t t1 (ws_id w) (op_writes env OpApprove w)"
proof -
  let ?w = "refresh_deploy_tier env w"
  have fl: "in_flight (ws_status w)" using w by (simp add: in_flight_def)
  show ?thesis
  proof (cases "artifact_drift env ?w")
    case (Inl e)
    then show ?thesis using a by (simp add: approve_artifact_def)
  next
    case d: (Inr drifted)
    show ?thesis
    proof (cases "drifted \<noteq> None \<and> drifted \<noteq> Some stage")
      case True
      then show ?thesis using a d fl by (auto simp: approve_artifact_def intro: reopen_and_refuse_writes)
    next
      case False
      show ?thesis
      proof (cases "pin_current_artifact env ?w")
        case (Inl e)
        then show ?thesis using a d False by (auto simp: approve_artifact_def)
      next
        case (Inr p)
        then obtain w1 stage1 where pin: "pin_current_artifact env ?w = Inr (w1, stage1)" by (cases p) auto
        note f = pin_fields [OF pin w(2)]
        define w2 where "w2 = (if st_id s \<in> set (ws_completed w1) then w1
          else (record_step_duration_ms env (st_id s) w1)\<lparr>ws_completed := ws_completed w1 @ [st_id s]\<rparr>)"
        have sv: "saved (stamped env (moved_on env w2)) (in_flight (ws_status (moved_on env w2))) t = (t1, r)"
          using a d False pin
          by (auto simp: approve_artifact_def Let_def w2_def record_step_duration_ms_def split: if_splits)
        have "earned env OpApprove w (st_id s)" using w f(3) by (auto simp: earned_def Let_def)
        moreover have w2f: "ws_id w2 = ws_id w" "set (ws_completed w2) \<subseteq> insert (st_id s) (set (ws_completed ?w))"
          using f by (auto simp: w2_def record_step_duration_ms_def)
        ultimately have "op_writes env OpApprove w (stamped env (moved_on env w2))"
          using completed_moved [of env w2] fl by (intro op_writesI) auto
        then show ?thesis using saved_writes [OF sv] w2f by simp
      qed
    qed
  qed
qed

lemma approve_writes:
  assumes "approve env w t = (t1, r)"
  shows "writes t t1 (ws_id w) (op_writes env OpApprove w)"
proof (cases "ws_status w = WfAwaitingApproval")
  case False
  then show ?thesis using assms by (simp add: approve_def)
next
  case True
  let ?w = "refresh_deploy_tier env w"
  have fl: "in_flight (ws_status w)" using True by (simp add: in_flight_def)
  have "writes t t1 (ws_id w) (op_writes env OpApprove w)" if "approve_gate env ?w t = (t1, r)"
  proof -
    have f: "ws_id (case current_step ?w of Some s \<Rightarrow> ?w\<lparr>ws_step_approved := Some (st_id s)\<rparr> | None \<Rightarrow> ?w) = ws_id w"
      "ws_completed (case current_step ?w of Some s \<Rightarrow> ?w\<lparr>ws_step_approved := Some (st_id s)\<rparr> | None \<Rightarrow> ?w) = ws_completed ?w"
      by (simp_all split: option.split)
    show ?thesis using that f fl unfolding approve_gate_def Let_def
      by (intro saved_writes [OF that [unfolded approve_gate_def Let_def]] op_writesI) auto
  qed
  then show ?thesis
    using assms True approve_artifact_writes [OF _ True]
    by (auto simp: approve_def Let_def split: option.splits)
qed

lemma finish_close_writes:
  assumes "finish_close env reason w t = (t1, r)" "in_flight (ws_status w)"
  shows "writes t t1 (ws_id w) (op_writes env op w)"
proof -
  let ?w = "w\<lparr>ws_status := WfClosed, ws_closed_reason := reason, ws_closed_at := Some (we_now env), ws_updated_at := we_now env\<rparr>"
  have "op_writes env op w ?w" using assms(2) by (intro op_writes_subset) auto
  then have "writes t t2 (ws_id ?w) (op_writes env op w)" if "save_inactive_if_active ?w t = (t2, r2)" for t2 r2
    using save_inactive_writes that by blast
  then show ?thesis
    using assms(1) by (cases "save_inactive_if_active ?w t") (auto simp: finish_close_def Let_def split: sum.splits)
qed

lemma run_op_writes:
  assumes "run_op env op w t = (t1, r)"
  shows "writes t t1 (ws_id w) (op_writes env op w)"
proof (cases op)
  case (OpAdvance outcome accept)
  then show ?thesis using assms advance_writes by simp
next
  case OpApprove
  then show ?thesis using assms approve_writes by simp
next
  case OpWaive
  have "writes t t1 (ws_id w) (op_writes env OpWaive w)"
    if "saved (w\<lparr>ws_step_approved := Some i, ws_status := WfRunning, ws_updated_at := n\<rparr>) True t = (t1, r)"
      "ws_status w = WfAwaitingApproval" for i n
    using that(2) by (intro saved_writes [OF that(1)] op_writes_subset) (simp_all add: in_flight_def)
  then show ?thesis using assms OpWaive
    by (auto simp: waive_first_gate_def split: if_splits option.splits)
next
  case (OpClose reason)
  then show ?thesis using assms
    by (auto simp: close_workflow_def split: if_splits intro: finish_close_writes)
next
  case (OpCloseUnstarted reason)
  then show ?thesis using assms
    by (auto simp: close_unstarted_def split: if_splits intro: finish_close_writes)
next
  case (OpReclassify profile)
  then show ?thesis using assms
    by (auto simp: reclassify_def set_profile_def Let_def split: if_splits intro!: saved_writes op_writes_subset)
next
  case OpDispose
  let ?w = "w\<lparr>ws_findings := map dispose (ws_findings w), ws_updated_at := we_now env\<rparr>"
  have "op_writes env OpDispose w ?w" by (simp add: op_writes_def)
  then have "writes t t2 (ws_id ?w) (op_writes env OpDispose w)"
    if "save_state ?w (in_flight (ws_status ?w)) t = (t2, r2)" for t2 r2
    using save_state_writes that by blast
  then show ?thesis
    using assms OpDispose
    by (cases "save_state ?w (in_flight (ws_status ?w)) t")
      (simp add: apply_recommended_dispositions_def Let_def split: sum.splits)
qed

section \<open>Runs\<close>

definition run_verbs :: "(wf_env \<times> string \<times> wf_op) list \<Rightarrow> wf_store \<Rightarrow> wf_store" where
  "run_verbs vs t = foldl (\<lambda>t v. fst (run_verb (fst v) (snd v) t)) t vs"

definition filed :: "wf_store \<Rightarrow> bool" where
  "filed t \<longleftrightarrow> (\<forall>i w. state_of t i = Some w \<longrightarrow> ws_id w = i)"

lemma run_verb_cases:
  assumes "filed t"
  obtains "state_of (fst (run_verb env (i, op) t)) = state_of t"
  | w x where "load_state i t = Inr w" "ws_id w = i" "state_of t i = Some w" "op_writes env op w x"
      "state_of (fst (run_verb env (i, op) t)) = (state_of t)(i \<mapsto> x)"
proof (cases "load_state i t")
  case (Inl e)
  then show ?thesis using that(1) by (simp add: run_verb_def)
next
  case (Inr w)
  then have w: "state_of t i = Some w" by (rule load_state_held)
  then have i: "ws_id w = i" using assms by (simp add: filed_def)
  have "writes t (fst (run_verb env (i, op) t)) i (op_writes env op w)"
    using run_op_writes [of env op w t] Inr i by (cases "run_op env op w t") (simp add: run_verb_def)
  then show ?thesis using that Inr w i unfolding writes_def by blast
qed

lemma filed_step:
  assumes "filed t"
  shows "filed (fst (run_verb env v t))"
proof (cases v)
  case (Pair i op)
  show ?thesis
  proof (cases rule: run_verb_cases [OF assms, of env i op])
    case 1
    then show ?thesis using assms Pair by (simp add: filed_def)
  next
    case (2 w x)
    then have "ws_id x = i" by (simp add: op_writes_def)
    then show ?thesis using assms 2(5) Pair by (simp add: filed_def)
  qed
qed

lemma terminal_stays:
  assumes "filed t" "state_of t i = Some w" "\<not> in_flight (ws_status w)"
  shows "\<exists>x. state_of (run_verbs vs t) i = Some x \<and> ws_status x = ws_status w \<and> ws_completed x = ws_completed w"
proof -
  let ?P = "\<lambda>t. filed t \<and> (\<exists>x. state_of t i = Some x \<and> ws_status x = ws_status w \<and> ws_completed x = ws_completed w)"
  have "?P (run_verbs vs t)"
    unfolding run_verbs_def
  proof (rule foldl_inv)
    show "?P t" using assms by blast
  next
    fix t1 and v :: "wf_env \<times> string \<times> wf_op" assume P: "?P t1"
    then obtain x where x: "state_of t1 i = Some x" "ws_status x = ws_status w" "ws_completed x = ws_completed w" by blast
    obtain j op where v: "snd v = (j, op)" by (cases "snd v")
    have "\<exists>x. state_of (fst (run_verb (fst v) (snd v) t1)) i = Some x \<and> ws_status x = ws_status w \<and> ws_completed x = ws_completed w"
    proof (cases rule: run_verb_cases [OF conjunct1 [OF P], of "fst v" j op])
      case 1
      then show ?thesis using x v by simp
    next
      case (2 y z)
      then show ?thesis using x v assms(3) by (cases "j = i") (auto simp: op_writes_def)
    qed
    then show "?P (fst (run_verb (fst v) (snd v) t1))" using filed_step P by blast
  qed
  then show ?thesis by blast
qed

end
