(* ===== verification/Workflow_Retries.thy ===== *)
theory Workflow_Retries
  imports Workflow_Runs
begin

text \<open>
  Settled states, which refreshing leaves alone, and runs of failing advances from them: the attempts of
  the current step count up and nothing else but the clock changes, until the workflow fails.
\<close>

section \<open>Refreshing a steady state\<close>

lemma with_records_all:
  "(\<forall>s\<in>set ss. \<forall>stage. st_artifact s = Some stage \<longrightarrow> m stage \<noteq> None) \<Longrightarrow> with_records i ss m = m"
  by (induction ss) (auto split: option.splits)

lemma with_records_keeps: "m stage \<noteq> None \<Longrightarrow> with_records i ss m stage \<noteq> None"
  by (induction ss arbitrary: m) (auto split: option.splits)

lemma with_records_has:
  "s \<in> set ss \<Longrightarrow> st_artifact s = Some stage \<Longrightarrow> with_records i ss m stage \<noteq> None"
proof (induction ss arbitrary: m)
  case (Cons r ss)
  then show ?case by (cases "s = r") (auto split: option.splits intro: with_records_keeps [simplified])
qed simp

lemma sync_fix:
  "(\<forall>s\<in>set (ws_steps w). \<forall>stage. st_artifact s = Some stage \<longrightarrow> ws_artifacts w stage \<noteq> None) \<Longrightarrow>
     sync_artifact_records w = w"
  by (simp add: sync_artifact_records_def with_records_all)

lemma position_Nil [simp]: "position P [] = None"
  by (simp add: position_def)

lemma position_Cons [simp]: "position P (x # xs) = (if P x then Some 0 else map_option Suc (position P xs))"
  by (simp add: position_def Let_def)

lemma position_None [simp]: "position P xs = None \<longleftrightarrow> (\<forall>x\<in>set xs. \<not> P x)"
  by (induction xs) auto

lemma position_Some:
  assumes "position P xs = Some k"
  shows "k < length xs" "P (xs ! k)" "\<forall>x\<in>set (take k xs). \<not> P x"
  using assms nth_length_takeWhile [of "\<lambda>x. \<not> P x" xs]
  by (auto simp: position_def Let_def takeWhile_eq_take [symmetric] dest: set_takeWhileD split: if_splits)

text \<open>
  A state is steady for an environment when its steps are the materialised ones, its position is the
  first open step and its status is the one that step asks for. Refreshing makes a state steady and
  then changes nothing.
\<close>

definition steady :: "wf_env \<Rightarrow> wf_state \<Rightarrow> bool" where
  "steady env w \<longleftrightarrow>
     ws_steps w = desired_steps env w (ws_deploy_tier w) \<and> we_effective_tier env \<le> ws_deploy_tier w \<and>
     (\<forall>s\<in>set (ws_steps w). \<forall>stage. st_artifact s = Some stage \<longrightarrow> ws_artifacts w stage \<noteq> None) \<and>
     ws_current w = first_open (ws_steps w) (ws_completed w) \<and> ws_status w = status_now w"

lemma status_now_status [simp]: "status_now (w\<lparr>ws_status := x\<rparr>) = status_now w"
  by (simp add: status_now_def current_step_def step_requires_approval_def)

lemma tier_fields [simp]:
  "ws_definition (apply_effective_deploy_tier env e w) = ws_definition w"
  "ws_kind (apply_effective_deploy_tier env e w) = ws_kind w"
  "ws_classification (apply_effective_deploy_tier env e w) = ws_classification w"
  "ws_profile (apply_effective_deploy_tier env e w) = ws_profile w"
  "ws_brainstorm (apply_effective_deploy_tier env e w) = ws_brainstorm w"
  "ws_attempts (apply_effective_deploy_tier env e w) = ws_attempts w"
  "ws_findings (apply_effective_deploy_tier env e w) = ws_findings w"
  "ws_deploy_tier (apply_effective_deploy_tier env e w) = max (ws_deploy_tier w) e"
  "ws_steps (apply_effective_deploy_tier env e w) = desired_steps env w (max (ws_deploy_tier w) e)"
  by (simp_all add: apply_effective_deploy_tier_def Let_def split: option.split)

lemma tier_status: "ws_status (apply_effective_deploy_tier env e w) = status_now (apply_effective_deploy_tier env e w)"
  by (simp add: apply_effective_deploy_tier_def Let_def)

lemma tier_current:
  "ws_current (apply_effective_deploy_tier env e w) =
     first_open (desired_steps env w (max (ws_deploy_tier w) e)) (ws_completed (apply_effective_deploy_tier env e w))"
  by (simp add: apply_effective_deploy_tier_def Let_def)

lemma tier_artifacts:
  "ws_artifacts (apply_effective_deploy_tier env e w) =
     with_records (ws_id w) (desired_steps env w (max (ws_deploy_tier w) e)) (ws_artifacts w)"
  by (simp add: apply_effective_deploy_tier_def Let_def sync_artifact_records_def split: option.split)

lemma resolve_cong:
  "ws_definition w = ws_definition x \<Longrightarrow> ws_kind w = ws_kind x \<Longrightarrow> we_builtin e = we_builtin env \<Longrightarrow>
     resolve_definition_for_state e w = resolve_definition_for_state env x"
  by (simp add: resolve_definition_for_state_def Let_def split: option.split)

lemma desired_cong:
  "ws_definition w = ws_definition x \<Longrightarrow> ws_kind w = ws_kind x \<Longrightarrow> we_builtin e = we_builtin env \<Longrightarrow>
     ws_classification w = ws_classification x \<Longrightarrow> ws_profile w = ws_profile x \<Longrightarrow>
     ws_brainstorm w = ws_brainstorm x \<Longrightarrow> desired_steps e w tier = desired_steps env x tier"
  by (simp add: desired_steps_def resolve_cong [of w x e env])

lemma steady_refresh: "steady env (refresh_deploy_tier env w)"
proof -
  let ?x = "apply_effective_deploy_tier env (we_effective_tier env) w"
  have d: "desired_steps env ?x tier = desired_steps env w tier" for tier
    by (rule desired_cong) simp_all
  have r: "ws_artifacts ?x stage \<noteq> None" if "s \<in> set (ws_steps ?x)" "st_artifact s = Some stage" for s stage
    unfolding tier_artifacts using that by (intro with_records_has) simp_all
  show ?thesis
    unfolding steady_def refresh_deploy_tier_def
    using tier_status [of env "we_effective_tier env" w] tier_current [of env "we_effective_tier env" w] r
    by (simp add: d del: not_None_eq)
qed

lemma refresh_steady:
  assumes "steady env w"
  shows "refresh_deploy_tier env w = w"
proof -
  have m: "max (ws_deploy_tier w) (we_effective_tier env) = ws_deploy_tier w"
    using assms by (auto simp: steady_def max_def)
  have p: "position (\<lambda>s. st_id s \<notin> st_id ` set (ws_steps w)) (ws_steps w) = None" by simp
  have s: "desired_steps env w (ws_deploy_tier w) = ws_steps w" using assms by (simp add: steady_def)
  have y: "sync_artifact_records w = w" using assms by (intro sync_fix) (simp add: steady_def)
  have c: "first_open (ws_steps w) (ws_completed w) = ws_current w" "status_now w = ws_status w"
    using assms by (simp_all add: steady_def)
  show ?thesis
    unfolding refresh_deploy_tier_def apply_effective_deploy_tier_def Let_def m s p by (simp add: y c)
qed

section \<open>Bounded failures\<close>

definition at_time :: "wf_env \<Rightarrow> u64 \<Rightarrow> wf_env" where
  "at_time env c = env\<lparr>we_now := c\<rparr>"

definition with_attempts :: "string \<Rightarrow> nat \<Rightarrow> u64 \<Rightarrow> wf_state \<Rightarrow> wf_state" where
  "with_attempts i n c w =
     w\<lparr>ws_attempts := (ws_attempts w)(i := n), ws_updated_at := c, ws_phase_started_at := c\<rparr>"

lemma with_attempts_fields [simp]:
  "ws_id (with_attempts i n c w) = ws_id w" "ws_status (with_attempts i n c w) = ws_status w"
  "ws_attempts (with_attempts i n c w) i = n" "current_step (with_attempts i n c w) = current_step w"
  "with_attempts i m d (with_attempts i n c w) = with_attempts i m d w"
  by (simp_all add: with_attempts_def current_step_def)

lemma at_time_fields [simp]:
  "we_now (at_time env c) = c" "we_builtin (at_time env c) = we_builtin env"
  "we_effective_tier (at_time env c) = we_effective_tier env" "we_file (at_time env c) = we_file env"
  "we_hash (at_time env c) = we_hash env"
  by (simp_all add: at_time_def)

lemma drift_cong:
  "ws_artifacts w = ws_artifacts x \<Longrightarrow> ws_id w = ws_id x \<Longrightarrow> we_file e = we_file env \<Longrightarrow> we_hash e = we_hash env \<Longrightarrow>
     artifact_drift e w = artifact_drift env x"
proof -
  assume eq: "ws_artifacts w = ws_artifacts x" "ws_id w = ws_id x" "we_file e = we_file env" "we_hash e = we_hash env"
  have p: "workflow_artifact_path e w stage = workflow_artifact_path env x stage" for stage
    using eq by (simp add: workflow_artifact_path_def split: option.split artifact_file.split)
  have "drift_among e w ss = drift_among env x ss" for ss
    by (induction ss) (auto simp: eq p split: option.split sum.split artifact_file.split)
  then show ?thesis unfolding artifact_drift_def .
qed

lemma steady_time: "steady env w \<Longrightarrow> steady (at_time env d) w"
  using desired_cong [of w w "at_time env d" env] by (simp add: steady_def)

lemma steady_attempts: "steady env w \<Longrightarrow> steady (at_time env d) (with_attempts i n c w)"
  using desired_cong [of "with_attempts i n c w" w "at_time env d" env]
  by (simp add: steady_def with_attempts_def status_now_def current_step_def step_requires_approval_def)

lemma drift_attempts: "artifact_drift (at_time env d) (with_attempts i n c w) = artifact_drift env w"
  by (rule drift_cong) (simp_all add: with_attempts_def)

lemma drift_time: "artifact_drift (at_time env d) w = artifact_drift env w"
  by (rule drift_cong) simp_all

lemma save_state_ok:
  assumes "write_failures (wt_files t) = []" "valid_state_id (ws_id w)"
  shows "\<exists>t1. save_state w active t = (t1, Inr ()) \<and> state_of t1 = (state_of t)(ws_id w \<mapsto> w) \<and>
           write_failures (wt_files t1) = [] \<and> wt_active t1 = (if active then Some (ws_id w) else None)"
proof -
  have s: "saving (WfIo NoWrite) (ws_id w) w () (wt_files t) = (put_entry (ws_id w) (Some (Holds w)) (wt_files t), Inr ())"
    using assms(1) by (simp add: saving_def write_private_def Let_def take_failure_def put_entry_def)
  show ?thesis
    using assms s
    by (auto simp: save_state_def write_state_file_def set_active_def Let_def take_failure_def held_def
        put_entry_def fun_eq_iff)
qed

lemma saved_ok:
  assumes "write_failures (wt_files t) = []" "valid_state_id (ws_id w)"
  shows "\<exists>t1. saved w active t = (t1, Inr w) \<and> state_of t1 = (state_of t)(ws_id w \<mapsto> w) \<and>
           write_failures (wt_files t1) = [] \<and> wt_active t1 = (if active then Some (ws_id w) else None)"
  using save_state_ok [OF assms, of active] by (auto simp: saved_def)

lemma refusing_ok:
  assumes "write_failures (wt_files t) = []" "valid_state_id (ws_id w)"
  shows "\<exists>t1. refusing e w t = (t1, Inl e) \<and> state_of t1 = (state_of t)(ws_id w \<mapsto> w) \<and>
           write_failures (wt_files t1) = [] \<and> wt_active t1 = Some (ws_id w)"
  using save_state_ok [OF assms, of True] by (auto simp: refusing_def)

lemma load_held: "valid_state_id i \<Longrightarrow> state_of t i = Some w \<Longrightarrow> load_state i t = Inr w"
  by (auto simp: load_state_def held_def split: option.splits stored.splits)

lemma load_valid: "load_state i t = Inr w \<Longrightarrow> valid_state_id i"
  by (auto simp: load_state_def split: if_splits)

text \<open>One failing advance of a steady state at a running step.\<close>

lemma one_failure:
  assumes w: "refresh_deploy_tier (at_time env c) w0 = w" "in_flight (ws_status w0)"
      "artifact_drift (at_time env c) w = Inr None" "ws_status w = WfRunning"
      "current_step w = Some s" "ws_id w = i"
    and t: "write_failures (wt_files t) = []" "valid_state_id i" "state_of t i = Some w0"
    and n: "ws_attempts w (st_id s) < 255"
  shows "\<exists>t1 x. run_verb (at_time env c) (i, OpAdvance StepFailure a) t = (t1, Inr x) \<and> state_of t1 i = Some x \<and>
           write_failures (wt_files t1) = [] \<and>
           x = (with_attempts (st_id s) (ws_attempts w (st_id s) + 1) c w)\<lparr>ws_status :=
                  if st_max_attempts s \<le> ws_attempts w (st_id s) + 1 then WfFailed else WfRunning\<rparr>"
proof -
  let ?x = "stamped (at_time env c) (failed_step s w)"
  have x: "?x = (with_attempts (st_id s) (ws_attempts w (st_id s) + 1) c w)\<lparr>ws_status :=
                  if st_max_attempts s \<le> ws_attempts w (st_id s) + 1 then WfFailed else WfRunning\<rparr>"
  proof -
    have m: "min 255 (ws_attempts w (st_id s) + 1) = ws_attempts w (st_id s) + 1" using n by simp
    show ?thesis
      unfolding stamped_def failed_step_def Let_def with_attempts_def m by (rule wf_state.equality) (simp_all add: w(4))
  qed
  have "run_verb (at_time env c) (i, OpAdvance StepFailure a) t = saved ?x (in_flight (ws_status ?x)) t"
    using w t by (simp add: run_verb_def load_held advance_with_evidence_def Let_def outcome_step_def)
  moreover have "ws_id ?x = i" using w(6) by simp
  ultimately show ?thesis using saved_ok [of t ?x "in_flight (ws_status ?x)"] t x by auto
qed

lemma run_verbs_Cons: "run_verbs (v # vs) t = run_verbs vs (fst (run_verb (fst v) (snd v) t))"
  by (simp add: run_verbs_def)

text \<open>Failing on from a steady state.\<close>

lemma refresh_time: "refresh_deploy_tier (at_time env c) w = refresh_deploy_tier env w"
proof -
  have "desired_steps (at_time env c) w tier = desired_steps env w tier" for tier by (rule desired_cong) simp_all
  then show ?thesis by (simp add: refresh_deploy_tier_def apply_effective_deploy_tier_def)
qed

lemma failing_on:
  assumes "refresh_deploy_tier env w0 = w" "in_flight (ws_status w0)"
    "artifact_drift env w = Inr None" "ws_status w = WfRunning" "current_step w = Some s"
    "ws_id w = i" "write_failures (wt_files t) = []" "valid_state_id i" "state_of t i = Some w0" "filed t"
    "ws_attempts w (st_id s) < st_max_attempts s" "st_max_attempts s \<le> 255" "clocks \<noteq> []"
  shows "\<exists>x. state_of (run_verbs (map (\<lambda>c. (at_time env c, i, OpAdvance StepFailure a)) clocks) t) i = Some x \<and>
           ws_completed x = ws_completed w \<and>
           ws_status x = (if st_max_attempts s - ws_attempts w (st_id s) \<le> length clocks then WfFailed else WfRunning)"
  using assms
proof (induction clocks arbitrary: w0 w t)
  case Nil
  from Nil.prems(13) show ?case by blast
next
  case (Cons c clocks)
  have n: "ws_attempts w (st_id s) < 255" using Cons.prems(11,12) by simp
  let ?n = "ws_attempts w (st_id s) + 1"
  let ?failed = "st_max_attempts s \<le> ?n"
  let ?rest = "map (\<lambda>c. (at_time env c, i, OpAdvance StepFailure a)) clocks"
  have r: "refresh_deploy_tier (at_time env c) w0 = w" using Cons.prems(1) by (simp add: refresh_time)
  have d: "artifact_drift (at_time env c) w = Inr None" using Cons.prems(3) by (simp add: drift_time)
  obtain t1 x where run: "run_verb (at_time env c) (i, OpAdvance StepFailure a) t = (t1, Inr x)"
    and x: "state_of t1 i = Some x" "write_failures (wt_files t1) = []"
      "x = (with_attempts (st_id s) ?n c w)\<lparr>ws_status := if ?failed then WfFailed else WfRunning\<rparr>"
    using one_failure [OF r Cons.prems(2) d Cons.prems(4-9) n] by metis
  have f1: "filed t1" using filed_step [OF Cons.prems(10), of "at_time env c" "(i, OpAdvance StepFailure a)"] run by simp
  have next': "run_verbs (map (\<lambda>c. (at_time env c, i, OpAdvance StepFailure a)) (c # clocks)) t = run_verbs ?rest t1"
    by (simp add: run_verbs_Cons run)
  have comp: "ws_completed x = ws_completed w" using x(3) by (simp add: with_attempts_def)
  show ?case
  proof (cases ?failed)
    case True
    then have "ws_status x = WfFailed" using x(3) by simp
    then obtain y where "state_of (run_verbs ?rest t1) i = Some y" "ws_status y = WfFailed" "ws_completed y = ws_completed x"
      using terminal_stays [OF f1 x(1), of ?rest] by (auto simp: in_flight_def)
    then show ?thesis using next' comp True by auto
  next
    case False
    have xw: "x = with_attempts (st_id s) ?n c w"
      using x(3) False Cons.prems(4) by (simp add: with_attempts_def)
    show ?thesis
    proof (cases "clocks = []")
      case True
      then show ?thesis using next' comp xw False x(1) Cons.prems(4) by (auto simp: run_verbs_def)
    next
      case more: False
      have "steady env x"
        using steady_attempts [OF steady_refresh [of env w0], of "we_now env"] Cons.prems(1) xw by (simp add: at_time_def)
      then have rx: "refresh_deploy_tier env x = x" by (rule refresh_steady)
      have dx: "artifact_drift env x = Inr None"
        using drift_attempts [of env "we_now env"] xw Cons.prems(3) by (simp add: at_time_def)
      have "\<exists>y. state_of (run_verbs ?rest t1) i = Some y \<and> ws_completed y = ws_completed x \<and>
          ws_status y = (if st_max_attempts s - ws_attempts x (st_id s) \<le> length clocks then WfFailed else WfRunning)"
        using Cons.prems(4-6,8,12) xw x(1,2) f1 False rx dx more
        by (intro Cons.IH) (simp_all add: in_flight_def)
      then show ?thesis using next' comp xw False by (auto simp: less_eq_Suc_le)
    qed
  qed
qed

end
