(* ===== verification/Workflow_Claims.thy ===== *)
theory Workflow_Claims
  imports Workflow_Retries
begin

text \<open>
  The properties of stored workflows over runs of verbs: terminal states are final, completed steps were
  earned, failures are bounded and changed artifacts reopen their gates; then runs of a sample workflow
  and what they show of the rewinds and of the active pointer.
\<close>

section \<open>A sample workflow\<close>

definition sample_env :: "risk_band \<Rightarrow> wf_env" where
  "sample_env rk =
     \<lparr>we_now = 100, we_builtin = (\<lambda>_. None), we_effective_tier = TierDevelopment,
      we_file = (\<lambda>_. Content ''written''), we_hash = (\<lambda>b. b), we_measured = Some (sample_class rk), we_advice = None,
      we_supervisor = (\<lambda>_ _. None), we_detector_fresh = (\<lambda>_. Inr True), we_detector_report = (\<lambda>_. Inl ''off''),
      we_visual_fresh = Inr True, we_render = Inl ''off'', we_visual_passes = Inl ''off'', we_fingerprint = Inr 7,
      we_verified = (\<lambda>_. Inr True)\<rparr>"

definition sample_start :: "risk_band \<Rightarrow> wf_state" where
  "sample_start rk = start_with_definition (sample_env rk) ''w1'' KindFeature sample_pack False (sample_class rk)"

definition store_with :: "wf_state \<Rightarrow> wf_store" where
  "store_with w = \<lparr>wt_files = \<lparr>files = (\<lambda>_. None)(ws_id w \<mapsto> Holds w), lock_failures = [], write_failures = []\<rparr>,
                   wt_active = Some (ws_id w)\<rparr>"

definition sample_steps :: "risk_band \<Rightarrow> wf_step list" where
  "sample_steps rk = materialize_from_definition sample_pack (sample_class rk) ProfileStandard TierDevelopment True"

definition step_b :: wf_step where
  "step_b = \<lparr>st_id = ''b'', st_phase = PhImplement, st_skill = ''do'', st_agent = None, st_artifact = None,
     st_condition = Always, st_approval = True, st_max_attempts = 3, st_parallel_group = None, st_effect = EfNone\<rparr>"

definition step_v :: wf_step where
  "step_v = \<lparr>st_id = ''v'', st_phase = PhVerify, st_skill = ''do'', st_agent = None, st_artifact = None,
     st_condition = Always, st_approval = False, st_max_attempts = 3, st_parallel_group = None, st_effect = EfNone\<rparr>"

lemma low_steps: "sample_steps RkLow = [step_b, step_v]"
  by code_simp

lemma sample_now [simp]: "we_now (sample_env rk) = 100"
  by (simp add: sample_env_def)

lemma sample_start_fields [simp]:
  "ws_id (sample_start rk) = ''w1''" "ws_completed (sample_start rk) = []" "ws_current (sample_start rk) = 0"
  "ws_steps (sample_start rk) = sample_steps rk" "ws_deploy_tier (sample_start rk) = TierDevelopment"
  "ws_step_approved (sample_start rk) = None" "ws_classification (sample_start rk) = sample_class rk"
  "ws_profile (sample_start rk) = ProfileStandard" "ws_brainstorm (sample_start rk)"
  "ws_attempts (sample_start rk) j = 0" "ws_findings (sample_start rk) = []"
  "ws_artifacts (sample_start rk) = with_records ''w1'' (sample_steps rk) (\<lambda>_. None)"
  "resolve_definition_for_state env (sample_start rk) = sample_pack"
  by (simp_all add: sample_start_def start_with_definition_def Let_def sample_steps_def for_classification_def
      sample_class_def default_brainstorm_for_kind_def resolve_definition_for_state_def)

lemma store_with_simps [simp]:
  "state_of (store_with w) = (\<lambda>_. None)(ws_id w \<mapsto> w)" "write_failures (wt_files (store_with w)) = []"
  "wt_active (store_with w) = Some (ws_id w)" "filed (store_with w)"
  by (auto simp: store_with_def held_def filed_def fun_eq_iff)

lemma low_status: "ws_status (sample_start RkLow) = WfAwaitingApproval"
  by code_simp

lemma valid_w1 [simp]: "valid_state_id ''w1''"
  by code_simp

lemma load_store_with [simp]: "ws_id w = ''w1'' \<Longrightarrow> load_state ''w1'' (store_with w) = Inr w"
  by (rule load_held) simp_all

text \<open>The workflow with its first step approved, and with its plan of the higher risk accepted.\<close>

definition low_running :: wf_state where
  "low_running = (sample_start RkLow)\<lparr>ws_step_approved := Some ''b'', ws_status := WfRunning\<rparr>"

lemma low_steady: "steady (sample_env RkLow) low_running"
  by (simp add: steady_def low_running_def desired_steps_def resolve_cong [of _ "sample_start RkLow" _ "sample_env RkLow"]
      low_steps status_now_def current_step_def step_requires_approval_def first_open_def
      sample_env_def step_b_def step_v_def gated_def flip: sample_steps_def)

definition low_env :: wf_env where "low_env = sample_env RkLow"

text \<open>With a plan accepted that no longer is what the file says.\<close>

definition step_p :: wf_step where
  "step_p = \<lparr>st_id = ''p'', st_phase = PhPlan, st_skill = ''do'', st_agent = None, st_artifact = Some ArtPlan,
     st_condition = RiskAtLeast RkMedium, st_approval = True, st_max_attempts = 3, st_parallel_group = None,
     st_effect = EfNone\<rparr>"

definition step_r :: wf_step where
  "step_r = \<lparr>st_id = ''r'', st_phase = PhReview, st_skill = ''do'', st_agent = None, st_artifact = None,
     st_condition = RiskAtLeast RkHigh, st_approval = False, st_max_attempts = 3, st_parallel_group = None,
     st_effect = EfNone\<rparr>"

lemma high_steps: "sample_steps RkHigh = [step_p, step_b, step_r, step_v]"
  by code_simp

definition plan_changed :: wf_state where
  "plan_changed = (sample_start RkHigh)\<lparr>ws_completed := [''p''], ws_status := WfRunning,
     ws_artifacts := (\<lambda>_. None)(ArtPlan \<mapsto> (new_record ''w1'' ArtPlan)\<lparr>ar_accepted_hash := Some ''old''\<rparr>)\<rparr>"

section \<open>Terminal states\<close>

text \<open>C20: A terminal workflow stays terminal: whatever verbs run, on this workflow or on others, in any
  order and with any answers of the machine, a stored workflow that is Completed, Failed or Closed keeps
  that status and its completed steps. In particular the recomputation of the status after a raised
  deploy tier never revives it.\<close>

theorem terminal_workflows_stay_terminal:
  assumes "filed t" "state_of t i = Some w" "\<not> in_flight (ws_status w)"
  shows "\<exists>x. state_of (run_verbs vs t) i = Some x \<and> ws_status x = ws_status w \<and> ws_completed x = ws_completed w"
  using terminal_stays [OF assms] .

theorem terminal_workflows_stay_terminal_witness:
  "\<exists>x. state_of (run_verbs [(low_env, ''w1'', OpAdvance StepSuccess True), (low_env, ''w1'', OpDispose)]
          (store_with (low_running\<lparr>ws_status := WfClosed\<rparr>))) ''w1'' = Some x \<and>
       ws_status x = WfClosed \<and> ws_completed x = []"
  using terminal_workflows_stay_terminal [of "store_with (low_running\<lparr>ws_status := WfClosed\<rparr>)" "''w1''"
      "low_running\<lparr>ws_status := WfClosed\<rparr>" "[(low_env, ''w1'', OpAdvance StepSuccess True), (low_env, ''w1'', OpDispose)]"]
  by (simp add: low_running_def in_flight_def)

section \<open>Completed steps\<close>

text \<open>C5: Every completed step was earned. In a run that starts with no step of the workflow completed,
  each step that is completed at the end was the current step of some verb on this workflow, and that
  verb was either an advance by success with nothing drifted, no approval or supervisor ruling
  outstanding and the evidence of the step's phase, or an approval of an artifact whose file differs
  from the untouched template.\<close>

theorem completed_steps_were_earned:
  assumes "filed t" "state_of t i = Some w" "ws_completed w = []"
    "state_of (run_verbs vs t) i = Some x" "s \<in> set (ws_completed x)"
  shows "\<exists>k<length vs. \<exists>y. load_state i (run_verbs (take k vs) t) = Inr y \<and> fst (snd (vs ! k)) = i \<and>
           earned (fst (vs ! k)) (snd (snd (vs ! k))) y s"
  using assms(4,5)
proof (induction vs arbitrary: x rule: rev_induct)
  case Nil
  then show ?case using assms(2,3) by (simp add: run_verbs_def)
next
  case (snoc v vs)
  let ?t = "run_verbs vs t"
  have filed: "filed ?t"
    unfolding run_verbs_def by (rule foldl_inv [where P = filed]) (auto intro: assms(1) filed_step)
  obtain env j op where v: "v = (env, j, op)" by (cases v)
  have last: "run_verbs (vs @ [v]) t = fst (run_verb env (j, op) ?t)" by (simp add: run_verbs_def v)
  have old: ?case if y: "state_of ?t i = Some y" "s \<in> set (ws_completed y)" for y
  proof -
    obtain k z where "k < length vs" "load_state i (run_verbs (take k vs) t) = Inr z" "fst (snd (vs ! k)) = i"
        "earned (fst (vs ! k)) (snd (snd (vs ! k))) z s"
      using snoc.IH [OF y] by blast
    then have "k < length (vs @ [v])" "load_state i (run_verbs (take k (vs @ [v])) t) = Inr z"
        "fst (snd ((vs @ [v]) ! k)) = i" "earned (fst ((vs @ [v]) ! k)) (snd (snd ((vs @ [v]) ! k))) z s"
      by (simp_all add: nth_append)
    then show ?thesis by blast
  qed
  show ?case
  proof (cases rule: run_verb_cases [OF filed, of env j op])
    case 1
    then show ?thesis using old snoc.prems last by simp
  next
    case (2 y z)
    show ?thesis
    proof (cases "j = i")
      case False
      then show ?thesis using old snoc.prems last 2(5) by simp
    next
      case True
      then have "x = z" using snoc.prems(1) last 2(5) by simp
      then have "s \<in> set (ws_completed y) \<or> earned env op y s"
        using snoc.prems(2) 2(4) by (simp add: op_writes_def)
      then show ?thesis
      proof
        assume "s \<in> set (ws_completed y)"
        then show ?thesis using old 2(3) True by simp
      next
        assume "earned env op y s"
        then have "load_state i (run_verbs (take (length vs) (vs @ [v])) t) = Inr y"
            "fst (snd ((vs @ [v]) ! length vs)) = i"
            "earned (fst ((vs @ [v]) ! length vs)) (snd (snd ((vs @ [v]) ! length vs))) y s"
          using 2(1) True v by simp_all
        then show ?thesis by (metis length_append_singleton lessI)
      qed
    qed
  qed
qed


lemma low_running_fields [simp]:
  "ws_id low_running = ''w1''" "ws_status low_running = WfRunning" "ws_completed low_running = []"
  "current_step low_running = Some step_b" "ws_attempts low_running j = 0"
  by (simp_all add: low_running_def current_step_def low_steps)

lemma low_drift: "artifact_drift low_env low_running = Inr None"
  by (simp add: artifact_drift_def low_running_def low_steps step_b_def step_v_def)

lemma low_refresh: "refresh_deploy_tier low_env low_running = low_running"
  unfolding low_env_def by (rule refresh_steady [OF low_steady])

lemma low_passes: "outcome_step low_env StepSuccess False step_b low_running t = (t, Inr (passed_step low_env step_b low_running))"
  by (simp add: outcome_step_def supervisor_gate_def detector_gate_def detector_needed_def gates_def visual_gate_def
      late_phase_def deploy_gate_def review_gate_def evidence_gate_def step_b_def low_env_def sample_env_def)

lemma low_passed: "ws_completed (passed_step low_env step_b low_running) = [''b'']"
  by (simp add: passed_step_def Let_def moved_on_def reclassify_at_gate_def record_step_duration_ms_def low_running_def
      current_step_def low_steps step_v_def step_b_def low_env_def sample_env_def select_frontend_def
      apply_jev_gate_advice_def sample_class_def)

lemma low_advances:
  "\<exists>x. state_of (run_verbs [(low_env, ''w1'', OpAdvance StepSuccess False)] (store_with low_running)) ''w1'' = Some x \<and>
       ws_completed x = [''b'']"
proof -
  let ?p = "passed_step low_env step_b low_running"
  have "run_verb low_env (''w1'', OpAdvance StepSuccess False) (store_with low_running) =
      saved (stamped low_env ?p) (in_flight (ws_status ?p)) (store_with low_running)"
    by (simp add: run_verb_def advance_with_evidence_def low_refresh Let_def low_drift in_flight_def low_passes)
  then show ?thesis
    using saved_ok [of "store_with low_running" "stamped low_env ?p" "in_flight (ws_status ?p)"] low_passed
    by (auto simp: run_verbs_def)
qed

theorem completed_steps_were_earned_witness:
  "earned low_env (OpAdvance StepSuccess False) low_running ''b'' \<and>
   ''b'' \<in> set (ws_completed (the (state_of
      (run_verbs [(low_env, ''w1'', OpAdvance StepSuccess False)] (store_with low_running)) ''w1'')))"
proof -
  obtain x where x: "state_of (run_verbs [(low_env, ''w1'', OpAdvance StepSuccess False)] (store_with low_running)) ''w1'' = Some x"
    "ws_completed x = [''b'']" using low_advances by blast
  have "\<exists>k<length [(low_env, ''w1'', OpAdvance StepSuccess False)]. \<exists>y.
      load_state ''w1'' (run_verbs (take k [(low_env, ''w1'', OpAdvance StepSuccess False)]) (store_with low_running)) = Inr y \<and>
      fst (snd ([(low_env, ''w1'', OpAdvance StepSuccess False)] ! k)) = ''w1'' \<and>
      earned (fst ([(low_env, ''w1'', OpAdvance StepSuccess False)] ! k))
        (snd (snd ([(low_env, ''w1'', OpAdvance StepSuccess False)] ! k))) y ''b''"
    by (rule completed_steps_were_earned [OF _ _ _ x(1), of low_running]) (simp_all add: x(2))
  then have "earned low_env (OpAdvance StepSuccess False) low_running ''b''" by (simp add: run_verbs_def)
  then show ?thesis using x by simp
qed

section \<open>Bounded failures\<close>




section \<open>Changed artifacts\<close>



lemma plan_changed_refreshed:
  "ws_steps (refresh_deploy_tier low_env plan_changed) = sample_steps RkHigh"
  "ws_artifacts (refresh_deploy_tier low_env plan_changed) = ws_artifacts plan_changed"
proof -
  have d: "desired_steps low_env plan_changed TierDevelopment = sample_steps RkHigh"
    by (simp add: desired_steps_def plan_changed_def resolve_cong [of _ "sample_start RkHigh" _ low_env] flip: sample_steps_def)
  show "ws_steps (refresh_deploy_tier low_env plan_changed) = sample_steps RkHigh"
    using d by (simp add: refresh_deploy_tier_def low_env_def sample_env_def plan_changed_def)
  show "ws_artifacts (refresh_deploy_tier low_env plan_changed) = ws_artifacts plan_changed"
    using d by (simp add: refresh_deploy_tier_def tier_artifacts low_env_def sample_env_def plan_changed_def high_steps
        step_p_def step_b_def step_r_def step_v_def)
qed


section \<open>Rewinds, empty packs and the active pointer\<close>

text \<open>
  A raised deploy tier and a reopened artifact clear a gate-only approval of a step they un-complete. A
  raised risk does not: here the step \<open>b\<close> is passed with its approval, the change then measures High,
  the workflow goes back to the new plan step with nothing completed, and \<open>b\<close> still counts as approved.
\<close>

lemma raised_tier_clears_stale_approvals:
  assumes "ws_deploy_tier w < e"
    "position (\<lambda>s. st_id s \<notin> st_id ` set (ws_steps w)) (desired_steps env w e) = Some k"
  shows "\<forall>i. ws_step_approved (apply_effective_deploy_tier env e w) = Some i \<longrightarrow> i \<in> st_id ` set (take k (desired_steps env w e))"
    "set (ws_completed (apply_effective_deploy_tier env e w)) \<subseteq> st_id ` set (take k (desired_steps env w e))"
  using assms
  by (auto simp: apply_effective_deploy_tier_def Let_def max_def keep_approval_def less_imp_le not_less
      split: option.splits if_splits)

lemma raised_risk_keeps_a_stale_approval:
  defines "w \<equiv> passed_step (sample_env RkHigh) step_b low_running"
  shows "ws_completed w = []" "current_step w = Some step_p" "gated step_b" "\<not> step_requires_approval w step_b"
proof -
  let ?w1 = "(record_step_duration_ms (sample_env RkHigh) ''b'' low_running)\<lparr>ws_completed := [''b''], ws_current := 1\<rparr>"
  have risk: "cf_risk (sample_class rk) = rk" for rk by (simp add: sample_class_def)
  let ?w2 = "?w1\<lparr>ws_classification := sample_class RkHigh\<rparr>"
  have d: "desired_steps (sample_env RkHigh) ?w2 TierDevelopment = sample_steps RkHigh"
    by (simp add: desired_steps_def low_running_def record_step_duration_ms_def
        resolve_cong [of _ "sample_start RkLow" _ low_env] low_env_def sample_env_def flip: sample_steps_def)
  have g: "reclassify_at_gate (sample_env RkHigh) ?w1 = rematerialize_after_risk_increase (sample_env RkHigh) ?w2"
  proof -
    have c: "current_step ?w1 = Some step_v" "ws_classification ?w1 = sample_class RkLow"
      by (simp_all add: current_step_def low_running_def record_step_duration_ms_def low_steps)
    have e: "we_measured (sample_env RkHigh) = Some (sample_class RkHigh)" "we_advice (sample_env RkHigh) = None"
      by (simp_all add: sample_env_def)
    have f: "select_frontend (sample_env RkHigh) (sample_class RkHigh) ?w1 = ?w1"
      by (simp add: select_frontend_def sample_class_def)
    have cl: "(sample_class RkLow)\<lparr>cf_risk := RkHigh, cf_risk_score := max (cf_risk_score (sample_class RkLow)) (cf_risk_score (sample_class RkHigh)),
        cf_changed_files := cf_changed_files (sample_class RkHigh), cf_changed_lines := cf_changed_lines (sample_class RkHigh)\<rparr> = sample_class RkHigh"
      by (simp add: sample_class_def)
    have v: "st_phase step_v = PhVerify" by (simp add: step_v_def)
    have le: "\<not> RkHigh \<le> RkLow" by code_simp
    show ?thesis
      unfolding reclassify_at_gate_def Let_def
      by (simp only: c e option.case v apply_jev_gate_advice_def f risk le cl if_False) simp
  qed
  have r: "rematerialize_after_risk_increase (sample_env RkHigh) ?w2 =
      (sync_artifact_records (?w2\<lparr>ws_completed := [], ws_steps := sample_steps RkHigh\<rparr>))\<lparr>ws_current := 0\<rparr>"
  proof -
    have t: "ws_deploy_tier ?w2 = TierDevelopment" by (simp add: low_running_def record_step_duration_ms_def)
    have k: "st_id ` set (ws_steps ?w2) = {''b'', ''v''}"
      by (simp add: low_running_def record_step_duration_ms_def low_steps step_b_def step_v_def)
    show ?thesis
      unfolding rematerialize_after_risk_increase_def Let_def t d k
      by (simp add: high_steps step_p_def first_open_def)
  qed
  have w: "w = (let x = sync_artifact_records (reclassify_at_gate (sample_env RkHigh) ?w1) in x\<lparr>ws_status := status_now x\<rparr>)"
    by (simp add: w_def passed_step_def Let_def moved_on_def record_step_duration_ms_def step_b_def low_running_def)
  show "ws_completed w = []" "current_step w = Some step_p" "\<not> step_requires_approval w step_b"
    unfolding w g r Let_def
    by (simp_all add: current_step_def high_steps step_requires_approval_def low_running_def record_step_duration_ms_def
        step_b_def)
  show "gated step_b" by (simp add: gated_def step_b_def)
qed

text \<open>
  A pack may pass validation and have no step for a classification. The workflow then starts Running,
  every refresh finds it completed, and every transition refuses without saving, so the stored state
  stays Running. The same holds of any stored workflow whose materialised steps are all completed.
\<close>

lemma finished_workflow_never_completes:
  assumes "in_flight (ws_status w)" "artifact_drift env (refresh_deploy_tier env w) = Inr None"
    "ws_status (refresh_deploy_tier env w) = WfCompleted"
  shows "advance_with_evidence env outcome accept w t = (t, Inl (NotInFlight WfCompleted))"
  using assms by (simp add: advance_with_evidence_def Let_def)

definition risky_pack :: wf_definition where
  "risky_pack = sample_pack\<lparr>df_steps := [plain_step ''v'' PhReview [] (RiskAtLeast RkHigh)],
     df_gate_validation := []\<rparr>"

lemma pruned_pack_is_stuck:
  defines "w \<equiv> start_from_pack low_env ''w1'' risky_pack False (sample_class RkLow)"
  shows "validate [''do''] 100 risky_pack = Inr ()" "ws_steps w = []" "ws_status w = WfRunning"
    "advance_with_evidence low_env outcome accept w t = (t, Inl (NotInFlight WfCompleted))"
proof -
  show "validate [''do''] 100 risky_pack = Inr ()" by code_simp
  have none: "materialize_from_definition risky_pack (sample_class RkLow) ProfileStandard TierDevelopment True = []"
    by code_simp
  have k: "df_id risky_pack = ''feature''" by (simp add: risky_pack_def sample_pack_def)
  have p: "for_classification (sample_class RkLow) = ProfileStandard" by code_simp
  note f = w_def start_from_pack_def start_with_definition_def Let_def k p default_brainstorm_for_kind_def none
  show "ws_steps w = []" "ws_status w = WfRunning" by (simp_all add: f)
  have d: "desired_steps low_env w TierDevelopment = []"
    by (simp add: desired_steps_def resolve_definition_for_state_def f)
  have r: "ws_steps (refresh_deploy_tier low_env w) = []"
    using d by (simp add: refresh_deploy_tier_def low_env_def sample_env_def f)
  have s: "ws_status (refresh_deploy_tier low_env w) = WfCompleted"
    unfolding refresh_deploy_tier_def tier_status using r
    by (simp add: status_now_def current_step_def refresh_deploy_tier_def)
  have a: "ws_artifacts (refresh_deploy_tier low_env w) = (\<lambda>_. None)"
    using d by (simp add: refresh_deploy_tier_def tier_artifacts low_env_def sample_env_def f)
  show "advance_with_evidence low_env outcome accept w t = (t, Inl (NotInFlight WfCompleted))"
  proof (rule finished_workflow_never_completes [OF _ _ s])
    show "in_flight (ws_status w)" by (simp add: f in_flight_def)
    show "artifact_drift low_env (refresh_deploy_tier low_env w) = Inr None" by (simp add: artifact_drift_def a)
  qed
qed

text \<open>
  Disposing the findings of a finished workflow clears the active pointer whatever workflow it names,
  and of a running one takes it over.
\<close>

lemma disposing_moves_the_pointer:
  assumes "write_failures (wt_files t) = []" "valid_state_id (ws_id w)" "wt_active t = Some j" "j \<noteq> ws_id w"
  shows "wt_active (fst (apply_recommended_dispositions env w t)) =
           (if in_flight (ws_status w) then Some (ws_id w) else None)"
proof -
  let ?x = "w\<lparr>ws_findings := map dispose (ws_findings w), ws_updated_at := we_now env\<rparr>"
  obtain t1 where "save_state ?x (in_flight (ws_status ?x)) t = (t1, Inr ())"
      "wt_active t1 = (if in_flight (ws_status ?x) then Some (ws_id ?x) else None)"
    using save_state_ok [of t ?x "in_flight (ws_status ?x)"] assms(1,2) by auto
  then show ?thesis by (simp add: apply_recommended_dispositions_def Let_def)
qed

end
