(* ===== verification/Journal.thy ===== *)
theory Journal
  imports State_Dir
begin

unbundle bit_operations_syntax

text \<open>
  The journal of native conversations, \<open>src/commands/ctx/runtime/journal.rs\<close>: the committed events
  of a session, the reduction of its log to a conversation, the stream drafts that are outside the
  log, artifacts and provider continuations.

  The SQLite database is its tables: a list of rows in the order of insertion per table, with the
  \<open>WHERE\<close>, \<open>ORDER BY\<close>, unique index and \<open>CHECK\<close> clauses of each statement written out. A
  transaction works on a copy of the tables that its commit installs; \<open>jn_faults\<close> is the
  schedule of transactions that cannot begin or commit, one entry consumed per attempt. Integer columns hold what
  \<open>sql_u64\<close> wrote, so they are never negative. An event row holds its payload or a garbled one.
  The SHA-256 digest and the JSON parser are arguments where they are used.
\<close>

section \<open>The conversation's data\<close>

definition i64_max :: u64 where
  "i64_max = 9223372036854775807"

datatype json = JNull | JBool bool | JNumber string | JString string | JArray "json list"
  | JObject "(string \<times> json) list"

datatype provider_protocol = AnthropicMessages | OpenAiResponses | OpenAiChatCompatible
  | GoogleGenerativeAi | GoogleVertex | AwsBedrock | AzureOpenAiChat

record journal_route_identity =
  jr_route :: string
  jr_provider :: string
  jr_endpoint :: string
  jr_account :: string
  jr_billing_pool :: string
  jr_protocol :: provider_protocol
  jr_vendor :: string
  jr_model :: string

record session_identity =
  si_session :: string
  si_seat :: string
  si_generation :: u64
  si_task :: "string option"
  si_route :: journal_route_identity
  si_repo :: string
  si_created_at :: u64
  si_completed_at :: "u64 option"

record event_scope =
  sc_turn :: "string option"
  sc_attempt :: "string option"
  sc_task :: "string option"

definition no_scope :: event_scope where
  "no_scope = \<lparr>sc_turn = None, sc_attempt = None, sc_task = None\<rparr>"

datatype assistant_block = TextBlock string | ThinkingBlock string "json option"
  | RedactedThinking json | RefusalBlock string | ToolCallBlock string

record usage_record =
  us_id :: string
  us_input_tokens :: u64
  us_cache_creation_input_tokens :: u64
  us_cache_read_input_tokens :: u64
  us_output_tokens :: u64
  us_reasoning_tokens :: "u64 option"
  us_provider_request_id :: "string option"
  us_estimated :: bool

record policy_provenance =
  pv_fingerprint :: string
  pv_source :: string
  pv_decision :: string
  pv_scope :: string

datatype content_ref = InlineContent string | ArtifactContent string u64 u64 string

datatype execution_state = Prepared | Started | Completed | Failed | Cancelled | OutcomeUnknown

fun is_terminal :: "execution_state \<Rightarrow> bool" where
  "is_terminal Completed = True"
| "is_terminal Failed = True"
| "is_terminal Cancelled = True"
| "is_terminal _ = False"

datatype receipt_state = RcAccepted | RcStarted | RcBlocked | RcCompleted | RcFailed | RcCancelled

datatype checkpoint_kind = RecoveryPoint | CompactionPoint | HandoffPoint

datatype journal_event =
    InputAcknowledged string string bool "u64 option"
  | AssistantMessageCommitted string "assistant_block list" "string option" "u64 option"
  | UsageRecorded usage_record
  | ToolCallPrepared string string json policy_provenance "u64 option"
  | ToolExecution string string execution_state "content_ref option" "string option" "u64 option"
  | TaskReceipt string receipt_state json
  | Checkpoint string checkpoint_kind json
  | GenerationAdvanced u64 u64
  | SessionEnded string
  | ContextCompiled string json "u64 option"
  | SettingsOverride string "string option" "u64 option"

fun event_kind :: "journal_event \<Rightarrow> string" where
  "event_kind (InputAcknowledged _ _ _ _) = ''input_acknowledged''"
| "event_kind (AssistantMessageCommitted _ _ _ _) = ''assistant_message_committed''"
| "event_kind (UsageRecorded _) = ''usage_recorded''"
| "event_kind (ToolCallPrepared _ _ _ _ _) = ''tool_call_prepared''"
| "event_kind (ToolExecution _ _ _ _ _ _) = ''tool_execution''"
| "event_kind (TaskReceipt _ _ _) = ''task_receipt''"
| "event_kind (Checkpoint _ _ _) = ''checkpoint''"
| "event_kind (GenerationAdvanced _ _) = ''generation_advanced''"
| "event_kind (SessionEnded _) = ''session_ended''"
| "event_kind (ContextCompiled _ _ _) = ''context_compiled''"
| "event_kind (SettingsOverride _ _ _) = ''settings_override''"

record indexed_ids =
  ix_message :: "string option"
  ix_tool_call :: "string option"
  ix_execution :: "string option"
  ix_usage :: "string option"
  ix_task :: "string option"
  ix_checkpoint :: "string option"

definition no_ids :: indexed_ids where
  "no_ids = \<lparr>ix_message = None, ix_tool_call = None, ix_execution = None, ix_usage = None,
     ix_task = None, ix_checkpoint = None\<rparr>"

fun event_ids :: "journal_event \<Rightarrow> indexed_ids" where
  "event_ids (InputAcknowledged m _ _ _) = no_ids\<lparr>ix_message := Some m\<rparr>"
| "event_ids (AssistantMessageCommitted m _ _ _) = no_ids\<lparr>ix_message := Some m\<rparr>"
| "event_ids (UsageRecorded u) = no_ids\<lparr>ix_usage := Some (us_id u)\<rparr>"
| "event_ids (ToolCallPrepared t _ _ _ _) = no_ids\<lparr>ix_tool_call := Some t\<rparr>"
| "event_ids (ToolExecution x t _ _ _ _) = no_ids\<lparr>ix_tool_call := Some t, ix_execution := Some x\<rparr>"
| "event_ids (TaskReceipt t _ _) = no_ids\<lparr>ix_task := Some t\<rparr>"
| "event_ids (Checkpoint c _ _) = no_ids\<lparr>ix_checkpoint := Some c\<rparr>"
| "event_ids (GenerationAdvanced _ _) = no_ids"
| "event_ids (SessionEnded _) = no_ids"
| "event_ids (ContextCompiled _ _ _) = no_ids"
| "event_ids (SettingsOverride _ _ _) = no_ids"

datatype frame_kind = AssistantText | AssistantThinking | AssistantRefusal | ToolArguments

section \<open>Errors\<close>

datatype transition_error =
    IllegalTransition execution_state execution_state
  | ResultMissing execution_state
  | ResultForbidden execution_state

datatype corruption =
    OutOfOrder u64 u64
  | DuplicateUsage string
  | DuplicateToolCall string
  | UnknownCallOf string string
  | ChangedCall string string string
  | BadTransition transition_error
  | NotPreparedFirst string
  | UnknownUsageOf string string
  | UnknownUsage string
  | GenerationMustAdvance u64 u64
  | SequenceExhausted string
  | BadPayload u64
  | KindDisagrees string string u64
  | NotAnExecution u64

datatype journal_error =
    Sqlite
  | BadJson
  | InvalidId string string
  | InvalidNumber string u64
  | Corrupt corruption
  | UnknownSession string
  | SessionExists string
  | StaleGeneration u64 u64
  | DuplicateId string string
  | UnknownToolCall string
  | UnknownExecution string
  | InvalidTransition transition_error
  | InvalidToolArguments string
  | InvalidStream string
  | FrameTooLarge nat nat
  | DraftTooLarge nat nat
  | ContinuationMismatch

definition opaque_id :: "string \<Rightarrow> string \<Rightarrow> journal_error + string" where
  "opaque_id kind v =
     (if v = [] \<or> 256 < length v \<or> CHR 0x00 \<in> set v then Inl (InvalidId kind v) else Inr v)"

definition sql_u64 :: "string \<Rightarrow> u64 \<Rightarrow> journal_error + u64" where
  "sql_u64 field v = (if v \<le> i64_max then Inr v else Inl (InvalidNumber field v))"

section \<open>The tables\<close>

record session_row = session_identity +
  sr_updated_at :: u64
  sr_next_sequence :: u64

record event_row =
  ev_sequence :: u64
  ev_generation :: u64
  ev_kind :: string
  ev_scope :: event_scope
  ev_ids :: indexed_ids
  ev_payload :: "journal_event stored"
  ev_committed_at :: u64

record frame_row =
  fr_index :: nat
  fr_kind :: frame_kind
  fr_data :: string
  fr_created_at :: u64

record continuation_identity =
  ci_route :: string
  ci_provider :: string
  ci_endpoint :: string
  ci_account :: string
  ci_protocol :: provider_protocol
  ci_vendor :: string
  ci_model :: string

record continuation_row =
  co_identity :: continuation_identity
  co_envelope :: string
  co_created_at :: u64

record artifact_row =
  af_media_type :: string
  af_byte_len :: u64
  af_content :: string
  af_created_at :: u64

record tables =
  tb_sessions :: "session_row list"
  tb_events :: "string \<Rightarrow> event_row list"
  tb_frames :: "string \<Rightarrow> string \<Rightarrow> frame_row list"
  tb_continuations :: "string \<Rightarrow> string \<Rightarrow> continuation_row option"
  tb_artifacts :: "string \<Rightarrow> artifact_row option"

record journal =
  jn_tables :: tables
  jn_faults :: "bool list"

definition empty_tables :: tables where
  "empty_tables = \<lparr>tb_sessions = [], tb_events = (\<lambda>_. []), tb_frames = (\<lambda>_ _. []),
     tb_continuations = (\<lambda>_ _. None), tb_artifacts = (\<lambda>_. None)\<rparr>"

type_synonym 'a query = "tables \<Rightarrow> journal_error + tables \<times> 'a"
type_synonym 'a operation = "journal \<Rightarrow> journal \<times> (journal_error + 'a)"

definition in_tx :: "'a query \<Rightarrow> 'a operation" where
  "in_tx body j =
     (let (busy, fs) = take_failure (jn_faults j); j1 = j\<lparr>jn_faults := fs\<rparr> in
      if busy then (j1, Inl Sqlite)
      else case body (jn_tables j) of
          Inl e \<Rightarrow> (j1, Inl e)
        | Inr (t, v) \<Rightarrow>
            (let (lost, fs1) = take_failure fs; j2 = j\<lparr>jn_faults := fs1\<rparr> in
             if lost then (j2, Inl Sqlite) else (j2\<lparr>jn_tables := t\<rparr>, Inr v)))"

definition checked :: "journal_error + 'b \<Rightarrow> 'a query \<Rightarrow> 'a operation" where
  "checked pre body j = (case pre of Inl e \<Rightarrow> (j, Inl e) | Inr _ \<Rightarrow> in_tx body j)"

section \<open>Writing one event\<close>

definition session_of :: "tables \<Rightarrow> string \<Rightarrow> session_row option" where
  "session_of t s = find (\<lambda>r. si_session r = s) (tb_sessions t)"

definition update_session :: "string \<Rightarrow> (session_row \<Rightarrow> session_row) \<Rightarrow> tables \<Rightarrow> tables" where
  "update_session s f t = t\<lparr>tb_sessions := map (\<lambda>r. if si_session r = s then f r else r) (tb_sessions t)\<rparr>"

definition read_session :: "tables \<Rightarrow> string \<Rightarrow> journal_error + session_identity" where
  "read_session t s =
     (case session_of t s of
        None \<Rightarrow> Inl (UnknownSession s)
      | Some r \<Rightarrow> Inr (session_identity.truncate r))"

definition ensure_generation :: "tables \<Rightarrow> string \<Rightarrow> u64 \<Rightarrow> journal_error + u64 \<times> u64" where
  "ensure_generation t s generation =
     (case session_of t s of
        None \<Rightarrow> Inl (UnknownSession s)
      | Some r \<Rightarrow>
          if si_generation r \<noteq> generation then Inl (StaleGeneration (si_generation r) generation)
          else Inr (si_generation r, sr_next_sequence r))"

fun duplicate_identity :: "journal_event \<Rightarrow> journal_error" where
  "duplicate_identity (InputAcknowledged m _ _ _) = DuplicateId ''MessageId'' m"
| "duplicate_identity (AssistantMessageCommitted m _ _ _) = DuplicateId ''MessageId'' m"
| "duplicate_identity (UsageRecorded u) = DuplicateId ''UsageId'' (us_id u)"
| "duplicate_identity (ToolCallPrepared c _ _ _ _) = DuplicateId ''ToolCallId'' c"
| "duplicate_identity e = DuplicateId ''event'' (event_kind e)"

definition event_row_of :: "u64 \<Rightarrow> u64 \<Rightarrow> event_scope \<Rightarrow> journal_event \<Rightarrow> u64 \<Rightarrow> event_row" where
  "event_row_of sequence generation scope e at =
     \<lparr>ev_sequence = sequence, ev_generation = generation, ev_kind = event_kind e,
      ev_scope = scope\<lparr>sc_task := (case ix_task (event_ids e) of None \<Rightarrow> sc_task scope | Some k \<Rightarrow> Some k)\<rparr>,
      ev_ids = event_ids e, ev_payload = Holds e, ev_committed_at = at\<rparr>"

text \<open>
  The primary key and the three unique indices of \<open>native_events\<close>, the one on tool calls
  restricted to the \<open>tool_call_prepared\<close> rows; a \<open>NULL\<close> column never collides.
\<close>

definition same_id :: "string option \<Rightarrow> string option \<Rightarrow> bool" where
  "same_id a b = (a \<noteq> None \<and> a = b)"

definition collides :: "event_row \<Rightarrow> event_row \<Rightarrow> bool" where
  "collides r q =
     (ev_sequence r = ev_sequence q
      \<or> same_id (ix_message (ev_ids r)) (ix_message (ev_ids q))
      \<or> same_id (ix_usage (ev_ids r)) (ix_usage (ev_ids q))
      \<or> ev_kind r = ''tool_call_prepared'' \<and> ev_kind q = ''tool_call_prepared''
         \<and> same_id (ix_tool_call (ev_ids r)) (ix_tool_call (ev_ids q)))"

definition append_tx :: "string \<Rightarrow> u64 \<Rightarrow> event_scope \<Rightarrow> journal_event \<Rightarrow> u64 \<Rightarrow> u64 query" where
  "append_tx s generation scope e at t =
     and_then (ensure_generation t s generation) (\<lambda>(_, next).
       if next = u64_max then Inl (Corrupt (SequenceExhausted s))
       else
         and_then (sql_u64 ''sequence'' (next + 1)) (\<lambda>sequence.
         and_then (sql_u64 ''generation'' generation) (\<lambda>g.
         and_then (sql_u64 ''committed_at'' at) (\<lambda>stamp.
           let r = event_row_of sequence g scope e stamp in
           if list_ex (collides r) (tb_events t s) then Inl (duplicate_identity e)
           else Inr (update_session s (\<lambda>q. q\<lparr>sr_next_sequence := sequence, sr_updated_at := stamp\<rparr>)
                       (t\<lparr>tb_events := (tb_events t)(s := tb_events t s @ [r])\<rparr>), sequence)))))"

section \<open>Reading a session's rows\<close>

definition select_rows :: "(event_row \<Rightarrow> bool) \<Rightarrow> event_row list \<Rightarrow> event_row list" where
  "select_rows p rows = sort_key ev_sequence (filter p rows)"

definition has_tool_call :: "event_row list \<Rightarrow> string \<Rightarrow> bool" where
  "has_tool_call rows c =
     list_ex (\<lambda>r. ev_kind r = ''tool_call_prepared'' \<and> ix_tool_call (ev_ids r) = Some c) rows"

definition has_usage :: "event_row list \<Rightarrow> string \<Rightarrow> bool" where
  "has_usage rows u = list_ex (\<lambda>r. ev_kind r = ''usage_recorded'' \<and> ix_usage (ev_ids r) = Some u) rows"

definition require_tool_call :: "tables \<Rightarrow> string \<Rightarrow> string \<Rightarrow> journal_error + unit" where
  "require_tool_call t s c = (if has_tool_call (tb_events t s) c then Inr () else Inl (UnknownToolCall c))"

definition require_usage :: "tables \<Rightarrow> string \<Rightarrow> string option \<Rightarrow> journal_error + unit" where
  "require_usage t s usage =
     (case usage of
        None \<Rightarrow> Inr ()
      | Some u \<Rightarrow> if has_usage (tb_events t s) u then Inr () else Inl (Corrupt (UnknownUsage u)))"

record execution_record =
  xr_sequence :: u64
  xr_tool_call :: string
  xr_state :: execution_state
  xr_result :: "content_ref option"
  xr_detail :: "string option"

definition of_execution :: "string \<Rightarrow> event_row \<Rightarrow> bool" where
  "of_execution x r \<longleftrightarrow> ev_kind r = ''tool_execution'' \<and> ix_execution (ev_ids r) = Some x"

definition latest_in :: "event_row list \<Rightarrow> string \<Rightarrow> journal_error + execution_record option" where
  "latest_in rows x =
     (case select_rows (of_execution x) rows of
        [] \<Rightarrow> Inr None
      | found \<Rightarrow>
          let r = last found in
          (case ev_payload r of
             Garbled \<Rightarrow> Inl (Corrupt (BadPayload (ev_sequence r)))
           | Holds (ToolExecution _ c st result detail _) \<Rightarrow>
               Inr (Some \<lparr>xr_sequence = ev_sequence r, xr_tool_call = c, xr_state = st,
                          xr_result = result, xr_detail = detail\<rparr>)
           | Holds _ \<Rightarrow> Inl (Corrupt (NotAnExecution (ev_sequence r)))))"

definition latest_execution :: "tables \<Rightarrow> string \<Rightarrow> string \<Rightarrow> journal_error + execution_record option" where
  "latest_execution t s x = latest_in (tb_events t s) x"

definition newest_of_execution :: "event_row list \<Rightarrow> event_row \<Rightarrow> bool" where
  "newest_of_execution rows r \<longleftrightarrow>
     ev_kind r = ''tool_execution'' \<and> ix_execution (ev_ids r) \<noteq> None
     \<and> list_all (\<lambda>q. ev_kind q = ''tool_execution'' \<and> same_id (ix_execution (ev_ids q)) (ix_execution (ev_ids r))
          \<longrightarrow> ev_sequence q \<le> ev_sequence r) rows"

definition started_of :: "(string \<times> string) list \<Rightarrow> event_row \<Rightarrow> journal_error + (string \<times> string) list" where
  "started_of acc r =
     (case ev_payload r of
        Garbled \<Rightarrow> Inl BadJson
      | Holds (ToolExecution _ c st _ _ _) \<Rightarrow>
          (if st = Started then
             (case ix_execution (ev_ids r) of
                None \<Rightarrow> Inl Sqlite
              | Some x \<Rightarrow> and_then (opaque_id ''ExecutionId'' x) (\<lambda>x. Inr (acc @ [(x, c)])))
           else Inr acc)
      | Holds _ \<Rightarrow> Inr acc)"

definition latest_started_executions :: "tables \<Rightarrow> string \<Rightarrow> journal_error + (string \<times> string) list" where
  "latest_started_executions t s =
     fold_err started_of [] (select_rows (newest_of_execution (tb_events t s)) (tb_events t s))"

section \<open>The state machine of an execution\<close>

fun legal_transition :: "execution_state \<Rightarrow> execution_state \<Rightarrow> bool" where
  "legal_transition Prepared to \<longleftrightarrow> to \<in> {Started, Cancelled}"
| "legal_transition Started to \<longleftrightarrow> to \<in> {Completed, Failed, Cancelled, OutcomeUnknown}"
| "legal_transition OutcomeUnknown to \<longleftrightarrow> to \<in> {Completed, Failed, Cancelled}"
| "legal_transition _ _ \<longleftrightarrow> False"

definition validate_execution_transition ::
    "execution_state \<Rightarrow> execution_state \<Rightarrow> content_ref option \<Rightarrow> transition_error + unit" where
  "validate_execution_transition from to result =
     (if \<not> legal_transition from to then Inl (IllegalTransition from to)
      else if to \<in> {Completed, Failed} \<and> result = None then Inl (ResultMissing to)
      else if to \<notin> {Completed, Failed} \<and> result \<noteq> None then Inl (ResultForbidden to)
      else Inr ())"

fun map_err :: "('e \<Rightarrow> 'f) \<Rightarrow> 'e + 'a \<Rightarrow> 'f + 'a" where
  "map_err f (Inl e) = Inl (f e)"
| "map_err f (Inr a) = Inr a"

fun is_object :: "json \<Rightarrow> bool" where
  "is_object (JObject _) = True"
| "is_object _ = False"

definition validate_tool_arguments :: "json \<Rightarrow> journal_error + unit" where
  "validate_tool_arguments a =
     (if is_object a then Inr () else Inl (InvalidToolArguments ''top-level value must be a JSON object''))"

section \<open>The operations on a session\<close>

definition create_session :: "session_identity \<Rightarrow> unit operation" where
  "create_session i =
     checked
       (and_then (sql_u64 ''generation'' (si_generation i)) (\<lambda>_.
        and_then (sql_u64 ''created_at'' (si_created_at i)) (\<lambda>_.
        case si_completed_at i of None \<Rightarrow> Inr 0 | Some c \<Rightarrow> sql_u64 ''completed_at'' c)))
       (\<lambda>t. if session_of t (si_session i) \<noteq> None then Inl (SessionExists (si_session i))
            else Inr (t\<lparr>tb_sessions := tb_sessions t @
                         [session_identity.extend i (session_row.fields (si_created_at i) 0)]\<rparr>, ()))"

definition acknowledge_input ::
    "string \<Rightarrow> u64 \<Rightarrow> event_scope \<Rightarrow> string \<Rightarrow> string \<Rightarrow> bool \<Rightarrow> u64 option \<Rightarrow> u64 \<Rightarrow> u64 operation" where
  "acknowledge_input s g scope m text steering at_ms at =
     in_tx (append_tx s g scope (InputAcknowledged m text steering at_ms) at)"

definition record_usage :: "string \<Rightarrow> u64 \<Rightarrow> event_scope \<Rightarrow> usage_record \<Rightarrow> u64 \<Rightarrow> u64 operation" where
  "record_usage s g scope u at = in_tx (append_tx s g scope (UsageRecorded u) at)"

definition record_assistant_message ::
    "string \<Rightarrow> u64 \<Rightarrow> event_scope \<Rightarrow> string \<Rightarrow> assistant_block list \<Rightarrow> string option \<Rightarrow> u64 option
      \<Rightarrow> u64 \<Rightarrow> u64 operation" where
  "record_assistant_message s g scope m blocks usage at_ms at = in_tx (\<lambda>t.
     and_then (require_usage t s usage) (\<lambda>_.
       append_tx s g scope (AssistantMessageCommitted m blocks usage at_ms) at t))"

definition prepare_tool_call ::
    "string \<Rightarrow> u64 \<Rightarrow> event_scope \<Rightarrow> string \<Rightarrow> string \<Rightarrow> json \<Rightarrow> policy_provenance \<Rightarrow> u64 option
      \<Rightarrow> u64 \<Rightarrow> u64 operation" where
  "prepare_tool_call s g scope c name arguments policy at_ms at =
     checked (validate_tool_arguments arguments)
       (append_tx s g scope (ToolCallPrepared c name arguments policy at_ms) at)"

definition prepare_execution ::
    "string \<Rightarrow> u64 \<Rightarrow> event_scope \<Rightarrow> string \<Rightarrow> string \<Rightarrow> u64 option \<Rightarrow> u64 \<Rightarrow> u64 operation" where
  "prepare_execution s g scope x c at_ms at = in_tx (\<lambda>t.
     and_then (require_tool_call t s c) (\<lambda>_.
     and_then (latest_execution t s x) (\<lambda>earlier.
       if earlier \<noteq> None then Inl (DuplicateId ''ExecutionId'' x)
       else append_tx s g scope (ToolExecution x c Prepared None None at_ms) at t)))"

definition transition_execution ::
    "string \<Rightarrow> u64 \<Rightarrow> event_scope \<Rightarrow> string \<Rightarrow> execution_state \<Rightarrow> content_ref option \<Rightarrow> string option
      \<Rightarrow> u64 option \<Rightarrow> u64 \<Rightarrow> u64 operation" where
  "transition_execution s g scope x to result detail at_ms at = in_tx (\<lambda>t.
     and_then (latest_execution t s x) (\<lambda>earlier.
       case earlier of
         None \<Rightarrow> Inl (UnknownExecution x)
       | Some previous \<Rightarrow>
           and_then (map_err InvalidTransition (validate_execution_transition (xr_state previous) to result)) (\<lambda>_.
             append_tx s g scope (ToolExecution x (xr_tool_call previous) to result detail at_ms) at t)))"

definition unknown_note :: string where
  "unknown_note = ''runtime stopped after effect began; reconcile before retry''"

definition mark_unknown ::
    "string \<Rightarrow> u64 \<Rightarrow> u64 option \<Rightarrow> u64 \<Rightarrow> tables \<Rightarrow> string \<times> string \<Rightarrow> journal_error + tables" where
  "mark_unknown s g at_ms at t p =
     map_sum id fst (append_tx s g no_scope
       (ToolExecution (fst p) (snd p) OutcomeUnknown None (Some unknown_note) at_ms) at t)"

definition reconcile_started_as_unknown ::
    "string \<Rightarrow> u64 \<Rightarrow> u64 option \<Rightarrow> u64 \<Rightarrow> string list operation" where
  "reconcile_started_as_unknown s g at_ms at = in_tx (\<lambda>t.
     and_then (ensure_generation t s g) (\<lambda>_.
     and_then (latest_started_executions t s) (\<lambda>started.
     and_then (fold_err (mark_unknown s g at_ms at) t started) (\<lambda>t1.
       Inr (t1, map fst started)))))"

definition record_task_receipt ::
    "string \<Rightarrow> u64 \<Rightarrow> event_scope \<Rightarrow> string \<Rightarrow> receipt_state \<Rightarrow> json \<Rightarrow> u64 \<Rightarrow> u64 operation" where
  "record_task_receipt s g scope k st receipt at = in_tx (append_tx s g scope (TaskReceipt k st receipt) at)"

definition record_checkpoint ::
    "string \<Rightarrow> u64 \<Rightarrow> event_scope \<Rightarrow> string \<Rightarrow> checkpoint_kind \<Rightarrow> json \<Rightarrow> u64 \<Rightarrow> u64 operation" where
  "record_checkpoint s g scope c kind state at = in_tx (append_tx s g scope (Checkpoint c kind state) at)"

definition record_context_compiled ::
    "string \<Rightarrow> u64 \<Rightarrow> event_scope \<Rightarrow> string \<Rightarrow> json \<Rightarrow> u64 \<Rightarrow> u64 operation" where
  "record_context_compiled s g scope version sources at =
     in_tx (append_tx s g scope (ContextCompiled version sources (Some at)) at)"

definition record_settings_override ::
    "string \<Rightarrow> u64 \<Rightarrow> string \<Rightarrow> string option \<Rightarrow> u64 \<Rightarrow> u64 operation" where
  "record_settings_override s g key v at = in_tx (append_tx s g no_scope (SettingsOverride key v (Some at)) at)"

definition advance_generation :: "string \<Rightarrow> u64 \<Rightarrow> u64 \<Rightarrow> u64 \<Rightarrow> u64 operation" where
  "advance_generation s expected current at =
     checked (if current \<le> expected then Inl (Corrupt (GenerationMustAdvance expected current)) else Inr ())
       (\<lambda>t. and_then (ensure_generation t s expected) (\<lambda>_.
             and_then (sql_u64 ''generation'' current) (\<lambda>g.
             and_then (sql_u64 ''committed_at'' at) (\<lambda>stamp.
               append_tx s current no_scope (GenerationAdvanced expected current) at
                 (update_session s (\<lambda>r. r\<lparr>si_generation := g, sr_updated_at := stamp\<rparr>) t)))))"

definition complete_session :: "string \<Rightarrow> u64 \<Rightarrow> string \<Rightarrow> u64 \<Rightarrow> u64 operation" where
  "complete_session s g reason at = in_tx (\<lambda>t.
     and_then (append_tx s g no_scope (SessionEnded reason) at t) (\<lambda>(t1, sequence).
     and_then (sql_u64 ''committed_at'' at) (\<lambda>stamp.
       Inr (update_session s (\<lambda>r. r\<lparr>si_completed_at := Some stamp, sr_updated_at := stamp\<rparr>) t1, sequence))))"

definition doomed :: "u64 \<Rightarrow> session_row \<Rightarrow> bool" where
  "doomed cutoff r = (case si_completed_at r of None \<Rightarrow> False | Some c \<Rightarrow> c < cutoff)"

definition prune_completed_before :: "u64 \<Rightarrow> nat operation" where
  "prune_completed_before cutoff =
     checked (sql_u64 ''retention cutoff'' cutoff) (\<lambda>t.
       let gone = filter (doomed cutoff) (tb_sessions t);
           kept = (\<lambda>s. s \<notin> si_session ` set gone)
       in Inr (t\<lparr>tb_sessions := filter (\<lambda>r. \<not> doomed cutoff r) (tb_sessions t),
                 tb_events := (\<lambda>s. if kept s then tb_events t s else []),
                 tb_frames := (\<lambda>s. if kept s then tb_frames t s else (\<lambda>_. [])),
                 tb_continuations := (\<lambda>s. if kept s then tb_continuations t s else (\<lambda>_. None))\<rparr>,
               length gone))"

section \<open>Stream drafts\<close>

definition max_stream_frame_bytes :: nat where
  "max_stream_frame_bytes = 65536"

definition max_stream_draft_bytes :: nat where
  "max_stream_draft_bytes = 8388608"

definition next_frame_index :: "frame_row list \<Rightarrow> nat" where
  "next_frame_index frames = foldl (\<lambda>n f. max n (fr_index f + 1)) 0 frames"

definition draft_bytes :: "frame_row list \<Rightarrow> nat" where
  "draft_bytes frames = sum_list (map (\<lambda>f. length (fr_data f)) frames)"

definition frames_of :: "tables \<Rightarrow> string \<Rightarrow> string \<Rightarrow> frame_row list" where
  "frames_of t s stream = sort_key fr_index (tb_frames t s stream)"

definition set_frames :: "string \<Rightarrow> string \<Rightarrow> frame_row list \<Rightarrow> tables \<Rightarrow> tables" where
  "set_frames s stream frames t = t\<lparr>tb_frames := (tb_frames t)(s := (tb_frames t s)(stream := frames))\<rparr>"

definition append_stream_frame ::
    "string \<Rightarrow> u64 \<Rightarrow> string \<Rightarrow> frame_kind \<Rightarrow> string \<Rightarrow> u64 \<Rightarrow> nat operation" where
  "append_stream_frame s g stream kind bytes created =
     checked
       (if max_stream_frame_bytes < length bytes then Inl (FrameTooLarge (length bytes) max_stream_frame_bytes)
        else if stream = [] \<or> 256 < length stream \<or> CHR 0x00 \<in> set stream
          then Inl (InvalidStream ''stream id must contain 1..=256 non-NUL bytes'')
        else Inr ())
       (\<lambda>t. and_then (ensure_generation t s g) (\<lambda>_.
          let frames = tb_frames t s stream; next = next_frame_index frames;
              total = sat_add (draft_bytes frames) (length bytes)
          in if max_stream_draft_bytes < total then Inl (DraftTooLarge total max_stream_draft_bytes)
             else and_then (sql_u64 ''created_at'' created) (\<lambda>c.
               Inr (set_frames s stream
                      (frames @ [\<lparr>fr_index = next, fr_kind = kind, fr_data = bytes, fr_created_at = c\<rparr>]) t, next))))"

definition discard_stream :: "string \<Rightarrow> string \<Rightarrow> unit operation" where
  "discard_stream s stream = in_tx (\<lambda>t. Inr (set_frames s stream [] t, ()))"

text \<open>\<open>from_utf8\<close>: the byte ranges still expected after a lead byte.\<close>

definition utf8_tail :: "nat \<Rightarrow> (nat \<times> nat) list option" where
  "utf8_tail b =
     (let c = (0x80, 0xBF) in
      if b < 0x80 then Some []
      else if b < 0xC2 then None
      else if b < 0xE0 then Some [c]
      else if b = 0xE0 then Some [(0xA0, 0xBF), c]
      else if b = 0xED then Some [(0x80, 0x9F), c]
      else if b < 0xF0 then Some [c, c]
      else if b = 0xF0 then Some [(0x90, 0xBF), c, c]
      else if b < 0xF4 then Some [c, c, c]
      else if b = 0xF4 then Some [(0x80, 0x8F), c, c]
      else None)"

fun utf8_from :: "(nat \<times> nat) list \<Rightarrow> nat list \<Rightarrow> bool" where
  "utf8_from [] [] = True"
| "utf8_from (r # rs) [] = False"
| "utf8_from [] (b # bs) = (case utf8_tail b of None \<Rightarrow> False | Some rs \<Rightarrow> utf8_from rs bs)"
| "utf8_from (r # rs) (b # bs) = (fst r \<le> b \<and> b \<le> snd r \<and> utf8_from rs bs)"

definition utf8_ok :: "string \<Rightarrow> bool" where
  "utf8_ok s = utf8_from [] (map of_char s)"

fun group_frames :: "(frame_kind \<times> string) list \<Rightarrow> (frame_kind \<times> string) list
      \<Rightarrow> journal_error + (frame_kind \<times> string) list" where
  "group_frames grouped [] = Inr grouped"
| "group_frames grouped ((kind, bytes) # frames) =
     (if kind = ToolArguments then Inl (InvalidStream ''assistant stream contains tool argument frames'')
      else if grouped \<noteq> [] \<and> fst (last grouped) = kind
        then group_frames (butlast grouped @ [(kind, snd (last grouped) @ bytes)]) frames
      else group_frames (grouped @ [(kind, bytes)]) frames)"

fun block_of_frame :: "frame_kind \<times> string \<Rightarrow> assistant_block" where
  "block_of_frame (AssistantText, text) = TextBlock text"
| "block_of_frame (AssistantThinking, text) = ThinkingBlock text None"
| "block_of_frame (AssistantRefusal, text) = RefusalBlock text"
| "block_of_frame (ToolArguments, text) = TextBlock text"

definition blocks_step ::
    "assistant_block list \<Rightarrow> frame_kind \<times> string \<Rightarrow> journal_error + assistant_block list" where
  "blocks_step acc f =
     (if utf8_ok (snd f) then Inr (acc @ [block_of_frame f]) else Inl (InvalidStream ''invalid utf-8''))"

definition assistant_blocks_from_frames ::
    "(frame_kind \<times> string) list \<Rightarrow> journal_error + assistant_block list" where
  "assistant_blocks_from_frames frames =
     and_then (group_frames [] frames) (\<lambda>grouped. fold_err blocks_step [] grouped)"

definition read_frames :: "tables \<Rightarrow> string \<Rightarrow> string \<Rightarrow> (frame_kind \<times> string) list" where
  "read_frames t s stream = map (\<lambda>f. (fr_kind f, fr_data f)) (frames_of t s stream)"

definition commit_assistant_stream ::
    "string \<Rightarrow> u64 \<Rightarrow> event_scope \<Rightarrow> string \<Rightarrow> string \<Rightarrow> string option \<Rightarrow> u64 option \<Rightarrow> u64 \<Rightarrow> u64 operation" where
  "commit_assistant_stream s g scope stream m usage at_ms at = in_tx (\<lambda>t.
     and_then (ensure_generation t s g) (\<lambda>_.
     and_then (require_usage t s usage) (\<lambda>_.
       let frames = read_frames t s stream in
       if frames = [] then Inl (InvalidStream ''no frames to commit'')
       else
         and_then (assistant_blocks_from_frames frames) (\<lambda>blocks.
         and_then (append_tx s g scope (AssistantMessageCommitted m blocks usage at_ms) at t) (\<lambda>(t1, sequence).
           Inr (set_frames s stream [] t1, sequence))))))"

definition commit_tool_call_stream ::
    "(string \<Rightarrow> json option) \<Rightarrow> string \<Rightarrow> u64 \<Rightarrow> event_scope \<Rightarrow> string \<Rightarrow> string \<Rightarrow> string \<Rightarrow> policy_provenance
      \<Rightarrow> u64 option \<Rightarrow> u64 \<Rightarrow> u64 operation" where
  "commit_tool_call_stream parse s g scope stream c name policy at_ms at = in_tx (\<lambda>t.
     and_then (ensure_generation t s g) (\<lambda>_.
       let frames = read_frames t s stream; bytes = concat (map snd frames) in
       if frames = [] \<or> list_ex (\<lambda>f. fst f \<noteq> ToolArguments) frames
         then Inl (InvalidStream ''tool call needs one or more tool_arguments frames only'')
       else if \<not> utf8_ok bytes then Inl (InvalidToolArguments ''invalid utf-8'')
       else
         (case parse bytes of
            None \<Rightarrow> Inl (InvalidToolArguments ''invalid json'')
          | Some arguments \<Rightarrow>
              and_then (validate_tool_arguments arguments) (\<lambda>_.
              and_then (append_tx s g scope (ToolCallPrepared c name arguments policy at_ms) at t) (\<lambda>(t1, sequence).
                Inr (set_frames s stream [] t1, sequence))))))"

end
