(* ===== verification/Journal_Reads.thy ===== *)
theory Journal_Reads
  imports Journal "HOL-Library.List_Lexorder" "HOL-Library.Char_ord" "HOL-Library.Product_Lexorder"
begin

text \<open>
  What \<open>src/commands/ctx/runtime/journal.rs\<close> reads back: decoded events, pages of a log, the
  reduction of a log to a conversation, the scoring projection of \<open>src/commands/ctx/event.rs\<close>,
  artifacts and provider continuations.
\<close>

section \<open>Decoding and paging\<close>

record stored_event =
  sv_sequence :: u64
  sv_generation :: u64
  sv_scope :: event_scope
  sv_committed_at :: u64
  sv_event :: journal_event

definition decode_event :: "event_row \<Rightarrow> journal_error + stored_event" where
  "decode_event r =
     (case ev_payload r of
        Garbled \<Rightarrow> Inl (Corrupt (BadPayload (ev_sequence r)))
      | Holds e \<Rightarrow>
          if event_kind e \<noteq> ev_kind r
            then Inl (Corrupt (KindDisagrees (ev_kind r) (event_kind e) (ev_sequence r)))
          else Inr \<lparr>sv_sequence = ev_sequence r, sv_generation = ev_generation r, sv_scope = ev_scope r,
                    sv_committed_at = ev_committed_at r, sv_event = e\<rparr>)"

fun decode_rows :: "event_row list \<Rightarrow> journal_error + stored_event list" where
  "decode_rows [] = Inr []"
| "decode_rows (r # rs) = and_then (decode_event r) (\<lambda>e. and_then (decode_rows rs) (\<lambda>es. Inr (e # es)))"

definition of_type :: "string option \<Rightarrow> event_row \<Rightarrow> bool" where
  "of_type kind r = (case kind of None \<Rightarrow> True | Some k \<Rightarrow> ev_kind r = k)"

definition read_events_of_type :: "tables \<Rightarrow> string \<Rightarrow> string option \<Rightarrow> journal_error + stored_event list" where
  "read_events_of_type t s kind = decode_rows (select_rows (of_type kind) (tb_events t s))"

definition read_events :: "tables \<Rightarrow> string \<Rightarrow> journal_error + stored_event list" where
  "read_events t s = read_events_of_type t s None"

definition journal_events :: "tables \<Rightarrow> string \<Rightarrow> journal_error + stored_event list" where
  "journal_events t s = and_then (read_session t s) (\<lambda>_. read_events t s)"

definition events_of_type :: "tables \<Rightarrow> string \<Rightarrow> string \<Rightarrow> journal_error + stored_event list" where
  "events_of_type t s kind = and_then (read_session t s) (\<lambda>_. read_events_of_type t s (Some kind))"

definition event_type_count :: "tables \<Rightarrow> string \<Rightarrow> string \<Rightarrow> journal_error + nat" where
  "event_type_count t s kind =
     and_then (read_session t s) (\<lambda>_. Inr (length (filter (of_type (Some kind)) (tb_events t s))))"

definition latest_event_of_type :: "tables \<Rightarrow> string \<Rightarrow> string \<Rightarrow> journal_error + stored_event option" where
  "latest_event_of_type t s kind =
     and_then (read_session t s) (\<lambda>_.
       case select_rows (of_type (Some kind)) (tb_events t s) of
         [] \<Rightarrow> Inr None
       | rows \<Rightarrow> and_then (decode_event (last rows)) (\<lambda>e. Inr (Some e)))"

definition events_after :: "tables \<Rightarrow> string \<Rightarrow> u64 \<Rightarrow> nat \<Rightarrow> journal_error + stored_event list" where
  "events_after t s after limit =
     and_then (read_session t s) (\<lambda>_.
     and_then (sql_u64 ''sequence'' after) (\<lambda>a.
     and_then (sql_u64 ''limit'' limit) (\<lambda>n.
       decode_rows (take n (select_rows (\<lambda>r. a < ev_sequence r) (tb_events t s))))))"

definition sequence_bounds :: "tables \<Rightarrow> string \<Rightarrow> journal_error + u64 \<times> u64" where
  "sequence_bounds t s =
     and_then (read_session t s) (\<lambda>_.
       case select_rows (\<lambda>_. True) (tb_events t s) of
         [] \<Rightarrow> Inr (0, 0)
       | rows \<Rightarrow> Inr (ev_sequence (hd rows), ev_sequence (last rows)))"

fun ids_ok :: "string list \<Rightarrow> journal_error + string list" where
  "ids_ok [] = Inr []"
| "ids_ok (x # xs) =
     and_then (opaque_id ''JournalSessionId'' x) (\<lambda>y. and_then (ids_ok xs) (\<lambda>ys. Inr (y # ys)))"

definition session_ids :: "tables \<Rightarrow> journal_error + string list" where
  "session_ids t =
     ids_ok (map si_session (sort_key (\<lambda>r. (si_created_at r, si_session r)) (tb_sessions t)))"

section \<open>The conversation a log reduces to\<close>

datatype message_role = UserRole | AssistantRole

record stored_message =
  ms_sequence :: u64
  ms_message_id :: string
  ms_role :: message_role
  ms_blocks :: "assistant_block list"
  ms_text :: "string option"
  ms_steering :: bool
  ms_usage :: "string option"

record tool_call_record =
  tc_sequence :: u64
  tc_name :: string
  tc_arguments :: json
  tc_policy :: policy_provenance

record task_receipt_record =
  rc_sequence :: u64
  rc_state :: receipt_state
  rc_receipt :: json

record checkpoint_record =
  cp_sequence :: u64
  cp_kind :: checkpoint_kind
  cp_portable_state :: json

record conversation =
  cv_identity :: session_identity
  cv_last_sequence :: u64
  cv_messages :: "stored_message list"
  cv_usage :: "(string \<times> usage_record) list"
  cv_tool_calls :: "(string \<times> tool_call_record) list"
  cv_executions :: "(string \<times> execution_record) list"
  cv_task_receipts :: "(string \<times> task_receipt_record list) list"
  cv_checkpoints :: "(string \<times> checkpoint_record) list"
  cv_ended_reason :: "string option"

definition new_conversation :: "session_identity \<Rightarrow> conversation" where
  "new_conversation i = \<lparr>cv_identity = i, cv_last_sequence = 0, cv_messages = [], cv_usage = [],
     cv_tool_calls = [], cv_executions = [], cv_task_receipts = [],
     cv_checkpoints = [], cv_ended_reason = None\<rparr>"

definition check_execution ::
    "string \<Rightarrow> string \<Rightarrow> execution_state \<Rightarrow> content_ref option \<Rightarrow> conversation \<Rightarrow> journal_error + unit" where
  "check_execution x c to result v =
     (if map_of (cv_tool_calls v) c = None then Inl (Corrupt (UnknownCallOf x c))
      else case map_of (cv_executions v) x of
          Some previous \<Rightarrow>
            if xr_tool_call previous \<noteq> c then Inl (Corrupt (ChangedCall x (xr_tool_call previous) c))
            else map_err (\<lambda>e. Corrupt (BadTransition e))
                   (validate_execution_transition (xr_state previous) to result)
        | None \<Rightarrow>
            if to \<noteq> Prepared \<or> result \<noteq> None then Inl (Corrupt (NotPreparedFirst x)) else Inr ())"

fun reduce_event :: "u64 \<Rightarrow> journal_event \<Rightarrow> conversation \<Rightarrow> journal_error + conversation" where
  "reduce_event n (InputAcknowledged m text steering _) v =
     Inr (v\<lparr>cv_messages := cv_messages v @ [\<lparr>ms_sequence = n, ms_message_id = m, ms_role = UserRole,
        ms_blocks = [], ms_text = Some text, ms_steering = steering, ms_usage = None\<rparr>]\<rparr>)"
| "reduce_event n (AssistantMessageCommitted m blocks usage _) v =
     Inr (v\<lparr>cv_messages := cv_messages v @ [\<lparr>ms_sequence = n, ms_message_id = m, ms_role = AssistantRole,
        ms_blocks = blocks, ms_text = None, ms_steering = False, ms_usage = usage\<rparr>]\<rparr>)"
| "reduce_event n (UsageRecorded u) v =
     (if map_of (cv_usage v) (us_id u) \<noteq> None then Inl (Corrupt (DuplicateUsage (us_id u)))
      else Inr (v\<lparr>cv_usage := bt_insert (us_id u) u (cv_usage v)\<rparr>))"
| "reduce_event n (ToolCallPrepared c name arguments policy _) v =
     (if map_of (cv_tool_calls v) c \<noteq> None then Inl (Corrupt (DuplicateToolCall c))
      else Inr (v\<lparr>cv_tool_calls := bt_insert c
        \<lparr>tc_sequence = n, tc_name = name, tc_arguments = arguments, tc_policy = policy\<rparr> (cv_tool_calls v)\<rparr>))"
| "reduce_event n (ToolExecution x c to result detail _) v =
     and_then (check_execution x c to result v) (\<lambda>_.
       Inr (v\<lparr>cv_executions := bt_insert x
         \<lparr>xr_sequence = n, xr_tool_call = c, xr_state = to, xr_result = result, xr_detail = detail\<rparr>
         (cv_executions v)\<rparr>))"
| "reduce_event n (TaskReceipt k st receipt) v =
     Inr (v\<lparr>cv_task_receipts := bt_insert k
       ((case map_of (cv_task_receipts v) k of None \<Rightarrow> [] | Some rs \<Rightarrow> rs)
         @ [\<lparr>rc_sequence = n, rc_state = st, rc_receipt = receipt\<rparr>]) (cv_task_receipts v)\<rparr>)"
| "reduce_event n (Checkpoint c kind state) v =
     Inr (v\<lparr>cv_checkpoints := bt_insert c
       \<lparr>cp_sequence = n, cp_kind = kind, cp_portable_state = state\<rparr> (cv_checkpoints v)\<rparr>)"
| "reduce_event n (GenerationAdvanced _ current) v =
     Inr (v\<lparr>cv_identity := (cv_identity v)\<lparr>si_generation := current\<rparr>\<rparr>)"
| "reduce_event n (SessionEnded reason) v = Inr (v\<lparr>cv_ended_reason := Some reason\<rparr>)"
| "reduce_event n (ContextCompiled _ _ _) v = Inr v"
| "reduce_event n (SettingsOverride _ _ _) v = Inr v"

definition reduce_step :: "conversation \<Rightarrow> stored_event \<Rightarrow> journal_error + conversation" where
  "reduce_step v e =
     (if sv_sequence e \<le> cv_last_sequence v
        then Inl (Corrupt (OutOfOrder (sv_sequence e) (cv_last_sequence v)))
      else reduce_event (sv_sequence e) (sv_event e) (v\<lparr>cv_last_sequence := sv_sequence e\<rparr>))"

definition usage_check :: "conversation \<Rightarrow> unit \<Rightarrow> stored_message \<Rightarrow> journal_error + unit" where
  "usage_check v _ m =
     (case ms_usage m of
        None \<Rightarrow> Inr ()
      | Some u \<Rightarrow>
          if map_of (cv_usage v) u = None then Inl (Corrupt (UnknownUsageOf (ms_message_id m) u)) else Inr ())"

definition reduce_log :: "session_identity \<Rightarrow> stored_event list \<Rightarrow> journal_error + conversation" where
  "reduce_log i es =
     and_then (fold_err reduce_step (new_conversation i) es) (\<lambda>v.
     and_then (fold_err (usage_check v) () (cv_messages v)) (\<lambda>_. Inr v))"

definition replay :: "tables \<Rightarrow> string \<Rightarrow> journal_error + conversation" where
  "replay t s =
     and_then (read_session t s) (\<lambda>i. and_then (read_events t s) (\<lambda>es. reduce_log i es))"

section \<open>The scoring projection\<close>

definition input_hash :: "string \<Rightarrow> u64" where
  "input_hash s = foldl (\<lambda>h c. wrap_mul (h XOR of_char c) 0x100000001b3) 0xcbf29ce484222325 s"

definition error_text_char_cap :: nat where
  "error_text_char_cap = 400"

definition is_ascii_hexdigit :: "char \<Rightarrow> bool" where
  "is_ascii_hexdigit c \<longleftrightarrow> is_ascii_digit c \<or> ascii_lower_char c \<in> set ''abcdef''"

lemma length_dropWhile_le' [simp]: "length (dropWhile p xs) < Suc (length xs)"
  by (simp add: length_dropWhile_le less_Suc_eq_le)

function normalize_loop :: "nat \<Rightarrow> bool \<Rightarrow> string \<Rightarrow> string" where
  "normalize_loop n spaced [] = []"
| "normalize_loop n spaced (c # cs) =
     (if error_text_char_cap \<le> n then []
      else if c = CHR ''0'' \<and> take 1 cs = ''x'' \<and> list_ex is_ascii_hexdigit (take 1 (drop 1 cs))
        then ''0x#'' @ normalize_loop (n + 3) False (dropWhile is_ascii_hexdigit (drop 1 cs))
      else if is_ascii_digit c
        then ''#'' @ normalize_loop (n + 1) False (dropWhile is_ascii_digit cs)
      else if is_space c
        then (if spaced then normalize_loop n True cs else '' '' @ normalize_loop (n + 1) True cs)
      else [c] @ normalize_loop (n + 1) False cs)"
  by pat_completeness auto
termination
  by (relation "measure (\<lambda>(n, spaced, cs). length cs)")
     (auto simp: less_Suc_eq_le intro: order_trans [OF length_dropWhile_le])

definition normalize_error_text :: "string \<Rightarrow> string" where
  "normalize_error_text text = trim (normalize_loop 0 False text)"

definition error_text_hash :: "string \<Rightarrow> u64" where
  "error_text_hash text = input_hash (normalize_error_text text)"

fun content_byte_len :: "content_ref \<Rightarrow> u64" where
  "content_byte_len (InlineContent text) = length text"
| "content_byte_len (ArtifactContent _ n _ _) = n"

fun content_hash :: "content_ref \<Rightarrow> u64" where
  "content_hash (InlineContent text) = input_hash text"
| "content_hash (ArtifactContent _ _ h _) = h"

datatype normalized_event =
    ModelSeen string
  | TurnStart "u64 option"
  | UserText u64
  | AssistantFirstText "u64 option"
  | AssistantFinal string u64 "u64 option"
  | AssistantThought u64
  | ToolCalled string u64 "u64 option"
  | ToolResult bool
  | ToolErrorText u64
  | ToolResultSize u64 u64
  | ToolResultTimestamp "u64 option"
  | Compacted

fun block_text :: "assistant_block \<Rightarrow> string" where
  "block_text (TextBlock text) = text"
| "block_text (RefusalBlock text) = text"
| "block_text _ = []"

fun block_thinking :: "u64 \<Rightarrow> assistant_block \<Rightarrow> u64" where
  "block_thinking n (ThinkingBlock text _) = sat_add n (length text)"
| "block_thinking n _ = n"

fun project_event :: "(json \<Rightarrow> string) \<Rightarrow> conversation \<Rightarrow> journal_event \<Rightarrow> normalized_event list" where
  "project_event print v (InputAcknowledged _ text _ at_ms) = [TurnStart at_ms, UserText (length text)]"
| "project_event print v (AssistantMessageCommitted _ blocks usage at_ms) =
     (let text = concat (map block_text blocks); thinking = foldl block_thinking 0 blocks;
          tokens = (case usage of None \<Rightarrow> 0 | Some u \<Rightarrow>
                      (case map_of (cv_usage v) u of None \<Rightarrow> 0 | Some r \<Rightarrow> us_input_tokens r))
      in (if text = [] then [] else [AssistantFirstText at_ms]) @ [AssistantFinal text tokens at_ms]
         @ (if 0 < thinking then [AssistantThought thinking] else []))"
| "project_event print v (ToolCallPrepared _ name arguments _ at_ms) =
     [ToolCalled name (input_hash (print arguments)) at_ms]"
| "project_event print v (ToolExecution _ _ st result detail at_ms) =
     (if st \<notin> {Completed, Failed} then []
      else [ToolResult (st = Failed)]
         @ (case detail of Some d \<Rightarrow> if st = Failed then [ToolErrorText (error_text_hash d)] else [] | None \<Rightarrow> [])
         @ (case result of Some r \<Rightarrow> [ToolResultSize (content_byte_len r) (content_hash r)] | None \<Rightarrow> [])
         @ [ToolResultTimestamp at_ms])"
| "project_event print v (Checkpoint _ kind _) = (if kind = CompactionPoint then [Compacted] else [])"
| "project_event print v _ = []"

definition normalized_events :: "(json \<Rightarrow> string) \<Rightarrow> tables \<Rightarrow> string \<Rightarrow> journal_error + normalized_event list" where
  "normalized_events print t s =
     and_then (replay t s) (\<lambda>v. and_then (read_events t s) (\<lambda>es.
       Inr (ModelSeen (jr_model (si_route (cv_identity v)))
            # concat (map (\<lambda>e. project_event print v (sv_event e)) es))))"

section \<open>Artifacts\<close>

definition replacement :: "nat list" where
  "replacement = [0xEF, 0xBF, 0xBD]"

fun lossy_from :: "nat list \<Rightarrow> (nat \<times> nat) list \<Rightarrow> nat list \<Rightarrow> nat list" where
  "lossy_from seen pending [] = (if seen = [] then [] else replacement)"
| "lossy_from seen pending (b # bs) =
     (case pending of
        (lo, hi) # rest \<Rightarrow>
          if lo \<le> b \<and> b \<le> hi
            then (if rest = [] then seen @ [b] @ lossy_from [] [] bs else lossy_from (seen @ [b]) rest bs)
          else replacement @
            (case utf8_tail b of
               None \<Rightarrow> replacement @ lossy_from [] [] bs
             | Some [] \<Rightarrow> b # lossy_from [] [] bs
             | Some rest \<Rightarrow> lossy_from [b] rest bs)
      | [] \<Rightarrow>
          (case utf8_tail b of
             None \<Rightarrow> replacement @ lossy_from [] [] bs
           | Some [] \<Rightarrow> b # lossy_from [] [] bs
           | Some rest \<Rightarrow> lossy_from [b] rest bs))"

definition from_utf8_lossy :: "string \<Rightarrow> string" where
  "from_utf8_lossy s = map char_of (lossy_from [] [] (map of_char s))"

definition put_artifact :: "(string \<Rightarrow> string) \<Rightarrow> string \<Rightarrow> string \<Rightarrow> u64 \<Rightarrow> content_ref operation" where
  "put_artifact sha media bytes created =
     checked
       (and_then (sql_u64 ''artifact byte length'' (length bytes)) (\<lambda>_. sql_u64 ''created_at'' created))
       (\<lambda>t. Inr
          ((if tb_artifacts t (sha bytes) \<noteq> None then t
            else t\<lparr>tb_artifacts := (tb_artifacts t)(sha bytes \<mapsto>
              \<lparr>af_media_type = media, af_byte_len = length bytes, af_content = bytes, af_created_at = created\<rparr>)\<rparr>),
           ArtifactContent (sha bytes) (length bytes) (input_hash (from_utf8_lossy bytes)) media))"

definition read_artifact :: "tables \<Rightarrow> string \<Rightarrow> string option" where
  "read_artifact t digest = map_option af_content (tb_artifacts t digest)"

section \<open>Provider continuations\<close>

definition continuation_of :: "journal_route_identity \<Rightarrow> continuation_identity" where
  "continuation_of r = \<lparr>ci_route = jr_route r, ci_provider = jr_provider r, ci_endpoint = jr_endpoint r,
     ci_account = jr_account r, ci_protocol = jr_protocol r, ci_vendor = jr_vendor r, ci_model = jr_model r\<rparr>"

definition store_continuation ::
    "string \<Rightarrow> string \<Rightarrow> continuation_identity \<Rightarrow> string \<Rightarrow> u64 \<Rightarrow> unit operation" where
  "store_continuation s attempt i envelope created j =
     checked
       (and_then (read_session (jn_tables j) s) (\<lambda>session.
        if continuation_of (si_route session) \<noteq> i then Inl ContinuationMismatch
        else sql_u64 ''created_at'' created))
       (\<lambda>t. Inr (t\<lparr>tb_continuations := (tb_continuations t)(s := (tb_continuations t s)(attempt \<mapsto>
          \<lparr>co_identity = i, co_envelope = envelope, co_created_at = created\<rparr>))\<rparr>, ())) j"

definition load_continuation ::
    "tables \<Rightarrow> string \<Rightarrow> string \<Rightarrow> continuation_identity \<Rightarrow> journal_error + string option" where
  "load_continuation t s attempt i =
     (case tb_continuations t s attempt of
        None \<Rightarrow> Inr None
      | Some r \<Rightarrow> if co_identity r \<noteq> i then Inl ContinuationMismatch else Inr (Some (co_envelope r)))"

end
