(* ===== verification/Journal_Log.thy ===== *)
theory Journal_Log
  imports Journal_Reads
begin

text \<open>
  The log of one session, as a list of rows: what an appended event must satisfy for the log to
  keep reducing, and what the reduced conversation then tracks.
\<close>

section \<open>Lists of fallible steps\<close>

lemma fold_err_append: "fold_err f s (xs @ ys) = and_then (fold_err f s xs) (\<lambda>t. fold_err f t ys)"
  by (induction xs arbitrary: s) (simp_all add: and_then_assoc)

lemma decode_rows_snoc:
  "decode_rows (rs @ [r]) = and_then (decode_rows rs) (\<lambda>es. and_then (decode_event r) (\<lambda>e. Inr (es @ [e])))"
  by (induction rs) (simp_all add: and_then_assoc)

lemma usage_checked:
  "fold_err (usage_check v) () ms = Inr ()
     \<longleftrightarrow> (\<forall>m \<in> set ms. \<forall>u. ms_usage m = Some u \<longrightarrow> map_of (cv_usage v) u \<noteq> None)"
  by (induction ms) (auto simp: usage_check_def split: option.splits)

section \<open>Selecting rows of an ordered log\<close>

definition numbered :: "nat \<Rightarrow> event_row list \<Rightarrow> bool" where
  "numbered n rows \<longleftrightarrow> map ev_sequence rows = [1..<Suc n]"

lemma numbered_sorted: "numbered n rows \<Longrightarrow> sorted (map ev_sequence rows)"
  by (simp add: numbered_def del: upt_Suc)

lemma numbered_snoc: "numbered n rows \<Longrightarrow> ev_sequence r = Suc n \<Longrightarrow> numbered (Suc n) (rows @ [r])"
  by (simp add: numbered_def)

lemma numbered_Nil [simp]: "numbered n [] \<longleftrightarrow> n = 0"
  by (simp add: numbered_def)

lemma select_numbered: "numbered n rows \<Longrightarrow> select_rows p rows = filter p rows"
  unfolding select_rows_def
  by (intro sort_key_id_if_sorted sorted_filter numbered_sorted)

lemma select_snoc:
  assumes "numbered n rows" and "ev_sequence r = Suc n"
  shows "select_rows p (rows @ [r]) = (if p r then select_rows p rows @ [r] else select_rows p rows)"
  using select_numbered [OF numbered_snoc [OF assms]] select_numbered [OF assms(1)] by simp

lemma latest_other:
  assumes "numbered n rows" and "ev_sequence r = Suc n" and "\<not> of_execution x r"
  shows "latest_in (rows @ [r]) x = latest_in rows x"
  using assms by (simp add: latest_in_def select_snoc)

lemma latest_same:
  assumes "numbered n rows" and "ev_sequence r = Suc n" and "of_execution x r"
    and "ev_payload r = Holds (ToolExecution y c st result detail ms)"
  shows "latest_in (rows @ [r]) x = Inr (Some \<lparr>xr_sequence = Suc n, xr_tool_call = c, xr_state = st,
           xr_result = result, xr_detail = detail\<rparr>)"
  using assms by (cases "select_rows (of_execution x) rows") (simp_all add: latest_in_def select_snoc)

lemma has_usage_snoc:
  "has_usage (rows @ [r]) u \<longleftrightarrow> has_usage rows u \<or> ev_kind r = ''usage_recorded'' \<and> ix_usage (ev_ids r) = Some u"
  by (simp add: has_usage_def)

lemma has_tool_call_snoc:
  "has_tool_call (rows @ [r]) c
     \<longleftrightarrow> has_tool_call rows c \<or> ev_kind r = ''tool_call_prepared'' \<and> ix_tool_call (ev_ids r) = Some c"
  by (simp add: has_tool_call_def)

section \<open>Events that keep the log reducing\<close>

fun admissible :: "event_row list \<Rightarrow> journal_event \<Rightarrow> bool" where
  "admissible rows (AssistantMessageCommitted _ _ usage _) \<longleftrightarrow> pred_option (has_usage rows) usage"
| "admissible rows (ToolExecution x c to result _ _) \<longleftrightarrow>
     has_tool_call rows c
     \<and> (case latest_in rows x of
          Inr None \<Rightarrow> to = Prepared \<and> result = None
        | Inr (Some p) \<Rightarrow> xr_tool_call p = c \<and> validate_execution_transition (xr_state p) to result = Inr ()
        | Inl _ \<Rightarrow> False)"
| "admissible rows (ToolCallPrepared _ _ arguments _ _) \<longleftrightarrow> is_object arguments"
| "admissible rows _ \<longleftrightarrow> True"

definition tracks :: "nat \<Rightarrow> event_row list \<Rightarrow> conversation \<Rightarrow> bool" where
  "tracks n rows v \<longleftrightarrow>
     cv_last_sequence v = n
     \<and> bt_ok (cv_tool_calls v) \<and> bt_ok (cv_executions v)
     \<and> (\<forall>u. map_of (cv_usage v) u \<noteq> None \<longleftrightarrow> has_usage rows u)
     \<and> (\<forall>c. map_of (cv_tool_calls v) c \<noteq> None \<longleftrightarrow> has_tool_call rows c)
     \<and> (\<forall>c r. map_of (cv_tool_calls v) c = Some r \<longrightarrow> is_object (tc_arguments r))
     \<and> (\<forall>x. latest_in rows x = Inr (map_of (cv_executions v) x))
     \<and> (\<forall>x p. map_of (cv_executions v) x = Some p \<longrightarrow> has_tool_call rows (xr_tool_call p))
     \<and> (\<forall>m \<in> set (cv_messages v). \<forall>u. ms_usage m = Some u \<longrightarrow> has_usage rows u)"

lemma row_of_fields [simp]:
  "ev_sequence (event_row_of n g sc e at) = n" "ev_generation (event_row_of n g sc e at) = g"
  "ev_kind (event_row_of n g sc e at) = event_kind e" "ev_ids (event_row_of n g sc e at) = event_ids e"
  "ev_payload (event_row_of n g sc e at) = Holds e" "ev_committed_at (event_row_of n g sc e at) = at"
  by (simp_all add: event_row_of_def)

lemma no_ids_fields [simp]:
  "ix_message no_ids = None" "ix_tool_call no_ids = None" "ix_execution no_ids = None"
  "ix_usage no_ids = None" "ix_task no_ids = None" "ix_checkpoint no_ids = None"
  by (simp_all add: no_ids_def)

lemma row_of_execution [simp]:
  "of_execution x (event_row_of n g sc e at) \<longleftrightarrow> (\<exists>c st result detail ms. e = ToolExecution x c st result detail ms)"
  by (cases e) (auto simp: of_execution_def)

lemma decode_row_of [simp]:
  "decode_event (event_row_of n g sc e at) = Inr \<lparr>sv_sequence = n, sv_generation = g,
     sv_scope = ev_scope (event_row_of n g sc e at), sv_committed_at = at, sv_event = e\<rparr>"
  by (simp add: decode_event_def)

lemma fresh_usage:
  "\<not> list_ex (collides (event_row_of n g sc (UsageRecorded u) at)) rows \<Longrightarrow> \<not> has_usage rows (us_id u)"
  by (auto simp: has_usage_def list_ex_iff collides_def same_id_def)

lemma fresh_tool_call:
  "\<not> list_ex (collides (event_row_of n g sc (ToolCallPrepared c m a p ms) at)) rows \<Longrightarrow> \<not> has_tool_call rows c"
  by (auto simp: has_tool_call_def list_ex_iff collides_def same_id_def)

lemma reduce_step_tracks:
  assumes n: "numbered n rows" and v: "tracks n rows v" and e: "admissible rows e"
    and free: "\<not> list_ex (collides (event_row_of (Suc n) g sc e at)) rows"
  obtains v' where "reduce_event (Suc n) e (v\<lparr>cv_last_sequence := Suc n\<rparr>) = Inr v'"
    and "tracks (Suc n) (rows @ [event_row_of (Suc n) g sc e at]) v'"
proof (cases e)
  case (ToolExecution x c to result detail ms)
  let ?r = "event_row_of (Suc n) g sc e at"
  have known: "map_of (cv_tool_calls v) c \<noteq> None" using v e ToolExecution by (auto simp: tracks_def)
  have ok: "check_execution x c to result (v\<lparr>cv_last_sequence := Suc n\<rparr>) = Inr ()"
    using v e ToolExecution known
    by (auto simp: tracks_def check_execution_def split: sum.splits option.splits)
  have "latest_in (rows @ [?r]) y = Inr (((map_of (cv_executions v))(x \<mapsto> \<lparr>xr_sequence = Suc n,
      xr_tool_call = c, xr_state = to, xr_result = result, xr_detail = detail\<rparr>)) y)" for y
    using n v ToolExecution
    by (cases "y = x") (simp_all add: latest_same [OF n] latest_other [OF n] tracks_def)
  then show ?thesis using that v e ok ToolExecution
    by (simp add: tracks_def has_usage_snoc has_tool_call_snoc)
next
  case (UsageRecorded u)
  with fresh_usage [of "Suc n" g sc u at rows] free v have "map_of (cv_usage v) (us_id u) = None"
    by (auto simp: tracks_def)
  then show ?thesis using that v UsageRecorded
    by (auto simp: tracks_def has_usage_snoc has_tool_call_snoc latest_other [OF n])
next
  case (ToolCallPrepared c m a p ms)
  with fresh_tool_call [of "Suc n" g sc c m a p ms at rows] free v have "map_of (cv_tool_calls v) c = None"
    by (auto simp: tracks_def)
  then show ?thesis using that v e ToolCallPrepared
    by (auto simp: tracks_def has_usage_snoc has_tool_call_snoc latest_other [OF n])
next
  case (AssistantMessageCommitted m blocks usage ms)
  with e have "usage = Some u \<Longrightarrow> has_usage rows u" for u by simp
  then show ?thesis using that v AssistantMessageCommitted
    by (auto simp: tracks_def has_usage_snoc has_tool_call_snoc latest_other [OF n])
qed (use that v in \<open>auto simp: tracks_def has_usage_snoc has_tool_call_snoc latest_other [OF n]\<close>)

section \<open>The executions a reconciliation finds\<close>

definition started_row :: "event_row \<Rightarrow> (string \<times> string) list" where
  "started_row r =
     (case ev_payload r of
        Holds (ToolExecution _ c Started _ _ _) \<Rightarrow>
          (case ix_execution (ev_ids r) of Some x \<Rightarrow> [(x, c)] | None \<Rightarrow> [])
      | _ \<Rightarrow> [])"

lemma started_of_Inr: "started_of acc r = Inr out \<Longrightarrow> out = acc @ started_row r"
  by (auto simp: started_of_def started_row_def opaque_id_def
      split: stored.splits journal_event.splits if_splits option.splits execution_state.splits)

lemma fold_started: "fold_err started_of acc rs = Inr out \<Longrightarrow> out = acc @ concat (map started_row rs)"
proof (induction rs arbitrary: acc)
  case (Cons r rs)
  from Cons.prems have "fold_err started_of (acc @ started_row r) rs = Inr out"
    by (auto simp: and_then_Inr_iff dest: started_of_Inr)
  from Cons.IH [OF this] show ?case by simp
qed simp

lemma decode_rows_kind:
  "decode_rows rows = Inr es \<Longrightarrow> r \<in> set rows \<Longrightarrow> \<exists>e. ev_payload r = Holds e \<and> event_kind e = ev_kind r"
  by (induction rows arbitrary: es)
     (auto simp: and_then_Inr_iff decode_event_def split: stored.splits if_splits)

lemma numbered_strict: "numbered n rows \<Longrightarrow> sorted_wrt (<) (map ev_sequence rows)"
  by (simp add: numbered_def del: upt_Suc)

lemma event_kind_tool:
  "event_kind e = ''tool_execution'' \<longleftrightarrow> (\<exists>x c st result detail ms. e = ToolExecution x c st result detail ms)"
  by (cases e) simp_all

lemma last_is_top: "sorted_wrt (<) (map f xs) \<Longrightarrow> q \<in> set xs \<Longrightarrow> f q \<le> f (last xs)"
  for f :: "'a \<Rightarrow> nat"
  by (induction xs rule: rev_induct) (auto simp: sorted_wrt_append)

lemma numbered_distinct: "numbered n rows \<Longrightarrow> distinct (map ev_sequence rows)"
  by (simp add: numbered_def del: upt_Suc)

lemma newest_is_last:
  assumes n: "numbered n rows" and r: "r \<in> set rows"
  shows "newest_of_execution rows r \<and> ix_execution (ev_ids r) = Some x
     \<longleftrightarrow> filter (of_execution x) rows \<noteq> [] \<and> last (filter (of_execution x) rows) = r"
proof -
  let ?fs = "filter (of_execution x) rows"
  have s: "sorted_wrt (<) (map ev_sequence ?fs)"
    using sorted_wrt_filter [of "\<lambda>a b. ev_sequence a < ev_sequence b" rows "of_execution x"] numbered_strict [OF n]
    by (simp add: sorted_wrt_map)
  have top: "ev_sequence q \<le> ev_sequence (last ?fs)" if "q \<in> set ?fs" for q
    using last_is_top [OF s that] .
  have inj: "q = r" if "q \<in> set rows" "ev_sequence q = ev_sequence r" for q
    using that r numbered_distinct [OF n] by (auto simp: distinct_map inj_on_def)
  show ?thesis
  proof
    assume l: "newest_of_execution rows r \<and> ix_execution (ev_ids r) = Some x"
    then have m: "r \<in> set ?fs" using r by (auto simp: newest_of_execution_def of_execution_def)
    then have ne: "?fs \<noteq> []" by force
    then have la: "last ?fs \<in> set ?fs" by (rule last_in_set)
    then have "ev_sequence (last ?fs) \<le> ev_sequence r"
      using l by (auto simp: newest_of_execution_def list_all_iff of_execution_def same_id_def)
    with top [OF m] have "ev_sequence (last ?fs) = ev_sequence r" by simp
    with la inj ne show "?fs \<noteq> [] \<and> last ?fs = r" by auto
  next
    assume a: "?fs \<noteq> [] \<and> last ?fs = r"
    then have "r \<in> set ?fs" using last_in_set by metis
    then have k: "of_execution x r" by simp
    have "ev_sequence q \<le> ev_sequence r" if "q \<in> set rows" "of_execution x q" for q
      using top [of q] that a by simp
    with k show "newest_of_execution rows r \<and> ix_execution (ev_ids r) = Some x"
      by (auto simp: newest_of_execution_def of_execution_def list_all_iff same_id_def)
  qed
qed

lemma latest_of_last:
  assumes n: "numbered n rows" and f: "filter (of_execution x) rows \<noteq> []"
    and p: "ev_payload (last (filter (of_execution x) rows)) = Holds (ToolExecution y c st result detail ms)"
  shows "latest_in rows x = Inr (Some \<lparr>xr_sequence = ev_sequence (last (filter (of_execution x) rows)),
           xr_tool_call = c, xr_state = st, xr_result = result, xr_detail = detail\<rparr>)"
  using f p by (cases "filter (of_execution x) rows") (simp_all add: latest_in_def select_numbered [OF n])

lemma started_row_iff:
  "(x, c) \<in> set (started_row r)
     \<longleftrightarrow> ix_execution (ev_ids r) = Some x
       \<and> (\<exists>y result detail ms. ev_payload r = Holds (ToolExecution y c Started result detail ms))"
  unfolding started_row_def
  by (cases "ev_payload r"; cases "ix_execution (ev_ids r)")
     (auto split: journal_event.splits execution_state.splits)

lemma started_row_fst: "map fst (started_row r) = [] \<or> (\<exists>x. ix_execution (ev_ids r) = Some x \<and> map fst (started_row r) = [x])"
  by (auto simp: started_row_def split: stored.splits journal_event.splits execution_state.splits option.splits)

lemma started_found:
  assumes n: "numbered n rows" and d: "decode_rows rows = Inr es"
  shows "(\<exists>r \<in> set rows. newest_of_execution rows r \<and> (x, c) \<in> set (started_row r))
     \<longleftrightarrow> (\<exists>p. latest_in rows x = Inr (Some p) \<and> xr_state p = Started \<and> xr_tool_call p = c)"
proof
  assume "\<exists>r \<in> set rows. newest_of_execution rows r \<and> (x, c) \<in> set (started_row r)"
  then obtain r y result detail ms where r: "r \<in> set rows" "newest_of_execution rows r"
    "ix_execution (ev_ids r) = Some x" "ev_payload r = Holds (ToolExecution y c Started result detail ms)"
    by (auto simp: started_row_iff)
  with newest_is_last [OF n r(1), of x] latest_of_last [OF n, of x y c Started result detail ms]
  show "\<exists>p. latest_in rows x = Inr (Some p) \<and> xr_state p = Started \<and> xr_tool_call p = c" by simp
next
  assume "\<exists>p. latest_in rows x = Inr (Some p) \<and> xr_state p = Started \<and> xr_tool_call p = c"
  then obtain p where p: "latest_in rows x = Inr (Some p)" "xr_state p = Started" "xr_tool_call p = c" by blast
  let ?fs = "filter (of_execution x) rows"
  from p(1) have f: "?fs \<noteq> []" by (auto simp: latest_in_def select_numbered [OF n])
  define r where "r = last ?fs"
  from f have "r \<in> set ?fs" unfolding r_def by (rule last_in_set)
  then have r: "r \<in> set rows" "of_execution x r" by auto
  from decode_rows_kind [OF d r(1)] r(2) obtain y c' st result detail ms where
    e: "ev_payload r = Holds (ToolExecution y c' st result detail ms)"
    unfolding of_execution_def by (metis event_kind_tool)
  from latest_of_last [OF n f] e p have "st = Started" "c' = c" by (simp_all add: r_def)
  with e r newest_is_last [OF n r(1), of x] f show
    "\<exists>r \<in> set rows. newest_of_execution rows r \<and> (x, c) \<in> set (started_row r)"
    by (auto simp: r_def [symmetric] started_row_iff)
qed

end
