(* ===== verification/Journal_Runs.thy ===== *)
theory Journal_Runs
  imports Journal_Log
begin

text \<open>
  What the operations of the journal do to its tables: every committed transaction is a sequence
  of five kinds of table steps, and each of them keeps every log numbered, fenced and reducing.
\<close>

section \<open>Sessions\<close>

lemma session_of_update:
  assumes "\<And>r. si_session (f r) = si_session r"
  shows "session_of (update_session s f t) k = (if k = s then map_option f (session_of t k) else session_of t k)"
proof -
  have "find (\<lambda>r. si_session r = k) (map (\<lambda>r. if si_session r = s then f r else r) rs) =
      (if k = s then map_option f (find (\<lambda>r. si_session r = k) rs) else find (\<lambda>r. si_session r = k) rs)" for rs
    by (induction rs) (auto simp: assms)
  then show ?thesis by (simp add: session_of_def update_session_def)
qed

lemma session_of_member: "session_of t s = Some q \<Longrightarrow> q \<in> set (tb_sessions t) \<and> si_session q = s"
  unfolding session_of_def by (auto simp: find_Some_iff)

lemma session_of_None: "session_of t s = None \<longleftrightarrow> s \<notin> si_session ` set (tb_sessions t)"
  by (auto simp: session_of_def find_None_iff)

lemma session_of_unique:
  assumes "distinct (map si_session (tb_sessions t))" and "q \<in> set (tb_sessions t)"
  shows "session_of t (si_session q) = Some q"
proof -
  obtain p where p: "session_of t (si_session q) = Some p"
    using assms(2) session_of_None [of t "si_session q"] by (cases "session_of t (si_session q)") auto
  from session_of_member [OF this] have "p \<in> set (tb_sessions t)" "si_session p = si_session q" by auto
  then have "p = q" using assms by (auto simp: distinct_map inj_on_def)
  with p show ?thesis by simp
qed

lemma update_fields [simp]:
  "tb_events (update_session s f t) = tb_events t" "tb_frames (update_session s f t) = tb_frames t"
  "tb_continuations (update_session s f t) = tb_continuations t"
  "tb_artifacts (update_session s f t) = tb_artifacts t"
  by (simp_all add: update_session_def)

lemma update_keys [simp]:
  assumes "\<And>r. si_session (f r) = si_session r"
  shows "map si_session (tb_sessions (update_session s f t)) = map si_session (tb_sessions t)"
  by (simp add: update_session_def assms)

lemma session_of_cong: "tb_sessions t = tb_sessions u \<Longrightarrow> session_of t s = session_of u s"
  by (simp add: session_of_def)

lemma session_of_with: "session_of (t\<lparr>tb_events := ev\<rparr>) s = session_of t s"
  by (rule session_of_cong) simp

section \<open>The steps of a committed transaction\<close>

definition same_logs :: "tables \<Rightarrow> tables \<Rightarrow> bool" where
  "same_logs t u \<longleftrightarrow> tb_events u = tb_events t
     \<and> map (\<lambda>r. (si_session r, si_generation r, sr_next_sequence r)) (tb_sessions u)
       = map (\<lambda>r. (si_session r, si_generation r, sr_next_sequence r)) (tb_sessions t)"

definition pruned :: "u64 \<Rightarrow> tables \<Rightarrow> tables" where
  "pruned c t =
     (let kept = (\<lambda>s. s \<notin> si_session ` set (filter (doomed c) (tb_sessions t)))
      in t\<lparr>tb_sessions := filter (\<lambda>r. \<not> doomed c r) (tb_sessions t),
           tb_events := (\<lambda>s. if kept s then tb_events t s else []),
           tb_frames := (\<lambda>s. if kept s then tb_frames t s else (\<lambda>_. [])),
           tb_continuations := (\<lambda>s. if kept s then tb_continuations t s else (\<lambda>_. None))\<rparr>)"

definition raised :: "string \<Rightarrow> u64 \<Rightarrow> u64 \<Rightarrow> tables \<Rightarrow> tables" where
  "raised s g at = update_session s (\<lambda>r. r\<lparr>si_generation := g, sr_updated_at := at\<rparr>)"

inductive table_step :: "tables \<Rightarrow> tables \<Rightarrow> bool" where
  beside: "same_logs t u \<Longrightarrow> table_step t u"
| created: "session_of t (si_session i) = None \<Longrightarrow>
    table_step t (t\<lparr>tb_sessions := tb_sessions t @ [session_identity.extend i (session_row.fields at 0)]\<rparr>)"
| appended: "append_tx s g sc e at t = Inr (u, n) \<Longrightarrow> admissible (tb_events t s) e \<Longrightarrow> table_step t u"
| advanced: "session_of t s = Some q \<Longrightarrow> si_generation q < g \<Longrightarrow>
    append_tx s g no_scope (GenerationAdvanced (si_generation q) g) at (raised s g at t) = Inr (u, n)
    \<Longrightarrow> table_step t u"
| swept: "table_step t (pruned c t)"

abbreviation table_steps :: "tables \<Rightarrow> tables \<Rightarrow> bool" where
  "table_steps \<equiv> table_step\<^sup>*\<^sup>*"

lemma append_tx_Inr:
  "append_tx s g sc e at t = Inr (u, n) \<longleftrightarrow>
     (\<exists>q. session_of t s = Some q \<and> si_generation q = g \<and> n = Suc (sr_next_sequence q)
        \<and> n \<le> i64_max \<and> g \<le> i64_max \<and> at \<le> i64_max
        \<and> \<not> list_ex (collides (event_row_of n g sc e at)) (tb_events t s)
        \<and> u = update_session s (\<lambda>q. q\<lparr>sr_next_sequence := n, sr_updated_at := at\<rparr>)
                (t\<lparr>tb_events := (tb_events t)(s := tb_events t s @ [event_row_of n g sc e at])\<rparr>))"
  by (cases "session_of t s")
     (auto simp: append_tx_def ensure_generation_def and_then_Inr_iff sql_u64_def i64_max_def u64_max_def
        Let_def split: if_splits)

section \<open>Every step keeps the logs\<close>

definition log_ok :: "u64 \<Rightarrow> nat \<Rightarrow> event_row list \<Rightarrow> bool" where
  "log_ok g n rows \<longleftrightarrow>
     numbered n rows \<and> sorted (map ev_generation rows) \<and> (\<forall>r \<in> set rows. ev_generation r \<le> g)
     \<and> (\<exists>es. decode_rows rows = Inr es
          \<and> (\<forall>i. \<exists>v. fold_err reduce_step (new_conversation i) es = Inr v \<and> tracks n rows v))"

definition tables_ok :: "tables \<Rightarrow> bool" where
  "tables_ok t \<longleftrightarrow>
     distinct (map si_session (tb_sessions t))
     \<and> (\<forall>s. session_of t s = None \<longrightarrow> tb_events t s = [])
     \<and> (\<forall>s q. session_of t s = Some q \<longrightarrow> log_ok (si_generation q) (sr_next_sequence q) (tb_events t s))"

lemma tables_okD:
  assumes "tables_ok t" and "session_of t s = Some q"
  shows "log_ok (si_generation q) (sr_next_sequence q) (tb_events t s)"
  using assms by (simp add: tables_ok_def)

lemma log_ok_empty: "log_ok g 0 []"
  by (auto simp: log_ok_def new_conversation_def tracks_def has_usage_def has_tool_call_def latest_in_def
       select_rows_def)

lemma log_ok_raise: "log_ok g n rows \<Longrightarrow> g \<le> h \<Longrightarrow> log_ok h n rows"
  unfolding log_ok_def by fastforce

lemma reduce_step_last [simp]: "tracks n rows v \<Longrightarrow> sv_sequence e = Suc n \<Longrightarrow>
    reduce_step v e = reduce_event (Suc n) (sv_event e) (v\<lparr>cv_last_sequence := Suc n\<rparr>)"
  by (simp add: reduce_step_def tracks_def)

lemma log_ok_snoc:
  assumes l: "log_ok g n rows" and e: "admissible rows e"
    and free: "\<not> list_ex (collides (event_row_of (Suc n) g sc e at)) rows"
  shows "log_ok g (Suc n) (rows @ [event_row_of (Suc n) g sc e at])"
proof -
  let ?r = "event_row_of (Suc n) g sc e at"
  from l obtain es where n: "numbered n rows" and es: "decode_rows rows = Inr es"
    and v: "\<And>i. \<exists>v. fold_err reduce_step (new_conversation i) es = Inr v \<and> tracks n rows v"
    by (auto simp: log_ok_def)
  obtain ev where ev: "decode_event ?r = Inr ev" "sv_sequence ev = Suc n" "sv_event ev = e" by simp
  have "\<exists>v. fold_err reduce_step (new_conversation i) (es @ [ev]) = Inr v \<and> tracks (Suc n) (rows @ [?r]) v" for i
  proof -
    from v [of i] obtain w where w: "fold_err reduce_step (new_conversation i) es = Inr w" "tracks n rows w" by blast
    from reduce_step_tracks [OF n w(2) e free] obtain v' where
      "reduce_event (Suc n) e (w\<lparr>cv_last_sequence := Suc n\<rparr>) = Inr v'" "tracks (Suc n) (rows @ [?r]) v'" .
    with w ev show ?thesis by (simp add: fold_err_append)
  qed
  moreover have "decode_rows (rows @ [?r]) = Inr (es @ [ev])" using es ev by (simp add: decode_rows_snoc)
  moreover have "numbered (Suc n) (rows @ [?r])" by (rule numbered_snoc [OF n]) simp
  ultimately show ?thesis using l by (auto simp: log_ok_def sorted_append)
qed

lemma tables_ok_append:
  assumes t: "tables_ok t" and a: "append_tx s g sc e at t = Inr (u, n)" and e: "admissible (tb_events t s) e"
  shows "tables_ok u"
proof -
  from a obtain q where q: "session_of t s = Some q" "si_generation q = g" "n = Suc (sr_next_sequence q)"
    and free: "\<not> list_ex (collides (event_row_of n g sc e at)) (tb_events t s)"
    and u: "u = update_session s (\<lambda>q. q\<lparr>sr_next_sequence := n, sr_updated_at := at\<rparr>)
              (t\<lparr>tb_events := (tb_events t)(s := tb_events t s @ [event_row_of n g sc e at])\<rparr>)"
    unfolding append_tx_Inr by blast
  have "log_ok g n (tb_events t s @ [event_row_of n g sc e at])"
    using log_ok_snoc [OF tables_okD [OF t q(1)]] e free q by simp
  then show ?thesis using t q unfolding u tables_ok_def
    by (auto simp: session_of_update session_of_with)
qed

lemma tables_ok_raised:
  assumes t: "tables_ok t" and q: "session_of t s = Some q" and g: "si_generation q < g"
  shows "tables_ok (raised s g at t)"
  using t q log_ok_raise [OF tables_okD [OF t q] less_imp_le [OF g]]
  unfolding tables_ok_def raised_def by (auto simp: session_of_update)

lemma same_logs_lookup:
  assumes "same_logs t u"
  shows "map_option (\<lambda>q. (si_generation q, sr_next_sequence q)) (session_of u s)
       = map_option (\<lambda>q. (si_generation q, sr_next_sequence q)) (session_of t s)"
proof -
  have "map_option (\<lambda>q. (si_generation q, sr_next_sequence q)) (find (\<lambda>r. si_session r = s) rs) =
      map_option (\<lambda>p. snd p) (find (\<lambda>p. fst p = s)
        (map (\<lambda>r. (si_session r, si_generation r, sr_next_sequence r)) rs))" for rs
    by (induction rs) auto
  from this [of "tb_sessions u"] this [of "tb_sessions t"] assms show ?thesis
    by (simp only: session_of_def same_logs_def)
qed

lemma same_logs_keys:
  assumes "same_logs t u"
  shows "map si_session (tb_sessions u) = map si_session (tb_sessions t)"
proof -
  from assms have "map fst (map (\<lambda>r. (si_session r, si_generation r, sr_next_sequence r)) (tb_sessions u))
      = map fst (map (\<lambda>r. (si_session r, si_generation r, sr_next_sequence r)) (tb_sessions t))"
    by (simp only: same_logs_def)
  then show ?thesis by (simp add: comp_def)
qed

lemma tables_ok_beside:
  assumes t: "tables_ok t" and u: "same_logs t u"
  shows "tables_ok u"
proof -
  have n: "session_of u s = None \<longleftrightarrow> session_of t s = None" for s
    using same_logs_lookup [OF u, of s] by (cases "session_of u s"; cases "session_of t s") auto
  have s: "\<exists>p. session_of t s = Some p \<and> si_generation p = si_generation q \<and> sr_next_sequence p = sr_next_sequence q"
    if "session_of u s = Some q" for s q
    using same_logs_lookup [OF u, of s] that by (cases "session_of t s") simp_all
  have e: "tb_events u = tb_events t" using u by (simp add: same_logs_def)
  show ?thesis using t n s unfolding tables_ok_def e same_logs_keys [OF u] by metis
qed

lemma session_of_snoc:
  "session_of (t\<lparr>tb_sessions := tb_sessions t @ [r]\<rparr>) s =
     (case session_of t s of Some q \<Rightarrow> Some q | None \<Rightarrow> if si_session r = s then Some r else None)"
proof -
  have "find P (xs @ [x]) = (case find P xs of Some q \<Rightarrow> Some q | None \<Rightarrow> if P x then Some x else None)"
    for P and xs :: "session_row list" and x
    by (induction xs) auto
  then show ?thesis by (simp add: session_of_def)
qed

lemma new_row [simp]:
  "si_session (session_identity.extend i (session_row.fields at n)) = si_session i"
  "si_generation (session_identity.extend i (session_row.fields at n)) = si_generation i"
  "sr_next_sequence (session_identity.extend i (session_row.fields at n)) = n"
  by (simp_all add: session_identity.defs session_row.defs)

lemma tables_ok_created:
  assumes t: "tables_ok t" and i: "session_of t (si_session i) = None"
  shows "tables_ok (t\<lparr>tb_sessions := tb_sessions t @ [session_identity.extend i (session_row.fields at 0)]\<rparr>)"
  using t i unfolding tables_ok_def
  by (auto simp: session_of_snoc log_ok_empty split: option.splits if_splits)
     (auto simp: session_of_None)

lemma session_of_pruned:
  assumes d: "distinct (map si_session (tb_sessions t))"
  shows "session_of (pruned c t) s = (case session_of t s of Some q \<Rightarrow> if doomed c q then None else Some q | None \<Rightarrow> None)"
proof -
  have "distinct (map si_session rs) \<Longrightarrow> find (\<lambda>r. si_session r = s) (filter (\<lambda>r. \<not> doomed c r) rs) =
      (case find (\<lambda>r. si_session r = s) rs of Some q \<Rightarrow> if doomed c q then None else Some q | None \<Rightarrow> None)" for rs
  proof (induction rs)
    case (Cons a rs)
    have "find (\<lambda>r. si_session r = si_session a) rs = None"
      using Cons.prems unfolding find_None_iff by (metis distinct.simps(2) image_eqI list.simps(9) set_map)
    with Cons show ?case by (cases "si_session a = s") auto
  qed simp
  then show ?thesis using d by (simp add: session_of_def pruned_def Let_def)
qed

lemma pruned_sessions:
  assumes d: "distinct (map si_session (tb_sessions t))"
  shows "s \<in> si_session ` set (filter (doomed c) (tb_sessions t))
     \<longleftrightarrow> (\<exists>q. session_of t s = Some q \<and> doomed c q)"
proof
  assume "s \<in> si_session ` set (filter (doomed c) (tb_sessions t))"
  then obtain q where "q \<in> set (tb_sessions t)" "doomed c q" "s = si_session q" by auto
  then show "\<exists>q. session_of t s = Some q \<and> doomed c q" using session_of_unique [OF d] by auto
next
  assume "\<exists>q. session_of t s = Some q \<and> doomed c q"
  then obtain q where "session_of t s = Some q" "doomed c q" by blast
  then show "s \<in> si_session ` set (filter (doomed c) (tb_sessions t))"
    using session_of_member [of t s q] by auto
qed

lemma pruned_events:
  assumes d: "distinct (map si_session (tb_sessions t))"
  shows "tb_events (pruned c t) s =
           (if \<exists>q. session_of t s = Some q \<and> doomed c q then [] else tb_events t s)"
  unfolding pruned_def Let_def by (auto simp: pruned_sessions [OF d] simp del: set_filter)

lemma tables_ok_pruned:
  assumes t: "tables_ok t"
  shows "tables_ok (pruned c t)"
proof -
  from t have d: "distinct (map si_session (tb_sessions t))" by (simp add: tables_ok_def)
  have "distinct (map si_session (tb_sessions (pruned c t)))"
    using d by (simp add: pruned_def Let_def distinct_map_filter)
  then show ?thesis using t
    unfolding tables_ok_def session_of_pruned [OF d] pruned_events [OF d]
    by (auto split: option.splits if_splits)
qed

lemma table_step_ok: "table_step t u \<Longrightarrow> tables_ok t \<Longrightarrow> tables_ok u"
proof (induction rule: table_step.induct)
  case (advanced t s q g at u n)
  then show ?case using tables_ok_append [OF tables_ok_raised [OF _ advanced(1,2)]] by simp
qed (blast intro: tables_ok_beside tables_ok_created tables_ok_append tables_ok_pruned)+

lemma table_steps_ok: "table_steps t u \<Longrightarrow> tables_ok t \<Longrightarrow> tables_ok u"
  by (induction rule: rtranclp_induct) (blast intro: table_step_ok)+

section \<open>Every operation is a sequence of steps\<close>

lemma in_tx_inv:
  assumes "in_tx body j = (j', r)" and "P (jn_tables j)"
    and "\<And>t v. body (jn_tables j) = Inr (t, v) \<Longrightarrow> P t"
  shows "P (jn_tables j')"
  using assms by (auto simp: in_tx_def Let_def split: prod.splits if_splits sum.splits)

lemma in_tx_Inr:
  assumes "in_tx body j = (j', Inr v)"
  shows "body (jn_tables j) = Inr (jn_tables j', v)"
  using assms by (auto simp: in_tx_def Let_def split: prod.splits if_splits sum.splits)

lemma in_tx_Inl: "in_tx body j = (j', Inl e) \<Longrightarrow> jn_tables j' = jn_tables j"
  by (auto simp: in_tx_def Let_def split: prod.splits if_splits sum.splits)

lemma checked_inv:
  assumes "checked pre body j = (j', r)" and "P (jn_tables j)"
    and "\<And>t v x. pre = Inr x \<Longrightarrow> body (jn_tables j) = Inr (t, v) \<Longrightarrow> P t"
  shows "P (jn_tables j')"
  using assms by (cases pre) (auto simp: checked_def intro: in_tx_inv)

lemma checked_Inr:
  assumes "checked pre body j = (j', Inr v)"
  shows "(\<exists>x. pre = Inr x) \<and> body (jn_tables j) = Inr (jn_tables j', v)"
  using assms by (cases pre) (auto simp: checked_def in_tx_Inr)

lemma checked_Inl: "checked pre body j = (j', Inl e) \<Longrightarrow> jn_tables j' = jn_tables j"
  by (cases pre) (auto simp: checked_def in_tx_Inl)

definition moves :: "journal \<times> 'b \<Rightarrow> journal \<Rightarrow> bool" where
  "moves p j \<longleftrightarrow> table_steps (jn_tables j) (jn_tables (fst p))"

lemma in_tx_moves:
  assumes "\<And>t v. body (jn_tables j) = Inr (t, v) \<Longrightarrow> table_steps (jn_tables j) t"
  shows "moves (in_tx body j) j"
  unfolding moves_def
  by (rule in_tx_inv [where j' = "fst (in_tx body j)" and r = "snd (in_tx body j)"]) (auto intro: assms)

lemma checked_moves:
  assumes "\<And>t v x. pre = Inr x \<Longrightarrow> body (jn_tables j) = Inr (t, v) \<Longrightarrow> table_steps (jn_tables j) t"
  shows "moves (checked pre body j) j"
  unfolding moves_def
  by (rule checked_inv [where j' = "fst (checked pre body j)" and r = "snd (checked pre body j)"])
     (auto intro: assms)

lemma one_append: "append_tx s g sc e at t = Inr (u, n) \<Longrightarrow> admissible (tb_events t s) e \<Longrightarrow> table_steps t u"
  by (blast intro: r_into_rtranclp appended)

lemma plain_append: "(\<And>rows. admissible rows e) \<Longrightarrow> moves (in_tx (append_tx s g sc e at) j) j"
  by (rule in_tx_moves) (erule one_append, simp)

lemma require_usage_Inr: "require_usage t s usage = Inr x \<Longrightarrow> pred_option (has_usage (tb_events t s)) usage"
  by (auto simp: require_usage_def split: option.splits if_splits)

lemma set_frames_beside: "same_logs t (set_frames s stream fs t)"
  by (simp add: same_logs_def set_frames_def)

lemma completed_beside:
  "same_logs t (update_session s (\<lambda>r. r\<lparr>si_completed_at := c, sr_updated_at := at\<rparr>) t)"
  by (simp add: same_logs_def update_session_def comp_def)

lemma then_beside: "table_steps t u \<Longrightarrow> same_logs u w \<Longrightarrow> table_steps t w"
  by (blast intro: rtranclp.rtrancl_into_rtrancl beside)

lemma assistant_moves: "moves (record_assistant_message s g sc m blocks usage at_ms at j) j"
  unfolding record_assistant_message_def
  by (rule in_tx_moves) (auto simp: and_then_Inr_iff intro!: one_append dest: require_usage_Inr)

lemma prepare_call_moves: "moves (prepare_tool_call s g sc c name args policy at_ms at j) j"
  unfolding prepare_tool_call_def
  by (rule checked_moves) (erule one_append, auto simp: validate_tool_arguments_def split: if_splits)

lemma prepare_execution_moves: "moves (prepare_execution s g sc x c at_ms at j) j"
  unfolding prepare_execution_def
  by (rule in_tx_moves)
     (auto simp: and_then_Inr_iff require_tool_call_def latest_execution_def split: if_splits intro!: one_append)

lemma tables_ok_log:
  assumes "tables_ok t"
  obtains n es where "numbered n (tb_events t s)" and "decode_rows (tb_events t s) = Inr es"
    and "\<And>i. \<exists>v. fold_err reduce_step (new_conversation i) es = Inr v \<and> tracks n (tb_events t s) v"
proof (cases "session_of t s")
  case None
  with assms have "tb_events t s = []" by (simp add: tables_ok_def)
  with that [of 0 "[]"] show ?thesis using log_ok_empty by (auto simp: log_ok_def)
next
  case (Some q)
  with that show ?thesis using tables_okD [OF assms Some] by (auto simp: log_ok_def)
qed

lemma latest_call_known:
  assumes "tables_ok t" and "latest_in (tb_events t s) x = Inr (Some p)"
  shows "has_tool_call (tb_events t s) (xr_tool_call p)"
proof -
  obtain n es v where "tracks n (tb_events t s) v" by (metis tables_ok_log [OF assms(1)])
  with assms(2) show ?thesis by (auto simp: tracks_def)
qed

lemma append_events:
  assumes "append_tx s g sc e at t = Inr (u, n)"
  shows "tb_events u s = tb_events t s @ [event_row_of n g sc e at]"
    and "k \<noteq> s \<Longrightarrow> tb_events u k = tb_events t k"
  using assms by (auto simp: append_tx_Inr)

lemma append_number:
  assumes "append_tx s g sc e at t = Inr (u, n)" and "tables_ok t"
  shows "\<exists>m. n = Suc m \<and> numbered m (tb_events t s)"
  using assms tables_okD [OF assms(2)] by (auto simp: append_tx_Inr log_ok_def)

lemma append_latest:
  assumes a: "append_tx s g sc (ToolExecution x c st result detail ms) at t = Inr (u, n)" and t: "tables_ok t"
  shows "latest_in (tb_events u s) y =
    (if y = x then Inr (Some \<lparr>xr_sequence = n, xr_tool_call = c, xr_state = st, xr_result = result, xr_detail = detail\<rparr>)
     else latest_in (tb_events t s) y)"
proof -
  from append_number [OF a t] obtain m where m: "n = Suc m" "numbered m (tb_events t s)" by blast
  show ?thesis unfolding append_events [OF a] using m
    by (simp add: latest_same [OF m(2)] latest_other [OF m(2)])
qed

lemma transition_moves:
  assumes "tables_ok (jn_tables j)"
  shows "moves (transition_execution s g sc x to result detail at_ms at j) j"
  unfolding transition_execution_def
  by (rule in_tx_moves)
     (auto simp: and_then_Inr_iff latest_execution_def latest_call_known [OF assms] split: option.splits
       elim!: map_err.elims intro!: one_append)

section \<open>Reconciliation\<close>

lemma distinct_started:
  assumes n: "numbered n rows" and rs: "set rs \<subseteq> set rows" "\<forall>r \<in> set rs. newest_of_execution rows r" "distinct rs"
  shows "distinct (map fst (concat (map started_row rs)))"
  using rs
proof (induction rs)
  case (Cons r rs)
  have "x \<notin> fst ` set (started_row q)" if "x \<in> fst ` set (started_row r)" "q \<in> set rs" for x q
  proof
    assume "x \<in> fst ` set (started_row q)"
    with that have "ix_execution (ev_ids r) = Some x" "ix_execution (ev_ids q) = Some x"
      by (auto simp: started_row_iff)
    with newest_is_last [OF n, of r x] newest_is_last [OF n, of q x] Cons.prems that(2) have "r = q" by auto
    with Cons.prems that(2) show False by simp
  qed
  then have "fst ` set (started_row r) \<inter> fst ` (\<Union>q \<in> set rs. set (started_row q)) = {}" by blast
  moreover have "distinct (map fst (started_row r))" using started_row_fst [of r] by auto
  moreover have "distinct (map fst (concat (map started_row rs)))" using Cons by simp
  ultimately show ?case by simp
qed simp

lemma started_spec:
  assumes t: "tables_ok t" and st: "latest_started_executions t s = Inr started"
  shows "distinct (map fst started)"
    and "(x, c) \<in> set started
      \<longleftrightarrow> (\<exists>p. latest_in (tb_events t s) x = Inr (Some p) \<and> xr_state p = Started \<and> xr_tool_call p = c)"
proof -
  let ?rows = "tb_events t s"
  obtain n es where n: "numbered n ?rows" and es: "decode_rows ?rows = Inr es"
    using tables_ok_log [OF t] by metis
  have eq: "started = concat (map started_row (filter (newest_of_execution ?rows) ?rows))"
    using fold_started st by (fastforce simp: latest_started_executions_def select_numbered [OF n])
  show "distinct (map fst started)" unfolding eq
    by (rule distinct_started [OF n]) (use numbered_distinct [OF n] in \<open>auto simp: distinct_map\<close>)
  show "(x, c) \<in> set started
      \<longleftrightarrow> (\<exists>p. latest_in ?rows x = Inr (Some p) \<and> xr_state p = Started \<and> xr_tool_call p = c)"
    using started_found [OF n es, of x c] by (auto simp: eq)
qed

definition is_started :: "event_row list \<Rightarrow> string \<times> string \<Rightarrow> bool" where
  "is_started rows p \<longleftrightarrow>
     (\<exists>r. latest_in rows (fst p) = Inr (Some r) \<and> xr_state r = Started \<and> xr_tool_call r = snd p)"

definition unknown_now :: "event_row list \<Rightarrow> string \<Rightarrow> bool" where
  "unknown_now rows x \<longleftrightarrow> (\<exists>r. latest_in rows x = Inr (Some r) \<and> xr_state r = OutcomeUnknown)"

lemma mark_unknown_Inr:
  "mark_unknown s g at_ms at t (x, c) = Inr u \<longleftrightarrow>
     (\<exists>n. append_tx s g no_scope (ToolExecution x c OutcomeUnknown None (Some unknown_note) at_ms) at t = Inr (u, n))"
  by (cases "append_tx s g no_scope (ToolExecution x c OutcomeUnknown None (Some unknown_note) at_ms) at t")
     (auto simp: mark_unknown_def)

lemma mark_unknown_steps:
  assumes "fold_err (mark_unknown s g at_ms at) t started = Inr u" and "tables_ok t"
    and "distinct (map fst started)" and "\<forall>p \<in> set started. is_started (tb_events t s) p"
  shows "table_steps t u \<and> (\<forall>x \<in> fst ` set started. unknown_now (tb_events u s) x)
    \<and> (\<forall>x. x \<notin> fst ` set started \<longrightarrow> latest_in (tb_events u s) x = latest_in (tb_events t s) x)"
  using assms
proof (induction started arbitrary: t)
  case (Cons p started)
  obtain x c where p: "p = (x, c)" by (cases p)
  from Cons.prems(1) obtain t1 n where
    a: "append_tx s g no_scope (ToolExecution x c OutcomeUnknown None (Some unknown_note) at_ms) at t = Inr (t1, n)"
    and f: "fold_err (mark_unknown s g at_ms at) t1 started = Inr u"
    by (auto simp: mark_unknown_Inr and_then_Inr_iff p)
  from Cons.prems(4) p obtain r where r: "latest_in (tb_events t s) x = Inr (Some r)" "xr_state r = Started"
    "xr_tool_call r = c" by (auto simp: is_started_def)
  have adm: "admissible (tb_events t s) (ToolExecution x c OutcomeUnknown None (Some unknown_note) at_ms)"
    using r latest_call_known [OF Cons.prems(2) r(1)] by (simp add: validate_execution_transition_def)
  have ok: "tables_ok t1" by (rule tables_ok_append [OF Cons.prems(2) a adm])
  have l: "latest_in (tb_events t1 s) y = latest_in (tb_events t s) y" if "y \<noteq> x" for y
    using append_latest [OF a Cons.prems(2), of y] that by simp
  have lx: "unknown_now (tb_events t1 s) x"
    using append_latest [OF a Cons.prems(2), of x] by (simp add: unknown_now_def)
  have "is_started (tb_events t1 s) q" if "q \<in> set started" for q
  proof -
    from that Cons.prems(3) p have "fst q \<noteq> x" by auto
    with that Cons.prems(4) show ?thesis by (simp add: is_started_def l)
  qed
  with Cons.IH [OF f ok] Cons.prems(3) have IH: "table_steps t1 u"
    "\<forall>x \<in> fst ` set started. unknown_now (tb_events u s) x"
    "\<forall>x. x \<notin> fst ` set started \<longrightarrow> latest_in (tb_events u s) x = latest_in (tb_events t1 s) x" by auto
  have "table_steps t u" using one_append [OF a adm] IH(1) by (rule rtranclp_trans)
  moreover have "unknown_now (tb_events u s) x" using IH(3) lx p Cons.prems(3) by (simp add: unknown_now_def)
  ultimately show ?case using IH l p by auto
qed simp

lemma reconcile_moves:
  assumes t: "tables_ok (jn_tables j)"
  shows "moves (reconcile_started_as_unknown s g at_ms at j) j"
  unfolding reconcile_started_as_unknown_def
proof (rule in_tx_moves)
  fix u v
  let ?t = "jn_tables j"
  assume "and_then (ensure_generation ?t s g) (\<lambda>_. and_then (latest_started_executions ?t s) (\<lambda>started.
      and_then (fold_err (mark_unknown s g at_ms at) ?t started) (\<lambda>t1. Inr (t1, map fst started)))) = Inr (u, v)"
  then obtain started where l: "latest_started_executions ?t s = Inr started"
    and f: "fold_err (mark_unknown s g at_ms at) ?t started = Inr u" by (auto simp: and_then_Inr_iff)
  have "\<forall>p \<in> set started. is_started (tb_events ?t s) p"
    using started_spec(2) [OF t l] by (auto simp: is_started_def)
  from mark_unknown_steps [OF f t started_spec(1) [OF t l] this] show "table_steps ?t u" by blast
qed

section \<open>The other operations\<close>

lemma advance_moves: "moves (advance_generation s expected current at j) j"
  unfolding advance_generation_def
  by (rule checked_moves)
     (auto simp: and_then_Inr_iff ensure_generation_def sql_u64_def raised_def [symmetric]
       split: option.splits if_splits,
      intro r_into_rtranclp, erule advanced [where g = current and at = at], simp_all)

lemma complete_moves: "moves (complete_session s g reason at j) j"
  unfolding complete_session_def
  by (rule in_tx_moves)
     (auto simp: and_then_Inr_iff sql_u64_def split: if_splits
       intro!: then_beside [OF one_append completed_beside])

lemma create_moves: "moves (create_session i j) j"
  unfolding create_session_def
  by (rule checked_moves) (auto split: if_splits intro!: r_into_rtranclp created)

lemma prune_moves: "moves (prune_completed_before c j) j"
  unfolding prune_completed_before_def
  by (rule checked_moves)
     (auto simp: Let_def pruned_def [unfolded Let_def, symmetric] simp del: set_filter
       intro!: r_into_rtranclp swept)

lemma side_moves: "(\<And>u v. body (jn_tables j) = Inr (u, v) \<Longrightarrow> same_logs (jn_tables j) u) \<Longrightarrow> moves (checked pre body j) j"
  by (rule checked_moves) (blast intro: r_into_rtranclp beside)

lemma frame_moves: "moves (append_stream_frame s g stream kind bytes created j) j"
  unfolding append_stream_frame_def
  by (rule side_moves) (auto simp: and_then_Inr_iff Let_def set_frames_beside split: if_splits)

lemma discard_moves: "moves (discard_stream s stream j) j"
  unfolding discard_stream_def
  by (rule in_tx_moves) (auto intro: r_into_rtranclp beside set_frames_beside)

lemma artifact_moves: "moves (put_artifact sha media bytes created j) j"
  unfolding put_artifact_def by (rule side_moves) (auto simp: same_logs_def)

lemma continuation_moves: "moves (store_continuation s attempt i envelope created j) j"
  unfolding store_continuation_def by (rule side_moves) (auto simp: same_logs_def)

lemma assistant_stream_moves: "moves (commit_assistant_stream s g sc stream m usage at_ms at j) j"
  unfolding commit_assistant_stream_def
  by (rule in_tx_moves)
     (auto simp: and_then_Inr_iff Let_def split: if_splits
       intro!: then_beside [OF one_append set_frames_beside] dest: require_usage_Inr)

lemma tool_stream_moves: "moves (commit_tool_call_stream parse s g sc stream c name policy at_ms at j) j"
  unfolding commit_tool_call_stream_def
  by (rule in_tx_moves)
     (auto simp: and_then_Inr_iff Let_def validate_tool_arguments_def split: if_splits option.splits
       intro!: then_beside [OF one_append set_frames_beside])

section \<open>Runs of operations\<close>

datatype journal_op =
    CreateSession session_identity
  | AcknowledgeInput string u64 event_scope string string bool "u64 option" u64
  | RecordUsage string u64 event_scope usage_record u64
  | RecordAssistant string u64 event_scope string "assistant_block list" "string option" "u64 option" u64
  | PrepareToolCall string u64 event_scope string string json policy_provenance "u64 option" u64
  | PrepareExecution string u64 event_scope string string "u64 option" u64
  | TransitionExecution string u64 event_scope string execution_state "content_ref option" "string option"
      "u64 option" u64
  | ReconcileStarted string u64 "u64 option" u64
  | RecordTaskReceipt string u64 event_scope string receipt_state json u64
  | RecordCheckpoint string u64 event_scope string checkpoint_kind json u64
  | RecordContext string u64 event_scope string json u64
  | RecordSettings string u64 string "string option" u64
  | AdvanceGeneration string u64 u64 u64
  | CompleteSession string u64 string u64
  | PruneCompleted u64
  | AppendFrame string u64 string frame_kind string u64
  | DiscardStream string string
  | CommitAssistantStream string u64 event_scope string string "string option" "u64 option" u64
  | CommitToolStream string u64 event_scope string string string policy_provenance "u64 option" u64
  | PutArtifact string string u64
  | StoreContinuation string string continuation_identity string u64

definition forget :: "journal \<times> (journal_error + 'a) \<Rightarrow> journal \<times> (journal_error + unit)" where
  "forget p = (fst p, map_sum id (\<lambda>_. ()) (snd p))"

lemma fst_forget [simp]: "fst (forget p) = fst p"
  by (simp add: forget_def)

lemma snd_forget [simp]: "snd (forget p) = Inl e \<longleftrightarrow> snd p = Inl e"
  by (cases "snd p") (simp_all add: forget_def)

lemma moves_forget [simp]: "moves (forget p) j = moves p j"
  by (simp add: moves_def)

fun run_journal :: "(string \<Rightarrow> json option) \<Rightarrow> (string \<Rightarrow> string) \<Rightarrow> journal_op \<Rightarrow> unit operation" where
  "run_journal parse sha (CreateSession i) j = forget (create_session i j)"
| "run_journal parse sha (AcknowledgeInput s g sc m text st ms at) j = forget (acknowledge_input s g sc m text st ms at j)"
| "run_journal parse sha (RecordUsage s g sc u at) j = forget (record_usage s g sc u at j)"
| "run_journal parse sha (RecordAssistant s g sc m bs u ms at) j = forget (record_assistant_message s g sc m bs u ms at j)"
| "run_journal parse sha (PrepareToolCall s g sc c n a p ms at) j = forget (prepare_tool_call s g sc c n a p ms at j)"
| "run_journal parse sha (PrepareExecution s g sc x c ms at) j = forget (prepare_execution s g sc x c ms at j)"
| "run_journal parse sha (TransitionExecution s g sc x to r d ms at) j = forget (transition_execution s g sc x to r d ms at j)"
| "run_journal parse sha (ReconcileStarted s g ms at) j = forget (reconcile_started_as_unknown s g ms at j)"
| "run_journal parse sha (RecordTaskReceipt s g sc k st r at) j = forget (record_task_receipt s g sc k st r at j)"
| "run_journal parse sha (RecordCheckpoint s g sc c k st at) j = forget (record_checkpoint s g sc c k st at j)"
| "run_journal parse sha (RecordContext s g sc v src at) j = forget (record_context_compiled s g sc v src at j)"
| "run_journal parse sha (RecordSettings s g k v at) j = forget (record_settings_override s g k v at j)"
| "run_journal parse sha (AdvanceGeneration s e g at) j = forget (advance_generation s e g at j)"
| "run_journal parse sha (CompleteSession s g r at) j = forget (complete_session s g r at j)"
| "run_journal parse sha (PruneCompleted c) j = forget (prune_completed_before c j)"
| "run_journal parse sha (AppendFrame s g stream k b at) j = forget (append_stream_frame s g stream k b at j)"
| "run_journal parse sha (DiscardStream s stream) j = forget (discard_stream s stream j)"
| "run_journal parse sha (CommitAssistantStream s g sc stream m u ms at) j =
     forget (commit_assistant_stream s g sc stream m u ms at j)"
| "run_journal parse sha (CommitToolStream s g sc stream c n p ms at) j =
     forget (commit_tool_call_stream parse s g sc stream c n p ms at j)"
| "run_journal parse sha (PutArtifact media bytes at) j = forget (put_artifact sha media bytes at j)"
| "run_journal parse sha (StoreContinuation s a i env at) j = forget (store_continuation s a i env at j)"

definition run_journals :: "(string \<Rightarrow> json option) \<Rightarrow> (string \<Rightarrow> string) \<Rightarrow> journal_op list \<Rightarrow> journal \<Rightarrow> journal" where
  "run_journals parse sha ops j = foldl (\<lambda>j op. fst (run_journal parse sha op j)) j ops"

lemma run_journal_moves: "tables_ok (jn_tables j) \<Longrightarrow> moves (run_journal parse sha op j) j"
  by (cases op)
     (simp_all add: assistant_moves prepare_call_moves prepare_execution_moves transition_moves reconcile_moves
       advance_moves complete_moves create_moves prune_moves frame_moves discard_moves artifact_moves
       continuation_moves assistant_stream_moves tool_stream_moves plain_append acknowledge_input_def
       record_usage_def record_task_receipt_def record_checkpoint_def record_context_compiled_def
       record_settings_override_def)

lemma run_journal_ok: "tables_ok (jn_tables j) \<Longrightarrow> tables_ok (jn_tables (fst (run_journal parse sha op j)))"
  using run_journal_moves [of j parse sha op] table_steps_ok by (simp add: moves_def)

lemma run_journals_ok: "tables_ok (jn_tables j) \<Longrightarrow> tables_ok (jn_tables (run_journals parse sha ops j))"
  unfolding run_journals_def by (induction ops arbitrary: j) (simp_all add: run_journal_ok)

lemma empty_tables_ok [simp]: "tables_ok empty_tables"
  by (simp add: tables_ok_def empty_tables_def session_of_def)

end
