(* ===== verification/Journal_Claims.thy ===== *)
theory Journal_Claims
  imports Journal_Runs
begin

text \<open>
  What the journal promises its readers and its single writer: logs replay, executions go through
  their life once, stale generations write nothing, reconciliation leaves no effect in flight, and a
  cursor pages through a log without a gap.
\<close>

definition new_journal :: "bool list \<Rightarrow> journal" where
  "new_journal faults = \<lparr>jn_tables = empty_tables, jn_faults = faults\<rparr>"

abbreviation journal_after ::
    "(string \<Rightarrow> json option) \<Rightarrow> (string \<Rightarrow> string) \<Rightarrow> journal_op list \<Rightarrow> bool list \<Rightarrow> tables" where
  "journal_after parse sha ops faults \<equiv> jn_tables (run_journals parse sha ops (new_journal faults))"

lemma journal_after_ok: "tables_ok (journal_after parse sha ops faults)"
  by (rule run_journals_ok) (simp add: new_journal_def)

section \<open>Replay\<close>

lemma read_session_Some:
  "session_of t s = Some q \<Longrightarrow> read_session t s = Inr (session_identity.truncate q)"
  by (simp add: read_session_def)

lemma read_events_numbered:
  "numbered n (tb_events t s) \<Longrightarrow> read_events t s = decode_rows (tb_events t s)"
  by (simp add: read_events_def read_events_of_type_def select_numbered of_type_def)

lemma decode_event_fields:
  "decode_event r = Inr e \<Longrightarrow> sv_sequence e = ev_sequence r \<and> sv_generation e = ev_generation r"
  by (auto simp: decode_event_def split: stored.splits if_splits)

lemma decoded_fields:
  "decode_rows rows = Inr es \<Longrightarrow>
     map sv_sequence es = map ev_sequence rows \<and> map sv_generation es = map ev_generation rows"
  by (induction rows arbitrary: es) (auto simp: and_then_Inr_iff dest: decode_event_fields)

lemma numbered_length: "numbered n rows \<Longrightarrow> length rows = n"
  by (drule numbered_def [THEN iffD1], drule arg_cong [where f = length], simp)

lemma session_log:
  assumes t: "tables_ok t" and q: "session_of t s = Some q"
  obtains es where "numbered (length es) (tb_events t s)" and "decode_rows (tb_events t s) = Inr es"
    and "journal_events t s = Inr es" and "map sv_sequence es = [1..<Suc (length es)]"
    and "\<And>i. \<exists>v. fold_err reduce_step (new_conversation i) es = Inr v \<and> tracks (length es) (tb_events t s) v"
    and "length es = sr_next_sequence q"
proof -
  from tables_okD [OF t q] obtain es where n: "numbered (sr_next_sequence q) (tb_events t s)"
    and d: "decode_rows (tb_events t s) = Inr es"
    and v: "\<And>i. \<exists>v. fold_err reduce_step (new_conversation i) es = Inr v
              \<and> tracks (sr_next_sequence q) (tb_events t s) v"
    by (auto simp: log_ok_def)
  from decoded_fields [OF d] have f: "map sv_sequence es = map ev_sequence (tb_events t s)" by blast
  then have "length es = length (tb_events t s)" by (rule map_eq_imp_length_eq)
  then have l: "length es = sr_next_sequence q" using numbered_length [OF n] by simp
  have "map sv_sequence es = [1..<Suc (length es)]" using f n l by (simp add: numbered_def del: upt_Suc)
  moreover have "journal_events t s = Inr es"
    by (simp add: journal_events_def read_session_Some [OF q] read_events_numbered [OF n] d)
  ultimately show ?thesis using that [of es] n d v l by simp
qed

lemma log_replays:
  assumes t: "tables_ok t" and q: "session_of t s = Some q"
  shows "\<exists>es v. journal_events t s = Inr es \<and> map sv_sequence es = [1..<Suc (length es)]
    \<and> replay t s = Inr v \<and> cv_last_sequence v = length es
    \<and> (\<forall>x. latest_execution t s x = Inr (map_of (cv_executions v) x))"
proof -
  from session_log [OF t q] obtain es where n: "numbered (length es) (tb_events t s)"
    and d: "decode_rows (tb_events t s) = Inr es" and j: "journal_events t s = Inr es"
    and m: "map sv_sequence es = [1..<Suc (length es)]"
    and v: "\<And>i. \<exists>v. fold_err reduce_step (new_conversation i) es = Inr v \<and> tracks (length es) (tb_events t s) v"
    by metis
  from v obtain v where v: "fold_err reduce_step (new_conversation (session_identity.truncate q)) es = Inr v"
    "tracks (length es) (tb_events t s) v" by blast
  have "fold_err (usage_check v) () (cv_messages v) = Inr ()"
    unfolding usage_checked using v(2) by (simp add: tracks_def)
  with v(1) n d have "replay t s = Inr v"
    by (simp add: replay_def read_session_Some [OF q] read_events_numbered reduce_log_def)
  moreover have "cv_last_sequence v = length es" "\<forall>x. latest_execution t s x = Inr (map_of (cv_executions v) x)"
    using v(2) by (simp_all add: tracks_def latest_execution_def)
  ultimately show ?thesis using j m by blast
qed


section \<open>The life of an execution\<close>

definition states_in :: "string \<Rightarrow> journal_event \<Rightarrow> execution_state list" where
  "states_in x e = (case e of ToolExecution y _ st _ _ _ \<Rightarrow> if y = x then [st] else [] | _ \<Rightarrow> [])"

definition history_of :: "string \<Rightarrow> stored_event list \<Rightarrow> execution_state list" where
  "history_of x es = concat (map (\<lambda>e. states_in x (sv_event e)) es)"

definition lived :: "execution_state list \<Rightarrow> conversation \<Rightarrow> string \<Rightarrow> bool" where
  "lived h v x \<longleftrightarrow>
     successively legal_transition h \<and> (h \<noteq> [] \<longrightarrow> hd h = Prepared)
     \<and> map_option xr_state (map_of (cv_executions v) x) = (if h = [] then None else Some (last h))"

lemma map_err_Inr [simp]: "map_err f m = Inr a \<longleftrightarrow> m = Inr a"
  by (cases m) auto

lemma reduce_event_executions:
  assumes "reduce_event n e v = Inr w"
  shows "map_of (cv_executions w) x = map_of (cv_executions v) x
    \<or> (\<exists>c st result detail ms. e = ToolExecution x c st result detail ms)"
  using assms by (cases e) (auto simp: and_then_Inr_iff split: if_splits)

lemma lived_step:
  assumes l: "lived h v x" and r: "reduce_step v e = Inr w"
  shows "lived (h @ states_in x (sv_event e)) w x"
proof (cases "\<exists>c st result detail ms. sv_event e = ToolExecution x c st result detail ms")
  case True
  then obtain c st result detail ms where e: "sv_event e = ToolExecution x c st result detail ms" by blast
  have step: "h = [] \<and> st = Prepared \<or> h \<noteq> [] \<and> legal_transition (last h) st"
    using r l e
    by (auto simp: reduce_step_def and_then_Inr_iff check_execution_def lived_def
         validate_execution_transition_def split: option.splits if_splits)
  moreover have "map_option xr_state (map_of (cv_executions w) x) = Some st"
    using r e by (auto simp: reduce_step_def and_then_Inr_iff split: if_splits)
  ultimately show ?thesis using l e
    by (auto simp: lived_def states_in_def successively_append_iff)
next
  case False
  then have "states_in x (sv_event e) = []" by (auto simp: states_in_def split: journal_event.splits)
  moreover have "map_of (cv_executions w) x = map_of (cv_executions v) x"
    using r False reduce_event_executions [of _ "sv_event e" _ w x]
    by (fastforce simp: reduce_step_def split: if_splits)
  ultimately show ?thesis using l by (simp add: lived_def)
qed

lemma lived_fold:
  "fold_err reduce_step v es = Inr w \<Longrightarrow> lived h v x \<Longrightarrow> lived (h @ history_of x es) w x"
proof (induction es arbitrary: v h)
  case (Cons e es)
  from Cons.prems(1) obtain u where u: "reduce_step v e = Inr u" "fold_err reduce_step u es = Inr w"
    by (auto simp: and_then_Inr_iff)
  from Cons.IH [OF u(2) lived_step [OF Cons.prems(2) u(1)]] show ?case by (simp add: history_of_def)
qed (simp add: history_of_def)

fun stage_of :: "execution_state \<Rightarrow> nat" where
  "stage_of Prepared = 0"
| "stage_of Started = 1"
| "stage_of OutcomeUnknown = 2"
| "stage_of _ = 3"

lemma legal_stage: "legal_transition a b \<Longrightarrow> stage_of a < stage_of b"
  by (cases a; cases b) auto

lemma terminal_stage: "is_terminal a \<longleftrightarrow> stage_of a = 3"
  by (cases a) auto

lemma stage_bound: "stage_of a \<le> 3"
  by (cases a) auto

lemma legal_history:
  assumes "successively legal_transition h"
  shows "distinct h \<and> (\<forall>st \<in> set (butlast h). \<not> is_terminal st)"
proof -
  have "successively (\<lambda>a b. stage_of a < stage_of b) h"
    using assms by (rule successively_mono) (rule legal_stage)
  then have s: "sorted_wrt (\<lambda>a b. stage_of a < stage_of b) h"
    by (simp add: successively_conv_sorted_wrt transp_def)
  then have "distinct h" by (induction h) auto
  moreover have "\<not> is_terminal st" if "st \<in> set (butlast h)" for st
  proof -
    from that have "h \<noteq> []" by auto
    then have "h = butlast h @ [last h]" by simp
    with s that have "stage_of st < stage_of (last h)" by (metis list.set_intros(1) sorted_wrt_append)
    with stage_bound [of "last h"] show ?thesis by (simp add: terminal_stage)
  qed
  ultimately show ?thesis by blast
qed

text \<open>C7: An effect is begun at most once. In the log of any session of any journal that the operations
  wrote, the states of an execution begin with its intent and follow the legal transitions, no
  state occurs twice, and nothing follows a terminal state. An execution whose outcome became
  unknown is therefore never started again.
\<close>
theorem effects_begin_at_most_once:
  assumes "journal_events (journal_after parse sha ops faults) s = Inr es"
  shows "(history_of x es \<noteq> [] \<longrightarrow> hd (history_of x es) = Prepared)
    \<and> successively legal_transition (history_of x es)
    \<and> distinct (history_of x es)
    \<and> (\<forall>st \<in> set (butlast (history_of x es)). \<not> is_terminal st)"
proof -
  let ?t = "journal_after parse sha ops faults"
  from assms obtain q where q: "session_of ?t s = Some q"
    by (auto simp: journal_events_def read_session_def and_then_Inr_iff split: option.splits)
  obtain v where "fold_err reduce_step (new_conversation (session_identity.truncate q)) es = Inr v"
    by (rule session_log [OF journal_after_ok q]) (use assms in auto)
  from lived_fold [OF this, of "[]" x] have l: "lived (history_of x es) v x"
    by (simp add: lived_def new_conversation_def)
  then have "successively legal_transition (history_of x es)" by (simp add: lived_def)
  from legal_history [OF this] l show ?thesis by (simp add: lived_def)
qed

section \<open>The generation fence\<close>

fun op_fence :: "journal_op \<Rightarrow> (string \<times> u64) option" where
  "op_fence (AcknowledgeInput s g _ _ _ _ _ _) = Some (s, g)"
| "op_fence (RecordUsage s g _ _ _) = Some (s, g)"
| "op_fence (RecordAssistant s g _ _ _ _ _ _) = Some (s, g)"
| "op_fence (PrepareToolCall s g _ _ _ _ _ _ _) = Some (s, g)"
| "op_fence (PrepareExecution s g _ _ _ _ _) = Some (s, g)"
| "op_fence (TransitionExecution s g _ _ _ _ _ _ _) = Some (s, g)"
| "op_fence (ReconcileStarted s g _ _) = Some (s, g)"
| "op_fence (RecordTaskReceipt s g _ _ _ _ _) = Some (s, g)"
| "op_fence (RecordCheckpoint s g _ _ _ _ _) = Some (s, g)"
| "op_fence (RecordContext s g _ _ _ _) = Some (s, g)"
| "op_fence (RecordSettings s g _ _ _) = Some (s, g)"
| "op_fence (AdvanceGeneration s g _ _) = Some (s, g)"
| "op_fence (CompleteSession s g _ _) = Some (s, g)"
| "op_fence (AppendFrame s g _ _ _ _) = Some (s, g)"
| "op_fence (CommitAssistantStream s g _ _ _ _ _ _) = Some (s, g)"
| "op_fence (CommitToolStream s g _ _ _ _ _ _ _) = Some (s, g)"
| "op_fence _ = None"

definition refused :: "journal \<times> (journal_error + 'a) \<Rightarrow> journal \<Rightarrow> bool" where
  "refused p j \<longleftrightarrow> (\<exists>e. snd p = Inl e) \<and> jn_tables (fst p) = jn_tables j"

lemma refused_forget [simp]: "refused (forget p) j = refused p j"
  by (simp add: refused_def)

lemma in_tx_refused:
  assumes "\<And>t v. body (jn_tables j) \<noteq> Inr (t, v)"
  shows "refused (in_tx body j) j"
proof (cases "in_tx body j")
  case (Pair k r)
  show ?thesis
  proof (cases r)
    case (Inl e)
    with Pair in_tx_Inl show ?thesis by (fastforce simp: refused_def)
  next
    case (Inr v)
    with in_tx_Inr [of body j k v] Pair assms show ?thesis by simp
  qed
qed

lemma checked_refused:
  assumes "\<And>t v. body (jn_tables j) \<noteq> Inr (t, v)"
  shows "refused (checked pre body j) j"
  by (cases pre) (simp_all add: checked_def in_tx_refused assms, simp add: refused_def)

lemma stale_append: "session_of t s = Some q \<Longrightarrow> si_generation q \<noteq> g \<Longrightarrow> append_tx s g sc e at t \<noteq> Inr u"
  by (cases u) (auto simp: append_tx_Inr)

lemma stale_generation: "session_of t s = Some q \<Longrightarrow> si_generation q \<noteq> g \<Longrightarrow> ensure_generation t s g \<noteq> Inr u"
  by (auto simp: ensure_generation_def)

lemma stale_refused:
  assumes "session_of (jn_tables j) s = Some q" and "si_generation q \<noteq> g" and "op_fence op = Some (s, g)"
  shows "refused (run_journal parse sha op j) j"
  using assms(3) stale_append [OF assms(1,2)] stale_generation [OF assms(1,2)]
  by (cases op)
     (simp_all add: acknowledge_input_def record_usage_def record_assistant_message_def prepare_tool_call_def
       prepare_execution_def transition_execution_def reconcile_started_as_unknown_def record_task_receipt_def
       record_checkpoint_def record_context_compiled_def record_settings_override_def advance_generation_def
       complete_session_def append_stream_frame_def commit_assistant_stream_def commit_tool_call_stream_def,
      (rule in_tx_refused checked_refused, auto simp: and_then_Inr_iff split: option.splits if_splits)+)

text \<open>C8: The log is fenced by generations. In every journal that the operations wrote, the generations of
  a session's events never decrease and never exceed the session's own, and an operation that names
  another generation than the current one is refused and leaves the database as it was.
\<close>
theorem journal_is_fenced:
  assumes "session_of (journal_after parse sha ops faults) s = Some q"
    and "journal_events (journal_after parse sha ops faults) s = Inr es"
  shows "sorted (map sv_generation es)
    \<and> (\<forall>e \<in> set es. sv_generation e \<le> si_generation q)
    \<and> (op_fence op = Some (s, g) \<and> g \<noteq> si_generation q
        \<longrightarrow> refused (run_journal parse sha op (run_journals parse sha ops (new_journal faults)))
              (run_journals parse sha ops (new_journal faults)))"
proof -
  let ?t = "journal_after parse sha ops faults"
  from session_log [OF journal_after_ok assms(1)] assms(2) have d: "decode_rows (tb_events ?t s) = Inr es"
    by (metis sum.inject(2))
  from decoded_fields [OF this] have f: "map sv_generation es = map ev_generation (tb_events ?t s)" by blast
  from tables_okD [OF journal_after_ok assms(1)] have l: "sorted (map ev_generation (tb_events ?t s))"
    "\<forall>r \<in> set (tb_events ?t s). ev_generation r \<le> si_generation q" by (auto simp: log_ok_def)
  have "\<forall>g \<in> set (map sv_generation es). g \<le> si_generation q" unfolding f using l(2) by simp
  then have "\<forall>e \<in> set es. sv_generation e \<le> si_generation q" by simp
  moreover have "sorted (map sv_generation es)" unfolding f by (rule l(1))
  ultimately show ?thesis using stale_refused [OF assms(1), of g op parse sha] by simp
qed

section \<open>Reconciliation\<close>

definition in_state :: "execution_state \<Rightarrow> tables \<Rightarrow> string \<Rightarrow> string \<Rightarrow> bool" where
  "in_state st t s x \<longleftrightarrow> (\<exists>p. latest_execution t s x = Inr (Some p) \<and> xr_state p = st)"

lemma append_execution_total:
  assumes t: "tables_ok t" and q: "session_of t s = Some q"
    and fits: "si_generation q \<le> i64_max" "at \<le> i64_max" "sr_next_sequence q < i64_max"
  shows "\<exists>u. append_tx s (si_generation q) sc (ToolExecution x c st result detail ms) at t
      = Inr (u, Suc (sr_next_sequence q))
    \<and> (\<exists>p. session_of u s = Some p \<and> si_generation p = si_generation q
          \<and> sr_next_sequence p = Suc (sr_next_sequence q))"
proof -
  let ?n = "Suc (sr_next_sequence q)" and ?e = "ToolExecution x c st result detail ms"
  have "numbered (sr_next_sequence q) (tb_events t s)" using tables_okD [OF t q] by (simp add: log_ok_def)
  then have "\<forall>r \<in> set (tb_events t s). ev_sequence r < ?n"
    by (metis atLeastLessThan_iff image_eqI numbered_def set_map set_upt)
  then have "\<not> list_ex (collides (event_row_of ?n (si_generation q) sc ?e at)) (tb_events t s)"
    by (auto simp: list_ex_iff collides_def same_id_def)
  with q fits show ?thesis by (auto simp: append_tx_Inr session_of_update session_of_with)
qed

lemma mark_unknown_total:
  assumes "tables_ok t" and "session_of t s = Some q" and "si_generation q \<le> i64_max" and "at \<le> i64_max"
    and "sr_next_sequence q + length started \<le> i64_max" and "distinct (map fst started)"
    and "\<forall>p \<in> set started. is_started (tb_events t s) p"
  shows "\<exists>u. fold_err (mark_unknown s (si_generation q) at_ms at) t started = Inr u"
  using assms
proof (induction started arbitrary: t q)
  case (Cons p started)
  obtain x c where p: "p = (x, c)" by (cases p)
  let ?e = "ToolExecution x c OutcomeUnknown None (Some unknown_note) at_ms"
  from append_execution_total [OF Cons.prems(1-4), of no_scope x c OutcomeUnknown None "Some unknown_note" at_ms]
    Cons.prems(5) obtain u q1 where a: "append_tx s (si_generation q) no_scope ?e at t = Inr (u, Suc (sr_next_sequence q))"
    and q1: "session_of u s = Some q1" "si_generation q1 = si_generation q" "sr_next_sequence q1 = Suc (sr_next_sequence q)"
    by auto
  from Cons.prems(7) p obtain r where r: "latest_in (tb_events t s) x = Inr (Some r)" "xr_state r = Started"
    "xr_tool_call r = c" by (auto simp: is_started_def)
  have ok: "tables_ok u"
    using r latest_call_known [OF Cons.prems(1) r(1)]
    by (intro tables_ok_append [OF Cons.prems(1) a]) (simp add: validate_execution_transition_def)
  have "is_started (tb_events u s) y" if "y \<in> set started" for y
  proof -
    from that Cons.prems(6) p have "fst y \<noteq> x" by auto
    with that Cons.prems(7) append_latest [OF a Cons.prems(1), of "fst y"] show ?thesis by (simp add: is_started_def)
  qed
  with Cons.IH [OF ok q1(1)] Cons.prems(3-6) q1 have
    "\<exists>w. fold_err (mark_unknown s (si_generation q) at_ms at) u started = Inr w" by simp
  moreover have "mark_unknown s (si_generation q) at_ms at t p = Inr u" using a by (auto simp: p mark_unknown_Inr)
  ultimately show ?case by simp
qed simp

definition accepted_id :: "string \<Rightarrow> bool" where
  "accepted_id x \<longleftrightarrow> x \<noteq> [] \<and> length x \<le> 256 \<and> CHR 0x00 \<notin> set x"

lemma started_total:
  assumes t: "tables_ok t" and ids: "\<forall>r \<in> set (tb_events t s). pred_option accepted_id (ix_execution (ev_ids r))"
  shows "\<exists>started. latest_started_executions t s = Inr started \<and> length started \<le> length (tb_events t s)"
proof -
  obtain n es where n: "numbered n (tb_events t s)" and d: "decode_rows (tb_events t s) = Inr es"
    using tables_ok_log [OF t] by metis
  have total: "\<exists>out. fold_err started_of acc rs = Inr out \<and> length out \<le> length acc + length rs"
    if "set rs \<subseteq> set (tb_events t s)" "\<forall>r \<in> set rs. newest_of_execution (tb_events t s) r" for acc rs
    using that
  proof (induction rs arbitrary: acc)
    case (Cons r rs)
    then obtain x where x: "ix_execution (ev_ids r) = Some x" "ev_kind r = ''tool_execution''"
      by (auto simp: newest_of_execution_def)
    with decode_rows_kind [OF d, of r] Cons.prems obtain y c st result detail ms where
      e: "ev_payload r = Holds (ToolExecution y c st result detail ms)" by (auto simp: event_kind_tool)
    have "opaque_id ''ExecutionId'' x = Inr x"
      using ids Cons.prems x(1) by (auto simp: opaque_id_def accepted_id_def)
    then have "\<exists>b. started_of acc r = Inr b \<and> length b \<le> Suc (length acc)" by (simp add: started_of_def e x(1))
    then obtain b where b: "started_of acc r = Inr b" "length b \<le> Suc (length acc)" by blast
    have "set rs \<subseteq> set (tb_events t s)" "\<forall>r \<in> set rs. newest_of_execution (tb_events t s) r"
      using Cons.prems by simp_all
    from Cons.IH [OF this, of b] obtain out where
      "fold_err started_of b rs = Inr out" "length out \<le> length b + length rs" by blast
    with b show ?case by simp
  qed simp
  let ?fs = "filter (newest_of_execution (tb_events t s)) (tb_events t s)"
  have "set ?fs \<subseteq> set (tb_events t s)" "\<forall>r \<in> set ?fs. newest_of_execution (tb_events t s) r" by simp_all
  from total [OF this, of "[]"] obtain out where
    out: "fold_err started_of [] ?fs = Inr out" and few: "length out \<le> length ?fs" by (metis add_0 list.size(3))
  have "length out \<le> length (tb_events t s)" by (rule order_trans [OF few]) (rule length_filter_le)
  with out show ?thesis by (simp add: latest_started_executions_def select_numbered [OF n])
qed

text \<open>C9: Recovery leaves no effect in flight. In a journal that the operations wrote, with no further fault
  and numbers within SQLite's range, reconciling a session under its own generation succeeds, it
  names exactly the executions that were started, all of them are then of unknown outcome, and
  every other execution is as it was; so none is started afterwards.
\<close>
theorem reconciliation_leaves_nothing_started:
  assumes "jn_faults (run_journals parse sha ops (new_journal faults)) = []"
    and "session_of (journal_after parse sha ops faults) s = Some q"
    and "si_generation q \<le> i64_max" and "at \<le> i64_max" and "2 * sr_next_sequence q \<le> i64_max"
    and "\<forall>r \<in> set (tb_events (journal_after parse sha ops faults) s). pred_option accepted_id (ix_execution (ev_ids r))"
  shows "\<exists>j xs. reconcile_started_as_unknown s (si_generation q) at_ms at
        (run_journals parse sha ops (new_journal faults)) = (j, Inr xs)
    \<and> (\<forall>x. x \<in> set xs \<longleftrightarrow> in_state Started (journal_after parse sha ops faults) s x)
    \<and> (\<forall>x \<in> set xs. in_state OutcomeUnknown (jn_tables j) s x)
    \<and> (\<forall>x. x \<notin> set xs \<longrightarrow>
          latest_execution (jn_tables j) s x = latest_execution (journal_after parse sha ops faults) s x)
    \<and> (\<forall>x. \<not> in_state Started (jn_tables j) s x)"
proof -
  let ?j = "run_journals parse sha ops (new_journal faults)"
  let ?t = "jn_tables ?j"
  note ok = journal_after_ok [of parse sha ops faults]
  have len: "length (tb_events ?t s) = sr_next_sequence q"
    using tables_okD [OF ok assms(2)] numbered_length by (simp add: log_ok_def)
  from started_total [OF ok assms(6)] obtain started where l: "latest_started_executions ?t s = Inr started"
    and few: "length started \<le> sr_next_sequence q" unfolding len by blast
  have now: "\<forall>p \<in> set started. is_started (tb_events ?t s) p"
    using started_spec(2) [OF ok l] by (auto simp: is_started_def)
  from mark_unknown_total [OF ok assms(2-4) _ started_spec(1) [OF ok l] now, of at_ms] few assms(5)
  obtain u where f: "fold_err (mark_unknown s (si_generation q) at_ms at) ?t started = Inr u" by auto
  have "reconcile_started_as_unknown s (si_generation q) at_ms at ?j = (?j\<lparr>jn_tables := u\<rparr>, Inr (map fst started))"
    using assms(1) by (simp add: reconcile_started_as_unknown_def in_tx_def take_failure_def ensure_generation_def
      assms(2) l f)
  moreover have found: "x \<in> set (map fst started) \<longleftrightarrow> in_state Started ?t s x" for x
  proof -
    have "x \<in> set (map fst started) \<longleftrightarrow> (\<exists>c. (x, c) \<in> set started)"
      by (auto intro: rev_image_eqI)
    then show ?thesis unfolding started_spec(2) [OF ok l] in_state_def latest_execution_def by simp
  qed
  moreover note m = mark_unknown_steps [OF f ok started_spec(1) [OF ok l] now]
  then have unknown: "x \<in> set (map fst started) \<Longrightarrow> in_state OutcomeUnknown u s x"
    and kept: "x \<notin> set (map fst started) \<Longrightarrow> latest_execution u s x = latest_execution ?t s x" for x
    unfolding in_state_def latest_execution_def unknown_now_def set_map by blast+
  moreover have "\<not> in_state Started u s x" for x
  proof (cases "x \<in> set (map fst started)")
    case True
    from unknown [OF this] show ?thesis by (auto simp: in_state_def)
  next
    case False
    with found [of x] kept [OF False] show ?thesis by (simp add: in_state_def)
  qed
  ultimately show ?thesis
    by (intro exI [of _ "?j\<lparr>jn_tables := u\<rparr>"] exI [of _ "map fst started"]) simp
qed

section \<open>Paging\<close>

lemma decode_rows_iff: "decode_rows rows = Inr es \<longleftrightarrow> list_all2 (\<lambda>r e. decode_event r = Inr e) rows es"
  by (induction rows arbitrary: es) (auto simp: and_then_Inr_iff list_all2_Cons1)

lemma numbered_nth: "numbered n rows \<Longrightarrow> i < n \<Longrightarrow> ev_sequence (rows ! i) = Suc i"
  unfolding numbered_def by (metis add.commute length_map length_upt nth_map nth_upt plus_1_eq_Suc
    diff_Suc_1 Suc_less_eq One_nat_def)

lemma newer_rows:
  assumes "numbered n rows"
  shows "filter (\<lambda>r. a < ev_sequence r) rows = drop a rows"
  using assms
proof (induction rows arbitrary: n rule: rev_induct)
  case (snoc r rows)
  from numbered_length [OF snoc.prems] have n: "n = Suc (length rows)" by simp
  from snoc.prems have "numbered (length rows) rows" "ev_sequence r = Suc (length rows)"
    unfolding n by (simp_all add: numbered_def)
  with snoc.IH show ?case by (auto simp: not_less)
qed simp

text \<open>A cursor loses nothing and repeats nothing. In every journal that the operations wrote, the page
  after a cursor is exactly the next events of the log from that position, as many as the limit
  allows, and the bounds are the first and the last number of the log.
\<close>
theorem pages_have_no_gap:
  assumes "journal_events (journal_after parse sha ops faults) s = Inr es"
    and "a \<le> i64_max" and "n \<le> i64_max"
  shows "events_after (journal_after parse sha ops faults) s a n = Inr (take n (drop a es))
    \<and> sequence_bounds (journal_after parse sha ops faults) s = Inr (if es = [] then (0, 0) else (1, length es))"
proof -
  let ?t = "journal_after parse sha ops faults"
  from assms(1) obtain q where q: "session_of ?t s = Some q"
    by (auto simp: journal_events_def read_session_def and_then_Inr_iff split: option.splits)
  have r: "read_session ?t s = Inr (session_identity.truncate q)" by (rule read_session_Some [OF q])
  from session_log [OF journal_after_ok q] assms(1) have num: "numbered (length es) (tb_events ?t s)"
    and d: "decode_rows (tb_events ?t s) = Inr es" by (metis sum.inject(2))+
  from d have "decode_rows (take n (drop a (tb_events ?t s))) = Inr (take n (drop a es))"
    unfolding decode_rows_iff by (intro list_all2_takeI list_all2_dropI)
  then have "events_after ?t s a n = Inr (take n (drop a es))"
    using assms(2,3) by (simp add: events_after_def r sql_u64_def select_numbered [OF num] newer_rows [OF num])
  moreover have "sequence_bounds ?t s = Inr (if es = [] then (0, 0) else (1, length es))"
  proof (cases "tb_events ?t s")
    case Nil
    with d show ?thesis by (simp add: sequence_bounds_def r select_rows_def)
  next
    case (Cons x rows)
    have l: "length (tb_events ?t s) = length es" by (rule numbered_length [OF num])
    then have ne: "es \<noteq> []" "tb_events ?t s \<noteq> []" using Cons by auto
    have "ev_sequence (hd (tb_events ?t s)) = 1" "ev_sequence (last (tb_events ?t s)) = length es"
      using numbered_nth [OF num, of 0] numbered_nth [OF num, of "length es - 1"] ne l
      by (simp_all add: hd_conv_nth last_conv_nth)
    moreover have "select_rows (\<lambda>_. True) (tb_events ?t s) = tb_events ?t s"
      by (simp add: select_numbered [OF num])
    ultimately show ?thesis using ne Cons by (simp add: sequence_bounds_def r)
  qed
  ultimately show ?thesis by blast
qed

section \<open>Drafts\<close>

definition draft_ok :: "frame_row list \<Rightarrow> bool" where
  "draft_ok fs \<longleftrightarrow> map fr_index fs = [0..<length fs] \<and> draft_bytes fs \<le> max_stream_draft_bytes
     \<and> (\<forall>f \<in> set fs. length (fr_data f) \<le> max_stream_frame_bytes)"

definition drafts_ok :: "tables \<Rightarrow> bool" where
  "drafts_ok t \<longleftrightarrow> (\<forall>s stream. draft_ok (tb_frames t s stream))"

lemma draft_ok_Nil [simp]: "draft_ok []"
  by (simp add: draft_ok_def draft_bytes_def)

lemma next_frame: "map fr_index fs = [0..<length fs] \<Longrightarrow> next_frame_index fs = length fs"
proof (induction fs rule: rev_induct)
  case (snoc f fs)
  then have "map fr_index fs = [0..<length fs]" "fr_index f = length fs" by simp_all
  with snoc.IH show ?case by (simp add: next_frame_index_def)
qed (simp add: next_frame_index_def)

lemma draft_ok_snoc:
  assumes "draft_ok fs" and "length bytes \<le> max_stream_frame_bytes"
    and "sat_add (draft_bytes fs) (length bytes) \<le> max_stream_draft_bytes"
  shows "draft_ok (fs @ [\<lparr>fr_index = next_frame_index fs, fr_kind = k, fr_data = bytes, fr_created_at = c\<rparr>])"
proof -
  have "draft_bytes fs + length bytes \<le> max_stream_draft_bytes"
    using assms(3) by (simp add: sat_add_def u64_max_def max_stream_draft_bytes_def min_def split: if_splits)
  then show ?thesis using assms by (simp add: draft_ok_def next_frame draft_bytes_def)
qed

lemma drafts_ok_set:
  assumes "drafts_ok t" and "draft_ok fs"
  shows "drafts_ok (set_frames s stream fs t)"
  using assms by (simp add: drafts_ok_def set_frames_def)

lemma drafts_ok_frames: "tb_frames u = tb_frames t \<Longrightarrow> drafts_ok t \<Longrightarrow> drafts_ok u"
  by (simp add: drafts_ok_def)

lemma append_frames: "append_tx s g sc e at t = Inr (u, n) \<Longrightarrow> tb_frames u = tb_frames t"
  by (auto simp: append_tx_Inr)

lemma in_tx_keeps:
  assumes "P (jn_tables j)" and "\<And>t v. body (jn_tables j) = Inr (t, v) \<Longrightarrow> P t"
  shows "P (jn_tables (fst (in_tx body j)))"
  by (rule in_tx_inv [where r = "snd (in_tx body j)" and body = body and j = j]) (auto intro: assms)

lemma checked_keeps:
  assumes "P (jn_tables j)" and "\<And>t v x. pre = Inr x \<Longrightarrow> body (jn_tables j) = Inr (t, v) \<Longrightarrow> P t"
  shows "P (jn_tables (fst (checked pre body j)))"
  by (rule checked_inv [where r = "snd (checked pre body j)" and body = body and j = j and pre = pre])
     (auto intro: assms)

lemmas keeps_drafts = in_tx_keeps [where P = drafts_ok] checked_keeps [where P = drafts_ok]

lemma mark_unknown_frames:
  "fold_err (mark_unknown s g at_ms at) t started = Inr u \<Longrightarrow> tb_frames u = tb_frames t"
  by (induction started arbitrary: t) (auto simp: and_then_Inr_iff mark_unknown_Inr dest!: append_frames)

lemma new_frame_ok:
  assumes "drafts_ok t" and "length bytes \<le> max_stream_frame_bytes"
    and "sat_add (draft_bytes (tb_frames t s stream)) (length bytes) \<le> max_stream_draft_bytes"
  shows "drafts_ok (set_frames s stream (tb_frames t s stream @
    [\<lparr>fr_index = next_frame_index (tb_frames t s stream), fr_kind = k, fr_data = bytes, fr_created_at = c\<rparr>]) t)"
  using assms by (intro drafts_ok_set draft_ok_snoc) (simp_all add: drafts_ok_def)

lemma pruned_drafts: "drafts_ok t \<Longrightarrow> drafts_ok (pruned c t)"
  by (simp add: drafts_ok_def pruned_def Let_def)

lemmas operation_defs = acknowledge_input_def record_usage_def record_assistant_message_def prepare_tool_call_def
  prepare_execution_def transition_execution_def reconcile_started_as_unknown_def record_task_receipt_def
  record_checkpoint_def record_context_compiled_def record_settings_override_def advance_generation_def
  complete_session_def

lemma run_journal_drafts:
  assumes d: "drafts_ok (jn_tables j)"
  shows "drafts_ok (jn_tables (fst (run_journal parse sha op j)))"
proof (cases op)
  case (PruneCompleted c)
  then show ?thesis using pruned_drafts [OF d, of c]
    by (auto simp: prune_completed_before_def Let_def pruned_def simp del: set_filter intro!: keeps_drafts d)
next
  case (AppendFrame s g stream k bytes at)
  then show ?thesis
    by (auto simp: append_stream_frame_def and_then_Inr_iff Let_def not_less split: if_splits
      intro!: keeps_drafts d new_frame_ok)
next
  case (CommitAssistantStream s g sc stream m u ms at)
  then show ?thesis
    by (auto simp: commit_assistant_stream_def and_then_Inr_iff Let_def split: if_splits
      intro!: keeps_drafts d drafts_ok_set dest!: append_frames intro: drafts_ok_frames)
next
  case (CommitToolStream s g sc stream c n p ms at)
  then show ?thesis
    by (auto simp: commit_tool_call_stream_def and_then_Inr_iff Let_def split: if_splits option.splits
      intro!: keeps_drafts d drafts_ok_set dest!: append_frames intro: drafts_ok_frames)
next
  case (DiscardStream s stream)
  then show ?thesis by (auto simp: discard_stream_def intro!: keeps_drafts d drafts_ok_set)
qed ((auto simp: operation_defs create_session_def put_artifact_def store_continuation_def and_then_Inr_iff
    split: if_splits option.splits intro!: keeps_drafts d
    dest!: append_frames mark_unknown_frames), (rule drafts_ok_frames [OF _ d], simp)+)

lemma drafts_stay_bounded: "drafts_ok (journal_after parse sha ops faults)"
proof -
  have "drafts_ok (jn_tables j) \<Longrightarrow> drafts_ok (jn_tables (run_journals parse sha ops j))" for j
    unfolding run_journals_def by (induction ops arbitrary: j) (simp_all add: run_journal_drafts)
  then show ?thesis by (simp add: new_journal_def empty_tables_def drafts_ok_def)
qed

lemma group_frames_whole:
  "group_frames grouped frames = Inr out \<Longrightarrow>
     concat (map snd out) = concat (map snd grouped) @ concat (map snd frames)
     \<and> (distinct_adj (map fst grouped) \<longrightarrow> distinct_adj (map fst out))
     \<and> (ToolArguments \<notin> fst ` set grouped \<longrightarrow> ToolArguments \<notin> fst ` set out)"
proof (induction grouped frames rule: group_frames.induct)
  case (2 grouped kind bytes frames)
  from 2(3) have k: "kind \<noteq> ToolArguments" by (auto split: if_splits)
  show ?case
  proof (cases "grouped \<noteq> [] \<and> fst (last grouped) = kind")
    case True
    then obtain gs g where g: "grouped = gs @ [(kind, g)]" by (cases grouped rule: rev_cases) auto
    with 2(1) [OF k True] 2(3) k show ?thesis by (auto simp: g)
  next
    case False
    have "distinct_adj (map fst grouped) \<Longrightarrow> distinct_adj (map fst (grouped @ [(kind, bytes)]))"
      using False by (cases grouped rule: rev_cases) (auto simp: distinct_adj_append_iff)
    with 2(2) [OF k False] 2(3) k False show ?thesis by (auto split: if_splits)
  qed
qed simp

lemma blocks_of_groups:
  "fold_err blocks_step acc gs = Inr bs \<Longrightarrow> bs = acc @ map block_of_frame gs \<and> (\<forall>g \<in> set gs. utf8_ok (snd g))"
proof (induction gs arbitrary: acc)
  case (Cons g gs)
  from Cons.prems obtain b where b: "blocks_step acc g = Inr b" "fold_err blocks_step b gs = Inr bs"
    by (auto simp: and_then_Inr_iff)
  from b(1) have "b = acc @ [block_of_frame g]" "utf8_ok (snd g)" by (auto simp: blocks_step_def split: if_splits)
  with b(2) have "fold_err blocks_step (acc @ [block_of_frame g]) gs = Inr bs" "utf8_ok (snd g)" by simp_all
  with Cons.IH [of "acc @ [block_of_frame g]"] show ?case by simp
qed simp

fun block_content :: "assistant_block \<Rightarrow> string" where
  "block_content (TextBlock text) = text"
| "block_content (ThinkingBlock text _) = text"
| "block_content (RefusalBlock text) = text"
| "block_content _ = []"

lemma block_content_frame: "block_content (block_of_frame g) = snd g"
  by (cases g rule: block_of_frame.cases) simp_all

text \<open>C33: A drafted message is committed whole or not at all. Drafts are never longer than their limit, and
  when the stream of a session in a journal that the operations wrote is committed, the new last
  event is one message whose blocks spell out exactly the bytes of the frames in their order, and
  the draft is gone; when the commit is refused, the database is as it was.
\<close>
theorem drafts_commit_whole:
  assumes "commit_assistant_stream s g sc stream m usage at_ms at
     (run_journals parse sha ops (new_journal faults)) = (j, r)"
  shows "draft_bytes (tb_frames (journal_after parse sha ops faults) s stream) \<le> max_stream_draft_bytes
    \<and> (case r of
         Inl _ \<Rightarrow> jn_tables j = journal_after parse sha ops faults
       | Inr n \<Rightarrow> \<exists>blocks row.
           tb_events (jn_tables j) s = tb_events (journal_after parse sha ops faults) s @ [row]
           \<and> ev_sequence row = n \<and> ev_payload row = Holds (AssistantMessageCommitted m blocks usage at_ms)
           \<and> concat (map block_content blocks)
             = concat (map fr_data (tb_frames (journal_after parse sha ops faults) s stream))
           \<and> tb_frames (jn_tables j) s stream = [])"
proof (cases r)
  case (Inl e)
  with assms drafts_stay_bounded [of parse sha ops faults] show ?thesis
    by (simp add: commit_assistant_stream_def in_tx_Inl drafts_ok_def draft_ok_def)
next
  case (Inr n)
  let ?t = "journal_after parse sha ops faults"
  from in_tx_Inr [OF assms [unfolded commit_assistant_stream_def Inr]]
  obtain blocks u where b: "assistant_blocks_from_frames (read_frames ?t s stream) = Inr blocks"
    and a: "append_tx s g sc (AssistantMessageCommitted m blocks usage at_ms) at ?t = Inr (u, n)"
    and j: "jn_tables j = set_frames s stream [] u"
    by (auto simp: and_then_Inr_iff Let_def split: if_splits)
  have d: "draft_ok (tb_frames ?t s stream)" using drafts_stay_bounded by (simp add: drafts_ok_def)
  then have "frames_of ?t s stream = tb_frames ?t s stream"
    unfolding frames_of_def draft_ok_def by (intro sort_key_id_if_sorted) simp
  moreover from b obtain gs where "group_frames [] (read_frames ?t s stream) = Inr gs"
    "fold_err blocks_step [] gs = Inr blocks" by (auto simp: assistant_blocks_from_frames_def and_then_Inr_iff)
  ultimately have "concat (map block_content blocks) = concat (map fr_data (tb_frames ?t s stream))"
    using group_frames_whole [of "[]" "read_frames ?t s stream" gs] blocks_of_groups [of "[]" gs blocks]
    by (simp add: read_frames_def comp_def block_content_frame)
  then show ?thesis using d append_events(1) [OF a] by (simp add: Inr j set_frames_def draft_ok_def)
qed


section \<open>Artifacts and continuations\<close>

lemma stored_continuation_loads:
  assumes "store_continuation s attempt i envelope created j = (j', Inr x)"
  shows "load_continuation (jn_tables j') s attempt k =
    (if k = i then Inr (Some envelope) else Inl ContinuationMismatch)"
proof -
  from checked_Inr [OF assms [unfolded store_continuation_def]]
  have "tb_continuations (jn_tables j') s attempt =
      Some \<lparr>co_identity = i, co_envelope = envelope, co_created_at = created\<rparr>"
    by (metis (no_types, lifting) fun_upd_same prod.inject sum.inject(2) tables.select_convs(4)
      tables.surjective tables.update_convs(4))
  then show ?thesis by (simp add: load_continuation_def)
qed

definition artifacts_ok :: "(string \<Rightarrow> string) \<Rightarrow> tables \<Rightarrow> bool" where
  "artifacts_ok sha t \<longleftrightarrow> (\<forall>d r. tb_artifacts t d = Some r \<longrightarrow> sha (af_content r) = d \<and> af_byte_len r = length (af_content r))"

lemma put_artifact_reads:
  assumes "put_artifact sha media bytes created j = (j', Inr c)" and "artifacts_ok sha (jn_tables j)"
  shows "artifacts_ok sha (jn_tables j')"
    and "\<exists>content. read_artifact (jn_tables j') (sha bytes) = Some content \<and> sha content = sha bytes"
    and "content_byte_len c = length bytes"
proof -
  let ?r = "\<lparr>af_media_type = media, af_byte_len = length bytes, af_content = bytes, af_created_at = created\<rparr>"
  from checked_Inr [OF assms(1) [unfolded put_artifact_def]] have
    j: "jn_tables j' = (if tb_artifacts (jn_tables j) (sha bytes) \<noteq> None then jn_tables j
        else (jn_tables j)\<lparr>tb_artifacts := (tb_artifacts (jn_tables j))(sha bytes \<mapsto> ?r)\<rparr>)"
    and c: "c = ArtifactContent (sha bytes) (length bytes) (input_hash (from_utf8_lossy bytes)) media"
    by auto
  show "artifacts_ok sha (jn_tables j')"
    using assms(2) unfolding j artifacts_ok_def by auto
  show "\<exists>content. read_artifact (jn_tables j') (sha bytes) = Some content \<and> sha content = sha bytes"
    using assms(2) unfolding j artifacts_ok_def read_artifact_def by auto
  show "content_byte_len c = length bytes" by (simp add: c)
qed

text \<open>
  Neither of these two writers names a generation, so a superseded runtime still passes them: it can
  drop its successor's draft and replace a stored continuation.
\<close>

lemma discarding_is_not_fenced:
  assumes "jn_faults j = []"
  shows "snd (discard_stream s stream j) = Inr ()
    \<and> tb_frames (jn_tables (fst (discard_stream s stream j))) s stream = []"
  using assms by (simp add: discard_stream_def in_tx_def take_failure_def set_frames_def)

lemma continuations_are_not_fenced:
  assumes "jn_faults j = []" and "session_of (jn_tables j) s = Some q" and "created \<le> i64_max"
  shows "\<exists>j'. store_continuation s attempt (continuation_of (si_route q)) envelope created j = (j', Inr ())
    \<and> load_continuation (jn_tables j') s attempt (continuation_of (si_route q)) = Inr (Some envelope)"
  using assms
  by (simp add: store_continuation_def checked_def in_tx_def take_failure_def read_session_Some sql_u64_def
    load_continuation_def session_identity.defs)

section \<open>The fingerprint of an error text\<close>

lemma normalize_loop_length:
  "length (normalize_loop n spaced cs) \<le> (if n < error_text_char_cap then error_text_char_cap + 2 - n else 0)"
  by (induction n spaced cs rule: normalize_loop.induct) (auto simp: error_text_char_cap_def split: if_splits)

lemma fingerprint_length: "length (normalize_error_text s) \<le> error_text_char_cap + 2"
  using normalize_loop_length [of 0 False s] length_trim_le [of "normalize_loop 0 False s"]
  by (simp add: normalize_error_text_def error_text_char_cap_def)

lemma normalize_loop_letters:
  "n + k \<le> error_text_char_cap \<Longrightarrow>
     normalize_loop n False (replicate k CHR ''a'' @ cs) = replicate k CHR ''a'' @ normalize_loop (n + k) False cs"
proof (induction k arbitrary: n)
  case (Suc k)
  from Suc.IH [of "n + 1"] Suc.prems show ?case
    by (simp add: is_ascii_digit_def is_space_def)
qed simp

lemma fingerprint_exceeds_its_cap:
  "length (normalize_error_text (replicate 399 CHR ''a'' @ ''0x1'')) = error_text_char_cap + 2"
proof -
  have "normalize_loop 0 False (replicate 399 CHR ''a'' @ ''0x1'') = replicate 399 CHR ''a'' @ ''0x#''"
    by (simp add: normalize_loop_letters error_text_char_cap_def is_ascii_hexdigit_def is_ascii_digit_def
      ascii_lower_char_def)
  moreover have "trim (replicate 399 CHR ''a'' @ ''0x#'') = replicate 399 CHR ''a'' @ ''0x#''"
    by (rule trim_id) (simp_all add: is_space_def hd_append)
  ultimately show ?thesis by (simp add: normalize_error_text_def error_text_char_cap_def)
qed

section \<open>A run\<close>

definition sample_identity_row :: session_identity where
  "sample_identity_row = \<lparr>si_session = ''s'', si_seat = ''main'', si_generation = 3, si_task = None,
     si_route = \<lparr>jr_route = ''r'', jr_provider = ''p'', jr_endpoint = ''e'', jr_account = ''a'',
       jr_billing_pool = ''b'', jr_protocol = AnthropicMessages, jr_vendor = ''v'', jr_model = ''m''\<rparr>,
     si_repo = ''/repo'', si_created_at = 9, si_completed_at = None\<rparr>"

definition sample_provenance :: policy_provenance where
  "sample_provenance = \<lparr>pv_fingerprint = ''f'', pv_source = ''operator'', pv_decision = ''allow'', pv_scope = ''all''\<rparr>"

definition sample_journal_ops :: "journal_op list" where
  "sample_journal_ops =
     [CreateSession sample_identity_row,
      PrepareToolCall ''s'' 3 no_scope ''c'' ''run'' (JObject []) sample_provenance None 11,
      PrepareExecution ''s'' 3 no_scope ''x'' ''c'' None 12,
      TransitionExecution ''s'' 3 no_scope ''x'' Started None None None 13,
      AppendFrame ''s'' 3 ''d'' AssistantText ''hello'' 14]"

abbreviation sample_journal :: journal where
  "sample_journal \<equiv> run_journals (\<lambda>_. None) id sample_journal_ops (new_journal [])"

lemmas run_defs = run_journals_def new_journal_def forget_def checked_def in_tx_def take_failure_def
  create_session_def session_row.defs session_identity.defs prepare_tool_call_def prepare_execution_def
  transition_execution_def append_stream_frame_def append_tx_def ensure_generation_def update_session_def
  require_tool_call_def has_tool_call_def latest_execution_def latest_in_def select_rows_def
  of_execution_def validate_tool_arguments_def validate_execution_transition_def event_row_of_def
  no_ids_def collides_def same_id_def session_of_def sql_u64_def i64_max_def u64_max_def empty_tables_def
  Let_def max_stream_frame_bytes_def max_stream_draft_bytes_def next_frame_index_def draft_bytes_def
  set_frames_def sat_add_def

lemma sample_journal_run:
  "sample_journal =
     \<lparr>jn_tables =
        \<lparr>tb_sessions = [session_identity.extend sample_identity_row (session_row.fields 13 3)],
         tb_events = (\<lambda>_. [])(''s'' :=
           [event_row_of 1 3 no_scope (ToolCallPrepared ''c'' ''run'' (JObject []) sample_provenance None) 11,
            event_row_of 2 3 no_scope (ToolExecution ''x'' ''c'' Prepared None None None) 12,
            event_row_of 3 3 no_scope (ToolExecution ''x'' ''c'' Started None None None) 13]),
         tb_frames = (\<lambda>_ _. [])(''s'' := (\<lambda>_. [])(''d'' :=
           [\<lparr>fr_index = 0, fr_kind = AssistantText, fr_data = ''hello'', fr_created_at = 14\<rparr>])),
         tb_continuations = (\<lambda>_ _. None), tb_artifacts = (\<lambda>_. None)\<rparr>,
      jn_faults = []\<rparr>"
  by (simp add: run_defs sample_journal_ops_def sample_identity_row_def, simp add: numeral_eq_Suc)

definition sample_session_row :: session_row where
  "sample_session_row = session_identity.extend sample_identity_row (session_row.fields 13 3)"

lemma sample_row_fields [simp]: "si_generation sample_session_row = 3" "sr_next_sequence sample_session_row = 3"
  "si_session sample_session_row = ''s''"
  by (simp_all add: sample_session_row_def sample_identity_row_def)

lemma sample_session: "session_of (jn_tables sample_journal) ''s'' = Some sample_session_row"
  using sample_row_fields(3)
  by (simp add: sample_journal_run session_of_def sample_session_row_def del: sample_row_fields)

lemma sample_rows [simp]:
  "tb_events (jn_tables sample_journal) ''s'' =
     [event_row_of 1 3 no_scope (ToolCallPrepared ''c'' ''run'' (JObject []) sample_provenance None) 11,
      event_row_of 2 3 no_scope (ToolExecution ''x'' ''c'' Prepared None None None) 12,
      event_row_of 3 3 no_scope (ToolExecution ''x'' ''c'' Started None None None) 13]"
  "tb_frames (jn_tables sample_journal) ''s'' ''d'' =
     [\<lparr>fr_index = 0, fr_kind = AssistantText, fr_data = ''hello'', fr_created_at = 14\<rparr>]"
  by (simp_all add: sample_journal_run)

lemma sample_numbered: "numbered 3 (tb_events (jn_tables sample_journal) ''s'')"
  by (simp add: numbered_def upt_rec)

lemma sample_decoded:
  "\<exists>es. journal_events (jn_tables sample_journal) ''s'' = Inr es \<and> length es = 3 \<and> history_of ''x'' es = [Prepared, Started]"
  unfolding journal_events_def read_session_Some [OF sample_session] read_events_numbered [OF sample_numbered]
  by (simp add: history_of_def states_in_def)


lemma effects_begin_at_most_once_witness:
  "\<exists>es. journal_events (jn_tables sample_journal) ''s'' = Inr es \<and> history_of ''x'' es = [Prepared, Started]
     \<and> distinct (history_of ''x'' es)"
  using sample_decoded effects_begin_at_most_once [where x = "''x''"] by metis

lemma journal_is_fenced_witness:
  "refused (run_journal (\<lambda>_. None) id (CompleteSession ''s'' 2 ''late'' 20) sample_journal) sample_journal"
proof -
  obtain es where "journal_events (jn_tables sample_journal) ''s'' = Inr es" using sample_decoded by blast
  from journal_is_fenced [OF sample_session this, of "CompleteSession ''s'' 2 ''late'' 20" 2] show ?thesis
    by simp
qed

lemma sample_started: "in_state Started (jn_tables sample_journal) ''s'' ''x''"
  by (simp add: in_state_def latest_execution_def latest_in_def select_numbered [OF sample_numbered, simplified])

lemma reconciliation_leaves_nothing_started_witness:
  "\<exists>j xs. reconcile_started_as_unknown ''s'' 3 None 20 sample_journal = (j, Inr xs) \<and> ''x'' \<in> set xs
     \<and> in_state OutcomeUnknown (jn_tables j) ''s'' ''x''"
proof -
  have "jn_faults sample_journal = []" by (simp add: sample_journal_run)
  moreover have "\<forall>r \<in> set (tb_events (jn_tables sample_journal) ''s''). pred_option accepted_id (ix_execution (ev_ids r))"
    by (simp add: accepted_id_def)
  ultimately show ?thesis
    using reconciliation_leaves_nothing_started [OF _ sample_session, of 20 None] sample_started
    by (simp add: i64_max_def) blast
qed

lemma pages_have_no_gap_witness:
  "\<exists>es. journal_events (jn_tables sample_journal) ''s'' = Inr es
     \<and> events_after (jn_tables sample_journal) ''s'' 1 1 = Inr (take 1 (drop 1 es))"
proof -
  obtain es where es: "journal_events (jn_tables sample_journal) ''s'' = Inr es" using sample_decoded by blast
  have "events_after (jn_tables sample_journal) ''s'' 1 1 = Inr (take 1 (drop 1 es))"
    using pages_have_no_gap [OF es, of 1 1] by (simp add: i64_max_def)
  with es show ?thesis by blast
qed

lemma drafts_commit_whole_witness:
  "\<exists>j row blocks. commit_assistant_stream ''s'' 3 no_scope ''d'' ''m'' None None 20 sample_journal = (j, Inr 4)
     \<and> ev_payload row = Holds (AssistantMessageCommitted ''m'' blocks None None)
     \<and> tb_events (jn_tables j) ''s'' = tb_events (jn_tables sample_journal) ''s'' @ [row]
     \<and> concat (map block_content blocks) = ''hello''"
proof -
  let ?c = "commit_assistant_stream ''s'' 3 no_scope ''d'' ''m'' None None 20 sample_journal"
  have "snd ?c = Inr 4"
    by (simp add: commit_assistant_stream_def in_tx_def sample_journal_run take_failure_def ensure_generation_def
      session_of_def sample_identity_row_def session_identity.defs session_row.defs require_usage_def
      read_frames_def frames_of_def assistant_blocks_from_frames_def blocks_step_def utf8_ok_def utf8_tail_def Let_def
      append_tx_def sql_u64_def i64_max_def u64_max_def collides_def same_id_def)
  then obtain j where "?c = (j, Inr 4)" by (cases ?c) simp
  with drafts_commit_whole [OF this] show ?thesis by auto
qed


end
