(* ===== verification/Checkpoint.thy ===== *)
theory Checkpoint
  imports Journal_Claims
begin

text \<open>
  Portable checkpoints, \<open>src/commands/ctx/runtime/checkpoint.rs\<close>: what a session still owes, built from
  its conversation, and the newest checkpoint a later reader can use.

  Texts are their UTF-8 bytes, as in the journal. What \<open>serde\<close> makes of a checkpoint (\<open>enc\<close>, and \<open>dec\<close>
  back) and the JSON printer are arguments.
\<close>

section \<open>The checkpoint's data\<close>

definition CHECKPOINT_SCHEMA_VERSION :: nat where
  "CHECKPOINT_SCHEMA_VERSION = 1"

definition MAX_TEXT_BYTES :: nat where
  "MAX_TEXT_BYTES = 4096"

definition MAX_ITEMS :: nat where
  "MAX_ITEMS = 64"

definition MAX_ACKNOWLEDGED_TEXT_BYTES :: nat where
  "MAX_ACKNOWLEDGED_TEXT_BYTES = MAX_ITEMS * MAX_TEXT_BYTES"

record portable_route =
  po_route :: string
  po_provider :: string
  po_endpoint :: string
  po_account :: string
  po_protocol :: string
  po_vendor :: string
  po_model :: string

fun protocol_debug :: "provider_protocol \<Rightarrow> string" where
  "protocol_debug AnthropicMessages = ''AnthropicMessages''"
| "protocol_debug OpenAiResponses = ''OpenAiResponses''"
| "protocol_debug OpenAiChatCompatible = ''OpenAiChatCompatible''"
| "protocol_debug GoogleGenerativeAi = ''GoogleGenerativeAi''"
| "protocol_debug GoogleVertex = ''GoogleVertex''"
| "protocol_debug AwsBedrock = ''AwsBedrock''"
| "protocol_debug AzureOpenAiChat = ''AzureOpenAiChat''"

definition portable_route_of :: "journal_route_identity \<Rightarrow> portable_route" where
  "portable_route_of r =
     \<lparr>po_route = jr_route r, po_provider = jr_provider r, po_endpoint = jr_endpoint r,
      po_account = jr_account r, po_protocol = protocol_debug (jr_protocol r),
      po_vendor = jr_vendor r, po_model = jr_model r\<rparr>"

record acknowledged_input =
  ai_message_id :: string
  ai_sequence :: u64
  ai_text :: string
  ai_steering :: bool
  ai_pending :: bool
  ai_text_elided :: bool

record task_claim =
  tk_task :: string
  tk_state :: string
  tk_since_sequence :: u64

record action_receipt =
  ar_tool_call :: string
  ar_tool :: string
  ar_state :: string
  ar_sequence :: u64
  ar_artifact_sha256 :: "string option"
  ar_result_bytes :: u64

record outstanding_tool =
  ot_tool_call :: string
  ot_tool :: string
  ot_state :: string
  ot_arguments_digest :: string

record evidence_ref =
  er_handle :: string
  er_byte_len :: u64
  er_media_type :: string
  er_tool :: string
  er_path :: "string option"

record distilled_summary =
  ds_source :: string
  ds_model :: "string option"
  ds_text :: string
  ds_decisions :: "string list"

record checkpoint_context =
  cc_hard_constraints :: "string list"
  cc_task :: "string option"
  cc_workflow :: "string option"
  cc_reason :: string

record portable_checkpoint =
  pc_schema_version :: nat
  pc_checkpoint_id :: string
  pc_session :: string
  pc_generation :: u64
  pc_created_at :: u64
  pc_reason :: string
  pc_route :: portable_route
  pc_covers_through :: u64
  pc_last_sequence :: u64
  pc_objective :: "string option"
  pc_hard_constraints :: "string list"
  pc_task :: "string option"
  pc_workflow :: "string option"
  pc_acknowledged_input :: "acknowledged_input list"
  pc_claims :: "task_claim list"
  pc_receipts :: "action_receipt list"
  pc_outstanding_tools :: "outstanding_tool list"
  pc_evidence :: "evidence_ref list"
  pc_summary :: distilled_summary

definition is_valid_for :: "portable_checkpoint \<Rightarrow> string \<Rightarrow> u64 \<Rightarrow> bool" where
  "is_valid_for c s last_sequence \<longleftrightarrow>
     pc_schema_version c = CHECKPOINT_SCHEMA_VERSION \<and> pc_session c = s
     \<and> pc_covers_through c \<le> last_sequence \<and> pc_covers_through c \<le> pc_last_sequence c"

definition pending_input :: "portable_checkpoint \<Rightarrow> acknowledged_input list" where
  "pending_input c = filter ai_pending (pc_acknowledged_input c)"

definition same_route_as :: "portable_checkpoint \<Rightarrow> journal_route_identity \<Rightarrow> bool" where
  "same_route_as c r \<longleftrightarrow> pc_route c = portable_route_of r"

section \<open>The boundary of a summary\<close>

definition note_execution ::
    "(string \<times> execution_record) list \<Rightarrow> execution_record \<Rightarrow> (string \<times> execution_record) list" where
  "note_execution latest x =
     (case map_of latest (xr_tool_call x) of
        None \<Rightarrow> bt_insert (xr_tool_call x) x latest
      | Some y \<Rightarrow>
          if xr_sequence y \<le> xr_sequence x then bt_insert (xr_tool_call x) x latest else latest)"

definition latest_executions :: "conversation \<Rightarrow> (string \<times> execution_record) list" where
  "latest_executions v = foldl note_execution [] (map snd (cv_executions v))"

definition settled_call :: "conversation \<Rightarrow> string \<Rightarrow> bool" where
  "settled_call v c =
     (case map_of (latest_executions v) c of None \<Rightarrow> False | Some x \<Rightarrow> is_terminal (xr_state x))"

fun note_block :: "conversation \<Rightarrow> u64 \<Rightarrow> u64 option \<Rightarrow> assistant_block \<Rightarrow> u64 option" where
  "note_block v n earliest (ToolCallBlock c) =
     (if settled_call v c then earliest
      else Some (case earliest of None \<Rightarrow> n | Some e \<Rightarrow> min e n))"
| "note_block v n earliest _ = earliest"

definition first_unsettled_sequence :: "conversation \<Rightarrow> u64 option" where
  "first_unsettled_sequence v =
     foldl (\<lambda>earliest m. if ms_role m \<noteq> AssistantRole then earliest
                         else foldl (note_block v (ms_sequence m)) earliest (ms_blocks m))
       None (cv_messages v)"

text \<open>
  The callers keep four recent messages; a \<open>retain\<close> of zero would index past the end.
\<close>

definition boundary :: "conversation \<Rightarrow> nat \<Rightarrow> u64 option" where
  "boundary v retain =
     (let ms = cv_messages v; unsettled = first_unsettled_sequence v;
          keep = (if retain < length ms then Some (ms_sequence (ms ! (length ms - retain)))
                  else case ms of [] \<Rightarrow> None | m # _ \<Rightarrow> Some (ms_sequence m))
      in case keep of
           None \<Rightarrow> None
         | Some keep_from \<Rightarrow>
             let cut = (case unsettled of Some u \<Rightarrow> min u keep_from | None \<Rightarrow> keep_from)
             in map_option ms_sequence (find (\<lambda>m. ms_sequence m < cut) (rev ms)))"

definition overflow_boundary :: "conversation \<Rightarrow> u64 option" where
  "overflow_boundary v =
     (let unsettled = first_unsettled_sequence v
      in map_option ms_sequence
           (find (\<lambda>m. case unsettled of None \<Rightarrow> True | Some u \<Rightarrow> ms_sequence m < u) (rev (cv_messages v))))"

section \<open>Bounded text\<close>

definition is_char_boundary :: "string \<Rightarrow> nat \<Rightarrow> bool" where
  "is_char_boundary s n \<longleftrightarrow>
     n = 0 \<or> n = length s
     \<or> n < length s \<and> \<not> (0x80 \<le> (of_char (s ! n) :: nat) \<and> (of_char (s ! n) :: nat) < 0xC0)"

fun char_floor :: "string \<Rightarrow> nat \<Rightarrow> nat" where
  "char_floor s 0 = 0"
| "char_floor s (Suc n) = (if is_char_boundary s (Suc n) then Suc n else char_floor s n)"

definition ellipsis :: string where
  "ellipsis = map char_of [0xE2, 0x80, 0xA6 :: nat]"

definition truncate_bytes_ellipsis :: "string \<Rightarrow> nat \<Rightarrow> string" where
  "truncate_bytes_ellipsis s limit =
     (if length s \<le> limit then s else take (char_floor s limit) s @ ellipsis)"

definition bound :: "string \<Rightarrow> string" where
  "bound s =
     (if length s \<le> MAX_TEXT_BYTES then s else take (char_floor s MAX_TEXT_BYTES) s @ ellipsis)"

text \<open>
  \<open>str::trim\<close> removes every Unicode white space; on UTF-8 bytes these are the following encodings. Each round
  of \<open>strip\<close> removes at least a byte, so as many rounds as there are bytes are enough (\<open>strip_complete\<close>).
\<close>

definition white_spaces :: "string list" where
  "white_spaces = map (map char_of :: nat list \<Rightarrow> string)
     ([[9], [10], [11], [12], [13], [32], [0xC2, 0x85], [0xC2, 0xA0], [0xE1, 0x9A, 0x80]] @
      map (\<lambda>n. [0xE2, 0x80, n]) [0x80, 0x81, 0x82, 0x83, 0x84, 0x85, 0x86, 0x87, 0x88, 0x89, 0x8A, 0xA8, 0xA9, 0xAF] @
      [[0xE2, 0x81, 0x9F], [0xE3, 0x80, 0x80]])"

fun strip :: "string list \<Rightarrow> nat \<Rightarrow> string \<Rightarrow> string" where
  "strip ws 0 s = s"
| "strip ws (Suc n) s =
     (case find (\<lambda>w. prefix w s) ws of None \<Rightarrow> s | Some w \<Rightarrow> strip ws n (drop (length w) s))"

definition str_trim :: "string \<Rightarrow> string" where
  "str_trim s =
     (let front = strip white_spaces (length s) s
      in rev (strip (map rev white_spaces) (length front) (rev front)))"

lemma strip_complete:
  assumes "[] \<notin> set ws" and "length s \<le> n" and "w \<in> set ws"
  shows "\<not> prefix w (strip ws n s)"
  using assms(2)
proof (induction n arbitrary: s)
  case 0
  then show ?case using assms(1,3) by auto
next
  case (Suc n)
  show ?case
  proof (cases "find (\<lambda>w. prefix w s) ws")
    case None
    with assms(3) have "\<not> prefix w s" by (auto simp: find_None_iff)
    with None show ?thesis by simp
  next
    case (Some u)
    then have u: "u \<noteq> []" "prefix u s" using assms(1) by (auto simp: find_Some_iff in_set_conv_nth)
    then have "length (drop (length u) s) \<le> n" using Suc.prems by (cases u) (auto dest: prefix_length_le)
    with Suc.IH Some show ?thesis by simp
  qed
qed

fun hex_digits :: "nat \<Rightarrow> nat \<Rightarrow> string" where
  "hex_digits 0 n = []"
| "hex_digits (Suc k) n = hex_digits k (n div 16) @ [''0123456789abcdef'' ! (n mod 16)]"

fun state_label :: "execution_state \<Rightarrow> string" where
  "state_label Prepared = ''prepared''"
| "state_label Started = ''started''"
| "state_label Completed = ''completed''"
| "state_label Failed = ''failed''"
| "state_label Cancelled = ''cancelled''"
| "state_label OutcomeUnknown = ''outcome_unknown''"

fun receipt_label :: "receipt_state \<Rightarrow> string" where
  "receipt_label RcAccepted = ''accepted''"
| "receipt_label RcStarted = ''started''"
| "receipt_label RcBlocked = ''blocked''"
| "receipt_label RcCompleted = ''completed''"
| "receipt_label RcFailed = ''failed''"
| "receipt_label RcCancelled = ''cancelled''"

fun json_text :: "string \<Rightarrow> json \<Rightarrow> string option" where
  "json_text key (JObject m) = (case map_of m key of Some (JString s) \<Rightarrow> Some s | _ \<Rightarrow> None)"
| "json_text key _ = None"

definition argument_path :: "json \<Rightarrow> string option" where
  "argument_path a =
     (case List.map_filter (\<lambda>key. json_text key a) [''path'', ''file'', ''file_path'', ''target''] of
        [] \<Rightarrow> None
      | s # _ \<Rightarrow> Some (bound s))"

section \<open>Building a checkpoint\<close>

definition input_of :: "u64 \<Rightarrow> stored_message \<Rightarrow> acknowledged_input" where
  "input_of delivered m =
     \<lparr>ai_message_id = ms_message_id m, ai_sequence = ms_sequence m,
      ai_text = bound (case ms_text m of None \<Rightarrow> [] | Some s \<Rightarrow> s), ai_steering = ms_steering m,
      ai_pending = (delivered < ms_sequence m), ai_text_elided = False\<rparr>"

definition user_messages :: "conversation \<Rightarrow> stored_message list" where
  "user_messages v = filter (\<lambda>m. ms_role m = UserRole) (cv_messages v)"

definition objective_of :: "conversation \<Rightarrow> string option" where
  "objective_of v =
     map_option (\<lambda>m. bound (case ms_text m of None \<Rightarrow> [] | Some s \<Rightarrow> s))
       (find (\<lambda>m. \<not> ms_steering m) (user_messages v))"

definition arguments_digest :: "(json \<Rightarrow> string) \<Rightarrow> json \<Rightarrow> string" where
  "arguments_digest print a = hex_digits 16 (input_hash (print a))"

definition receipt_of :: "string \<Rightarrow> tool_call_record \<Rightarrow> execution_record \<Rightarrow> action_receipt" where
  "receipt_of c r x =
     (let (artifact, bytes) =
        (case xr_result x of
           Some (ArtifactContent sha n h media) \<Rightarrow> (Some sha, n)
         | Some other \<Rightarrow> (None, content_byte_len other)
         | None \<Rightarrow> (None, 0))
      in \<lparr>ar_tool_call = c, ar_tool = tc_name r, ar_state = state_label (xr_state x),
          ar_sequence = xr_sequence x, ar_artifact_sha256 = artifact, ar_result_bytes = bytes\<rparr>)"

definition evidence_of :: "tool_call_record \<Rightarrow> execution_record \<Rightarrow> evidence_ref list" where
  "evidence_of r x =
     (case xr_result x of
        Some (ArtifactContent sha n h media) \<Rightarrow>
          [\<lparr>er_handle = sha, er_byte_len = n, er_media_type = media, er_tool = tc_name r,
            er_path = argument_path (tc_arguments r)\<rparr>]
      | _ \<Rightarrow> [])"

definition outstanding_of ::
    "(json \<Rightarrow> string) \<Rightarrow> string \<Rightarrow> tool_call_record \<Rightarrow> execution_state \<Rightarrow> outstanding_tool" where
  "outstanding_of print c r st =
     \<lparr>ot_tool_call = c, ot_tool = tc_name r, ot_state = state_label st,
      ot_arguments_digest = arguments_digest print (tc_arguments r)\<rparr>"

definition known_calls ::
    "conversation \<Rightarrow> (string \<times> tool_call_record \<times> execution_record) list" where
  "known_calls v =
     List.map_filter (\<lambda>(c, x). map_option (\<lambda>r. (c, r, x)) (map_of (cv_tool_calls v) c)) (latest_executions v)"

definition receipts_of :: "conversation \<Rightarrow> action_receipt list" where
  "receipts_of v =
     concat (map (\<lambda>(c, r, x). if is_terminal (xr_state x) then [receipt_of c r x] else []) (known_calls v))"

definition evidence_refs :: "conversation \<Rightarrow> evidence_ref list" where
  "evidence_refs v =
     concat (map (\<lambda>(c, r, x). if is_terminal (xr_state x) then evidence_of r x else []) (known_calls v))"

definition outstanding_calls :: "(json \<Rightarrow> string) \<Rightarrow> conversation \<Rightarrow> outstanding_tool list" where
  "outstanding_calls print v =
     sort_key ot_tool_call
       (concat (map (\<lambda>(c, r, x). if is_terminal (xr_state x) then []
                                 else [outstanding_of print c r (xr_state x)]) (known_calls v))
        @ concat (map (\<lambda>(c, r). if map_of (latest_executions v) c \<noteq> None then []
                                else [outstanding_of print c r Prepared]) (cv_tool_calls v)))"

definition claim_of :: "string \<times> task_receipt_record list \<Rightarrow> task_claim list" where
  "claim_of p =
     (if snd p = [] then []
      else let r = last (snd p) in
        if rc_state r \<in> {RcCompleted, RcFailed, RcCancelled} then []
        else [\<lparr>tk_task = fst p, tk_state = receipt_label (rc_state r), tk_since_sequence = rc_sequence r\<rparr>])"

fun elide_delivered :: "nat \<Rightarrow> acknowledged_input list \<Rightarrow> acknowledged_input list" where
  "elide_delivered bytes [] = []"
| "elide_delivered bytes (i # inputs) =
     (if bytes \<le> MAX_ACKNOWLEDGED_TEXT_BYTES then i # inputs
      else if ai_pending i \<or> ai_text i = [] then i # elide_delivered bytes inputs
      else i\<lparr>ai_text := [], ai_text_elided := True\<rparr> # elide_delivered (bytes - length (ai_text i)) inputs)"

definition bound_acknowledged_input :: "acknowledged_input list \<Rightarrow> acknowledged_input list" where
  "bound_acknowledged_input inputs = elide_delivered (sum_list (map (\<lambda>i. length (ai_text i)) inputs)) inputs"

definition truncate_newest_kept :: "nat \<Rightarrow> 'a list \<Rightarrow> 'a list" where
  "truncate_newest_kept limit xs = (if limit < length xs then drop (length xs - limit) xs else xs)"

definition truncate_oldest :: "nat \<Rightarrow> 'a list \<Rightarrow> 'a list" where
  "truncate_oldest limit xs = take limit xs"

definition build_checkpoint ::
    "(json \<Rightarrow> string) \<Rightarrow> conversation \<Rightarrow> u64 \<Rightarrow> u64 \<Rightarrow> string \<Rightarrow> checkpoint_context \<Rightarrow> distilled_summary
      \<Rightarrow> u64 \<Rightarrow> portable_checkpoint" where
  "build_checkpoint print v covers delivered cid ctx summary created =
     \<lparr>pc_schema_version = CHECKPOINT_SCHEMA_VERSION, pc_checkpoint_id = cid,
      pc_session = si_session (cv_identity v), pc_generation = si_generation (cv_identity v),
      pc_created_at = created, pc_reason = cc_reason ctx,
      pc_route = portable_route_of (si_route (cv_identity v)),
      pc_covers_through = covers, pc_last_sequence = cv_last_sequence v,
      pc_objective = objective_of v,
      pc_hard_constraints = take MAX_ITEMS (map bound (cc_hard_constraints ctx)),
      pc_task = cc_task ctx, pc_workflow = cc_workflow ctx,
      pc_acknowledged_input = bound_acknowledged_input (map (input_of delivered) (user_messages v)),
      pc_claims = concat (map claim_of (cv_task_receipts v)),
      pc_receipts = truncate_oldest MAX_ITEMS (receipts_of v),
      pc_outstanding_tools = truncate_newest_kept MAX_ITEMS (outstanding_calls print v),
      pc_evidence = truncate_oldest MAX_ITEMS (evidence_refs v),
      pc_summary = summary\<rparr>"

section \<open>Committing and reading back\<close>

text \<open>
  The export beside the journal is a file per checkpoint; its writes may fail and nobody waits for them.
\<close>

record export_dir =
  xd_files :: "string \<Rightarrow> portable_checkpoint option"
  xd_faults :: "bool list"

text \<open>A character is replaced as a whole, so its continuation bytes go.\<close>

definition sanitize :: "string \<Rightarrow> string" where
  "sanitize s =
     concat (map (\<lambda>c. if is_ascii_alphanumeric c \<or> c = CHR ''-'' \<or> c = CHR ''_'' then [c]
                      else if 0x80 \<le> (of_char c :: nat) \<and> (of_char c :: nat) < 0xC0 then [] else ''_'') s)"

definition export_name :: "portable_checkpoint \<Rightarrow> string" where
  "export_name c =
     hex_digits 16 (input_hash (pc_session c)) @ ''-'' @ sanitize (pc_checkpoint_id c) @ ''.json''"

definition export_checkpoint :: "portable_checkpoint \<Rightarrow> export_dir \<Rightarrow> export_dir" where
  "export_checkpoint c d =
     (let (lost, fs) = take_failure (xd_faults d)
      in if lost then d\<lparr>xd_faults := fs\<rparr>
         else d\<lparr>xd_faults := fs, xd_files := (xd_files d)(export_name c \<mapsto> c)\<rparr>)"

definition commit_checkpoint ::
    "(portable_checkpoint \<Rightarrow> json) \<Rightarrow> export_dir option \<Rightarrow> u64 \<Rightarrow> event_scope \<Rightarrow> checkpoint_kind
      \<Rightarrow> portable_checkpoint \<Rightarrow> u64 \<Rightarrow> journal \<Rightarrow> export_dir option \<times> journal \<times> (journal_error + u64)" where
  "commit_checkpoint enc dir g scope kind c at j =
     (case opaque_id ''JournalSessionId'' (pc_session c) of
        Inl e \<Rightarrow> (dir, j, Inl e)
      | Inr s \<Rightarrow>
          let dir1 = map_option (export_checkpoint c) dir in
          case opaque_id ''CheckpointId'' (pc_checkpoint_id c) of
            Inl e \<Rightarrow> (dir1, j, Inl e)
          | Inr cid \<Rightarrow> (dir1, record_checkpoint s g scope cid kind (enc c) at j))"

definition candidates :: "conversation \<Rightarrow> checkpoint_kind \<Rightarrow> checkpoint_record list" where
  "candidates v kind = sort_key cp_sequence (filter (\<lambda>r. cp_kind r = kind) (map snd (cv_checkpoints v)))"

definition usable :: "(json \<Rightarrow> portable_checkpoint option) \<Rightarrow> string \<Rightarrow> u64 \<Rightarrow> checkpoint_record
    \<Rightarrow> portable_checkpoint option" where
  "usable dec s last_sequence r =
     (case dec (cp_portable_state r) of
        None \<Rightarrow> None
      | Some c \<Rightarrow> if is_valid_for c s last_sequence then Some c else None)"

definition latest_valid ::
    "(json \<Rightarrow> portable_checkpoint option) \<Rightarrow> tables \<Rightarrow> string \<Rightarrow> checkpoint_kind
      \<Rightarrow> journal_error + portable_checkpoint option" where
  "latest_valid dec t s kind =
     and_then (replay t s) (\<lambda>v.
       case List.map_filter (usable dec s (cv_last_sequence v)) (rev (candidates v kind)) of
         [] \<Rightarrow> Inr None
       | c # _ \<Rightarrow> Inr (Some c))"

end
