(* ===== verification/Compaction.thy ===== *)
theory Compaction
  imports Checkpoint
begin

text \<open>
  Compaction, \<open>src/commands/ctx/runtime/compaction.rs\<close>, with the step of the native loop that commits one
  (\<open>compact_now\<close> in \<open>runtime/native/turn.rs\<close>): summaries of the covered part of a conversation, the message
  that stands in for it, and how a session continues on another route. The score of the repetition
  engine, on doubles, is not modelled.
\<close>

section \<open>What the provider sees\<close>

datatype provider_content =
    ProviderText string
  | ProviderThinking string json
  | ProviderRedactedThinking json
  | ProviderToolUse string string json
  | ProviderToolResult string string bool
  | ProviderRefusal string

datatype provider_role = ProviderUser | ProviderAssistant

record provider_message =
  pm_role :: provider_role
  pm_content :: "provider_content list"

record provider_usage =
  pu_input_tokens :: u64
  pu_cache_creation_input_tokens :: u64
  pu_cache_read_input_tokens :: u64
  pu_output_tokens :: u64
  pu_reasoning_tokens :: "u64 option"

definition no_usage :: provider_usage where
  "no_usage = \<lparr>pu_input_tokens = 0, pu_cache_creation_input_tokens = 0, pu_cache_read_input_tokens = 0,
     pu_output_tokens = 0, pu_reasoning_tokens = None\<rparr>"

section \<open>Policy, budget and measurement\<close>

definition RETAIN_RECENT_MESSAGES :: nat where
  "RETAIN_RECENT_MESSAGES = 4"

datatype compaction_policy = Automatic | Advisory

fun narrow_policy :: "compaction_policy \<Rightarrow> compaction_policy option \<Rightarrow> compaction_policy" where
  "narrow_policy _ (Some Advisory) = Advisory"
| "narrow_policy Advisory _ = Advisory"
| "narrow_policy Automatic _ = Automatic"

definition usable_input_tokens :: "u64 option \<Rightarrow> u64 \<Rightarrow> u64 option" where
  "usable_input_tokens window reserve =
     (case window of
        None \<Rightarrow> None
      | Some w \<Rightarrow> if w < reserve then None else if w - reserve = 0 then None else Some (w - reserve))"

record distill_budget =
  db_max_input_chars :: nat
  db_max_output_tokens :: u64

fun measure_event :: "(string \<Rightarrow> (u64 \<times> bool) option) \<times> u64 \<times> bool \<Rightarrow> journal_event
    \<Rightarrow> (string \<Rightarrow> (u64 \<times> bool) option) \<times> u64 \<times> bool" where
  "measure_event (totals, measured) (UsageRecorded u) =
     (totals(us_id u \<mapsto>
        (sat_add (sat_add (us_input_tokens u) (us_cache_creation_input_tokens u)) (us_cache_read_input_tokens u),
         us_estimated u)), measured)"
| "measure_event (totals, measured) (AssistantMessageCommitted _ _ (Some u) _) =
     (totals, case totals u of Some (n, est) \<Rightarrow> if 0 < n then (n, est) else measured | None \<Rightarrow> measured)"
| "measure_event st _ = st"

definition measured_context :: "tables \<Rightarrow> string \<Rightarrow> journal_error + u64 \<times> bool" where
  "measured_context t s =
     and_then (journal_events t s) (\<lambda>es.
       Inr (snd (foldl measure_event (\<lambda>_. None, 0, False) (map sv_event es))))"

section \<open>Summaries\<close>

text \<open>\<open>max_by_key\<close> keeps the last of equal maxima.\<close>

definition max_execution :: "execution_record list \<Rightarrow> execution_record option" where
  "max_execution xs =
     foldl (\<lambda>best x. case best of None \<Rightarrow> Some x
                     | Some y \<Rightarrow> if xr_sequence y \<le> xr_sequence x then Some x else Some y) None xs"

definition latest_state :: "conversation \<Rightarrow> string \<Rightarrow> string" where
  "latest_state v c =
     (case max_execution (filter (\<lambda>x. xr_tool_call x = c) (map snd (cv_executions v))) of
        Some x \<Rightarrow> state_label (xr_state x)
      | None \<Rightarrow> ''prepared'')"

definition tool_name :: "conversation \<Rightarrow> string \<Rightarrow> string" where
  "tool_name v c = (case map_of (cv_tool_calls v) c of Some r \<Rightarrow> tc_name r | None \<Rightarrow> ''unknown'')"

definition message_text :: "stored_message \<Rightarrow> string" where
  "message_text m = (case ms_text m of None \<Rightarrow> [] | Some s \<Rightarrow> s)"

fun block_call :: "assistant_block \<Rightarrow> string list" where
  "block_call (ToolCallBlock c) = [c]"
| "block_call _ = []"

fun join_text :: "string \<Rightarrow> string list \<Rightarrow> string" where
  "join_text sep [] = []"
| "join_text sep [x] = x"
| "join_text sep (x # y # xs) = x @ sep @ join_text sep (y # xs)"

definition newline :: string where
  "newline = [CHR 0x0A]"

definition render_message :: "conversation \<Rightarrow> stored_message \<Rightarrow> string" where
  "render_message v m =
     (case ms_role m of
        UserRole \<Rightarrow>
          ''['' @ (if ms_steering m then ''steering'' else ''user'') @ ''] '' @ str_trim (message_text m) @ newline
      | AssistantRole \<Rightarrow>
          (let body = concat (map block_text (ms_blocks m));
               calls = map (\<lambda>c. tool_name v c @ ''='' @ latest_state v c) (concat (map block_call (ms_blocks m)))
           in (if str_trim body = [] then [] else ''[assistant] '' @ str_trim body @ newline)
              @ (if calls = [] then [] else ''[tools] '' @ join_text '', '' calls @ newline)))"

fun render_from :: "conversation \<Rightarrow> u64 \<Rightarrow> nat \<Rightarrow> string \<Rightarrow> stored_message list \<Rightarrow> string" where
  "render_from v covers limit out [] = out"
| "render_from v covers limit out (m # ms) =
     (if covers < ms_sequence m then out
      else let out1 = out @ render_message v m in
        if limit \<le> length out1 then out1 else render_from v covers limit out1 ms)"

definition render_covered :: "conversation \<Rightarrow> u64 \<Rightarrow> nat \<Rightarrow> string" where
  "render_covered v covers limit = truncate_bytes_ellipsis (render_from v covers limit [] (cv_messages v)) limit"

definition covered_messages :: "conversation \<Rightarrow> u64 \<Rightarrow> stored_message list" where
  "covered_messages v covers = takeWhile (\<lambda>m. ms_sequence m \<le> covers) (cv_messages v)"

definition structural_summary :: "conversation \<Rightarrow> u64 \<Rightarrow> distilled_summary" where
  "structural_summary v covers =
     (let ms = covered_messages v covers;
          turns = length (filter (\<lambda>m. ms_role m = UserRole) ms);
          answers = filter (\<lambda>m. ms_role m = AssistantRole) ms;
          tools = length (concat (map (\<lambda>m. concat (map block_call (ms_blocks m))) answers))
      in \<lparr>ds_source = ''structural'', ds_model = None,
          ds_text = ''Structural summary of the first '' @ show_nat covers @ '' journal events: '' @
            show_nat turns @ '' acknowledged input(s), '' @ show_nat (length answers) @
            '' assistant message(s), '' @ show_nat tools @
            '' tool call(s). The verbatim record is retained in the native journal and is not replaced by this summary.'' @
            newline @ newline @ render_covered v covers 4000,
          ds_decisions = []\<rparr>)"

text \<open>
  The fields of a request that vary between distillations (the others are constants of the source), and
  the fields of a response that are read.
\<close>

record distill_request =
  dr_model :: string
  dr_messages :: "provider_message list"
  dr_tools :: "string list"
  dr_max_output_tokens :: u64

record provider_response =
  ps_content :: "provider_content list"
  ps_model :: string
  ps_usage :: provider_usage

type_synonym distiller = "(distill_request \<Rightarrow> provider_response option) option"

fun is_tool_use :: "provider_content \<Rightarrow> bool" where
  "is_tool_use (ProviderToolUse _ _ _) = True"
| "is_tool_use _ = False"

fun content_text :: "provider_content \<Rightarrow> string" where
  "content_text (ProviderText s) = s"
| "content_text _ = []"

definition distill ::
    "distiller \<Rightarrow> string \<Rightarrow> conversation \<Rightarrow> u64 \<Rightarrow> distill_budget \<Rightarrow> distilled_summary \<times> provider_usage" where
  "distill provider model v covers budget =
     (case provider of
        None \<Rightarrow> (structural_summary v covers, no_usage)
      | Some stream \<Rightarrow>
          let transcript = render_covered v covers (db_max_input_chars budget) in
          if str_trim transcript = [] then (structural_summary v covers, no_usage)
          else case stream \<lparr>dr_model = model,
                      dr_messages = [\<lparr>pm_role = ProviderUser, pm_content = [ProviderText transcript]\<rparr>],
                      dr_tools = [], dr_max_output_tokens = db_max_output_tokens budget\<rparr> of
              None \<Rightarrow> (structural_summary v covers, no_usage)
            | Some response \<Rightarrow>
                if list_ex is_tool_use (ps_content response) then (structural_summary v covers, ps_usage response)
                else let body = concat (map content_text (ps_content response)) in
                  if str_trim body = [] then (structural_summary v covers, ps_usage response)
                  else (\<lparr>ds_source = ''route'', ds_model = Some (ps_model response),
                         ds_text = truncate_bytes_ellipsis body (db_max_input_chars budget), ds_decisions = []\<rparr>,
                        ps_usage response))"

section \<open>The compacted request\<close>

definition text_section :: "string \<Rightarrow> string \<Rightarrow> string" where
  "text_section title body = newline @ ''## '' @ title @ newline @ body"

definition list_section :: "string \<Rightarrow> string list \<Rightarrow> string" where
  "list_section title items =
     (if items = [] then []
      else text_section title (concat (map (\<lambda>i. ''- '' @ i @ newline) items)))"

definition receipt_line :: "action_receipt \<Rightarrow> string" where
  "receipt_line r =
     ar_tool r @ '' '' @ ar_tool_call r @ '' ('' @ ar_state r @ '')'' @
     (case ar_artifact_sha256 r of None \<Rightarrow> [] | Some h \<Rightarrow> '' evidence='' @ h)"

definition outstanding_line :: "outstanding_tool \<Rightarrow> string" where
  "outstanding_line t = ot_tool t @ '' '' @ ot_tool_call t @ '' ('' @ ot_state t @ '')''"

definition summary_text :: "portable_checkpoint \<Rightarrow> string" where
  "summary_text c =
     ''[zirv compaction] The earlier part of this conversation has been compacted. The '' @
     ''verbatim record is retained in the native journal; nothing below replaces it.'' @ newline @
     ''Reason: '' @ pc_reason c @ newline @
     (case pc_objective c of None \<Rightarrow> [] | Some x \<Rightarrow> text_section ''Objective'' (x @ newline)) @
     list_section ''Hard constraints'' (pc_hard_constraints c) @
     (case pc_task c of None \<Rightarrow> [] | Some x \<Rightarrow> text_section ''Task'' (x @ newline)) @
     (case pc_workflow c of None \<Rightarrow> [] | Some x \<Rightarrow> text_section ''Workflow'' (x @ newline)) @
     (if str_trim (ds_text (pc_summary c)) = [] then []
      else text_section (''Summary ('' @ ds_source (pc_summary c) @ '')'') (str_trim (ds_text (pc_summary c)) @ newline)) @
     list_section ''Completed actions'' (map receipt_line (pc_receipts c)) @
     list_section ''Outstanding tool calls (NOT complete)'' (map outstanding_line (pc_outstanding_tools c)) @
     list_section ''Acknowledged input not yet answered'' (map ai_text (pending_input c))"

definition summary_message :: "portable_checkpoint \<Rightarrow> provider_message" where
  "summary_message c = \<lparr>pm_role = ProviderUser, pm_content = [ProviderText (summary_text c)]\<rparr>"

definition active_checkpoint ::
    "(json \<Rightarrow> portable_checkpoint option) \<Rightarrow> tables \<Rightarrow> string \<Rightarrow> journal_error + portable_checkpoint option" where
  "active_checkpoint dec t s = latest_valid dec t s CompactionPoint"

section \<open>History for status\<close>

record compaction_record =
  cr_sequence :: u64
  cr_kind :: string
  cr_reason :: string
  cr_covers_through :: u64
  cr_summary_source :: string
  cr_created_at :: u64

record resume_record =
  rr_sequence :: u64
  rr_previous_generation :: u64
  rr_generation :: u64

fun kind_name :: "checkpoint_kind \<Rightarrow> string" where
  "kind_name RecoveryPoint = ''recovery''"
| "kind_name CompactionPoint = ''compaction''"
| "kind_name HandoffPoint = ''handoff''"

definition compaction_record_of ::
    "(json \<Rightarrow> portable_checkpoint option) \<Rightarrow> stored_event \<Rightarrow> compaction_record option" where
  "compaction_record_of dec e =
     (case sv_event e of
        Checkpoint _ kind state \<Rightarrow>
          let parsed = dec state in
          Some \<lparr>cr_sequence = sv_sequence e, cr_kind = kind_name kind,
            cr_reason = (case parsed of None \<Rightarrow> ''unreadable checkpoint'' | Some c \<Rightarrow> pc_reason c),
            cr_covers_through = (case parsed of None \<Rightarrow> 0 | Some c \<Rightarrow> pc_covers_through c),
            cr_summary_source = (case parsed of None \<Rightarrow> ''unknown'' | Some c \<Rightarrow> ds_source (pc_summary c)),
            cr_created_at = sv_committed_at e\<rparr>
      | _ \<Rightarrow> None)"

definition resume_record_of :: "stored_event \<Rightarrow> resume_record option" where
  "resume_record_of e =
     (case sv_event e of
        GenerationAdvanced previous current \<Rightarrow>
          Some \<lparr>rr_sequence = sv_sequence e, rr_previous_generation = previous, rr_generation = current\<rparr>
      | _ \<Rightarrow> None)"

definition recovery_history ::
    "(json \<Rightarrow> portable_checkpoint option) \<Rightarrow> tables \<Rightarrow> string
      \<Rightarrow> journal_error + compaction_record list \<times> resume_record list" where
  "recovery_history dec t s =
     and_then (journal_events t s) (\<lambda>es.
       Inr (List.map_filter (compaction_record_of dec) es, List.map_filter resume_record_of es))"

definition history_summary ::
    "(json \<Rightarrow> portable_checkpoint option) \<Rightarrow> tables \<Rightarrow> string
      \<Rightarrow> journal_error + nat \<times> nat \<times> compaction_record option" where
  "history_summary dec t s =
     and_then (event_type_count t s ''checkpoint'') (\<lambda>compactions.
     and_then (event_type_count t s ''generation_advanced'') (\<lambda>resumes.
     and_then (latest_event_of_type t s ''checkpoint'') (\<lambda>newest.
       Inr (compactions, resumes, case newest of None \<Rightarrow> None | Some e \<Rightarrow> compaction_record_of dec e))))"

section \<open>Continuing elsewhere\<close>

datatype continuation_plan =
    SameRoute "portable_checkpoint option"
  | Rebuilt "portable_checkpoint option" "provider_message list"

fun semantic_block :: "conversation \<Rightarrow> assistant_block \<Rightarrow> string" where
  "semantic_block v (TextBlock body) = body"
| "semantic_block v (RefusalBlock body) = body"
| "semantic_block v (ToolCallBlock c) =
     newline @ ''[previous tool call] '' @ tool_name v c @ '' ('' @ c @ ''): '' @ latest_state v c"
| "semantic_block v _ = []"

fun semantic_from :: "conversation \<Rightarrow> u64 \<Rightarrow> bool \<Rightarrow> stored_message list \<Rightarrow> provider_message list" where
  "semantic_from v covered seen_user [] = []"
| "semantic_from v covered seen_user (m # ms) =
     (if ms_sequence m \<le> covered \<or> \<not> seen_user \<and> ms_role m \<noteq> UserRole
        then semantic_from v covered seen_user ms
      else case ms_role m of
          UserRole \<Rightarrow>
            \<lparr>pm_role = ProviderUser, pm_content = [ProviderText (message_text m)]\<rparr> # semantic_from v covered True ms
        | AssistantRole \<Rightarrow>
            (let body = concat (map (semantic_block v) (ms_blocks m)) in
             if str_trim body = [] then semantic_from v covered seen_user ms
             else \<lparr>pm_role = ProviderAssistant, pm_content = [ProviderText body]\<rparr>
                    # semantic_from v covered seen_user ms))"

definition semantic_history :: "conversation \<Rightarrow> u64 \<Rightarrow> provider_message list" where
  "semantic_history v covered = semantic_from v covered False (cv_messages v)"

definition plan_continuation ::
    "(json \<Rightarrow> portable_checkpoint option) \<Rightarrow> tables \<Rightarrow> string \<Rightarrow> journal_route_identity
      \<Rightarrow> journal_error + continuation_plan" where
  "plan_continuation dec t s target =
     and_then (replay t s) (\<lambda>v.
     and_then (active_checkpoint dec t s) (\<lambda>checkpoint.
       if si_route (cv_identity v) = target then Inr (SameRoute checkpoint)
       else let covered = (case checkpoint of None \<Rightarrow> 0 | Some c \<Rightarrow> pc_covers_through c) in
         Inr (Rebuilt checkpoint
                ((case checkpoint of None \<Rightarrow> [] | Some c \<Rightarrow> [summary_message c]) @ semantic_history v covered))))"

section \<open>Committing a compaction\<close>

text \<open>The settings of the loop that a compaction reads.\<close>

record loop_config =
  lc_session :: string
  lc_generation :: u64
  lc_model :: string
  lc_task :: "string option"
  lc_retain :: nat
  lc_constraints :: "string list"
  lc_distill :: distill_budget

definition usage_of :: "string \<Rightarrow> provider_usage \<Rightarrow> usage_record" where
  "usage_of u p = \<lparr>us_id = u, us_input_tokens = pu_input_tokens p,
     us_cache_creation_input_tokens = pu_cache_creation_input_tokens p,
     us_cache_read_input_tokens = pu_cache_read_input_tokens p, us_output_tokens = pu_output_tokens p,
     us_reasoning_tokens = pu_reasoning_tokens p, us_provider_request_id = None, us_estimated = False\<rparr>"

definition compaction_boundary :: "conversation \<Rightarrow> nat \<Rightarrow> bool \<Rightarrow> u64 option" where
  "compaction_boundary v retain overflow_recovery =
     (case boundary v retain of
        Some b \<Rightarrow> Some b
      | None \<Rightarrow> if overflow_recovery then overflow_boundary v else None)"

text \<open>
  \<open>compact_now\<close> between its two refusals and its commit; the identifiers it mints are arguments.
  The result names the sequence of the committed checkpoint, or \<open>None\<close> when nothing was to be settled.
\<close>

definition record_distillation ::
    "loop_config \<Rightarrow> event_scope \<Rightarrow> string \<Rightarrow> provider_usage \<Rightarrow> u64 \<Rightarrow> unit operation" where
  "record_distillation cfg scope uid usage now j =
     (if usage = no_usage then (j, Inr ())
      else case opaque_id ''UsageId'' uid of
          Inl e \<Rightarrow> (j, Inl e)
        | Inr u \<Rightarrow>
            (case record_usage (lc_session cfg) (lc_generation cfg) scope (usage_of u usage) now j of
               (j1, Inl e) \<Rightarrow> (j1, Inl e)
             | (j1, Inr _) \<Rightarrow> (j1, Inr ())))"

definition compact_now ::
    "(json \<Rightarrow> string) \<Rightarrow> (portable_checkpoint \<Rightarrow> json) \<Rightarrow> (json \<Rightarrow> portable_checkpoint option) \<Rightarrow> distiller
      \<Rightarrow> loop_config \<Rightarrow> event_scope \<Rightarrow> string \<Rightarrow> string \<Rightarrow> string \<Rightarrow> bool \<Rightarrow> u64 \<Rightarrow> u64
      \<Rightarrow> export_dir option \<Rightarrow> journal \<Rightarrow> export_dir option \<times> journal \<times> (journal_error + u64 option)" where
  "compact_now print enc dec provider cfg scope cid uid reason overflow_recovery delivered now dir j =
     (case replay (jn_tables j) (lc_session cfg) of
        Inl e \<Rightarrow> (dir, j, Inl e)
      | Inr v \<Rightarrow>
     (case compaction_boundary v (lc_retain cfg) overflow_recovery of
        None \<Rightarrow> (dir, j, Inr None)
      | Some b \<Rightarrow>
     (case active_checkpoint dec (jn_tables j) (lc_session cfg) of
        Inl e \<Rightarrow> (dir, j, Inl e)
      | Inr already \<Rightarrow>
          if b \<le> (case already of None \<Rightarrow> 0 | Some c \<Rightarrow> pc_covers_through c) then (dir, j, Inr None)
          else
            let (summary, usage) = distill provider (lc_model cfg) v b (lc_distill cfg) in
            (case opaque_id ''CheckpointId'' cid of
               Inl e \<Rightarrow> (dir, j, Inl e)
             | Inr checkpoint_id \<Rightarrow>
            (case record_distillation cfg scope uid usage now j of
               (j1, Inl e) \<Rightarrow> (dir, j1, Inl e)
             | (j1, Inr _) \<Rightarrow>
                 let c = build_checkpoint print v b delivered checkpoint_id
                           \<lparr>cc_hard_constraints = lc_constraints cfg, cc_task = lc_task cfg,
                            cc_workflow = None, cc_reason = reason\<rparr> summary now
                 in (case commit_checkpoint enc dir (lc_generation cfg) scope CompactionPoint c now j1 of
                       (dir1, j2, Inl e) \<Rightarrow> (dir1, j2, Inl e)
                     | (dir1, j2, Inr n) \<Rightarrow> (dir1, j2, Inr (Some n))))))))"

end
