(* ===== verification/Handover.thy ===== *)
theory Handover
  imports Compaction
begin

text \<open>
  The safe boundary of a rollover, \<open>reach_boundary\<close> in \<open>src/commands/ctx/rollover/runtime.rs\<close>: effects that began
  become unknown, prepared ones are cancelled when the rollover is forced, and one handoff checkpoint
  records what the successor owes.
\<close>

datatype drain = Quiesced | Forced

record boundary_report =
  bd_drained :: bool
  bd_cancelled :: "string list"
  bd_outcome_unknown :: "string list"
  bd_pending_input :: "string list"
  bd_claims :: "string list"
  bd_receipts :: nat
  bd_evidence :: nat
  bd_checkpoint :: "string option"

definition halts_successor :: "boundary_report \<Rightarrow> bool" where
  "halts_successor b \<longleftrightarrow> bd_outcome_unknown b \<noteq> []"

definition reconciliation_note :: "boundary_report \<Rightarrow> string option" where
  "reconciliation_note b =
     (if bd_outcome_unknown b = [] then None
      else Some (show_nat (length (bd_outcome_unknown b)) @ '' tool effect(s) began and never reported ('' @
        join_text '', '' (bd_outcome_unknown b) @
        ''). They are carried as outcome-unknown and must be reconciled before any retry; the successor is halted until they are.''))"

text \<open>A \<open>BTreeSet\<close> iterates its elements in order, each once.\<close>

definition summarize :: "portable_checkpoint \<Rightarrow> drain \<Rightarrow> string list \<Rightarrow> boundary_report" where
  "summarize c d cancelled =
     \<lparr>bd_drained = (d = Quiesced), bd_cancelled = cancelled,
      bd_outcome_unknown = sort (remdups (map ot_tool_call
        (filter (\<lambda>x. ot_state x = ''outcome_unknown'') (pc_outstanding_tools c)))),
      bd_pending_input = map ai_message_id (pending_input c),
      bd_claims = map tk_task (pc_claims c), bd_receipts = length (pc_receipts c),
      bd_evidence = length (pc_evidence c), bd_checkpoint = Some (pc_checkpoint_id c)\<rparr>"

definition cancel_note :: string where
  "cancel_note = ''cancelled at a rollover boundary before its effect began; nothing ran''"

definition prepared_executions :: "conversation \<Rightarrow> (string \<times> string) list" where
  "prepared_executions v =
     map (\<lambda>(x, r). (x, xr_tool_call r)) (filter (\<lambda>(x, r). xr_state r = Prepared) (cv_executions v))"

fun cancel_all :: "string \<Rightarrow> u64 \<Rightarrow> u64 \<Rightarrow> (string \<times> string) list \<Rightarrow> string list operation" where
  "cancel_all s g now [] j = (j, Inr [])"
| "cancel_all s g now ((x, c) # xs) j =
     (case transition_execution s g no_scope x Cancelled None (Some cancel_note) None now j of
        (j1, Inl e) \<Rightarrow> (j1, Inl e)
      | (j1, Inr _) \<Rightarrow>
          (case cancel_all s g now xs j1 of
             (j2, Inl e) \<Rightarrow> (j2, Inl e)
           | (j2, Inr cs) \<Rightarrow> (j2, Inr (c # cs))))"

definition cancel_prepared :: "string \<Rightarrow> u64 \<Rightarrow> drain \<Rightarrow> u64 \<Rightarrow> string list operation" where
  "cancel_prepared s g d now j =
     (if d \<noteq> Forced then (j, Inr [])
      else case replay (jn_tables j) s of
          Inl e \<Rightarrow> (j, Inl e)
        | Inr v \<Rightarrow> cancel_all s g now (prepared_executions v) j)"

definition delivered_through :: "conversation \<Rightarrow> u64" where
  "delivered_through v =
     (case find (\<lambda>m. ms_role m = AssistantRole) (rev (cv_messages v)) of
        Some m \<Rightarrow> ms_sequence m
      | None \<Rightarrow> 0)"

definition handoff_id :: "u64 \<Rightarrow> u64 \<Rightarrow> string" where
  "handoff_id g n = ''rollover-'' @ show_nat g @ ''-'' @ show_nat n"

definition handoff_covers :: "conversation \<Rightarrow> u64" where
  "handoff_covers v =
     (case boundary v RETAIN_RECENT_MESSAGES of Some b \<Rightarrow> b | None \<Rightarrow> cv_last_sequence v)"

definition handoff_checkpoint ::
    "(json \<Rightarrow> string) \<Rightarrow> conversation \<Rightarrow> u64 \<Rightarrow> checkpoint_context \<Rightarrow> u64 \<Rightarrow> portable_checkpoint" where
  "handoff_checkpoint print v g ctx now =
     build_checkpoint print v (handoff_covers v) (delivered_through v) (handoff_id g (cv_last_sequence v)) ctx
       (structural_summary v (handoff_covers v)) now"

definition commit_handoff ::
    "(json \<Rightarrow> string) \<Rightarrow> (portable_checkpoint \<Rightarrow> json) \<Rightarrow> string \<Rightarrow> u64 \<Rightarrow> drain \<Rightarrow> checkpoint_context \<Rightarrow> u64
      \<Rightarrow> string list \<Rightarrow> boundary_report operation" where
  "commit_handoff print enc s g d ctx now cancelled j =
     (case replay (jn_tables j) s of
        Inl e \<Rightarrow> (j, Inl e)
      | Inr v \<Rightarrow>
     (case opaque_id ''CheckpointId'' (handoff_id g (cv_last_sequence v)) of
        Inl e \<Rightarrow> (j, Inl e)
      | Inr _ \<Rightarrow>
          let c = handoff_checkpoint print v g ctx now in
          (case commit_checkpoint enc None g no_scope HandoffPoint c now j of
             (_, j1, Inl e) \<Rightarrow> (j1, Inl e)
           | (_, j1, Inr _) \<Rightarrow> (j1, Inr (summarize c d cancelled)))))"

definition reach_boundary ::
    "(json \<Rightarrow> string) \<Rightarrow> (portable_checkpoint \<Rightarrow> json) \<Rightarrow> string \<Rightarrow> u64 \<Rightarrow> drain \<Rightarrow> checkpoint_context \<Rightarrow> u64
      \<Rightarrow> boundary_report operation" where
  "reach_boundary print enc s g d ctx now j =
     (case reconcile_started_as_unknown s g None now j of
        (j1, Inl e) \<Rightarrow> (j1, Inl e)
      | (j1, Inr _) \<Rightarrow>
     (case cancel_prepared s g d now j1 of
        (j2, Inl e) \<Rightarrow> (j2, Inl e)
      | (j2, Inr cancelled) \<Rightarrow> commit_handoff print enc s g d ctx now cancelled j2))"

end
