(* ===== verification/Checkpoint_Claims.thy ===== *)
theory Checkpoint_Claims
  imports Compaction
begin

text \<open>
  What checkpoints and compactions promise: the boundary of a summary, the inputs and the open tool
  calls a checkpoint carries, the newest usable checkpoint, and the history a session continues with.
\<close>

section \<open>Conversations in order\<close>

definition newest_unique :: "('a \<Rightarrow> u64) \<Rightarrow> u64 \<Rightarrow> (string \<times> 'a) list \<Rightarrow> bool" where
  "newest_unique f n xs \<longleftrightarrow>
     (\<forall>k v. map_of xs k = Some v \<longrightarrow> f v \<le> n)
     \<and> (\<forall>k j v w. map_of xs k = Some v \<longrightarrow> map_of xs j = Some w \<longrightarrow> f v = f w \<longrightarrow> k = j)"

definition in_order :: "conversation \<Rightarrow> bool" where
  "in_order v \<longleftrightarrow>
     sorted_wrt (<) (map ms_sequence (cv_messages v))
     \<and> (\<forall>m \<in> set (cv_messages v). ms_sequence m \<le> cv_last_sequence v)
     \<and> bt_ok (cv_tool_calls v) \<and> bt_ok (cv_executions v) \<and> bt_ok (cv_checkpoints v)
     \<and> newest_unique xr_sequence (cv_last_sequence v) (cv_executions v)
     \<and> newest_unique cp_sequence (cv_last_sequence v) (cv_checkpoints v)
     \<and> (\<forall>x r. map_of (cv_executions v) x = Some r \<longrightarrow> map_of (cv_tool_calls v) (xr_tool_call r) \<noteq> None)"

lemma newest_unique_Nil [simp]: "newest_unique f n []"
  by (simp add: newest_unique_def)

lemma newest_unique_mono: "newest_unique f n xs \<Longrightarrow> n \<le> m \<Longrightarrow> newest_unique f m xs"
  unfolding newest_unique_def by (meson order_trans)

lemma newest_unique_insert:
  assumes "newest_unique f n xs" and "n < f v"
  shows "newest_unique f (f v) (bt_insert k v xs)"
  using assms unfolding newest_unique_def
  by (auto split: if_splits) (metis leD less_imp_le order_trans)+

lemma in_order_new [simp]: "in_order (new_conversation i)"
  by (simp add: in_order_def new_conversation_def)

lemma in_order_step:
  assumes v: "in_order v" and r: "reduce_step v e = Inr w"
  shows "in_order w"
proof -
  let ?n = "sv_sequence e" and ?v = "v\<lparr>cv_last_sequence := sv_sequence e\<rparr>"
  from r have n: "cv_last_sequence v < ?n" and w: "reduce_event ?n (sv_event e) ?v = Inr w"
    by (auto simp: reduce_step_def split: if_splits)
  have u: "newest_unique xr_sequence ?n (cv_executions v)" "newest_unique cp_sequence ?n (cv_checkpoints v)"
    using v n by (auto simp: in_order_def intro: newest_unique_mono)
  have m: "ms_sequence m < ?n" if "m \<in> set (cv_messages v)" for m
    using v n that by (fastforce simp: in_order_def)
  have ins: "newest_unique xr_sequence (xr_sequence x) (bt_insert k x (cv_executions v))"
    if "xr_sequence x = ?n" for k x
    using v n that by (intro newest_unique_insert) (auto simp: in_order_def)
  have cins: "newest_unique cp_sequence (cp_sequence x) (bt_insert k x (cv_checkpoints v))"
    if "cp_sequence x = ?n" for k x
    using v n that by (intro newest_unique_insert) (auto simp: in_order_def)
  show ?thesis
  proof (cases "sv_event e")
    case (ToolExecution x c to result detail ms)
    with w have ok: "check_execution x c to result ?v = Inr ()" by (auto simp: and_then_Inr_iff)
    then have "map_of (cv_tool_calls v) c \<noteq> None" by (auto simp: check_execution_def split: if_splits)
    with ToolExecution w ok v u m show ?thesis
      using ins [of "\<lparr>xr_sequence = ?n, xr_tool_call = c, xr_state = to, xr_result = result, xr_detail = detail\<rparr>" x]
      by (auto simp: in_order_def less_imp_le split: if_splits)
  next
    case (Checkpoint c k st)
    with w v u m show ?thesis
      using cins [of "\<lparr>cp_sequence = ?n, cp_kind = k, cp_portable_state = st\<rparr>" c]
      by (auto simp: in_order_def less_imp_le)
  qed (use w v u m in \<open>auto simp: in_order_def sorted_wrt_append less_imp_le split: if_splits\<close>)
qed

lemma in_order_fold: "fold_err reduce_step v es = Inr w \<Longrightarrow> in_order v \<Longrightarrow> in_order w"
  by (induction es arbitrary: v) (auto simp: and_then_Inr_iff intro: in_order_step)

lemma in_order_replay: "replay t s = Inr v \<Longrightarrow> in_order v"
  by (auto simp: replay_def reduce_log_def and_then_Inr_iff intro: in_order_fold)

section \<open>The newest execution of a call\<close>

lemma max_execution_snoc:
  "max_execution (xs @ [x]) =
     (case max_execution xs of None \<Rightarrow> Some x
      | Some y \<Rightarrow> if xr_sequence y \<le> xr_sequence x then Some x else Some y)"
  by (simp add: max_execution_def)

lemma max_execution_Nil [simp]: "max_execution [] = None"
  by (simp add: max_execution_def)

lemma max_execution_None: "max_execution xs = None \<longleftrightarrow> xs = []"
  by (induction xs rule: rev_induct) (auto simp: max_execution_snoc split: option.splits)

lemma max_execution_Some:
  "max_execution xs = Some x \<Longrightarrow> x \<in> set xs \<and> (\<forall>y \<in> set xs. xr_sequence y \<le> xr_sequence x)"
  by (induction xs arbitrary: x rule: rev_induct)
     (force simp: max_execution_snoc max_execution_None split: option.splits if_splits)+

lemma latest_executions_max:
  "map_of (latest_executions v) c = max_execution (filter (\<lambda>x. xr_tool_call x = c) (map snd (cv_executions v)))"
proof -
  have "map_of (foldl note_execution [] xs) c = max_execution (filter (\<lambda>x. xr_tool_call x = c) xs)" for xs
    by (induction xs rule: rev_induct) (auto simp: max_execution_snoc note_execution_def split: option.splits)
  then show ?thesis by (simp add: latest_executions_def)
qed

lemma bt_ok_latest [simp]: "bt_ok (latest_executions v)"
proof -
  have "bt_ok (foldl note_execution [] xs)" for xs
    by (rule foldl_inv) (auto simp: note_execution_def split: option.splits)
  then show ?thesis by (simp add: latest_executions_def)
qed

lemma execution_values:
  assumes "in_order v"
  shows "r \<in> snd ` set (cv_executions v) \<longleftrightarrow> (\<exists>x. map_of (cv_executions v) x = Some r)"
proof -
  from assms have b: "bt_ok (cv_executions v)" by (simp add: in_order_def)
  have "r \<in> snd ` set (cv_executions v) \<longleftrightarrow> (\<exists>x. (x, r) \<in> set (cv_executions v))" by force
  then show ?thesis by (simp only: bt_ok_map_of [OF b])
qed

definition newest_execution :: "conversation \<Rightarrow> string \<Rightarrow> execution_record \<Rightarrow> bool" where
  "newest_execution v c r \<longleftrightarrow>
     xr_tool_call r = c \<and> (\<exists>x. map_of (cv_executions v) x = Some r)
     \<and> (\<forall>x q. map_of (cv_executions v) x = Some q \<longrightarrow> xr_tool_call q = c \<longrightarrow> xr_sequence q \<le> xr_sequence r)"

lemma latest_executions_Some:
  assumes v: "in_order v" and r: "map_of (latest_executions v) c = Some r"
  shows "newest_execution v c r"
proof -
  from max_execution_Some [OF r [unfolded latest_executions_max]] have
    m: "r \<in> snd ` set (cv_executions v)" "xr_tool_call r = c"
    and top: "\<And>q. q \<in> snd ` set (cv_executions v) \<Longrightarrow> xr_tool_call q = c \<Longrightarrow> xr_sequence q \<le> xr_sequence r"
    by auto
  from m top show ?thesis unfolding newest_execution_def execution_values [OF v] by blast
qed

lemma latest_executions_None:
  assumes v: "in_order v"
  shows "map_of (latest_executions v) c = None \<longleftrightarrow> (\<forall>x r. map_of (cv_executions v) x = Some r \<longrightarrow> xr_tool_call r \<noteq> c)"
proof -
  have "map_of (latest_executions v) c = None \<longleftrightarrow> (\<forall>r \<in> snd ` set (cv_executions v). xr_tool_call r \<noteq> c)"
    by (auto simp: latest_executions_max max_execution_None filter_empty_conv)
  then show ?thesis using execution_values [OF v] by blast
qed

lemma newest_execution_unique:
  assumes v: "in_order v" and "newest_execution v c r" and "newest_execution v c q"
  shows "r = q"
proof -
  from assms obtain x y where xy: "map_of (cv_executions v) x = Some r" "map_of (cv_executions v) y = Some q"
    and le: "xr_sequence q \<le> xr_sequence r" "xr_sequence r \<le> xr_sequence q"
    unfolding newest_execution_def by blast
  from le have "xr_sequence r = xr_sequence q" by simp
  with xy have "x = y" using v unfolding in_order_def newest_unique_def by blast
  with xy show ?thesis by simp
qed

lemma latest_executions_iff:
  assumes v: "in_order v"
  shows "map_of (latest_executions v) c = Some r \<longleftrightarrow> newest_execution v c r"
proof
  assume n: "newest_execution v c r"
  then have "map_of (latest_executions v) c \<noteq> None"
    unfolding latest_executions_None [OF v] by (auto simp: newest_execution_def)
  then obtain q where "map_of (latest_executions v) c = Some q" by blast
  with newest_execution_unique [OF v n latest_executions_Some [OF v this]]
  show "map_of (latest_executions v) c = Some r" by simp
qed (rule latest_executions_Some [OF v])

lemma latest_state_executions:
  "latest_state v c =
     (case map_of (latest_executions v) c of Some x \<Rightarrow> state_label (xr_state x) | None \<Rightarrow> ''prepared'')"
  by (simp add: latest_state_def latest_executions_max)

section \<open>The first unsettled call\<close>

definition unsettled_message :: "conversation \<Rightarrow> stored_message \<Rightarrow> bool" where
  "unsettled_message v m \<longleftrightarrow>
     ms_role m = AssistantRole \<and> (\<exists>c. ToolCallBlock c \<in> set (ms_blocks m) \<and> \<not> settled_call v c)"

definition lower :: "u64 option \<Rightarrow> u64 \<Rightarrow> u64 option" where
  "lower earliest n = Some (case earliest of None \<Rightarrow> n | Some e \<Rightarrow> min e n)"

lemma note_blocks:
  "foldl (note_block v n) earliest bs =
     (if \<exists>c. ToolCallBlock c \<in> set bs \<and> \<not> settled_call v c then lower earliest n else earliest)"
proof (induction bs arbitrary: earliest)
  case (Cons b bs)
  then show ?case
    by (cases b) (auto simp: lower_def split: option.splits)
qed simp

lemma first_unsettled_fold:
  "first_unsettled_sequence v =
     foldl (\<lambda>earliest m. if unsettled_message v m then lower earliest (ms_sequence m) else earliest) None
       (cv_messages v)"
  unfolding first_unsettled_sequence_def
  by (intro foldl_cong refl) (auto simp: note_blocks unsettled_message_def)

lemma first_unsettled_spec:
  "first_unsettled_sequence v =
     (let ns = map ms_sequence (filter (unsettled_message v) (cv_messages v))
      in if ns = [] then None else Some (Min (set ns)))"
proof -
  have "foldl (\<lambda>earliest m. if unsettled_message v m then lower earliest (ms_sequence m) else earliest) None ms =
      (let ns = map ms_sequence (filter (unsettled_message v) ms) in if ns = [] then None else Some (Min (set ns)))" for ms
    by (induction ms rule: rev_induct)
       (auto simp: lower_def Let_def filter_empty_conv Min_insert2 min.commute simp del: set_filter)
  then show ?thesis by (simp add: first_unsettled_fold)
qed


lemma first_unsettled_le:
  assumes "m \<in> set (cv_messages v)" and "unsettled_message v m"
  shows "\<exists>u. first_unsettled_sequence v = Some u \<and> u \<le> ms_sequence m"
  using assms by (fastforce simp: first_unsettled_spec Let_def filter_empty_conv intro: Min_le)

lemma find_rev_Some:
  assumes "find P (rev xs) = Some x"
  shows "x \<in> set xs \<and> P x"
  using assms by (auto simp: find_Some_iff in_set_conv_nth [of _ "rev xs", simplified])

section \<open>The boundary\<close>

lemma boundary_Some:
  assumes "boundary v retain = Some b"
  obtains m cut where "m \<in> set (cv_messages v)" "ms_sequence m = b" "b < cut"
    "\<And>u. first_unsettled_sequence v = Some u \<Longrightarrow> cut \<le> u"
    "retain < length (cv_messages v) \<Longrightarrow> cut \<le> ms_sequence (cv_messages v ! (length (cv_messages v) - retain))"
    "cut \<le> ms_sequence (hd (cv_messages v)) \<or> retain < length (cv_messages v)"
proof -
  let ?ms = "cv_messages v"
  define keep where "keep = (if retain < length ?ms then ms_sequence (?ms ! (length ?ms - retain)) else ms_sequence (hd ?ms))"
  define cut where "cut = (case first_unsettled_sequence v of Some u \<Rightarrow> min u keep | None \<Rightarrow> keep)"
  have ne: "?ms \<noteq> []" using assms by (auto simp: boundary_def Let_def split: if_splits)
  have "map_option ms_sequence (find (\<lambda>m. ms_sequence m < cut) (rev ?ms)) = Some b"
  proof (cases "retain < length ?ms")
    case True
    with assms show ?thesis
      by (cases "first_unsettled_sequence v") (simp_all add: boundary_def Let_def cut_def keep_def)
  next
    case False
    with ne obtain y ys where y: "?ms = y # ys" by (cases ?ms) auto
    with assms False show ?thesis
      by (cases "first_unsettled_sequence v") (simp_all add: boundary_def Let_def cut_def keep_def)
  qed
  then obtain m where m: "find (\<lambda>m. ms_sequence m < cut) (rev ?ms) = Some m" "ms_sequence m = b" by auto
  show ?thesis
    by (rule that [of m cut]) (use find_rev_Some [OF m(1)] m(2) in \<open>auto simp: cut_def keep_def split: option.splits\<close>)
qed

lemma boundary_before_unsettled:
  assumes "compaction_boundary v retain overflow_recovery = Some b"
  shows "\<exists>m \<in> set (cv_messages v). ms_sequence m = b"
    and "m \<in> set (cv_messages v) \<Longrightarrow> ms_sequence m \<le> b \<Longrightarrow> \<not> unsettled_message v m"
proof -
  have "\<exists>m \<in> set (cv_messages v). ms_sequence m = b \<and> (\<forall>u. first_unsettled_sequence v = Some u \<longrightarrow> b < u)"
  proof (cases "boundary v retain")
    case (Some b')
    with assms have "boundary v retain = Some b" by (simp add: compaction_boundary_def)
    then show ?thesis
    proof (rule boundary_Some)
      fix m cut
      assume "m \<in> set (cv_messages v)" "ms_sequence m = b" "b < cut"
        and "\<And>u. first_unsettled_sequence v = Some u \<Longrightarrow> cut \<le> u"
      then show ?thesis by (intro bexI [of _ m]) (auto intro: less_le_trans)
    qed
  next
    case None
    with assms have "overflow_boundary v = Some b" by (simp add: compaction_boundary_def split: if_splits)
    then obtain m where "find (\<lambda>m. case first_unsettled_sequence v of None \<Rightarrow> True | Some u \<Rightarrow> ms_sequence m < u)
        (rev (cv_messages v)) = Some m" "ms_sequence m = b"
      by (auto simp: overflow_boundary_def Let_def)
    from find_rev_Some [OF this(1)] this(2) show ?thesis by auto
  qed
  then show "\<exists>m \<in> set (cv_messages v). ms_sequence m = b"
    and "m \<in> set (cv_messages v) \<Longrightarrow> ms_sequence m \<le> b \<Longrightarrow> \<not> unsettled_message v m"
    using first_unsettled_le by fastforce+
qed

lemma settled_call_iff:
  "in_order v \<Longrightarrow> settled_call v c \<longleftrightarrow> (\<exists>r. newest_execution v c r \<and> is_terminal (xr_state r))"
  by (auto simp: settled_call_def latest_executions_iff [symmetric] split: option.splits)

lemma recent_are_kept:
  assumes v: "in_order v" and b: "boundary v retain = Some b" and pos: "0 < retain"
    and m: "m \<in> set (drop (length (cv_messages v) - retain) (cv_messages v))"
  shows "b < ms_sequence m"
proof -
  let ?ms = "cv_messages v"
  from v have s: "sorted_wrt (\<lambda>a b. ms_sequence a < ms_sequence b) ?ms" by (simp add: in_order_def sorted_wrt_map)
  obtain i where i: "i < length ?ms" "length ?ms - retain \<le> i" "m = ?ms ! i"
    using m by (auto simp: in_set_conv_nth) (metis add.commute le_add2 less_diff_conv)
  have le: "ms_sequence (?ms ! k) \<le> ms_sequence m" if "k \<le> i" for k
    using that i sorted_wrt_nth_less [OF s] by (cases "k = i") (auto simp: less_imp_le)
  from b show ?thesis
  proof (rule boundary_Some)
    fix p cut
    assume "b < cut"
      and keep: "retain < length ?ms \<Longrightarrow> cut \<le> ms_sequence (?ms ! (length ?ms - retain))"
      and first: "cut \<le> ms_sequence (hd ?ms) \<or> retain < length ?ms"
    have "cut \<le> ms_sequence m"
    proof (cases "retain < length ?ms")
      case True
      with keep le [OF i(2)] show ?thesis by simp
    next
      case False
      from i(1) have "?ms \<noteq> []" by auto
      with False first le [of 0] show ?thesis by (simp add: hd_conv_nth)
    qed
    with \<open>b < cut\<close> show ?thesis by simp
  qed
qed

text \<open>C10: A summary never stands in for unfinished work. Whenever a conversation replays and a compaction
  finds a boundary (also the further one after an overflow), the boundary is the number of a message;
  every tool call in an assistant message up to it has a newest execution, which has completed, failed
  or been cancelled; and an ordinary boundary lies before each of the newest \<open>retain\<close> messages.
\<close>
theorem boundary_never_covers_unsettled_calls:
  assumes "replay t s = Inr v" and "compaction_boundary v retain overflow_recovery = Some b" and "0 < retain"
  shows "(\<exists>m \<in> set (cv_messages v). ms_sequence m = b)
    \<and> (\<forall>m \<in> set (cv_messages v). \<forall>c. ms_sequence m \<le> b \<and> ms_role m = AssistantRole
          \<and> ToolCallBlock c \<in> set (ms_blocks m) \<longrightarrow>
          (\<exists>r. newest_execution v c r \<and> is_terminal (xr_state r)))
    \<and> (boundary v retain = Some b \<longrightarrow>
          (\<forall>m \<in> set (drop (length (cv_messages v) - retain) (cv_messages v)). b < ms_sequence m))"
proof -
  note v = in_order_replay [OF assms(1)]
  show ?thesis
    using boundary_before_unsettled [OF assms(2)] recent_are_kept [OF v _ assms(3)]
    by (auto simp: unsettled_message_def settled_call_iff [OF v])
qed

section \<open>Acknowledged input\<close>

definition carried :: "u64 \<Rightarrow> stored_message \<Rightarrow> acknowledged_input \<Rightarrow> bool" where
  "carried delivered m i \<longleftrightarrow>
     ai_message_id i = ms_message_id m \<and> ai_sequence i = ms_sequence m \<and> ai_steering i = ms_steering m
     \<and> ai_pending i = (delivered < ms_sequence m)
     \<and> (ai_text i = bound (message_text m) \<and> \<not> ai_text_elided i
         \<or> ai_text i = [] \<and> ai_text_elided i \<and> \<not> ai_pending i)"

definition text_bytes :: "acknowledged_input list \<Rightarrow> nat" where
  "text_bytes xs = sum_list (map (\<lambda>i. length (ai_text i)) xs)"

lemma elided_carried: "list_all2 (carried delivered) ms xs \<Longrightarrow> list_all2 (carried delivered) ms (elide_delivered n xs)"
proof (induction n xs arbitrary: ms rule: elide_delivered.induct)
  case (2 n i xs)
  then obtain m ms' where ms: "ms = m # ms'" "carried delivered m i" "list_all2 (carried delivered) ms' xs"
    by (auto simp: list_all2_Cons2)
  then show ?case using 2 by (auto simp: carried_def)
qed simp

lemma elided_bounded:
  assumes "n = text_bytes xs + k"
  shows "text_bytes (elide_delivered n xs) + k \<le> MAX_ACKNOWLEDGED_TEXT_BYTES
    \<or> (\<forall>i \<in> set (elide_delivered n xs). ai_pending i \<or> ai_text i = [])"
  using assms
proof (induction n xs arbitrary: k rule: elide_delivered.induct)
  case (2 n i xs)
  show ?case
  proof (cases "n \<le> MAX_ACKNOWLEDGED_TEXT_BYTES")
    case True
    then show ?thesis using 2(3) by simp
  next
    case big: False
    show ?thesis
    proof (cases "ai_pending i \<or> ai_text i = []")
      case True
      have "n = text_bytes xs + (k + length (ai_text i))" using 2(3) by (simp add: text_bytes_def)
      from 2(1) [OF big True this] True big show ?thesis by (auto simp: text_bytes_def)
    next
      case False
      have "n - length (ai_text i) = text_bytes xs + k" using 2(3) by (simp add: text_bytes_def)
      from 2(2) [OF big False this] False big show ?thesis by (auto simp: text_bytes_def)
    qed
  qed
qed simp

lemma nothing_elided: "\<forall>i \<in> set xs. \<not> ai_text_elided i \<Longrightarrow> n \<le> MAX_ACKNOWLEDGED_TEXT_BYTES \<Longrightarrow> elide_delivered n xs = xs"
  by (cases xs) auto

lemma elided_oldest_first:
  assumes "\<forall>i \<in> set xs. \<not> ai_text_elided i"
  shows "sorted_wrt (\<lambda>i j. ai_text_elided j \<longrightarrow> ai_text_elided i \<or> ai_pending i \<or> ai_text i = []) (elide_delivered n xs)"
  using assms
proof (induction n xs rule: elide_delivered.induct)
  case (2 n i xs)
  have "sorted_wrt (\<lambda>i j. ai_text_elided j \<longrightarrow> ai_text_elided i \<or> ai_pending i \<or> ai_text i = []) (i # xs)"
  proof -
    have "sorted_wrt (\<lambda>i j. ai_text_elided j \<longrightarrow> ai_text_elided i \<or> ai_pending i \<or> ai_text i = []) ys"
      if "\<forall>i \<in> set ys. \<not> ai_text_elided i" for ys
      using that by (induction ys) auto
    then show ?thesis using 2(3) .
  qed
  then show ?case using 2 by auto
qed simp

lemma char_floor_le: "char_floor s n \<le> n"
  by (induction n) auto

lemma bound_text_bytes: "length (bound x) \<le> MAX_TEXT_BYTES + 3"
  by (simp add: bound_def ellipsis_def min_le_iff_disj char_floor_le)


section \<open>Obligations\<close>

lemma known_calls_iff:
  assumes v: "in_order v"
  shows "(c, r, x) \<in> set (known_calls v)
    \<longleftrightarrow> map_of (cv_tool_calls v) c = Some r \<and> newest_execution v c x"
proof -
  have picked: "(c, r, x) \<in> set (List.map_filter (\<lambda>(c, x). map_option (\<lambda>r. (c, r, x)) (f c)) ls)
      \<longleftrightarrow> (c, x) \<in> set ls \<and> f c = Some r" for f :: "string \<Rightarrow> tool_call_record option" and ls
    by (induction ls) (auto simp: List.map_filter_simps split: option.splits)
  then show ?thesis
    unfolding known_calls_def picked bt_ok_map_of [OF bt_ok_latest] latest_executions_iff [OF v]
    by blast
qed

lemma set_picked:
  fixes f :: "'c \<Rightarrow> 'r \<Rightarrow> 'x \<Rightarrow> 'e"
  shows "a \<in> set (concat (map (\<lambda>(c, r, x). if P x then [f c r x] else []) ks))
     \<longleftrightarrow> (\<exists>c r x. (c, r, x) \<in> set ks \<and> P x \<and> a = f c r x)"
    and "a \<in> set (concat (map (\<lambda>(c, r, x). if P x then [] else [f c r x]) ks))
     \<longleftrightarrow> (\<exists>c r x. (c, r, x) \<in> set ks \<and> \<not> P x \<and> a = f c r x)"
proof -
  have "concat (map (\<lambda>(c, r, x). if Q x then [f c r x] else []) ks)
      = map (\<lambda>(c, r, x). f c r x) (filter (\<lambda>(c, r, x). Q x) ks)" for Q
    by (induction ks) auto
  moreover have "b \<in> set (map g (filter Q ks)) \<longleftrightarrow> (\<exists>k. k \<in> set ks \<and> Q k \<and> b = g k)" for b :: 'e and g Q by auto
  moreover have "(\<lambda>(c, r, x). if P x then [] else [f c r x]) = (\<lambda>(c, r, x). if \<not> P x then [f c r x] else [])" by auto
  ultimately show "a \<in> set (concat (map (\<lambda>(c, r, x). if P x then [f c r x] else []) ks))
     \<longleftrightarrow> (\<exists>c r x. (c, r, x) \<in> set ks \<and> P x \<and> a = f c r x)"
    and "a \<in> set (concat (map (\<lambda>(c, r, x). if P x then [] else [f c r x]) ks))
     \<longleftrightarrow> (\<exists>c r x. (c, r, x) \<in> set ks \<and> \<not> P x \<and> a = f c r x)"
    by (simp_all add: split_paired_Ex)
qed

lemma set_missing:
  fixes f :: "'c \<Rightarrow> 'r \<Rightarrow> 'e"
  shows "a \<in> set (concat (map (\<lambda>(c, r). if P c then [] else [f c r]) ks))
     \<longleftrightarrow> (\<exists>c r. (c, r) \<in> set ks \<and> \<not> P c \<and> a = f c r)"
proof -
  have "concat (map (\<lambda>(c, r). if P c then [] else [f c r]) ks) = map (\<lambda>(c, r). f c r) (filter (\<lambda>(c, r). \<not> P c) ks)"
    by (induction ks) auto
  moreover have "b \<in> set (map g (filter Q ks)) \<longleftrightarrow> (\<exists>k. k \<in> set ks \<and> Q k \<and> b = g k)" for b :: 'e and g Q by auto
  ultimately show ?thesis by (simp add: split_paired_Ex)
qed

lemma in_receipts:
  "a \<in> set (receipts_of v)
     \<longleftrightarrow> (\<exists>c r x. (c, r, x) \<in> set (known_calls v) \<and> is_terminal (xr_state x) \<and> a = receipt_of c r x)"
  unfolding receipts_of_def set_picked ..

lemma in_outstanding:
  assumes v: "in_order v"
  shows "a \<in> set (outstanding_calls print v)
     \<longleftrightarrow> (\<exists>c r. map_of (cv_tool_calls v) c = Some r \<and>
           ((\<exists>x. newest_execution v c x \<and> \<not> is_terminal (xr_state x) \<and> a = outstanding_of print c r (xr_state x))
            \<or> map_of (latest_executions v) c = None \<and> a = outstanding_of print c r Prepared))"
proof -
  have b: "bt_ok (cv_tool_calls v)" using v by (simp add: in_order_def)
  have "a \<in> set (outstanding_calls print v)
     \<longleftrightarrow> (\<exists>c r x. (c, r, x) \<in> set (known_calls v) \<and> \<not> is_terminal (xr_state x) \<and> a = outstanding_of print c r (xr_state x))
       \<or> (\<exists>c r. (c, r) \<in> set (cv_tool_calls v) \<and> map_of (latest_executions v) c = None \<and> a = outstanding_of print c r Prepared)"
    unfolding outstanding_calls_def set_sort set_append Un_iff set_picked set_missing by simp
  then show ?thesis unfolding known_calls_iff [OF v] bt_ok_map_of [OF b] by blast
qed

lemma receipt_fields [simp]:
  "ar_tool_call (receipt_of c r x) = c" "ar_state (receipt_of c r x) = state_label (xr_state x)"
  "ar_sequence (receipt_of c r x) = xr_sequence x"
  by (simp_all add: receipt_of_def split: prod.splits)

lemma outstanding_fields [simp]:
  "ot_tool_call (outstanding_of print c r st) = c" "ot_state (outstanding_of print c r st) = state_label st"
  by (simp_all add: outstanding_of_def)

lemma truncated_newest: "length (truncate_newest_kept n xs) \<le> n" "length xs \<le> n \<Longrightarrow> truncate_newest_kept n xs = xs"
  by (auto simp: truncate_newest_kept_def)

definition accounted :: "(json \<Rightarrow> string) \<Rightarrow> conversation \<Rightarrow> string \<Rightarrow> bool" where
  "accounted print v c \<longleftrightarrow>
     (if settled_call v c
      then (\<exists>a \<in> set (receipts_of v). ar_tool_call a = c \<and> ar_state a = latest_state v c)
           \<and> c \<notin> ot_tool_call ` set (outstanding_calls print v)
      else (\<exists>a \<in> set (outstanding_calls print v). ot_tool_call a = c \<and> ot_state a = latest_state v c)
           \<and> c \<notin> ar_tool_call ` set (receipts_of v))"

lemma call_accounted:
  assumes v: "in_order v" and that: "map_of (cv_tool_calls v) c = Some r"
  shows "accounted print v c"
proof (cases "map_of (latest_executions v) c")
  case None
  then have "\<not> newest_execution v c x" for x by (simp flip: latest_executions_iff [OF v])
  then have "c \<notin> ar_tool_call ` set (receipts_of v)" by (auto simp: in_receipts known_calls_iff [OF v])
  moreover have "outstanding_of print c r Prepared \<in> set (outstanding_calls print v)"
    using that None by (auto simp: in_outstanding [OF v])
  ultimately show ?thesis using None
    by (auto simp: accounted_def settled_call_def latest_state_executions
        intro!: bexI [of _ "outstanding_of print c r Prepared"])
next
  case (Some x)
  then have n: "newest_execution v c y \<longleftrightarrow> y = x" for y
    using latest_executions_iff [OF v] by (metis option.inject)
  show ?thesis
  proof (cases "is_terminal (xr_state x)")
    case True
    have "receipt_of c r x \<in> set (receipts_of v)"
      using that n True by (auto simp: in_receipts known_calls_iff [OF v])
    moreover have "c \<notin> ot_tool_call ` set (outstanding_calls print v)"
      using that n True Some by (auto simp: in_outstanding [OF v])
    ultimately show ?thesis using Some True
      by (auto simp: accounted_def settled_call_def latest_state_executions intro!: bexI [of _ "receipt_of c r x"])
  next
    case False
    have "outstanding_of print c r (xr_state x) \<in> set (outstanding_calls print v)"
      using that n False by (auto simp: in_outstanding [OF v])
    moreover have "c \<notin> ar_tool_call ` set (receipts_of v)"
      using n False by (auto simp: in_receipts known_calls_iff [OF v])
    ultimately show ?thesis using Some False
      by (auto simp: accounted_def settled_call_def latest_state_executions
          intro!: bexI [of _ "outstanding_of print c r (xr_state x)"])
  qed
qed


end
