(* ===== verification/Checkpoint_Codec.thy ===== *)
theory Checkpoint_Codec
  imports Checkpoint
begin

text \<open>
  A concrete JSON form of checkpoints that reads back, built from combinators, as an instance of what the
  properties ask of the serialiser; and a sample conversation.
\<close>

definition reads_back :: "('a \<Rightarrow> json) \<Rightarrow> (json \<Rightarrow> 'a option) \<Rightarrow> bool" where
  "reads_back enc dec \<longleftrightarrow> (\<forall>c. dec (enc c) = Some c)"

fun json_number :: "json \<Rightarrow> nat option" where
  "json_number (JArray xs) = Some (length xs)"
| "json_number _ = None"

definition of_number :: "nat \<Rightarrow> json" where
  "of_number n = JArray (replicate n JNull)"

fun json_string :: "json \<Rightarrow> string option" where
  "json_string (JString s) = Some s"
| "json_string _ = None"

fun json_bool :: "json \<Rightarrow> bool option" where
  "json_bool (JBool b) = Some b"
| "json_bool _ = None"

fun of_option :: "('a \<Rightarrow> json) \<Rightarrow> 'a option \<Rightarrow> json" where
  "of_option e None = JNull"
| "of_option e (Some x) = JArray [e x]"

fun json_option :: "(json \<Rightarrow> 'a option) \<Rightarrow> json \<Rightarrow> 'a option option" where
  "json_option d JNull = Some None"
| "json_option d (JArray [j]) = map_option Some (d j)"
| "json_option d _ = None"

definition of_list :: "('a \<Rightarrow> json) \<Rightarrow> 'a list \<Rightarrow> json" where
  "of_list e xs = JArray (map e xs)"

fun json_list :: "(json \<Rightarrow> 'a option) \<Rightarrow> json \<Rightarrow> 'a list option" where
  "json_list d (JArray js) = those (map d js)"
| "json_list d _ = None"

fun of_pair :: "('a \<Rightarrow> json) \<Rightarrow> ('b \<Rightarrow> json) \<Rightarrow> 'a \<times> 'b \<Rightarrow> json" where
  "of_pair e f (x, y) = JArray [e x, f y]"

fun json_pair :: "(json \<Rightarrow> 'a option) \<Rightarrow> (json \<Rightarrow> 'b option) \<Rightarrow> json \<Rightarrow> ('a \<times> 'b) option" where
  "json_pair d f (JArray [a, b]) = (case (d a, f b) of (Some x, Some y) \<Rightarrow> Some (x, y) | _ \<Rightarrow> None)"
| "json_pair d f _ = None"

lemma reads_number: "reads_back of_number json_number"
  by (simp add: reads_back_def of_number_def)

lemma reads_string: "reads_back JString json_string"
  by (simp add: reads_back_def)

lemma reads_bool: "reads_back JBool json_bool"
  by (simp add: reads_back_def)

lemma reads_option: "reads_back e d \<Longrightarrow> reads_back (of_option e) (json_option d)"
proof -
  assume "reads_back e d"
  then have "json_option d (of_option e x) = Some x" for x by (cases x) (simp_all add: reads_back_def)
  then show ?thesis by (simp add: reads_back_def)
qed

lemma reads_list: "reads_back e d \<Longrightarrow> reads_back (of_list e) (json_list d)"
proof -
  assume rb: "reads_back e d"
  have "those (map d (map e xs)) = Some xs" for xs
    using rb by (induction xs) (simp_all add: reads_back_def)
  then show ?thesis by (simp add: reads_back_def of_list_def)
qed

lemma reads_pair: "reads_back e d \<Longrightarrow> reads_back e' d' \<Longrightarrow> reads_back (of_pair e e') (json_pair d d')"
  by (simp add: reads_back_def)

lemma reads_iso: "reads_back e d \<Longrightarrow> (\<And>x. g (f x) = x) \<Longrightarrow> reads_back (e \<circ> f) (map_option g \<circ> d)"
  by (simp add: reads_back_def)

lemmas reads_back_intros = reads_number reads_string reads_bool reads_option reads_list reads_pair

abbreviation "of_text \<equiv> JString"
abbreviation "of_texts \<equiv> of_list JString"
abbreviation "of_text_option \<equiv> of_option JString"
abbreviation "json_texts \<equiv> json_list json_string"
abbreviation "json_text_option \<equiv> json_option json_string"

definition input_enc :: "acknowledged_input \<Rightarrow> json" where
  "input_enc = of_pair JString (of_pair of_number (of_pair JString (of_pair JBool (of_pair JBool JBool)))) \<circ>
     (\<lambda>i. (ai_message_id i, ai_sequence i, ai_text i, ai_steering i, ai_pending i, ai_text_elided i))"

definition input_dec :: "json \<Rightarrow> acknowledged_input option" where
  "input_dec = map_option (\<lambda>(a, b, c, d, e, f). \<lparr>ai_message_id = a, ai_sequence = b, ai_text = c, ai_steering = d,
       ai_pending = e, ai_text_elided = f\<rparr>) \<circ>
     json_pair json_string (json_pair json_number (json_pair json_string (json_pair json_bool (json_pair json_bool json_bool))))"

definition claim_enc :: "task_claim \<Rightarrow> json" where
  "claim_enc = of_pair JString (of_pair JString of_number) \<circ> (\<lambda>k. (tk_task k, tk_state k, tk_since_sequence k))"

definition claim_dec :: "json \<Rightarrow> task_claim option" where
  "claim_dec = map_option (\<lambda>(a, b, c). \<lparr>tk_task = a, tk_state = b, tk_since_sequence = c\<rparr>) \<circ>
     json_pair json_string (json_pair json_string json_number)"

definition receipt_enc :: "action_receipt \<Rightarrow> json" where
  "receipt_enc = of_pair JString (of_pair JString (of_pair JString (of_pair of_number (of_pair of_text_option of_number)))) \<circ>
     (\<lambda>r. (ar_tool_call r, ar_tool r, ar_state r, ar_sequence r, ar_artifact_sha256 r, ar_result_bytes r))"

definition receipt_dec :: "json \<Rightarrow> action_receipt option" where
  "receipt_dec = map_option (\<lambda>(a, b, c, d, e, f). \<lparr>ar_tool_call = a, ar_tool = b, ar_state = c, ar_sequence = d,
       ar_artifact_sha256 = e, ar_result_bytes = f\<rparr>) \<circ>
     json_pair json_string (json_pair json_string (json_pair json_string (json_pair json_number
       (json_pair json_text_option json_number))))"

definition outstanding_enc :: "outstanding_tool \<Rightarrow> json" where
  "outstanding_enc = of_pair JString (of_pair JString (of_pair JString JString)) \<circ>
     (\<lambda>x. (ot_tool_call x, ot_tool x, ot_state x, ot_arguments_digest x))"

definition outstanding_dec :: "json \<Rightarrow> outstanding_tool option" where
  "outstanding_dec = map_option (\<lambda>(a, b, c, d). \<lparr>ot_tool_call = a, ot_tool = b, ot_state = c, ot_arguments_digest = d\<rparr>) \<circ>
     json_pair json_string (json_pair json_string (json_pair json_string json_string))"

definition evidence_enc :: "evidence_ref \<Rightarrow> json" where
  "evidence_enc = of_pair JString (of_pair of_number (of_pair JString (of_pair JString of_text_option))) \<circ>
     (\<lambda>x. (er_handle x, er_byte_len x, er_media_type x, er_tool x, er_path x))"

definition evidence_dec :: "json \<Rightarrow> evidence_ref option" where
  "evidence_dec = map_option (\<lambda>(a, b, c, d, e). \<lparr>er_handle = a, er_byte_len = b, er_media_type = c, er_tool = d,
       er_path = e\<rparr>) \<circ>
     json_pair json_string (json_pair json_number (json_pair json_string (json_pair json_string json_text_option)))"

definition summary_enc :: "distilled_summary \<Rightarrow> json" where
  "summary_enc = of_pair JString (of_pair of_text_option (of_pair JString of_texts)) \<circ>
     (\<lambda>x. (ds_source x, ds_model x, ds_text x, ds_decisions x))"

definition summary_dec :: "json \<Rightarrow> distilled_summary option" where
  "summary_dec = map_option (\<lambda>(a, b, c, d). \<lparr>ds_source = a, ds_model = b, ds_text = c, ds_decisions = d\<rparr>) \<circ>
     json_pair json_string (json_pair json_text_option (json_pair json_string json_texts))"

definition route_enc :: "portable_route \<Rightarrow> json" where
  "route_enc = of_texts \<circ> (\<lambda>r. [po_route r, po_provider r, po_endpoint r, po_account r, po_protocol r, po_vendor r, po_model r])"

definition route_dec :: "json \<Rightarrow> portable_route option" where
  "route_dec = map_option (\<lambda>xs. \<lparr>po_route = xs ! 0, po_provider = xs ! 1, po_endpoint = xs ! 2, po_account = xs ! 3,
       po_protocol = xs ! 4, po_vendor = xs ! 5, po_model = xs ! 6\<rparr>) \<circ> json_texts"

lemma record_codecs:
  "reads_back input_enc input_dec" "reads_back claim_enc claim_dec" "reads_back receipt_enc receipt_dec"
  "reads_back outstanding_enc outstanding_dec" "reads_back evidence_enc evidence_dec"
  "reads_back summary_enc summary_dec" "reads_back route_enc route_dec"
  unfolding input_enc_def input_dec_def claim_enc_def claim_dec_def receipt_enc_def receipt_dec_def
    outstanding_enc_def outstanding_dec_def evidence_enc_def evidence_dec_def summary_enc_def summary_dec_def
    route_enc_def route_dec_def
  by (intro reads_iso reads_back_intros; simp)+

definition sample_enc :: "portable_checkpoint \<Rightarrow> json" where
  "sample_enc =
     of_pair (of_pair of_number (of_pair JString (of_pair JString (of_pair of_number (of_pair of_number JString)))))
       (of_pair (of_pair route_enc (of_pair of_number (of_pair of_number of_text_option)))
         (of_pair (of_pair of_texts (of_pair of_text_option of_text_option))
           (of_pair (of_pair (of_list input_enc) (of_pair (of_list claim_enc) (of_list receipt_enc)))
             (of_pair (of_list outstanding_enc) (of_pair (of_list evidence_enc) summary_enc))))) \<circ>
     (\<lambda>c. ((pc_schema_version c, pc_checkpoint_id c, pc_session c, pc_generation c, pc_created_at c, pc_reason c),
          (pc_route c, pc_covers_through c, pc_last_sequence c, pc_objective c),
          (pc_hard_constraints c, pc_task c, pc_workflow c),
          (pc_acknowledged_input c, pc_claims c, pc_receipts c),
          pc_outstanding_tools c, pc_evidence c, pc_summary c))"

definition sample_dec :: "json \<Rightarrow> portable_checkpoint option" where
  "sample_dec =
     map_option (\<lambda>((a1, a2, a3, a4, a5, a6), (b1, b2, b3, b4), (c1, c2, c3), (d1, d2, d3), e1, e2, e3).
       \<lparr>pc_schema_version = a1, pc_checkpoint_id = a2, pc_session = a3, pc_generation = a4, pc_created_at = a5,
        pc_reason = a6, pc_route = b1, pc_covers_through = b2, pc_last_sequence = b3, pc_objective = b4,
        pc_hard_constraints = c1, pc_task = c2, pc_workflow = c3, pc_acknowledged_input = d1, pc_claims = d2,
        pc_receipts = d3, pc_outstanding_tools = e1, pc_evidence = e2, pc_summary = e3\<rparr>) \<circ>
     json_pair (json_pair json_number (json_pair json_string (json_pair json_string (json_pair json_number
         (json_pair json_number json_string)))))
       (json_pair (json_pair route_dec (json_pair json_number (json_pair json_number json_text_option)))
         (json_pair (json_pair json_texts (json_pair json_text_option json_text_option))
           (json_pair (json_pair (json_list input_dec) (json_pair (json_list claim_dec) (json_list receipt_dec)))
             (json_pair (json_list outstanding_dec) (json_pair (json_list evidence_dec) summary_dec)))))"

lemma sample_reads_back: "reads_back sample_enc sample_dec"
  unfolding sample_enc_def sample_dec_def
  by (intro reads_iso reads_back_intros record_codecs) simp

end
