(* ===== verification/Compaction_Claims.thy ===== *)
theory Compaction_Claims
  imports Checkpoint_Claims Checkpoint_Codec
begin

text \<open>
  The newest usable checkpoint, what a committed compaction leaves behind, and the history with which a
  session continues on another route.
\<close>

section \<open>The newest usable checkpoint\<close>

lemma map_filter_Nil: "List.map_filter f xs = [] \<longleftrightarrow> (\<forall>x \<in> set xs. f x = None)"
  by (induction xs) (auto simp: List.map_filter_simps split: option.splits)

lemma map_filter_Cons_first:
  assumes "List.map_filter f xs = c # cs"
  obtains ys x zs where "xs = ys @ x # zs" "f x = Some c" "\<forall>y \<in> set ys. f y = None"
  using assms
proof (induction xs arbitrary: thesis)
  case (Cons a xs)
  show ?case
  proof (cases "f a")
    case None
    with Cons.prems(2) have "List.map_filter f xs = c # cs" by (simp add: List.map_filter_simps)
    then obtain ys x zs where "xs = ys @ x # zs" "f x = Some c" "\<forall>y \<in> set ys. f y = None"
      using Cons.IH by blast
    with None show ?thesis by (intro Cons.prems(1) [of "a # ys" x zs]) auto
  next
    case (Some b)
    with Cons.prems(2) have "b = c" by (simp add: List.map_filter_simps)
    with Some show ?thesis by (intro Cons.prems(1) [of "[]" a xs]) auto
  qed
qed (simp add: List.map_filter_simps)

lemma set_candidates:
  assumes "bt_ok (cv_checkpoints v)"
  shows "q \<in> set (candidates v kind) \<longleftrightarrow> cp_kind q = kind \<and> (\<exists>k. map_of (cv_checkpoints v) k = Some q)"
proof -
  have "q \<in> snd ` set (cv_checkpoints v) \<longleftrightarrow> (\<exists>k. (k, q) \<in> set (cv_checkpoints v))" by force
  then show ?thesis by (auto simp: candidates_def bt_ok_map_of [OF assms])
qed

definition newest_usable ::
    "(json \<Rightarrow> portable_checkpoint option) \<Rightarrow> conversation \<Rightarrow> string \<Rightarrow> checkpoint_kind \<Rightarrow> portable_checkpoint \<Rightarrow> bool" where
  "newest_usable dec v s kind c \<longleftrightarrow>
     (\<exists>k q. map_of (cv_checkpoints v) k = Some q \<and> cp_kind q = kind \<and> usable dec s (cv_last_sequence v) q = Some c
        \<and> (\<forall>j p. map_of (cv_checkpoints v) j = Some p \<and> cp_kind p = kind \<and> cp_sequence q < cp_sequence p \<longrightarrow>
              usable dec s (cv_last_sequence v) p = None))"

lemma latest_valid_cases:
  assumes r: "replay t s = Inr v"
  shows "(\<exists>c. latest_valid dec t s kind = Inr (Some c) \<and> newest_usable dec v s kind c)
    \<or> latest_valid dec t s kind = Inr None
       \<and> (\<forall>k q. map_of (cv_checkpoints v) k = Some q \<and> cp_kind q = kind \<longrightarrow> usable dec s (cv_last_sequence v) q = None)"
proof (cases "List.map_filter (usable dec s (cv_last_sequence v)) (rev (candidates v kind))")
  case Nil
  have b: "bt_ok (cv_checkpoints v)" using in_order_replay [OF r] by (simp add: in_order_def)
  from Nil have "\<forall>q \<in> set (candidates v kind). usable dec s (cv_last_sequence v) q = None"
    by (simp add: map_filter_Nil)
  with Nil r show ?thesis by (auto simp: latest_valid_def set_candidates [OF b])
next
  case (Cons c cs)
  have b: "bt_ok (cv_checkpoints v)" using in_order_replay [OF r] by (simp add: in_order_def)
  from Cons obtain ys q zs where split: "rev (candidates v kind) = ys @ q # zs"
    and q: "usable dec s (cv_last_sequence v) q = Some c"
    and none: "\<forall>y \<in> set ys. usable dec s (cv_last_sequence v) y = None"
    by (rule map_filter_Cons_first)
  from split have cand: "candidates v kind = rev zs @ q # rev ys"
    by (metis append.assoc append_Cons append_Nil rev.simps(2) rev_append rev_rev_ident)
  then have "q \<in> set (candidates v kind)" by simp
  then obtain k where k: "cp_kind q = kind" "map_of (cv_checkpoints v) k = Some q"
    unfolding set_candidates [OF b] by blast
  have older: "cp_sequence p \<le> cp_sequence q" if "p \<in> set zs" for p
  proof -
    have "sorted (map cp_sequence (candidates v kind))" by (simp add: candidates_def)
    then show ?thesis using that unfolding cand by (auto simp: sorted_append)
  qed
  have "usable dec s (cv_last_sequence v) p = None"
    if "map_of (cv_checkpoints v) j = Some p" "cp_kind p = kind" "cp_sequence q < cp_sequence p" for j p
  proof -
    from that have "p \<in> set (candidates v kind)" unfolding set_candidates [OF b] by blast
    with cand that(3) older [of p] none show ?thesis by auto
  qed
  with k q have "newest_usable dec v s kind c" unfolding newest_usable_def by blast
  with Cons r show ?thesis by (simp add: latest_valid_def)
qed

text \<open>C29: A damaged checkpoint never costs a session its resumption. For every session that replays, looking
  for the checkpoint of a kind succeeds: it answers with one that decodes, belongs to this session and
  this schema and covers nothing the journal does not have, and every later one of that kind is
  unusable; or it answers that none is usable, and then indeed none is.
\<close>
theorem newest_usable_checkpoint_is_found:
  assumes "replay t s = Inr v"
  shows "case latest_valid dec t s kind of
      Inl e \<Rightarrow> False
    | Inr (Some c) \<Rightarrow> newest_usable dec v s kind c \<and> is_valid_for c s (cv_last_sequence v)
    | Inr None \<Rightarrow> (\<forall>k q. map_of (cv_checkpoints v) k = Some q \<and> cp_kind q = kind \<longrightarrow>
                       usable dec s (cv_last_sequence v) q = None)"
proof -
  have "is_valid_for c s (cv_last_sequence v)" if "newest_usable dec v s kind c" for c
    using that unfolding newest_usable_def usable_def by (auto split: option.splits if_splits)
  with latest_valid_cases [OF assms, of dec kind] show ?thesis by auto
qed

section \<open>One more event\<close>

lemma replay_session:
  assumes "replay t s = Inr v"
  obtains q where "session_of t s = Some q"
  using assms by (auto simp: replay_def read_session_def and_then_Inr_iff split: option.splits)

lemma replay_log:
  assumes t: "tables_ok t" and q: "session_of t s = Some q" and v: "replay t s = Inr v"
  obtains es where "decode_rows (tb_events t s) = Inr es" "length es = sr_next_sequence q"
    "fold_err reduce_step (new_conversation (session_identity.truncate q)) es = Inr v"
    "cv_last_sequence v = length es"
proof -
  from session_log [OF t q] obtain es where n: "numbered (length es) (tb_events t s)"
    and d: "decode_rows (tb_events t s) = Inr es" and l: "length es = sr_next_sequence q" by metis
  from log_replays [OF t q] v have "cv_last_sequence v = length es"
    using d n read_events_numbered [OF n] by (auto simp: journal_events_def read_session_Some [OF q])
  with v that [of es] d l show ?thesis
    by (auto simp: replay_def read_session_Some [OF q] read_events_numbered [OF n] reduce_log_def and_then_Inr_iff)
qed

lemma truncate_updated:
  "session_identity.truncate (q\<lparr>sr_next_sequence := n, sr_updated_at := at\<rparr>) = session_identity.truncate q"
  by (simp add: session_identity.truncate_def)

lemma replay_append:
  assumes t: "tables_ok t" and a: "append_tx s g sc e at t = Inr (u, n)" and e: "admissible (tb_events t s) e"
    and v: "replay t s = Inr v"
  shows "\<exists>w. reduce_event n e (v\<lparr>cv_last_sequence := n\<rparr>) = Inr w \<and> replay u s = Inr w
    \<and> n = Suc (cv_last_sequence v) \<and> n \<le> i64_max"
proof -
  note u = tables_ok_append [OF t a e]
  from a obtain q where q: "session_of t s = Some q" "n = Suc (sr_next_sequence q)" "n \<le> i64_max"
    and ueq: "u = update_session s (\<lambda>q. q\<lparr>sr_next_sequence := n, sr_updated_at := at\<rparr>)
              (t\<lparr>tb_events := (tb_events t)(s := tb_events t s @ [event_row_of n g sc e at])\<rparr>)"
    unfolding append_tx_Inr by blast
  have p: "session_of u s = Some (q\<lparr>sr_next_sequence := n, sr_updated_at := at\<rparr>)"
    using q unfolding ueq by (simp add: session_of_update session_of_with)
  from log_replays [OF u p] obtain w where w: "replay u s = Inr w" by blast
  from replay_log [OF t q(1) v] obtain es where es: "decode_rows (tb_events t s) = Inr es"
    "length es = sr_next_sequence q" "fold_err reduce_step (new_conversation (session_identity.truncate q)) es = Inr v"
    "cv_last_sequence v = length es" by metis
  from replay_log [OF u p w] obtain es' where es': "decode_rows (tb_events u s) = Inr es'"
    "fold_err reduce_step (new_conversation (session_identity.truncate q)) es' = Inr w"
    unfolding truncate_updated by metis
  have "tb_events u s = tb_events t s @ [event_row_of n g sc e at]" by (rule append_events [OF a])
  with es(1) es'(1) obtain ev where ev: "es' = es @ [ev]" "sv_sequence ev = n" "sv_event ev = e"
    by (auto simp: decode_rows_snoc)
  from es'(2) es(3) have "reduce_step v ev = Inr w" by (simp add: ev(1) fold_err_append and_then_Inr_iff)
  with w es q ev(2,3) show ?thesis by (simp add: reduce_step_def)
qed

lemma plain_replay_append:
  assumes "tables_ok t" and "append_tx s g sc e at t = Inr (u, n)" and "\<And>rows. admissible rows e"
    and "replay t s = Inr v"
  obtains w where "reduce_event n e (v\<lparr>cv_last_sequence := n\<rparr>) = Inr w" "replay u s = Inr w"
    "n = Suc (cv_last_sequence v)" "tables_ok u"
  using replay_append [OF assms(1,2,3,4)] tables_ok_append [OF assms(1,2,3)] by blast

lemma identity_session:
  assumes "replay t s = Inr v"
  shows "si_session (cv_identity v) = s"
proof -
  have ev: "reduce_event n e v = Inr w \<Longrightarrow> si_session (cv_identity w) = si_session (cv_identity v)" for n e v w
    by (cases e) (auto simp: and_then_Inr_iff split: if_splits)
  have "fold_err reduce_step v es = Inr w \<Longrightarrow> si_session (cv_identity w) = si_session (cv_identity v)" for v es w
  proof (induction es arbitrary: v)
    case (Cons e es)
    then show ?case by (auto simp: and_then_Inr_iff reduce_step_def dest: ev split: if_splits)
  qed simp
  moreover obtain q where q: "session_of t s = Some q" using replay_session [OF assms] .
  moreover have "si_session (session_identity.truncate q) = s"
    using session_of_member [OF q] by (simp add: session_identity.truncate_def)
  ultimately show ?thesis using assms
    by (fastforce simp: replay_def read_session_Some reduce_log_def and_then_Inr_iff new_conversation_def)
qed

section \<open>A committed checkpoint is read back\<close>

lemma committed_is_latest:
  assumes t: "tables_ok t" and a: "append_tx s g sc (Checkpoint cid kind (enc c)) at t = Inr (u, n)"
    and v: "replay t s = Inr v" and rb: "reads_back enc dec"
    and c: "is_valid_for c s (cv_last_sequence v)"
  shows "\<exists>w. replay u s = Inr w \<and> cv_messages w = cv_messages v \<and> cv_executions w = cv_executions v
    \<and> cv_tool_calls w = cv_tool_calls v \<and> cv_last_sequence w = n \<and> n = Suc (cv_last_sequence v)
    \<and> latest_valid dec u s kind = Inr (Some c) \<and> tables_ok u"
proof -
  from plain_replay_append [OF t a _ v] obtain w where
    w: "reduce_event n (Checkpoint cid kind (enc c)) (v\<lparr>cv_last_sequence := n\<rparr>) = Inr w" "replay u s = Inr w"
    "n = Suc (cv_last_sequence v)" "tables_ok u" by auto
  let ?r = "\<lparr>cp_sequence = n, cp_kind = kind, cp_portable_state = enc c\<rparr>"
  from w(1) have weq: "w = v\<lparr>cv_last_sequence := n, cv_checkpoints := bt_insert cid ?r (cv_checkpoints v)\<rparr>" by simp
  have us: "usable dec s (cv_last_sequence w) ?r = Some c"
    using rb c w(3) by (simp add: usable_def reads_back_def is_valid_for_def weq)
  have top: "cp_sequence p \<le> n \<and> (cp_sequence p = n \<longrightarrow> p = ?r)" if "map_of (cv_checkpoints w) k = Some p" for k p
    using that in_order_replay [OF v] w(3)
    by (fastforce simp: weq in_order_def newest_unique_def split: if_splits)
  have "latest_valid dec u s kind = Inr (Some c)"
    using latest_valid_cases [OF w(2), of dec kind]
  proof
    assume "\<exists>c'. latest_valid dec u s kind = Inr (Some c') \<and> newest_usable dec w s kind c'"
    then obtain c' k q where l: "latest_valid dec u s kind = Inr (Some c')"
      and q: "map_of (cv_checkpoints w) k = Some q" "usable dec s (cv_last_sequence w) q = Some c'"
      and newer: "\<And>j p. map_of (cv_checkpoints w) j = Some p \<Longrightarrow> cp_kind p = kind \<Longrightarrow>
            cp_sequence q < cp_sequence p \<Longrightarrow> usable dec s (cv_last_sequence w) p = None"
      unfolding newest_usable_def by blast
    have "map_of (cv_checkpoints w) cid = Some ?r" by (simp add: weq)
    with newer [of cid ?r] us top [OF q(1)] have "q = ?r" by (cases "cp_sequence q < n") auto
    with q(2) us l show ?thesis by simp
  next
    assume "latest_valid dec u s kind = Inr None
       \<and> (\<forall>k q. map_of (cv_checkpoints w) k = Some q \<and> cp_kind q = kind \<longrightarrow> usable dec s (cv_last_sequence w) q = None)"
    moreover have "map_of (cv_checkpoints w) cid = Some ?r" by (simp add: weq)
    ultimately have "usable dec s (cv_last_sequence w) ?r = None" by fastforce
    with us show ?thesis by simp
  qed
  with w show ?thesis by (intro exI [of _ w]) (simp add: weq)
qed

section \<open>A committed compaction\<close>

lemma record_distillation_cases:
  assumes "record_distillation cfg scope uid usage now j = (j1, Inr x)"
  shows "jn_tables j1 = jn_tables j
    \<or> (\<exists>u n. append_tx (lc_session cfg) (lc_generation cfg) scope (UsageRecorded u) now (jn_tables j)
              = Inr (jn_tables j1, n))"
  using assms
  by (auto simp: record_distillation_def record_usage_def split: if_splits sum.splits prod.splits dest!: in_tx_Inr)

lemma distillation_keeps:
  assumes t: "tables_ok (jn_tables j)" and r: "record_distillation cfg scope uid usage now j = (j1, Inr x)"
    and v: "replay (jn_tables j) (lc_session cfg) = Inr v"
  obtains w where "tables_ok (jn_tables j1)" "replay (jn_tables j1) (lc_session cfg) = Inr w"
    "cv_messages w = cv_messages v" "cv_executions w = cv_executions v" "cv_tool_calls w = cv_tool_calls v"
    "cv_last_sequence v \<le> cv_last_sequence w"
  using record_distillation_cases [OF r]
proof
  assume "jn_tables j1 = jn_tables j"
  with t v that [of v] show thesis by simp
next
  assume "\<exists>u n. append_tx (lc_session cfg) (lc_generation cfg) scope (UsageRecorded u) now (jn_tables j)
              = Inr (jn_tables j1, n)"
  then obtain u n where a: "append_tx (lc_session cfg) (lc_generation cfg) scope (UsageRecorded u) now (jn_tables j)
              = Inr (jn_tables j1, n)" by blast
  from plain_replay_append [OF t a _ v] obtain w where "reduce_event n (UsageRecorded u) (v\<lparr>cv_last_sequence := n\<rparr>) = Inr w"
    "replay (jn_tables j1) (lc_session cfg) = Inr w" "n = Suc (cv_last_sequence v)" "tables_ok (jn_tables j1)" by auto
  with that [of w] show thesis by (auto split: if_splits)
qed

lemma commit_checkpoint_Inr:
  assumes "commit_checkpoint enc dir g scope kind c at j = (dir1, j1, Inr n)"
  shows "append_tx (pc_session c) g scope (Checkpoint (pc_checkpoint_id c) kind (enc c)) at (jn_tables j)
    = Inr (jn_tables j1, n)"
  using assms
  by (auto simp: commit_checkpoint_def record_checkpoint_def opaque_id_def Let_def split: if_splits dest!: in_tx_Inr)

lemma built_fields [simp]:
  "pc_session (build_checkpoint print v b d cid ctx sm at) = si_session (cv_identity v)"
  "pc_covers_through (build_checkpoint print v b d cid ctx sm at) = b"
  "pc_last_sequence (build_checkpoint print v b d cid ctx sm at) = cv_last_sequence v"
  "pc_schema_version (build_checkpoint print v b d cid ctx sm at) = CHECKPOINT_SCHEMA_VERSION"
  "pc_checkpoint_id (build_checkpoint print v b d cid ctx sm at) = cid"
  by (simp_all add: build_checkpoint_def)

lemma carries_every_input:
  "list_all2 (carried delivered) (user_messages v)
      (pc_acknowledged_input (build_checkpoint print v covers delivered cid ctx summary created))"
proof -
  have "list_all2 (carried delivered) (user_messages v) (map (input_of delivered) (user_messages v))"
    by (simp add: list_all2_conv_all_nth carried_def input_of_def message_text_def)
  then show ?thesis using elided_carried by (simp add: build_checkpoint_def bound_acknowledged_input_def)
qed

lemma compact_now_Inr:
  assumes "compact_now print enc dec provider cfg scope cid uid reason ovf delivered now dir j = (dir1, j1, Inr (Some n))"
  obtains v b already j2 dir2 c x ctx summary where
    "replay (jn_tables j) (lc_session cfg) = Inr v" "compaction_boundary v (lc_retain cfg) ovf = Some b"
    "active_checkpoint dec (jn_tables j) (lc_session cfg) = Inr already"
    "(case already of None \<Rightarrow> 0 | Some c \<Rightarrow> pc_covers_through c) < b"
    "record_distillation cfg scope uid x now j = (j2, Inr ())"
    "c = build_checkpoint print v b delivered cid ctx summary now"
    "commit_checkpoint enc dir (lc_generation cfg) scope CompactionPoint c now j2 = (dir2, j1, Inr n)"
proof -
  from assms obtain v where v: "replay (jn_tables j) (lc_session cfg) = Inr v"
    by (auto simp: compact_now_def split: sum.splits)
  with assms obtain b where b: "compaction_boundary v (lc_retain cfg) ovf = Some b"
    by (auto simp: compact_now_def split: option.splits)
  with assms v obtain already where a: "active_checkpoint dec (jn_tables j) (lc_session cfg) = Inr already"
    by (auto simp: compact_now_def split: sum.splits)
  obtain summary x where d: "distill provider (lc_model cfg) v b (lc_distill cfg) = (summary, x)" by fastforce
  from assms v b a have less: "(case already of None \<Rightarrow> 0 | Some c \<Rightarrow> pc_covers_through c) < b"
    by (auto simp: compact_now_def split: if_splits)
  with assms v b a d have cid: "opaque_id ''CheckpointId'' cid = Inr cid"
    by (auto simp: compact_now_def opaque_id_def split: if_splits)
  obtain j2 r where rd: "record_distillation cfg scope uid x now j = (j2, r)" by fastforce
  with assms v b a d less cid have r: "r = Inr ()"
    by (cases r) (auto simp: compact_now_def Let_def)
  define c where "c = build_checkpoint print v b delivered cid
      \<lparr>cc_hard_constraints = lc_constraints cfg, cc_task = lc_task cfg, cc_workflow = None, cc_reason = reason\<rparr> summary now"
  obtain dir2 j3 k where k: "commit_checkpoint enc dir (lc_generation cfg) scope CompactionPoint c now j2 = (dir2, j3, k)"
    by (metis prod_cases3)
  with assms v b a d less cid rd r have "k = Inr n \<and> j3 = j1"
    by (cases k) (auto simp: compact_now_def c_def)
  with that v b a less rd r k c_def show thesis by blast
qed

text \<open>C13: A committed compaction moves forward and loses nothing. In a journal that the operations wrote, when
  the loop commits a compaction, the checkpoint then in force covers exactly the safe boundary, which lies
  beyond what was covered before; it carries every acknowledged input; and the replayed messages, calls
  and executions are the ones from before.
\<close>
theorem compaction_moves_forward_and_keeps_all:
  assumes "j = run_journals parse sha ops (new_journal faults)" and "reads_back enc dec"
    and "compact_now print enc dec provider cfg scope cid uid reason ovf delivered now dir j = (dir1, j1, Inr (Some n))"
  shows "\<exists>v w c. replay (jn_tables j) (lc_session cfg) = Inr v \<and> replay (jn_tables j1) (lc_session cfg) = Inr w
    \<and> cv_messages w = cv_messages v \<and> cv_tool_calls w = cv_tool_calls v \<and> cv_executions w = cv_executions v
    \<and> active_checkpoint dec (jn_tables j1) (lc_session cfg) = Inr (Some c)
    \<and> compaction_boundary v (lc_retain cfg) ovf = Some (pc_covers_through c)
    \<and> (\<forall>a. active_checkpoint dec (jn_tables j) (lc_session cfg) = Inr (Some a) \<longrightarrow>
          pc_covers_through a < pc_covers_through c)
    \<and> list_all2 (carried delivered) (user_messages v) (pc_acknowledged_input c)"
  using assms(3)
proof (rule compact_now_Inr)
  fix v b already j2 dir2 c x ctx summary
  assume v: "replay (jn_tables j) (lc_session cfg) = Inr v" and b: "compaction_boundary v (lc_retain cfg) ovf = Some b"
    and a: "active_checkpoint dec (jn_tables j) (lc_session cfg) = Inr already"
    and less: "(case already of None \<Rightarrow> 0 | Some c \<Rightarrow> pc_covers_through c) < b"
    and rd: "record_distillation cfg scope uid x now j = (j2, Inr ())"
    and c: "c = build_checkpoint print v b delivered cid ctx summary now"
    and cm: "commit_checkpoint enc dir (lc_generation cfg) scope CompactionPoint c now j2 = (dir2, j1, Inr n)"
  have t: "tables_ok (jn_tables j)" using assms(1) journal_after_ok by simp
  from distillation_keeps [OF t rd v] obtain v' where v': "tables_ok (jn_tables j2)"
    "replay (jn_tables j2) (lc_session cfg) = Inr v'" "cv_messages v' = cv_messages v" "cv_executions v' = cv_executions v"
    "cv_tool_calls v' = cv_tool_calls v" "cv_last_sequence v \<le> cv_last_sequence v'" .
  from boundary_before_unsettled(1) [OF b] in_order_replay [OF v] have "b \<le> cv_last_sequence v"
    by (auto simp: in_order_def)
  then have ok: "is_valid_for c (lc_session cfg) (cv_last_sequence v')"
    using v'(6) identity_session [OF v] by (simp add: is_valid_for_def c)
  have "append_tx (lc_session cfg) (lc_generation cfg) scope (Checkpoint cid CompactionPoint (enc c)) now (jn_tables j2)
      = Inr (jn_tables j1, n)"
    using commit_checkpoint_Inr [OF cm] identity_session [OF v] by (simp add: c)
  from committed_is_latest [OF v'(1) this v'(2) assms(2) ok] obtain w where
    "replay (jn_tables j1) (lc_session cfg) = Inr w" "cv_messages w = cv_messages v" "cv_executions w = cv_executions v"
    "cv_tool_calls w = cv_tool_calls v" "active_checkpoint dec (jn_tables j1) (lc_session cfg) = Inr (Some c)"
    using v' by (auto simp: active_checkpoint_def)
  moreover have "pc_covers_through c = b" "list_all2 (carried delivered) (user_messages v) (pc_acknowledged_input c)"
    by (simp_all add: c carries_every_input)
  ultimately show ?thesis using v b a less by (intro exI [of _ v] exI [of _ w] exI [of _ c]) auto
qed

section \<open>Continuing on another route\<close>

definition verbatim :: "stored_message \<Rightarrow> provider_message" where
  "verbatim m = \<lparr>pm_role = ProviderUser, pm_content = [ProviderText (message_text m)]\<rparr>"

lemma semantic_opens:
  "semantic_from v covered False ms = x # xs \<Longrightarrow> pm_role x = ProviderUser"
  by (induction ms) (auto split: if_splits message_role.splits)

lemma semantic_text: "m \<in> set (semantic_from v covered seen ms) \<Longrightarrow> \<exists>x. pm_content m = [ProviderText x]"
  by (induction ms arbitrary: seen) (auto simp: Let_def split: if_splits message_role.splits)

lemma semantic_users:
  "filter (\<lambda>m. pm_role m = ProviderUser) (semantic_from v covered seen ms)
     = map verbatim (filter (\<lambda>m. covered < ms_sequence m) (filter (\<lambda>m. ms_role m = UserRole) ms))"
  by (induction ms arbitrary: seen) (auto simp: Let_def verbatim_def split: message_role.splits)

text \<open>C28: A session continues on another route with a legal history. The rebuilt history is used exactly when
  the route differs; it holds plain text only, so no reasoning block, signature or foreign tool call
  crosses; it opens with a user turn; and its user turns are the checkpoint's summary followed by every
  acknowledged input after the covered part, word for word and in order.
\<close>
theorem rebuilt_history_is_legal:
  assumes "plan_continuation dec t s target = Inr plan" and "replay t s = Inr v"
  shows "case plan of
      SameRoute c \<Rightarrow> si_route (cv_identity v) = target
    | Rebuilt c ms \<Rightarrow> si_route (cv_identity v) \<noteq> target
        \<and> (\<forall>m \<in> set ms. \<exists>x. pm_content m = [ProviderText x])
        \<and> (ms = [] \<or> pm_role (hd ms) = ProviderUser)
        \<and> filter (\<lambda>m. pm_role m = ProviderUser) ms =
            (case c of None \<Rightarrow> [] | Some c \<Rightarrow> [summary_message c])
            @ map verbatim (filter (\<lambda>m. (case c of None \<Rightarrow> 0 | Some c \<Rightarrow> pc_covers_through c) < ms_sequence m)
                (user_messages v))"
proof -
  from assms obtain c where c: "active_checkpoint dec t s = Inr c" by (auto simp: plan_continuation_def and_then_Inr_iff)
  show ?thesis
  proof (cases "si_route (cv_identity v) = target")
    case True
    with assms c show ?thesis by (auto simp: plan_continuation_def)
  next
    case False
    define covered where "covered = (case c of None \<Rightarrow> 0 | Some c \<Rightarrow> pc_covers_through c)"
    define ms where "ms = (case c of None \<Rightarrow> [] | Some c \<Rightarrow> [summary_message c]) @ semantic_history v covered"
    have "plan = Rebuilt c ms" using False assms c by (simp add: plan_continuation_def Let_def ms_def covered_def)
    moreover have "\<forall>m \<in> set ms. \<exists>x. pm_content m = [ProviderText x]"
      using semantic_text by (fastforce simp: ms_def semantic_history_def summary_message_def split: option.splits)
    moreover have "ms = [] \<or> pm_role (hd ms) = ProviderUser"
      using semantic_opens by (cases c; cases "semantic_history v covered")
        (auto simp: ms_def semantic_history_def summary_message_def)
    moreover have "filter (\<lambda>m. pm_role m = ProviderUser) ms =
        (case c of None \<Rightarrow> [] | Some c \<Rightarrow> [summary_message c])
        @ map verbatim (filter (\<lambda>m. covered < ms_sequence m) (user_messages v))"
      by (simp add: ms_def semantic_history_def semantic_users user_messages_def summary_message_def split: option.splits)
    ultimately show ?thesis using False by (simp add: covered_def)
  qed
qed

end
