(* ===== verification/Handover_Claims.thy ===== *)
theory Handover_Claims
  imports Handover Compaction_Claims
begin

text \<open>
  What a session hands to its successor: how the executions settle at the boundary, the checkpoint that
  records it, and when the successor is halted.
\<close>

section \<open>Marking executions\<close>

inductive marks :: "string \<Rightarrow> execution_state \<Rightarrow> string list \<Rightarrow> tables \<Rightarrow> tables \<Rightarrow> bool"
  for s :: string and st :: execution_state where
  marks_Nil: "marks s st [] t t"
| marks_Cons: "append_tx s g sc (ToolExecution x c st None detail ms) at t = Inr (t1, n)
    \<Longrightarrow> admissible (tb_events t s) (ToolExecution x c st None detail ms)
    \<Longrightarrow> marks s st xs t1 u \<Longrightarrow> marks s st (x # xs) t u"

definition same_talk :: "conversation \<Rightarrow> conversation \<Rightarrow> bool" where
  "same_talk v w \<longleftrightarrow> cv_messages w = cv_messages v \<and> cv_tool_calls w = cv_tool_calls v
     \<and> cv_last_sequence v \<le> cv_last_sequence w"

definition state_in :: "conversation \<Rightarrow> string \<Rightarrow> execution_state option" where
  "state_in v x = map_option xr_state (map_of (cv_executions v) x)"

definition call_in :: "conversation \<Rightarrow> string \<Rightarrow> string option" where
  "call_in v x = map_option xr_tool_call (map_of (cv_executions v) x)"

lemma replay_latest:
  assumes t: "tables_ok t" and v: "replay t s = Inr v"
  shows "latest_in (tb_events t s) x = Inr (map_of (cv_executions v) x)"
proof -
  obtain q where q: "session_of t s = Some q" using replay_session [OF v] .
  from log_replays [OF t q] v show ?thesis by (auto simp: latest_execution_def)
qed

lemma same_talk_refl [simp]: "same_talk v v"
  by (simp add: same_talk_def)

lemma same_talk_trans: "same_talk v u \<Longrightarrow> same_talk u w \<Longrightarrow> same_talk v w"
  by (simp add: same_talk_def)

lemma marks_effect:
  assumes "marks s st xs t u" and "tables_ok t" and "replay t s = Inr v" and "st \<noteq> Prepared"
  shows "\<exists>w. tables_ok u \<and> replay u s = Inr w \<and> same_talk v w \<and> call_in w = call_in v
    \<and> (\<forall>x. state_in w x = (if x \<in> set xs then Some st else state_in v x))"
  using assms
proof (induction arbitrary: v rule: marks.induct)
  case (marks_Nil t)
  then show ?case by auto
next
  case (marks_Cons g sc x c detail ms at t t1 n xs u)
  from replay_append [OF marks_Cons.prems(1) marks_Cons.hyps(1,2) marks_Cons.prems(2)] obtain v1 where
    v1: "reduce_event n (ToolExecution x c st None detail ms) (v\<lparr>cv_last_sequence := n\<rparr>) = Inr v1"
    "replay t1 s = Inr v1" "n = Suc (cv_last_sequence v)" by blast
  let ?r = "\<lparr>xr_sequence = n, xr_tool_call = c, xr_state = st, xr_result = None, xr_detail = detail\<rparr>"
  have v1eq: "v1 = v\<lparr>cv_last_sequence := n, cv_executions := bt_insert x ?r (cv_executions v)\<rparr>"
    using v1(1) by (auto simp: and_then_Inr_iff)
  obtain p where p: "map_of (cv_executions v) x = Some p" "xr_tool_call p = c"
    using marks_Cons.hyps(2) marks_Cons.prems(3) replay_latest [OF marks_Cons.prems(1,2), of x]
    by (auto split: option.splits)
  from marks_Cons.IH [OF tables_ok_append [OF marks_Cons.prems(1) marks_Cons.hyps(1,2)] v1(2) marks_Cons.prems(3)]
  obtain w where w: "tables_ok u" "replay u s = Inr w" "same_talk v1 w" "call_in w = call_in v1"
    "\<And>y. state_in w y = (if y \<in> set xs then Some st else state_in v1 y)" by blast
  have "same_talk v v1" using v1(3) by (simp add: same_talk_def v1eq)
  then have "same_talk v w" using w(3) by (rule same_talk_trans)
  moreover have "call_in w = call_in v" using p w(4) by (auto simp: call_in_def v1eq fun_eq_iff)
  moreover have "state_in w y = (if y \<in> set (x # xs) then Some st else state_in v y)" for y
    using w(5) [of y] by (auto simp: state_in_def v1eq)
  ultimately show ?case using w by blast
qed

lemma marked_unknown:
  assumes "fold_err (mark_unknown s g at_ms at) t started = Inr u" and "tables_ok t"
    and "distinct (map fst started)" and "\<forall>p \<in> set started. is_started (tb_events t s) p"
  shows "marks s OutcomeUnknown (map fst started) t u"
  using assms
proof (induction started arbitrary: t)
  case (Cons p started)
  obtain x c where p: "p = (x, c)" by (cases p)
  from Cons.prems(1) obtain t1 n where
    a: "append_tx s g no_scope (ToolExecution x c OutcomeUnknown None (Some unknown_note) at_ms) at t = Inr (t1, n)"
    and f: "fold_err (mark_unknown s g at_ms at) t1 started = Inr u"
    by (auto simp: mark_unknown_Inr and_then_Inr_iff p)
  from Cons.prems(4) p obtain r where r: "latest_in (tb_events t s) x = Inr (Some r)" "xr_state r = Started"
    "xr_tool_call r = c" by (auto simp: is_started_def)
  have adm: "admissible (tb_events t s) (ToolExecution x c OutcomeUnknown None (Some unknown_note) at_ms)"
    using r latest_call_known [OF Cons.prems(2) r(1)] by (simp add: validate_execution_transition_def)
  have ok: "tables_ok t1" by (rule tables_ok_append [OF Cons.prems(2) a adm])
  have "is_started (tb_events t1 s) q" if "q \<in> set started" for q
  proof -
    from that Cons.prems(3) p have "fst q \<noteq> x" by auto
    with that Cons.prems(4) append_latest [OF a Cons.prems(2), of "fst q"] show ?thesis by (simp add: is_started_def)
  qed
  with Cons.IH [OF f ok] Cons.prems(3) have "marks s OutcomeUnknown (map fst started) t1 u" by simp
  then show ?case using marks_Cons [OF a adm] p by simp
qed (simp add: marks_Nil)

lemma reconcile_marks:
  assumes t: "tables_ok (jn_tables j)" and r: "reconcile_started_as_unknown s g at_ms at j = (j1, Inr xs)"
    and v: "replay (jn_tables j) s = Inr v"
  shows "marks s OutcomeUnknown xs (jn_tables j) (jn_tables j1)"
    and "x \<in> set xs \<longleftrightarrow> state_in v x = Some Started"
proof -
  from in_tx_Inr [OF r [unfolded reconcile_started_as_unknown_def]] obtain started where
    l: "latest_started_executions (jn_tables j) s = Inr started" and xs: "xs = map fst started"
    and f: "fold_err (mark_unknown s g at_ms at) (jn_tables j) started = Inr (jn_tables j1)"
    by (auto simp: and_then_Inr_iff)
  have now: "\<forall>p \<in> set started. is_started (tb_events (jn_tables j) s) p"
    using started_spec(2) [OF t l] by (auto simp: is_started_def)
  from marked_unknown [OF f t started_spec(1) [OF t l] now] xs
  show "marks s OutcomeUnknown xs (jn_tables j) (jn_tables j1)" by simp
  have "x \<in> set xs \<longleftrightarrow> (\<exists>c. (x, c) \<in> set started)" by (auto simp: xs intro: rev_image_eqI)
  then show "x \<in> set xs \<longleftrightarrow> state_in v x = Some Started"
    unfolding started_spec(2) [OF t l] replay_latest [OF t v] state_in_def by auto
qed

lemma cancel_all_marks:
  assumes "cancel_all s g now ps j = (j1, Inr cs)" and "tables_ok (jn_tables j)"
  shows "marks s Cancelled (map fst ps) (jn_tables j) (jn_tables j1) \<and> cs = map snd ps"
  using assms
proof (induction ps arbitrary: j cs)
  case (Cons p ps)
  obtain x c where p: "p = (x, c)" by (cases p)
  obtain j2 r where tr: "transition_execution s g no_scope x Cancelled None (Some cancel_note) None now j = (j2, r)"
    by fastforce
  with Cons.prems(1) p obtain n where r: "r = Inr n" by (cases r) auto
  with tr Cons.prems(1) p obtain cs' where rest': "cancel_all s g now ps j2 = (j1, Inr cs')" "cs = c # cs'"
    by (auto split: prod.splits sum.splits)
  from in_tx_Inr [OF tr [unfolded transition_execution_def r]] obtain previous where
    l: "latest_in (tb_events (jn_tables j) s) x = Inr (Some previous)"
    and ok: "validate_execution_transition (xr_state previous) Cancelled None = Inr ()"
    and a: "append_tx s g no_scope (ToolExecution x (xr_tool_call previous) Cancelled None (Some cancel_note) None) now
             (jn_tables j) = Inr (jn_tables j2, n)"
    by (auto simp: and_then_Inr_iff latest_execution_def split: option.splits)
  have adm: "admissible (tb_events (jn_tables j) s)
      (ToolExecution x (xr_tool_call previous) Cancelled None (Some cancel_note) None)"
    using l ok latest_call_known [OF Cons.prems(2) l] by simp
  from Cons.IH [OF rest'(1) tables_ok_append [OF Cons.prems(2) a adm]] marks_Cons [OF a adm] p rest'(2)
  show ?case by auto
qed (simp add: marks_Nil)

lemma prepared_spec:
  assumes "in_order v"
  shows "x \<in> fst ` set (prepared_executions v) \<longleftrightarrow> state_in v x = Some Prepared"
proof -
  from assms have b: "bt_ok (cv_executions v)" by (simp add: in_order_def)
  have "x \<in> fst ` set (prepared_executions v) \<longleftrightarrow> (\<exists>r. (x, r) \<in> set (cv_executions v) \<and> xr_state r = Prepared)"
    by (force simp: prepared_executions_def)
  then show ?thesis by (auto simp: bt_ok_map_of [OF b] state_in_def)
qed

lemma prepared_calls:
  assumes "in_order v"
  shows "snd ` set (prepared_executions v) = {c. \<exists>x. state_in v x = Some Prepared \<and> call_in v x = Some c}"
proof -
  from assms have b: "bt_ok (cv_executions v)" by (simp add: in_order_def)
  have "c \<in> snd ` set (prepared_executions v)
      \<longleftrightarrow> (\<exists>x r. (x, r) \<in> set (cv_executions v) \<and> xr_state r = Prepared \<and> xr_tool_call r = c)" for c
    by (force simp: prepared_executions_def)
  then have "c \<in> snd ` set (prepared_executions v) \<longleftrightarrow> (\<exists>x. state_in v x = Some Prepared \<and> call_in v x = Some c)" for c
    unfolding bt_ok_map_of [OF b] state_in_def call_in_def by force
  then show ?thesis by blast
qed

section \<open>The settled boundary\<close>

definition after_drain :: "drain \<Rightarrow> execution_state \<Rightarrow> execution_state" where
  "after_drain d st = (if st = Started then OutcomeUnknown else if st = Prepared \<and> d = Forced then Cancelled else st)"

lemma commit_handoff_Inr:
  assumes "commit_handoff print enc s g d ctx now cancelled j = (j1, Inr b)"
  obtains v n where "replay (jn_tables j) s = Inr v"
    "append_tx s g no_scope (Checkpoint (handoff_id g (cv_last_sequence v)) HandoffPoint
        (enc (handoff_checkpoint print v g ctx now))) now (jn_tables j) = Inr (jn_tables j1, n)"
    "b = summarize (handoff_checkpoint print v g ctx now) d cancelled"
proof -
  from assms obtain v where v: "replay (jn_tables j) s = Inr v" by (auto simp: commit_handoff_def split: sum.splits)
  let ?c = "handoff_checkpoint print v g ctx now"
  obtain dir j2 k where k: "commit_checkpoint enc None g no_scope HandoffPoint ?c now j = (dir, j2, k)"
    by (metis prod_cases3)
  with assms v obtain n where n: "k = Inr n" "j2 = j1" "b = summarize ?c d cancelled"
    by (cases k) (auto simp: commit_handoff_def Let_def split: sum.splits)
  have "pc_session ?c = s" "pc_checkpoint_id ?c = handoff_id g (cv_last_sequence v)"
    using identity_session [OF v] by (simp_all add: handoff_checkpoint_def)
  with commit_checkpoint_Inr [OF k [unfolded n(1)]] n v that show thesis by simp
qed

lemma handoff_valid:
  assumes v: "replay t s = Inr v"
  shows "is_valid_for (handoff_checkpoint print v g ctx now) s (cv_last_sequence v)"
proof -
  have "handoff_covers v \<le> cv_last_sequence v"
  proof (cases "boundary v RETAIN_RECENT_MESSAGES")
    case (Some b)
    then have "compaction_boundary v RETAIN_RECENT_MESSAGES False = Some b" by (simp add: compaction_boundary_def)
    from boundary_before_unsettled(1) [OF this] in_order_replay [OF v] show ?thesis
      using Some by (auto simp: handoff_covers_def in_order_def)
  qed (simp add: handoff_covers_def)
  then show ?thesis using identity_session [OF v] by (simp add: is_valid_for_def handoff_checkpoint_def)
qed

lemma reach_boundary_settles:
  assumes t: "tables_ok (jn_tables j)" and rb: "reads_back enc dec"
    and r: "reach_boundary print enc s g d ctx now j = (j1, Inr b)"
    and v: "replay (jn_tables j) s = Inr v"
  shows "\<exists>w z cancelled. replay (jn_tables j1) s = Inr z \<and> cv_messages z = cv_messages w
    \<and> cv_executions z = cv_executions w \<and> cv_tool_calls z = cv_tool_calls w
    \<and> same_talk v w \<and> call_in w = call_in v \<and> in_order w
    \<and> (\<forall>x. state_in w x = map_option (after_drain d) (state_in v x))
    \<and> latest_valid dec (jn_tables j1) s HandoffPoint = Inr (Some (handoff_checkpoint print w g ctx now))
    \<and> b = summarize (handoff_checkpoint print w g ctx now) d cancelled
    \<and> set cancelled = (if d = Forced then {c. \<exists>x. state_in v x = Some Prepared \<and> call_in v x = Some c} else {})"
proof -
  obtain j2 k2 where rc: "reconcile_started_as_unknown s g None now j = (j2, k2)" by fastforce
  with r obtain xs where xs: "k2 = Inr xs" by (cases k2) (auto simp: reach_boundary_def)
  obtain j3 k3 where cn: "cancel_prepared s g d now j2 = (j3, k3)" by fastforce
  with r rc xs obtain cancelled where cs: "k3 = Inr cancelled" by (cases k3) (auto simp: reach_boundary_def)
  from r rc xs cn cs have ch: "commit_handoff print enc s g d ctx now cancelled j3 = (j1, Inr b)"
    by (simp add: reach_boundary_def)
  from marks_effect [OF reconcile_marks(1) [OF t rc [unfolded xs] v] t v] obtain u where
    u: "tables_ok (jn_tables j2)" "replay (jn_tables j2) s = Inr u" "same_talk v u" "call_in u = call_in v"
    and us: "\<And>x. state_in u x = (if x \<in> set xs then Some OutcomeUnknown else state_in v x)" by auto
  note started = reconcile_marks(2) [OF t rc [unfolded xs] v]
  have uo: "in_order u" by (rule in_order_replay [OF u(2)])
  have "\<exists>w. tables_ok (jn_tables j3) \<and> replay (jn_tables j3) s = Inr w \<and> same_talk u w \<and> call_in w = call_in u
      \<and> (\<forall>x. state_in w x = (if d = Forced \<and> state_in u x = Some Prepared then Some Cancelled else state_in u x))
      \<and> cancelled = (if d = Forced then map snd (prepared_executions u) else [])"
  proof (cases "d = Forced")
    case True
    with cn cs u(2) have "cancel_all s g now (prepared_executions u) j2 = (j3, Inr cancelled)"
      by (simp add: cancel_prepared_def)
    from cancel_all_marks [OF this u(1)] have
      m: "marks s Cancelled (map fst (prepared_executions u)) (jn_tables j2) (jn_tables j3)"
      and c: "cancelled = map snd (prepared_executions u)" by auto
    from marks_effect [OF m u(1,2)] c True show ?thesis by (simp add: prepared_spec [OF uo])
  next
    case False
    with cn cs u show ?thesis by (auto simp: cancel_prepared_def)
  qed
  then obtain w where w: "tables_ok (jn_tables j3)" "replay (jn_tables j3) s = Inr w" "same_talk u w" "call_in w = call_in u"
    and ws: "\<And>x. state_in w x = (if d = Forced \<and> state_in u x = Some Prepared then Some Cancelled else state_in u x)"
    and c: "cancelled = (if d = Forced then map snd (prepared_executions u) else [])" by blast
  from ch obtain w' n where cm: "replay (jn_tables j3) s = Inr w'"
    "append_tx s g no_scope (Checkpoint (handoff_id g (cv_last_sequence w')) HandoffPoint
        (enc (handoff_checkpoint print w' g ctx now))) now (jn_tables j3) = Inr (jn_tables j1, n)"
    "b = summarize (handoff_checkpoint print w' g ctx now) d cancelled" by (rule commit_handoff_Inr)
  from cm(1) w(2) have "w' = w" by simp
  from committed_is_latest [OF w(1) cm(2) [unfolded this] w(2) rb handoff_valid [OF w(2)]] obtain z where
    z: "replay (jn_tables j1) s = Inr z" "cv_messages z = cv_messages w" "cv_executions z = cv_executions w"
    "cv_tool_calls z = cv_tool_calls w"
    "latest_valid dec (jn_tables j1) s HandoffPoint = Inr (Some (handoff_checkpoint print w g ctx now))" by blast
  have st: "state_in w x = map_option (after_drain d) (state_in v x)" for x
    using ws [of x] us [of x] started [of x]
    by (cases "state_in v x") (auto simp: after_drain_def)
  have "state_in u x = Some Prepared \<longleftrightarrow> state_in v x = Some Prepared" for x
    using us [of x] started [of x] by auto
  then have cl: "set cancelled = (if d = Forced then {c. \<exists>x. state_in v x = Some Prepared \<and> call_in v x = Some c} else {})"
    by (simp add: c prepared_calls [OF uo] u(4))
  show ?thesis
    by (intro exI conjI, rule z(1), rule z(2), rule z(3), rule z(4), rule same_talk_trans [OF u(3) w(3)])
      (use st z(5) cl in_order_replay [OF w(2)] in \<open>simp_all add: w(4) u(4) cm(3) \<open>w' = w\<close>\<close>)
qed

text \<open>C12: The boundary of a rollover is safe. In a journal that the operations wrote, whatever transactions fail
  on the way, when the boundary is reached then every effect that had begun is of unknown outcome, on a
  forced boundary every prepared one is cancelled, and nothing else about the executions, the messages or the calls
  has changed; the newest handoff checkpoint is the one reported, it carries every acknowledged input and
  the report names those without an answer; and the report names exactly the cancelled calls.
\<close>
theorem handover_settles_and_hands_over:
  assumes "j = run_journals parse sha ops (new_journal faults)" and "reads_back enc dec"
    and "reach_boundary print enc s g d ctx now j = (j1, Inr b)" and "replay (jn_tables j) s = Inr v"
  shows "\<exists>w c. replay (jn_tables j1) s = Inr w \<and> cv_messages w = cv_messages v \<and> cv_tool_calls w = cv_tool_calls v
    \<and> call_in w = call_in v \<and> (\<forall>x. state_in w x = map_option (after_drain d) (state_in v x))
    \<and> latest_valid dec (jn_tables j1) s HandoffPoint = Inr (Some c) \<and> bd_checkpoint b = Some (pc_checkpoint_id c)
    \<and> list_all2 (carried (delivered_through w)) (user_messages w) (pc_acknowledged_input c)
    \<and> bd_pending_input b = map ms_message_id (filter (\<lambda>m. delivered_through w < ms_sequence m) (user_messages w))
    \<and> set (bd_cancelled b) =
        (if d = Forced then {c. \<exists>x. state_in v x = Some Prepared \<and> call_in v x = Some c} else {})"
proof -
  have t: "tables_ok (jn_tables j)" using assms(1) journal_after_ok by simp
  have pending: "list_all2 (carried n) ms is \<Longrightarrow>
      map ai_message_id (filter ai_pending is) = map ms_message_id (filter (\<lambda>m. n < ms_sequence m) ms)" for n ms "is"
    by (induction rule: list_all2_induct) (auto simp: carried_def)
  obtain w z cancelled where f: "replay (jn_tables j1) s = Inr z" "cv_messages z = cv_messages w"
    "cv_executions z = cv_executions w" "cv_tool_calls z = cv_tool_calls w"
    "same_talk v w" "call_in w = call_in v" "in_order w"
    "\<And>x. state_in w x = map_option (after_drain d) (state_in v x)"
    "latest_valid dec (jn_tables j1) s HandoffPoint = Inr (Some (handoff_checkpoint print w g ctx now))"
    "b = summarize (handoff_checkpoint print w g ctx now) d cancelled"
    "set cancelled = (if d = Forced then {c. \<exists>x. state_in v x = Some Prepared \<and> call_in v x = Some c} else {})"
    using reach_boundary_settles [OF t assms(2,3,4)] by blast
  note z = f(1-4) and w = f(5,6,8) and l = f(9) and b = f(10) and c = f(11)
  let ?c = "handoff_checkpoint print w g ctx now"
  have same: "user_messages z = user_messages w" "delivered_through z = delivered_through w" "call_in z = call_in w"
    "state_in z = state_in w"
    using z by (simp_all add: user_messages_def delivered_through_def call_in_def state_in_def fun_eq_iff)
  have inputs: "list_all2 (carried (delivered_through w)) (user_messages w) (pc_acknowledged_input ?c)"
    by (simp add: handoff_checkpoint_def carries_every_input)
  from pending [OF inputs] have p: "bd_pending_input b =
      map ms_message_id (filter (\<lambda>m. delivered_through w < ms_sequence m) (user_messages w))"
    by (simp add: b summarize_def pending_input_def)
  have "bd_checkpoint b = Some (pc_checkpoint_id ?c)" "bd_cancelled b = cancelled" by (simp_all add: b summarize_def)
  with z w l c inputs p same show ?thesis
    by (intro exI [of _ z] exI [of _ ?c]) (simp add: same_talk_def)
qed

section \<open>The halted successor\<close>

lemma state_label_inj: "state_label a = state_label b \<longleftrightarrow> a = b"
  by (cases a; cases b) simp_all

lemma handoff_outstanding:
  assumes "length (outstanding_calls print w) \<le> MAX_ITEMS"
  shows "pc_outstanding_tools (handoff_checkpoint print w g ctx now) = outstanding_calls print w"
  using assms by (simp add: handoff_checkpoint_def build_checkpoint_def truncated_newest)

lemma unknown_outstanding:
  assumes w: "in_order w"
  shows "(\<exists>a \<in> set (outstanding_calls print w). ot_state a = ''outcome_unknown'' \<and> ot_tool_call a = c)
    \<longleftrightarrow> (\<exists>x. newest_execution w c x \<and> xr_state x = OutcomeUnknown)"
proof -
  have "ot_state (outstanding_of print k r st) = ''outcome_unknown'' \<longleftrightarrow> st = OutcomeUnknown" for k r st
    using state_label_inj [of st OutcomeUnknown] by simp
  note lab = this
  show ?thesis
  proof
    assume "\<exists>a \<in> set (outstanding_calls print w). ot_state a = ''outcome_unknown'' \<and> ot_tool_call a = c"
    then obtain a where "a \<in> set (outstanding_calls print w)" "ot_state a = ''outcome_unknown''" "ot_tool_call a = c"
      by blast
    then show "\<exists>x. newest_execution w c x \<and> xr_state x = OutcomeUnknown"
      unfolding in_outstanding [OF w] by (auto simp: lab simp del: outstanding_fields(2))
  next
    assume "\<exists>x. newest_execution w c x \<and> xr_state x = OutcomeUnknown"
    then obtain x where x: "newest_execution w c x" "xr_state x = OutcomeUnknown" by blast
    then obtain r where r: "map_of (cv_tool_calls w) c = Some r"
      using w unfolding newest_execution_def in_order_def by blast
    have "outstanding_of print c r (xr_state x) \<in> set (outstanding_calls print w)"
      unfolding in_outstanding [OF w] using r x(1) x(2)
      by (intro exI [of _ c] exI [of _ r] conjI disjI1 exI [of _ x]) simp_all
    with x show "\<exists>a \<in> set (outstanding_calls print w). ot_state a = ''outcome_unknown'' \<and> ot_tool_call a = c"
      by (intro bexI) auto
  qed
qed

text \<open>C11: An ambiguous effect halts the successor. When the boundary of a rollover is reached and no more calls are
  open than a checkpoint lists, the report names exactly the calls whose newest execution is of unknown
  outcome, and the successor is halted exactly when there is one; and no execution is left in the state of an effect that
  has begun.
\<close>
theorem unknown_effects_halt_the_successor:
  assumes "j = run_journals parse sha ops (new_journal faults)" and "reads_back enc dec"
    and "reach_boundary print enc s g d ctx now j = (j1, Inr b)" and "replay (jn_tables j1) s = Inr w"
    and "length (outstanding_calls print w) \<le> MAX_ITEMS"
  shows "set (bd_outcome_unknown b) = {c. \<exists>x. newest_execution w c x \<and> xr_state x = OutcomeUnknown}
    \<and> (halts_successor b \<longleftrightarrow> (\<exists>c x. newest_execution w c x \<and> xr_state x = OutcomeUnknown))
    \<and> (\<forall>x. state_in w x \<noteq> Some Started)"
proof -
  have t: "tables_ok (jn_tables j)" using assms(1) journal_after_ok by simp
  obtain v where v: "replay (jn_tables j) s = Inr v"
  proof -
    from assms(3) obtain j2 xs where rc: "reconcile_started_as_unknown s g None now j = (j2, Inr xs)"
      by (auto simp: reach_boundary_def split: prod.splits sum.splits)
    from in_tx_Inr [OF rc [unfolded reconcile_started_as_unknown_def]] obtain q where "session_of (jn_tables j) s = Some q"
      by (auto simp: and_then_Inr_iff ensure_generation_def split: option.splits)
    with log_replays [OF t this] that show thesis by blast
  qed
  obtain w' z cancelled where f: "replay (jn_tables j1) s = Inr z" "cv_messages z = cv_messages w'"
    "cv_executions z = cv_executions w'" "cv_tool_calls z = cv_tool_calls w'"
    "same_talk v w'" "call_in w' = call_in v" "in_order w'"
    "\<And>x. state_in w' x = map_option (after_drain d) (state_in v x)"
    "latest_valid dec (jn_tables j1) s HandoffPoint = Inr (Some (handoff_checkpoint print w' g ctx now))"
    "b = summarize (handoff_checkpoint print w' g ctx now) d cancelled"
    "set cancelled = (if d = Forced then {c. \<exists>x. state_in v x = Some Prepared \<and> call_in v x = Some c} else {})"
    using reach_boundary_settles [OF t assms(2,3) v] by blast
  note z = f(1-4) and st = f(8) and b = f(10)
  from z(1) assms(4) have zw: "z = w" by simp
  have o: "outstanding_calls print w' = outstanding_calls print w"
    using z unfolding zw by (simp add: outstanding_calls_def known_calls_def latest_executions_def)
  have "set (bd_outcome_unknown b) =
      {c. \<exists>a \<in> set (outstanding_calls print w). ot_state a = ''outcome_unknown'' \<and> ot_tool_call a = c}"
    using handoff_outstanding [of print w'] assms(5) by (auto simp: b summarize_def o)
  then have s: "set (bd_outcome_unknown b) = {c. \<exists>x. newest_execution w c x \<and> xr_state x = OutcomeUnknown}"
    unfolding unknown_outstanding [OF in_order_replay [OF assms(4)]] .
  have "state_in w x \<noteq> Some Started" for x
    using st [of x] z(3) unfolding zw by (cases "state_in v x") (auto simp: state_in_def after_drain_def split: if_splits)
  moreover have "halts_successor b \<longleftrightarrow> set (bd_outcome_unknown b) \<noteq> {}" by (simp add: halts_successor_def)
  ultimately show ?thesis unfolding s by blast
qed

section \<open>Reaching the boundary\<close>

lemma length_bt_insert: "length (bt_insert k v xs) \<le> Suc (length xs)"
  by (induction k v xs rule: bt_insert.induct) auto

lemma few_executions:
  assumes "replay t s = Inr v"
  shows "length (cv_executions v) \<le> cv_last_sequence v"
proof -
  have ev: "reduce_event n e v = Inr w \<Longrightarrow> length (cv_executions w) \<le> Suc (length (cv_executions v))
      \<and> cv_last_sequence w = cv_last_sequence v" for n e v w
    using length_bt_insert by (cases e) (auto simp: and_then_Inr_iff split: if_splits)
  have "fold_err reduce_step v es = Inr w \<Longrightarrow> length (cv_executions v) \<le> cv_last_sequence v
      \<Longrightarrow> length (cv_executions w) \<le> cv_last_sequence w" for v es w
  proof (induction es arbitrary: v)
    case (Cons e es)
    from Cons.prems(1) obtain u where u: "reduce_step v e = Inr u" "fold_err reduce_step u es = Inr w"
      by (auto simp: and_then_Inr_iff)
    from u(1) have "length (cv_executions u) \<le> cv_last_sequence u"
      using Cons.prems(2) by (auto simp: reduce_step_def dest!: ev split: if_splits)
    then show ?case by (rule Cons.IH [OF u(2)])
  qed simp
  with assms show ?thesis
    by (fastforce simp: replay_def reduce_log_def and_then_Inr_iff new_conversation_def)
qed

lemma in_tx_quiet:
  assumes "jn_faults j = []" and "body (jn_tables j) = Inr (t, v)"
  shows "in_tx body j = (j\<lparr>jn_tables := t\<rparr>, Inr v)"
  using assms by (simp add: in_tx_def take_failure_def)

lemma append_session:
  assumes "append_tx s g sc e at t = Inr (u, n)" and "session_of t s = Some q"
  shows "\<exists>q'. session_of u s = Some q' \<and> si_generation q' = si_generation q \<and> sr_next_sequence q' = Suc (sr_next_sequence q)"
  using assms by (auto simp: append_tx_Inr session_of_update session_of_with)

lemma marks_session:
  assumes "marks s st xs t u" and "session_of t s = Some q"
  shows "\<exists>q'. session_of u s = Some q' \<and> si_generation q' = si_generation q
    \<and> sr_next_sequence q' = sr_next_sequence q + length xs"
  using assms
proof (induction arbitrary: q rule: marks.induct)
  case (marks_Cons g sc x c detail ms at t t1 n xs u)
  from append_session [OF marks_Cons.hyps(1) marks_Cons.prems] obtain q1 where
    "session_of t1 s = Some q1" "si_generation q1 = si_generation q" "sr_next_sequence q1 = Suc (sr_next_sequence q)" by blast
  with marks_Cons.IH [OF this(1)] show ?case by auto
qed auto

lemma replay_session_numbers:
  assumes "tables_ok t" and "session_of t s = Some q" and "replay t s = Inr v"
  shows "cv_last_sequence v = sr_next_sequence q"
  using replay_log [OF assms] by metis

lemma checkpoint_total:
  assumes t: "tables_ok t" and q: "session_of t s = Some q"
    and fits: "si_generation q \<le> i64_max" "at \<le> i64_max" "sr_next_sequence q < i64_max"
  shows "\<exists>u n. append_tx s (si_generation q) sc (Checkpoint c k st) at t = Inr (u, n)"
proof -
  let ?n = "Suc (sr_next_sequence q)" and ?e = "Checkpoint c k st"
  have "numbered (sr_next_sequence q) (tb_events t s)" using tables_okD [OF t q] by (simp add: log_ok_def)
  then have "\<forall>r \<in> set (tb_events t s). ev_sequence r < ?n"
    by (metis atLeastLessThan_iff image_eqI numbered_def set_map set_upt)
  then have "\<not> list_ex (collides (event_row_of ?n (si_generation q) sc ?e at)) (tb_events t s)"
    by (auto simp: list_ex_iff collides_def same_id_def)
  with q fits show ?thesis by (auto simp: append_tx_Inr)
qed

lemma cancel_all_total:
  assumes "tables_ok (jn_tables j)" and "jn_faults j = []" and "session_of (jn_tables j) s = Some q"
    and "si_generation q \<le> i64_max" and "now \<le> i64_max" and "sr_next_sequence q + length ps \<le> i64_max"
    and "distinct (map fst ps)"
    and "\<forall>p \<in> set ps. \<exists>r. latest_in (tb_events (jn_tables j) s) (fst p) = Inr (Some r) \<and> xr_state r = Prepared"
  shows "\<exists>j1 cs. cancel_all s (si_generation q) now ps j = (j1, Inr cs) \<and> jn_faults j1 = []"
  using assms
proof (induction ps arbitrary: j q)
  case (Cons p ps)
  obtain x c where p: "p = (x, c)" by (cases p)
  from Cons.prems(8) p obtain r where r: "latest_in (tb_events (jn_tables j) s) x = Inr (Some r)" "xr_state r = Prepared"
    by auto
  let ?e = "ToolExecution x (xr_tool_call r) Cancelled None (Some cancel_note) None"
  obtain u q1 where a: "append_tx s (si_generation q) no_scope ?e now (jn_tables j) = Inr (u, Suc (sr_next_sequence q))"
    and q1: "session_of u s = Some q1" "si_generation q1 = si_generation q" "sr_next_sequence q1 = Suc (sr_next_sequence q)"
    using append_execution_total [OF Cons.prems(1,3,4,5), of no_scope x "xr_tool_call r" Cancelled None "Some cancel_note" None]
      Cons.prems(6) by auto
  let ?j = "j\<lparr>jn_tables := u\<rparr>"
  have tr: "transition_execution s (si_generation q) no_scope x Cancelled None (Some cancel_note) None now j
      = (?j, Inr (Suc (sr_next_sequence q)))"
    unfolding transition_execution_def
    by (rule in_tx_quiet [OF Cons.prems(2)]) (simp add: latest_execution_def r validate_execution_transition_def a)
  have ok: "tables_ok u"
    using r latest_call_known [OF Cons.prems(1) r(1)]
    by (intro tables_ok_append [OF Cons.prems(1) a]) (simp add: validate_execution_transition_def)
  have "\<exists>r. latest_in (tb_events u s) (fst y) = Inr (Some r) \<and> xr_state r = Prepared" if "y \<in> set ps" for y
  proof -
    from that Cons.prems(7) p have "fst y \<noteq> x" by auto
    with that Cons.prems(8) append_latest [OF a Cons.prems(1), of "fst y"] show ?thesis by simp
  qed
  with Cons.IH [of ?j q1] ok q1 Cons.prems(2,4,5,6,7) obtain j1 cs where
    "cancel_all s (si_generation q) now ps ?j = (j1, Inr cs)" "jn_faults j1 = []" by auto
  with tr p show ?case by simp
qed simp

lemma show_nat_length: "n < 10 ^ Suc k \<Longrightarrow> length (show_nat n) \<le> Suc k"
proof (induction k arbitrary: n)
  case (Suc k)
  have "n div 10 < 10 ^ Suc k" using Suc.prems by (simp add: less_mult_imp_div_less mult.commute)
  from Suc.IH [OF this] show ?case by (subst show_nat.simps) simp
qed (simp add: show_nat.simps)

lemma show_nat_no_nul: "CHR 0x00 \<notin> set (show_nat n)"
  using show_nat_digits [of "CHR 0x00" n] by (auto simp: is_ascii_digit_def)

lemma handoff_id_accepted:
  assumes "g \<le> i64_max" and "n \<le> i64_max"
  shows "opaque_id ''CheckpointId'' (handoff_id g n) = Inr (handoff_id g n)"
proof -
  have "length (show_nat m) \<le> 20" if "m \<le> i64_max" for m
    using that show_nat_length [of m 19] by (simp add: i64_max_def)
  from this [OF assms(1)] this [OF assms(2)] show_nat_no_nul show ?thesis
    by (simp add: opaque_id_def handoff_id_def)
qed

lemma reconcile_total:
  assumes t: "tables_ok (jn_tables j)" and quiet: "jn_faults j = []" and q: "session_of (jn_tables j) s = Some q"
    and fits: "si_generation q \<le> i64_max" "at \<le> i64_max" "2 * sr_next_sequence q \<le> i64_max"
    and ids: "\<forall>r \<in> set (tb_events (jn_tables j) s). pred_option accepted_id (ix_execution (ev_ids r))"
  shows "\<exists>j1 xs. reconcile_started_as_unknown s (si_generation q) at_ms at j = (j1, Inr xs)
    \<and> jn_faults j1 = [] \<and> length xs \<le> sr_next_sequence q"
proof -
  let ?t = "jn_tables j"
  have len: "length (tb_events ?t s) = sr_next_sequence q"
    using tables_okD [OF t q] numbered_length by (simp add: log_ok_def)
  from started_total [OF t ids] obtain started where l: "latest_started_executions ?t s = Inr started"
    and few: "length started \<le> sr_next_sequence q" unfolding len by blast
  have now: "\<forall>p \<in> set started. is_started (tb_events ?t s) p"
    using started_spec(2) [OF t l] by (auto simp: is_started_def)
  from mark_unknown_total [OF t q fits(1,2) _ started_spec(1) [OF t l] now, of at_ms] few fits(3)
  obtain u where f: "fold_err (mark_unknown s (si_generation q) at_ms at) ?t started = Inr u" by auto
  have "reconcile_started_as_unknown s (si_generation q) at_ms at j = (j\<lparr>jn_tables := u\<rparr>, Inr (map fst started))"
    unfolding reconcile_started_as_unknown_def
    by (rule in_tx_quiet [OF quiet]) (simp add: ensure_generation_def q l f)
  with few quiet show ?thesis by simp
qed

lemma reach_boundary_total:
  assumes t: "tables_ok (jn_tables j)" and quiet: "jn_faults j = []" and q: "session_of (jn_tables j) s = Some q"
    and fits: "si_generation q \<le> i64_max" "now \<le> i64_max" "4 * sr_next_sequence q < i64_max"
    and ids: "accepted_id s" "\<forall>r \<in> set (tb_events (jn_tables j) s). pred_option accepted_id (ix_execution (ev_ids r))"
  shows "\<exists>j1 b. reach_boundary print enc s (si_generation q) d ctx now j = (j1, Inr b)"
proof -
  let ?g = "si_generation q"
  obtain v where v: "replay (jn_tables j) s = Inr v" using log_replays [OF t q] by blast
  have two: "2 * sr_next_sequence q \<le> i64_max" using fits(3) by simp
  from reconcile_total [OF t quiet q fits(1,2) two ids(2)] obtain j2 xs where
    rc: "reconcile_started_as_unknown s ?g None now j = (j2, Inr xs)" "jn_faults j2 = []" "length xs \<le> sr_next_sequence q"
    by blast
  note m = reconcile_marks(1) [OF t rc(1) v]
  from marks_effect [OF m t v] obtain u where u: "tables_ok (jn_tables j2)" "replay (jn_tables j2) s = Inr u" by auto
  from marks_session [OF m q] obtain q2 where q2: "session_of (jn_tables j2) s = Some q2" "si_generation q2 = ?g"
    "sr_next_sequence q2 = sr_next_sequence q + length xs" by blast
  note uo = in_order_replay [OF u(2)]
  let ?ps = "prepared_executions u"
  have "length ?ps \<le> length (cv_executions u)" by (simp add: prepared_executions_def)
  also have "\<dots> \<le> sr_next_sequence q2" using few_executions [OF u(2)] replay_session_numbers [OF u(1) q2(1) u(2)] by simp
  finally have few: "length ?ps \<le> sr_next_sequence q2" .
  have "\<exists>j3 cs. cancel_prepared s ?g d now j2 = (j3, Inr cs) \<and> jn_faults j3 = []
      \<and> (\<exists>xs. marks s Cancelled xs (jn_tables j2) (jn_tables j3) \<and> length xs \<le> sr_next_sequence q2)"
  proof (cases "d = Forced")
    case True
    have "distinct (map fst ?ps)"
      using uo bt_ok_distinct [of "cv_executions u"]
      by (simp add: prepared_executions_def in_order_def comp_def split_def distinct_map_filter)
    moreover have "\<exists>r. latest_in (tb_events (jn_tables j2) s) (fst p) = Inr (Some r) \<and> xr_state r = Prepared"
      if "p \<in> set ?ps" for p
      using that prepared_spec [OF uo, of "fst p"] replay_latest [OF u, of "fst p"]
      by (auto simp: state_in_def)
    ultimately obtain j3 cs where c: "cancel_all s ?g now ?ps j2 = (j3, Inr cs)" "jn_faults j3 = []"
      using cancel_all_total [OF u(1) rc(2) q2(1), of now ?ps] fits few rc(3) q2 by auto
    with cancel_all_marks [OF c(1) u(1)] few True u(2) show ?thesis
      by (auto simp: cancel_prepared_def intro!: exI [of _ "map fst ?ps"])
  next
    case False
    with rc(2) show ?thesis by (auto simp: cancel_prepared_def intro: marks_Nil)
  qed
  then obtain j3 cs ys where cn: "cancel_prepared s ?g d now j2 = (j3, Inr cs)" "jn_faults j3 = []"
    "marks s Cancelled ys (jn_tables j2) (jn_tables j3)" "length ys \<le> sr_next_sequence q2" by blast
  from marks_effect [OF cn(3) u] obtain w where w: "tables_ok (jn_tables j3)" "replay (jn_tables j3) s = Inr w" by auto
  from marks_session [OF cn(3) q2(1)] obtain q3 where q3: "session_of (jn_tables j3) s = Some q3" "si_generation q3 = ?g"
    "sr_next_sequence q3 = sr_next_sequence q2 + length ys" using q2(2) by auto
  have room: "sr_next_sequence q3 < i64_max" using q3(3) q2(3) rc(3) cn(4) fits(3) by simp
  have wl: "cv_last_sequence w = sr_next_sequence q3" by (rule replay_session_numbers [OF w(1) q3(1) w(2)])
  let ?c = "handoff_checkpoint print w ?g ctx now"
  from checkpoint_total [OF w(1) q3(1) _ fits(2) room] fits(1) q3(2) obtain t4 n where
    a: "append_tx s ?g no_scope (Checkpoint (handoff_id ?g (cv_last_sequence w)) HandoffPoint (enc ?c)) now (jn_tables j3)
        = Inr (t4, n)" by metis
  have hid: "opaque_id ''CheckpointId'' (handoff_id ?g (cv_last_sequence w)) = Inr (handoff_id ?g (cv_last_sequence w))"
    by (rule handoff_id_accepted) (use fits room wl in simp_all)
  have "record_checkpoint s ?g no_scope (handoff_id ?g (cv_last_sequence w)) HandoffPoint (enc ?c) now j3
      = (j3\<lparr>jn_tables := t4\<rparr>, Inr n)"
    unfolding record_checkpoint_def by (rule in_tx_quiet [where body = "append_tx s ?g no_scope
      (Checkpoint (handoff_id ?g (cv_last_sequence w)) HandoffPoint (enc ?c)) now", OF cn(2) a])
  moreover have "opaque_id ''JournalSessionId'' s = Inr s" using ids(1) by (auto simp: opaque_id_def accepted_id_def)
  moreover have "pc_session ?c = s" "pc_checkpoint_id ?c = handoff_id ?g (cv_last_sequence w)"
    using identity_session [OF w(2)] by (simp_all add: handoff_checkpoint_def)
  ultimately have "commit_handoff print enc s ?g d ctx now cs j3 = (j3\<lparr>jn_tables := t4\<rparr>, Inr (summarize ?c d cs))"
    by (simp add: commit_handoff_def w(2) hid commit_checkpoint_def)
  with rc(1) cn(1) show ?thesis by (simp add: reach_boundary_def)
qed


end
