(* ===== verification/Handover_Runs.thy ===== *)
theory Handover_Runs
  imports Handover_Claims
begin

text \<open>
  A sample conversation with an open tool call, the properties of checkpoints, compactions and handovers at
  it, and what the model shows of their limits.
\<close>

section \<open>A conversation with open calls\<close>

definition sample_talk_ops :: "journal_op list" where
  "sample_talk_ops =
     [CreateSession sample_identity_row,
      AcknowledgeInput ''s'' 3 no_scope ''m1'' ''go'' False None 10,
      RecordAssistant ''s'' 3 no_scope ''m2'' [TextBlock ''on it'', ToolCallBlock ''c''] None None 11,
      PrepareToolCall ''s'' 3 no_scope ''c'' ''run'' (JObject []) sample_provenance None 12,
      PrepareExecution ''s'' 3 no_scope ''x'' ''c'' None 13,
      TransitionExecution ''s'' 3 no_scope ''x'' Started None None None 14,
      PrepareToolCall ''s'' 3 no_scope ''k'' ''look'' (JObject []) sample_provenance None 15,
      PrepareExecution ''s'' 3 no_scope ''y'' ''k'' None 16,
      AcknowledgeInput ''s'' 3 no_scope ''m3'' ''also'' True None 17]"

abbreviation sample_talk :: journal where
  "sample_talk \<equiv> run_journals (\<lambda>_. None) id sample_talk_ops (new_journal [])"

definition talk_rows :: "event_row list" where
  "talk_rows =
     [event_row_of 1 3 no_scope (InputAcknowledged ''m1'' ''go'' False None) 10,
      event_row_of 2 3 no_scope (AssistantMessageCommitted ''m2'' [TextBlock ''on it'', ToolCallBlock ''c''] None None) 11,
      event_row_of 3 3 no_scope (ToolCallPrepared ''c'' ''run'' (JObject []) sample_provenance None) 12,
      event_row_of 4 3 no_scope (ToolExecution ''x'' ''c'' Prepared None None None) 13,
      event_row_of 5 3 no_scope (ToolExecution ''x'' ''c'' Started None None None) 14,
      event_row_of 6 3 no_scope (ToolCallPrepared ''k'' ''look'' (JObject []) sample_provenance None) 15,
      event_row_of 7 3 no_scope (ToolExecution ''y'' ''k'' Prepared None None None) 16,
      event_row_of 8 3 no_scope (InputAcknowledged ''m3'' ''also'' True None) 17]"

lemma sample_talk_run:
  "sample_talk =
     \<lparr>jn_tables =
        \<lparr>tb_sessions = [session_identity.extend sample_identity_row (session_row.fields 17 8)],
         tb_events = (\<lambda>_. [])(''s'' := talk_rows), tb_frames = (\<lambda>_ _. []),
         tb_continuations = (\<lambda>_ _. None), tb_artifacts = (\<lambda>_. None)\<rparr>,
      jn_faults = []\<rparr>"
  by (simp add: run_defs acknowledge_input_def record_assistant_message_def require_usage_def sample_talk_ops_def
      talk_rows_def sample_identity_row_def, simp add: numeral_eq_Suc)

definition talk_session :: session_row where
  "talk_session = session_identity.extend sample_identity_row (session_row.fields 17 8)"

lemma talk_session_fields [simp]:
  "si_generation talk_session = 3" "sr_next_sequence talk_session = 8" "si_session talk_session = ''s''"
  by (simp_all add: talk_session_def sample_identity_row_def)

lemma talk_session: "session_of (jn_tables sample_talk) ''s'' = Some talk_session"
  using talk_session_fields(3) by (simp add: sample_talk_run session_of_def talk_session_def del: talk_session_fields)

lemma talk_rows_of [simp]: "tb_events (jn_tables sample_talk) ''s'' = talk_rows"
  by (simp add: sample_talk_run)

lemma talk_numbered: "numbered 8 talk_rows"
  by (simp add: numbered_def talk_rows_def upt_rec)

definition talk :: Journal_Reads.conversation where
  "talk = \<lparr>cv_identity = sample_identity_row, cv_last_sequence = 8,
     cv_messages =
       [\<lparr>ms_sequence = 1, ms_message_id = ''m1'', ms_role = UserRole, ms_blocks = [], ms_text = Some ''go'',
         ms_steering = False, ms_usage = None\<rparr>,
        \<lparr>ms_sequence = 2, ms_message_id = ''m2'', ms_role = AssistantRole,
         ms_blocks = [TextBlock ''on it'', ToolCallBlock ''c''], ms_text = None, ms_steering = False, ms_usage = None\<rparr>,
        \<lparr>ms_sequence = 8, ms_message_id = ''m3'', ms_role = UserRole, ms_blocks = [], ms_text = Some ''also'',
         ms_steering = True, ms_usage = None\<rparr>],
     cv_usage = [],
     cv_tool_calls =
       [(''c'', \<lparr>tc_sequence = 3, tc_name = ''run'', tc_arguments = JObject [], tc_policy = sample_provenance\<rparr>),
        (''k'', \<lparr>tc_sequence = 6, tc_name = ''look'', tc_arguments = JObject [], tc_policy = sample_provenance\<rparr>)],
     cv_executions =
       [(''x'', \<lparr>xr_sequence = 5, xr_tool_call = ''c'', xr_state = Started, xr_result = None, xr_detail = None\<rparr>),
        (''y'', \<lparr>xr_sequence = 7, xr_tool_call = ''k'', xr_state = Prepared, xr_result = None, xr_detail = None\<rparr>)],
     cv_task_receipts = [], cv_checkpoints = [], cv_ended_reason = None\<rparr>"

lemma talk_replays: "replay (jn_tables sample_talk) ''s'' = Inr talk"
proof -
  have i: "session_identity.truncate talk_session = sample_identity_row"
    by (simp add: talk_session_def sample_identity_row_def session_identity.defs)
  have "read_events (jn_tables sample_talk) ''s'' = decode_rows talk_rows"
    using read_events_numbered [of 8 "jn_tables sample_talk" "''s''"] talk_numbered by simp
  then show ?thesis
    by (simp add: replay_def read_session_Some [OF talk_session] i)
       (simp add: talk_rows_def reduce_log_def reduce_step_def new_conversation_def check_execution_def
         validate_execution_transition_def usage_check_def talk_def)
qed

lemma talk_settled: "\<not> settled_call talk ''c''" "\<not> settled_call talk ''k''"
  by (simp_all add: settled_call_def latest_executions_def note_execution_def talk_def)

lemma talk_unsettled: "first_unsettled_sequence talk = Some 2"
proof -
  have "note_block talk 2 None (ToolCallBlock ''c'') = Some 2" by (simp add: talk_settled)
  then show ?thesis by (simp add: first_unsettled_sequence_def, simp add: talk_def)
qed

lemma talk_boundary: "boundary talk 1 = Some 1" "boundary talk RETAIN_RECENT_MESSAGES = None"
  by (simp_all add: boundary_def Let_def talk_unsettled, simp_all add: talk_def RETAIN_RECENT_MESSAGES_def)

lemma boundary_never_covers_unsettled_calls_witness:
  "compaction_boundary talk 1 False = Some 1
    \<and> list_all (\<lambda>m. 1 < ms_sequence m) (drop (length (cv_messages talk) - 1) (cv_messages talk))"
proof -
  have b: "compaction_boundary talk 1 False = Some 1" by (simp add: compaction_boundary_def talk_boundary del: One_nat_def)
  have "0 < (1 :: nat)" by simp
  from boundary_never_covers_unsettled_calls [OF talk_replays b this] talk_boundary(1) b show ?thesis
    unfolding list_all_iff by blast
qed


definition sample_context :: checkpoint_context where
  "sample_context = \<lparr>cc_hard_constraints = [''no pushes''], cc_task = Some ''t1'', cc_workflow = None,
     cc_reason = ''route_degraded''\<rparr>"

lemma talk_inputs: "map ms_message_id (user_messages talk) = [''m1'', ''m3'']"
  "map (\<lambda>m. 2 < ms_sequence m) (user_messages talk) = [False, True]"
  by (simp_all add: user_messages_def talk_def)

lemma carried_keys:
  assumes "list_all2 (carried d) ms xs"
  shows "map ai_message_id xs = map ms_message_id ms" and "map ai_pending xs = map (\<lambda>m. d < ms_sequence m) ms"
  using assms by (induction rule: list_all2_induct) (auto simp: carried_def)


section \<open>Compacting it\<close>

definition talk_config :: loop_config where
  "talk_config = \<lparr>lc_session = ''s'', lc_generation = 3, lc_model = ''m'', lc_task = None, lc_retain = 1,
     lc_constraints = [], lc_distill = \<lparr>db_max_input_chars = 24000, db_max_output_tokens = 1024\<rparr>\<rparr>"

abbreviation compact_talk ::
    "string \<Rightarrow> journal \<Rightarrow> export_dir option \<times> journal \<times> (journal_error + u64 option)" where
  "compact_talk reason j \<equiv>
     compact_now (\<lambda>_. []) sample_enc sample_dec None talk_config no_scope ''cp1'' ''u1'' reason False 2 30 None j"

lemma no_compaction_yet: "active_checkpoint sample_dec (jn_tables sample_talk) ''s'' = Inr None"
  by (simp add: active_checkpoint_def latest_valid_def talk_replays)
     (simp add: talk_def candidates_def List.map_filter_simps)

lemma talk_compacts: "\<exists>j1. compact_talk ''token_pressure'' sample_talk = (None, j1, Inr (Some 9))"
proof -
  have b: "compaction_boundary talk 1 False = Some 1" by (simp add: compaction_boundary_def talk_boundary del: One_nat_def)
  have l: "lc_session talk_config = ''s''" "lc_generation talk_config = 3" "lc_retain talk_config = 1"
    by (simp_all add: talk_config_def)
  define c where "c = build_checkpoint (\<lambda>_. []) talk 1 2 ''cp1''
      \<lparr>cc_hard_constraints = lc_constraints talk_config, cc_task = lc_task talk_config, cc_workflow = None,
       cc_reason = ''token_pressure''\<rparr> (structural_summary talk 1) 30"
  have "si_generation talk_session \<le> i64_max" "(30::nat) \<le> i64_max" "sr_next_sequence talk_session < i64_max"
    by (simp_all add: i64_max_def)
  from checkpoint_total [OF journal_after_ok talk_session this, of no_scope "''cp1''" CompactionPoint "sample_enc c"]
  obtain u n where a: "append_tx ''s'' 3 no_scope (Checkpoint ''cp1'' CompactionPoint (sample_enc c)) 30
      (jn_tables sample_talk) = Inr (u, n)" by auto
  then have n: "n = 9" by (simp add: append_tx_Inr talk_session)
  have q: "jn_faults sample_talk = []" by (simp add: sample_talk_run)
  have "record_checkpoint ''s'' 3 no_scope ''cp1'' CompactionPoint (sample_enc c) 30 sample_talk
      = (sample_talk\<lparr>jn_tables := u\<rparr>, Inr 9)"
    unfolding record_checkpoint_def
    by (rule in_tx_quiet [where body = "append_tx ''s'' 3 no_scope (Checkpoint ''cp1'' CompactionPoint (sample_enc c)) 30",
          OF q a [unfolded n]])
  moreover have "pc_session c = ''s''" "pc_checkpoint_id c = ''cp1''"
    by (simp_all add: c_def talk_def sample_identity_row_def)
  moreover have "opaque_id ''JournalSessionId'' ''s'' = Inr ''s''" "opaque_id ''CheckpointId'' ''cp1'' = Inr ''cp1''"
    by (simp_all add: opaque_id_def)
  ultimately have "commit_checkpoint sample_enc None 3 no_scope CompactionPoint c 30 sample_talk
      = (None, sample_talk\<lparr>jn_tables := u\<rparr>, Inr 9)" by (simp add: commit_checkpoint_def)
  moreover have "opaque_id ''CheckpointId'' ''cp1'' = Inr ''cp1''" by (simp add: opaque_id_def)
  ultimately show ?thesis
    by (simp add: compact_now_def l talk_replays b no_compaction_yet distill_def record_distillation_def
        c_def [symmetric] del: One_nat_def)
qed

lemma compaction_moves_forward_and_keeps_all_witness:
  "\<exists>j1 c. compact_talk ''token_pressure'' sample_talk = (None, j1, Inr (Some 9))
    \<and> active_checkpoint sample_dec (jn_tables j1) ''s'' = Inr (Some c) \<and> pc_covers_through c = 1
    \<and> list_all2 (carried 2) (user_messages talk) (pc_acknowledged_input c)"
proof -
  obtain j1 where j: "compact_talk ''token_pressure'' sample_talk = (None, j1, Inr (Some 9))" using talk_compacts by blast
  have b: "compaction_boundary talk 1 False = Some 1" by (simp add: compaction_boundary_def talk_boundary del: One_nat_def)
  have l: "lc_session talk_config = ''s''" "lc_retain talk_config = 1" by (simp_all add: talk_config_def)
  from compaction_moves_forward_and_keeps_all [OF refl sample_reads_back j] obtain v c where
    v: "replay (jn_tables sample_talk) ''s'' = Inr v" "active_checkpoint sample_dec (jn_tables j1) ''s'' = Inr (Some c)"
    "compaction_boundary v 1 False = Some (pc_covers_through c)"
    "list_all2 (carried 2) (user_messages v) (pc_acknowledged_input c)" unfolding l by blast
  then have "v = talk" using talk_replays by simp
  with v b have "pc_covers_through c = 1" by simp
  with v j \<open>v = talk\<close> show ?thesis by blast
qed

text \<open>The compacted journal and its checkpoint, without the property above.\<close>

lemma talk_compacted:
  obtains u w c where "replay u ''s'' = Inr w"
    "active_checkpoint sample_dec u ''s'' = Inr (Some c)" "cv_messages w = cv_messages talk"
    "si_route (cv_identity w) = si_route sample_identity_row"
proof -
  let ?c = "build_checkpoint (\<lambda>_. []) talk 1 2 ''cp1'' \<lparr>cc_hard_constraints = [], cc_task = None, cc_workflow = None,
       cc_reason = ''r''\<rparr> (structural_summary talk 1) 30"
  have "si_generation talk_session \<le> i64_max" "(30::nat) \<le> i64_max" "sr_next_sequence talk_session < i64_max"
    by (simp_all add: i64_max_def)
  from checkpoint_total [OF journal_after_ok talk_session this, of no_scope "''cp1''" CompactionPoint "sample_enc ?c"]
  obtain u n where a: "append_tx ''s'' 3 no_scope (Checkpoint ''cp1'' CompactionPoint (sample_enc ?c)) 30
      (jn_tables sample_talk) = Inr (u, n)" by auto
  have v: "is_valid_for ?c ''s'' (cv_last_sequence talk)"
    by (simp add: is_valid_for_def talk_def sample_identity_row_def)
  from committed_is_latest [OF journal_after_ok a talk_replays sample_reads_back v] obtain w where
    w: "replay u ''s'' = Inr w" "latest_valid sample_dec u ''s'' CompactionPoint = Inr (Some ?c)"
    "cv_messages w = cv_messages talk" by blast
  obtain w' where w': "reduce_event n (Checkpoint ''cp1'' CompactionPoint (sample_enc ?c)) (talk\<lparr>cv_last_sequence := n\<rparr>) = Inr w'"
    "replay u ''s'' = Inr w'"
    by (rule plain_replay_append [OF journal_after_ok a _ talk_replays]) simp_all
  from w'(1) have "cv_identity w' = cv_identity talk" by (simp only: reduce_event.simps sum.inject) auto
  moreover have "w' = w" using w'(2) w(1) by simp
  ultimately have "cv_identity w = cv_identity talk" by simp
  then have "si_route (cv_identity w) = si_route sample_identity_row" by (simp add: talk_def)
  with w that show thesis by (simp add: active_checkpoint_def)
qed

lemma newest_usable_checkpoint_is_found_witness:
  "\<exists>t v c. replay t ''s'' = Inr v \<and> latest_valid sample_dec t ''s'' CompactionPoint = Inr (Some c)
     \<and> newest_usable sample_dec v ''s'' CompactionPoint c \<and> is_valid_for c ''s'' (cv_last_sequence v)"
proof -
  obtain u w c where w: "replay u ''s'' = Inr w" "active_checkpoint sample_dec u ''s'' = Inr (Some c)"
    using talk_compacted by metis
  then have l: "latest_valid sample_dec u ''s'' CompactionPoint = Inr (Some c)"
    by (simp add: active_checkpoint_def)
  from newest_usable_checkpoint_is_found [OF w(1), where dec = sample_dec and kind = CompactionPoint] l
  have "newest_usable sample_dec w ''s'' CompactionPoint c \<and> is_valid_for c ''s'' (cv_last_sequence w)" by simp
  with w(1) l show ?thesis by blast
qed

definition other_route :: journal_route_identity where
  "other_route = (si_route sample_identity_row)\<lparr>jr_model := ''n''\<rparr>"

lemma rebuilt_history_is_legal_witness:
  "\<exists>t c ms. plan_continuation sample_dec t ''s'' other_route = Inr (Rebuilt (Some c) ms)
     \<and> pm_role (hd ms) = ProviderUser \<and> list_all (\<lambda>m. \<exists>x. pm_content m = [ProviderText x]) ms"
proof -
  obtain u w c where w: "replay u ''s'' = Inr w" "active_checkpoint sample_dec u ''s'' = Inr (Some c)"
    "si_route (cv_identity w) = si_route sample_identity_row"
    using talk_compacted by metis
  have "si_route (cv_identity w) \<noteq> other_route" by (simp add: w(3) other_route_def sample_identity_row_def)
  with w have p: "plan_continuation sample_dec u ''s'' other_route
      = Inr (Rebuilt (Some c) (summary_message c # semantic_history w (pc_covers_through c)))"
    by (simp add: plan_continuation_def)
  let ?ms = "summary_message c # semantic_history w (pc_covers_through c)"
  from rebuilt_history_is_legal [OF p w(1)] have "\<forall>m \<in> set ?ms. \<exists>x. pm_content m = [ProviderText x]"
    "?ms = [] \<or> pm_role (hd ?ms) = ProviderUser" unfolding continuation_plan.case by blast+
  then have "pm_role (hd ?ms) = ProviderUser \<and> list_all (\<lambda>m. \<exists>x. pm_content m = [ProviderText x]) ?ms"
    unfolding list_all_iff by blast
  with p show ?thesis by blast
qed

section \<open>Handing it over\<close>

lemma talk_is_handed_over:
  obtains j1 b where "reach_boundary (\<lambda>_. []) sample_enc ''s'' 3 d ctx 30 sample_talk = (j1, Inr b)"
proof -
  have "\<forall>r \<in> set (tb_events (jn_tables sample_talk) ''s''). pred_option accepted_id (ix_execution (ev_ids r))"
    by (simp add: talk_rows_def accepted_id_def)
  moreover have "accepted_id ''s''" by (simp add: accepted_id_def)
  moreover have "jn_faults sample_talk = []" by (simp add: sample_talk_run)
  moreover have "si_generation talk_session \<le> i64_max" "(30::nat) \<le> i64_max" "4 * sr_next_sequence talk_session < i64_max"
    by (simp_all add: i64_max_def)
  ultimately show thesis
    using reach_boundary_total [OF journal_after_ok _ talk_session, of 30 "\<lambda>_. []" sample_enc d ctx] that by auto
qed

lemma handover_settles_and_hands_over_witness:
  "\<exists>j1 b w. reach_boundary (\<lambda>_. []) sample_enc ''s'' 3 Forced sample_context 30 sample_talk = (j1, Inr b)
     \<and> replay (jn_tables j1) ''s'' = Inr w \<and> state_in w ''x'' = Some OutcomeUnknown
     \<and> state_in w ''y'' = Some Cancelled \<and> set (bd_cancelled b) = {''k''}"
proof -
  obtain j1 b where r: "reach_boundary (\<lambda>_. []) sample_enc ''s'' 3 Forced sample_context 30 sample_talk = (j1, Inr b)"
    using talk_is_handed_over .
  have s: "state_in talk ''x'' = Some Started" "state_in talk ''y'' = Some Prepared"
    by (simp_all add: state_in_def talk_def)
  have k: "{c. \<exists>x. state_in talk x = Some Prepared \<and> call_in talk x = Some c} = {''k''}"
    by (auto simp: state_in_def call_in_def talk_def split: if_splits)
  from handover_settles_and_hands_over [OF refl sample_reads_back r talk_replays] obtain w where
    "replay (jn_tables j1) ''s'' = Inr w" "\<forall>x. state_in w x = map_option (after_drain Forced) (state_in talk x)"
    "set (bd_cancelled b) = {''k''}" unfolding k by auto
  with r s show ?thesis by (auto simp: after_drain_def)
qed


lemma executions_counted:
  assumes "in_order v"
  shows "length (cv_executions v) = card {x. state_in v x \<noteq> None}"
proof -
  from assms have "distinct (map fst (cv_executions v))" by (simp add: in_order_def bt_ok_distinct)
  then have "length (cv_executions v) = card (set (map fst (cv_executions v)))"
    by (metis distinct_card length_map)
  also have "set (map fst (cv_executions v)) = {x. state_in v x \<noteq> None}"
    by (auto simp: state_in_def map_of_eq_None_iff)
  finally show ?thesis .
qed

lemma outstanding_counted: "length (outstanding_calls print v) \<le> length (cv_executions v) + length (cv_tool_calls v)"
proof -
  have step: "length (foldl note_execution m xs) \<le> length m + length xs" for m xs
  proof (induction xs arbitrary: m)
    case (Cons x xs)
    have "length (note_execution m x) \<le> Suc (length m)"
      by (auto simp: note_execution_def length_bt_insert split: option.splits)
    with Cons [of "note_execution m x"] show ?case by simp
  qed simp
  have picked: "length (concat (map (\<lambda>(c, r, x). if P x then [] else [f c r x]) ks)) \<le> length ks"
    for P and f :: "string \<Rightarrow> tool_call_record \<Rightarrow> execution_record \<Rightarrow> outstanding_tool" and ks
    by (induction ks) auto
  have missing: "length (concat (map (\<lambda>(c, r). if P c then [] else [f c r]) ks)) \<le> length ks"
    for P and f :: "string \<Rightarrow> tool_call_record \<Rightarrow> outstanding_tool" and ks
    by (induction ks) auto
  have known: "length (List.map_filter g ks) \<le> length ks" for g :: "'x \<Rightarrow> 'y option" and ks
    by (induction ks) (auto simp: List.map_filter_simps split: option.splits)
  have "length (known_calls v) \<le> length (latest_executions v)" unfolding known_calls_def by (rule known)
  also have "\<dots> \<le> length (cv_executions v)" using step [of "[]" "map snd (cv_executions v)"] by (simp add: latest_executions_def)
  finally have "length (known_calls v) \<le> length (cv_executions v)" .
  then show ?thesis unfolding outstanding_calls_def length_sort length_append
    by (intro add_mono missing order_trans [OF picked])
qed

lemma unknown_effects_halt_the_successor_witness:
  "\<exists>j1 b w. reach_boundary (\<lambda>_. []) sample_enc ''s'' 3 Forced sample_context 30 sample_talk = (j1, Inr b)
     \<and> replay (jn_tables j1) ''s'' = Inr w \<and> halts_successor b \<and> set (bd_outcome_unknown b) = {''c''}"
proof -
  obtain j1 b where r: "reach_boundary (\<lambda>_. []) sample_enc ''s'' 3 Forced sample_context 30 sample_talk = (j1, Inr b)"
    using talk_is_handed_over .
  obtain w' z cancelled where z: "replay (jn_tables j1) ''s'' = Inr z" "cv_executions z = cv_executions w'"
    "cv_tool_calls z = cv_tool_calls w'" "same_talk talk w'" "call_in w' = call_in talk" "in_order w'"
    "\<forall>x. state_in w' x = map_option (after_drain Forced) (state_in talk x)"
    using reach_boundary_settles [OF journal_after_ok sample_reads_back r talk_replays] by blast
  note zo = in_order_replay [OF z(1)]
  have st: "state_in z x = (if x = ''x'' then Some OutcomeUnknown else if x = ''y'' then Some Cancelled else None)" for x
  proof -
    have "state_in z x = map_option (after_drain Forced) (state_in talk x)" using z(2,7) by (simp add: state_in_def)
    then show ?thesis by (auto simp: state_in_def talk_def after_drain_def)
  qed
  have ca: "call_in z x = (if x = ''x'' then Some ''c'' else if x = ''y'' then Some ''k'' else None)" for x
  proof -
    have "call_in z x = call_in w' x" by (simp add: call_in_def z(2))
    then show ?thesis unfolding z(5) by (auto simp: call_in_def talk_def)
  qed
  have "{x. state_in z x \<noteq> None} = {''x'', ''y''}" by (auto simp: st)
  then have "length (cv_executions z) = 2" using executions_counted [OF zo] by simp
  moreover have "length (cv_tool_calls z) = 2" using z(3,4) by (simp add: same_talk_def talk_def)
  ultimately have few: "length (outstanding_calls (\<lambda>_. []) z) \<le> MAX_ITEMS"
    using outstanding_counted [of "\<lambda>_. []" z] by (simp add: MAX_ITEMS_def)
  have n: "newest_execution z c x \<and> xr_state x = OutcomeUnknown
      \<longleftrightarrow> c = ''c'' \<and> map_of (cv_executions z) ''x'' = Some x" for c x
  proof -
    have at: "(k = ''x'' \<and> xr_tool_call q = ''c'' \<and> xr_state q = OutcomeUnknown)
        \<or> (k = ''y'' \<and> xr_tool_call q = ''k'' \<and> xr_state q = Cancelled)" if "map_of (cv_executions z) k = Some q" for k q
    proof -
      from that have "state_in z k = Some (xr_state q)" "call_in z k = Some (xr_tool_call q)"
        by (simp_all add: state_in_def call_in_def)
      then show ?thesis unfolding st ca by (simp split: if_splits)
    qed
    show ?thesis
    proof
      assume "newest_execution z c x \<and> xr_state x = OutcomeUnknown"
      then obtain k where k: "map_of (cv_executions z) k = Some x" "xr_tool_call x = c" "xr_state x = OutcomeUnknown"
        by (auto simp: newest_execution_def)
      from at [OF k(1)] k show "c = ''c'' \<and> map_of (cv_executions z) ''x'' = Some x" by auto
    next
      assume c: "c = ''c'' \<and> map_of (cv_executions z) ''x'' = Some x"
      then have x: "xr_tool_call x = ''c''" "xr_state x = OutcomeUnknown" using at by force+
      have "xr_sequence q \<le> xr_sequence x" if q: "map_of (cv_executions z) k = Some q" "xr_tool_call q = c" for k q
        using at [OF q(1)] q c by auto
      with c x show "newest_execution z c x \<and> xr_state x = OutcomeUnknown" unfolding newest_execution_def by blast
    qed
  qed
  obtain x where "map_of (cv_executions z) ''x'' = Some x" using st [of "''x''"] by (auto simp: state_in_def)
  with unknown_effects_halt_the_successor [OF refl sample_reads_back r z(1) few] r z(1) show ?thesis
    unfolding n by (intro exI [of _ j1] exI [of _ b] exI [of _ z]) auto
qed

section \<open>Limits of a handover\<close>

text \<open>
  With four messages or fewer there is no boundary, and then the handoff checkpoint claims to cover the
  whole log, open calls included; a compaction of the same conversation stops before them.
\<close>

lemma handoff_covers_open_calls:
  "handoff_covers talk = cv_last_sequence talk
   \<and> (\<exists>m \<in> set (cv_messages talk). unsettled_message talk m \<and> ms_sequence m \<le> handoff_covers talk)
   \<and> (\<forall>b m. compaction_boundary talk 1 True = Some b \<and> m \<in> set (cv_messages talk) \<and> unsettled_message talk m
        \<longrightarrow> b < ms_sequence m)"
proof -
  let ?m = "\<lparr>ms_sequence = 2, ms_message_id = ''m2'', ms_role = AssistantRole,
         ms_blocks = [TextBlock ''on it'', ToolCallBlock ''c''], ms_text = None, ms_steering = False, ms_usage = None\<rparr>"
  have m: "?m \<in> set (cv_messages talk)" by (simp add: talk_def)
  have h: "handoff_covers talk = cv_last_sequence talk" by (simp add: handoff_covers_def talk_boundary)
  moreover have "unsettled_message talk ?m" using talk_settled by (auto simp: unsettled_message_def)
  moreover have "ms_sequence ?m \<le> cv_last_sequence talk" by (simp add: talk_def)
  moreover have "b < ms_sequence m" if "compaction_boundary talk 1 True = Some b" "m \<in> set (cv_messages talk)"
    "unsettled_message talk m" for b m
    using boundary_before_unsettled(2) [OF that(1,2)] that(3) by (meson not_le)
  ultimately show ?thesis using m by metis
qed

text \<open>
  The list of open calls is cut to its last sixty-four by call identifier, so the effect that halts a
  successor may be the one that is cut.
\<close>

lemma handoff_may_forget_an_unknown_effect:
  assumes "outstanding_calls print v = first # others" and "MAX_ITEMS \<le> length others"
    and "\<forall>a \<in> set others. ot_state a \<noteq> ''outcome_unknown''"
  shows "\<not> halts_successor (summarize (handoff_checkpoint print v g ctx now) d cancelled)"
proof -
  obtain k where k: "length (first # others) - MAX_ITEMS = Suc k"
    using assms(2) by (metis Suc_diff_le length_Cons)
  then have "pc_outstanding_tools (handoff_checkpoint print v g ctx now) = drop k others"
    using assms by (simp add: handoff_checkpoint_def build_checkpoint_def truncate_newest_kept_def)
  then have "\<forall>a \<in> set (pc_outstanding_tools (handoff_checkpoint print v g ctx now)). ot_state a \<noteq> ''outcome_unknown''"
    using assms(3) by (auto dest: in_set_dropD)
  then have "filter (\<lambda>x. ot_state x = ''outcome_unknown'') (pc_outstanding_tools (handoff_checkpoint print v g ctx now)) = []"
    by (simp add: filter_empty_conv)
  then show ?thesis by (simp only: halts_successor_def summarize_def) simp
qed

definition crowded :: "Journal_Reads.conversation" where
  "crowded = talk\<lparr>cv_executions :=
       [(''x'', \<lparr>xr_sequence = 5, xr_tool_call = ''a'', xr_state = OutcomeUnknown, xr_result = None, xr_detail = None\<rparr>)],
     cv_tool_calls := map (\<lambda>c. (c, \<lparr>tc_sequence = 3, tc_name = ''run'', tc_arguments = JObject [],
         tc_policy = sample_provenance\<rparr>)) (''a'' # map (\<lambda>n. replicate (Suc n) (CHR ''b'')) [0..<64])\<rparr>"

lemma crowded_forgets:
  "(\<exists>x. newest_execution crowded ''a'' x \<and> xr_state x = OutcomeUnknown)
   \<and> \<not> halts_successor (summarize (handoff_checkpoint print crowded g ctx now) d cancelled)"
proof -
  let ?x = "\<lparr>xr_sequence = 5, xr_tool_call = ''a'', xr_state = OutcomeUnknown, xr_result = None, xr_detail = None\<rparr>"
  let ?r = "\<lparr>tc_sequence = 3, tc_name = ''run'', tc_arguments = JObject [], tc_policy = sample_provenance\<rparr>"
  let ?bs = "map (\<lambda>n. replicate (Suc n) (CHR ''b'')) [0..<64]"
  have le: "latest_executions crowded = [(''a'', ?x)]" by (simp add: crowded_def latest_executions_def note_execution_def)
  have kc: "known_calls crowded = [(''a'', ?r, ?x)]"
    by (simp add: known_calls_def le List.map_filter_simps) (simp add: crowded_def)
  have ne: "replicate (Suc n) (CHR ''b'') \<noteq> ''a''" for n by simp
  have open_calls: "concat (map (\<lambda>(c, r). if map_of (latest_executions crowded) c \<noteq> None then []
                                else [outstanding_of print c r Prepared]) (cv_tool_calls crowded))
      = map (\<lambda>c. outstanding_of print c ?r Prepared) ?bs"
  proof -
    have "concat (map (\<lambda>(c, r). if map_of [(''a'', ?x)] c \<noteq> None then [] else [outstanding_of print c r Prepared])
        (map (\<lambda>c. (c, ?r)) bs)) = map (\<lambda>c. outstanding_of print c ?r Prepared) bs" if "''a'' \<notin> set bs" for bs
      using that by (induction bs) auto
    moreover have "''a'' \<notin> set ?bs" by auto
    ultimately have "concat (map (\<lambda>(c, r). if map_of [(''a'', ?x)] c \<noteq> None then [] else [outstanding_of print c r Prepared])
        (map (\<lambda>c. (c, ?r)) ?bs)) = map (\<lambda>c. outstanding_of print c ?r Prepared) ?bs" by blast
    then show ?thesis unfolding le by (simp add: crowded_def del: map_map)
  qed
  have "outstanding_calls print crowded = sort_key ot_tool_call
      (outstanding_of print ''a'' ?r OutcomeUnknown # map (\<lambda>c. outstanding_of print c ?r Prepared) ?bs)"
    unfolding outstanding_calls_def open_calls kc by simp
  also have "\<dots> = outstanding_of print ''a'' ?r OutcomeUnknown
      # sort_key ot_tool_call (map (\<lambda>c. outstanding_of print c ?r Prepared) ?bs)"
  proof -
    have "''a'' \<le> replicate (Suc n) (CHR ''b'')" for n by (simp add: less_char_def)
    then show ?thesis by (simp add: insort_is_Cons outstanding_of_def del: replicate.simps)
  qed
  finally have o: "outstanding_calls print crowded = outstanding_of print ''a'' ?r OutcomeUnknown
      # sort_key ot_tool_call (map (\<lambda>c. outstanding_of print c ?r Prepared) ?bs)" .
  have "\<not> halts_successor (summarize (handoff_checkpoint print crowded g ctx now) d cancelled)"
    by (rule handoff_may_forget_an_unknown_effect [OF o]) (auto simp: MAX_ITEMS_def outstanding_of_def)
  moreover have "newest_execution crowded ''a'' ?x" by (simp add: newest_execution_def crowded_def)
  ultimately show ?thesis by (intro conjI exI [of _ ?x]) simp_all
qed

text \<open>
  A single text longer than the limit loses its tail even while it is pending, without a mark.
\<close>

lemma pending_text_is_cut:
  assumes "MAX_TEXT_BYTES + 3 < length (message_text m)"
  shows "ai_text (input_of delivered m) \<noteq> message_text m \<and> \<not> ai_text_elided (input_of delivered m)"
proof -
  have floor: "char_floor s n \<le> n" for s n by (induction n) (auto intro: le_SucI)
  have "length (ai_text (input_of delivered m)) \<le> MAX_TEXT_BYTES + 3"
    using floor [of "message_text m" MAX_TEXT_BYTES] assms
    by (simp add: input_of_def bound_def message_text_def ellipsis_def)
  then show ?thesis using assms by (auto simp: input_of_def)
qed

lemma sorted_subseq:
  assumes "subseq xs ys" and "sorted ys"
  shows "sorted xs"
  using assms
proof (induction rule: list_emb.induct)
  case (list_emb_Cons2 x y xs ys)
  then show ?case using list_emb_set [OF list_emb_Cons2.hyps(2)] by fastforce
qed simp_all

lemma known_calls_subseq: "subseq (map fst (known_calls v)) (map fst (latest_executions v))"
proof -
  have "subseq (map fst (List.map_filter (\<lambda>(c, x). map_option (\<lambda>r. (c, r, x)) (f c)) ls)) (map fst ls)"
    for f :: "string \<Rightarrow> tool_call_record option" and ls :: "(string \<times> execution_record) list"
    by (induction ls) (auto simp: List.map_filter_simps split: option.splits)
  then show ?thesis by (simp add: known_calls_def)
qed

lemma receipts_subseq: "subseq (map ar_tool_call (receipts_of v)) (map fst (known_calls v))"
proof -
  have call: "ar_tool_call (receipt_of c r x) = c" for c r x by (simp add: receipt_of_def split: prod.splits)
  have "subseq (map ar_tool_call (concat (map (\<lambda>(c, r, x). if is_terminal (xr_state x) then [receipt_of c r x] else []) ks)))
      (map fst ks)" for ks
    by (induction ks) (auto simp: call)
  then show ?thesis by (simp add: receipts_of_def)
qed

text \<open>
  The sixty-four receipts a checkpoint keeps are those with the least call identifiers, not the newest.
\<close>

lemma receipts_are_cut_by_call:
  "sorted (map ar_tool_call (receipts_of v))
    \<and> pc_receipts (build_checkpoint print v covers delivered cid ctx summary created) = take MAX_ITEMS (receipts_of v)"
proof -
  have "bt_ok (latest_executions v)"
  proof -
    have "bt_ok (foldl note_execution m xs)" if "bt_ok m" for m xs
      using that by (induction xs arbitrary: m) (auto simp: note_execution_def bt_ok_insert split: option.splits)
    then show ?thesis by (simp add: latest_executions_def)
  qed
  then have "sorted (map fst (latest_executions v))" by (simp add: bt_ok_def strict_sorted_iff)
  then show ?thesis
    using sorted_subseq [OF subseq_order.trans [OF receipts_subseq known_calls_subseq]]
    by (simp add: build_checkpoint_def truncate_oldest_def)
qed

end
