(* ===== verification/Spec2Isabelle.thy ===== *)
theory Spec2Isabelle
  imports Health_Store Policy Envelope Safety_Rules Reservation Group Task_Command Permit Workflow_Claims
    Handover_Runs
begin

text \<open>
  A verification library for the durable core of \<open>zirv-cli\<close>: the part of the program that
  decides where work may run, who may write, what a command may do, and what survives a crash.  All
  source names below are under \<open>src/src/\<close>; the mapped lines of each definition are listed in
  \<open>PROJECT.json\<close>.

  \<^bold>\<open>The program.\<close>  \<open>zirv\<close> coordinates coding agents.  A coordinator holds the seat of a
  repository and delegates work: a delegation picks a route (provider, account, model) that is
  healthy, reserves tokens on its provider and in its work group, takes a machine-wide permit, gets an
  envelope that only narrows, and then claims a task card.  Workflows take a change through gated
  steps.  The native runtime records every turn in a journal before any effect happens, compacts a
  long conversation behind a checkpoint and hands a session over at a safe boundary.  All this
  state is shared by processes that may die at any moment, so almost every operation is: take the
  lock, read the file, decide, replace the file.

  \<^bold>\<open>Conventions.\<close>  A struct is a record, an enum a datatype, a fallible function returns
  \<open>error + result\<close> with \<open>Inl\<close> the error, a locked file is a field of an explicit state record.  A
  \<open>u64\<close> is a \<open>nat\<close> (\<open>u64\<close> in \<open>Prelude\<close>) with the saturating and wrapping operations written out where
  the source uses them; an \<open>i64\<close> column is an \<open>int\<close> with its bounds checked where the source checks
  them.  Strings are lists of characters and stand for the bytes of the source's UTF-8; comparisons of
  identifiers are comparisons of these lists.  Whatever comes from outside the process is an argument
  or a field of an environment record: the clock, the processes that are alive, the failures of locks
  and writes (as schedules that the operations consume), environment variables, random identifiers,
  hashes, JSON and TOML readers.  Theorems quantify over all of them unless a named hypothesis says
  what the code relies on.

  \<^bold>\<open>Theories, in the order of their imports.\<close>

  \<^item> \<open>Prelude\<close>: the machine arithmetic, results and their monadic chaining, folds with invariants,
    text (trimming, splitting, decimal numbers), lists bounded to their newest entries, ordered maps
    as sorted association lists, and the collections of rewrite rules the proofs share.
  \<^item> \<open>Health\<close>: the circuit breaker of \<open>commands/ctx/health.rs\<close>.  \<open>health_record\<close> is the durable
    record; \<open>promote\<close>, \<open>observe\<close>, \<open>record_samples\<close>, \<open>claim\<close>, \<open>record_success\<close> and \<open>admission\<close> are the functions
    of the same names.  \<open>health_step\<close> makes them a state machine; \<open>health_inv\<close> is kept by every step.
    The breaker opens exactly at the threshold, a half-open trial is granted once per cooldown,
    admission predicts the claim, and every denial is lifted in the end.
  \<^item> \<open>Route\<close>: identities, offers and eligibility of native routes (\<open>commands/ctx/route.rs\<close>), failure
    scopes and the usage ledger, which counts an event once.
  \<^item> \<open>Health_Store\<close>: \<open>commands/ctx/health_store.rs\<close>, a directory of such records with contention and
    failing writes.  The store refines the breaker: a trial granted from the store is a cooldown
    away from the one before, whoever asked.
  \<^item> \<open>Seat\<close>: \<open>commands/ctx/seat.rs\<close>.  Registration, the prepare/commit/abort transaction of a rollover,
    backoff and parking, and the generation fence.  \<open>seat_op\<close> and \<open>run_seats\<close> give the runs;
    generations grow, at most one coordinator passes the fence, and a superseded one never
    passes again.  \<open>Task_Command\<close> is a client of this fence.
  \<^item> \<open>Policy\<close>, \<open>Envelope\<close>: \<open>commands/ctx/policy.rs\<close> and \<open>envelope.rs\<close>.  Stances per capability, resolved over
    the layers; the resolved stance is given by a closed formula and a repository only makes it
    stricter.  An envelope handed down a chain of delegations is contained in every one before it.
  \<^item> \<open>Safety_Policy\<close>, \<open>Safety_Rules\<close>: \<open>commands/ctx/safety/\<close>.  The glob matcher is equivalent to the
    declarative meaning of a pattern (its loop is a \<open>while_option\<close> that ends by \<open>glob_measure\<close>), layers of rules resolve
    so that a repository only narrows, and the evaluation of a command obeys the written rules.
    The eleven recognisers of shell grammar are fields of one parameter record.
  \<^item> \<open>State_Dir\<close>: the locked directory of private files and the rule that tells a live owner from a
    dead one (\<open>commands/ctx/state.rs\<close>, \<open>sessions/bookkeeping.rs\<close>).
  \<^item> \<open>Reservation\<close>, \<open>Group\<close>: \<open>commands/ctx/reservation.rs\<close> and \<open>group.rs\<close>.  Reserved tokens stay within the
    limit that was asked for, are resolved once, and the budget of a group is never promised twice;
    a rollback undoes an admission and a closed group is final.
  \<^item> \<open>Task\<close>, \<open>Task_Codec\<close>, \<open>Task_Board\<close>, \<open>Task_Runs\<close>, \<open>Task_Command\<close>: \<open>commands/ctx/task.rs\<close>.  The log is text;
    a line is an event through a codec, whose laws \<open>lawful\<close> names and which a concrete codec is
    shown to satisfy.  Torn last lines and failing replacements are part of the file operations.
    Claims are exclusive and wait for parents, the card a verb reports is what a fresh read gives,
    dead claims are recovered within bounds, and the command is fenced by the seat.
  \<^item> \<open>Permit\<close>: \<open>commands/ctx/permit.rs\<close>.  Slots, writer claims and claims of a working tree; never more
    live holders than the cap and one live writer per checkout.
  \<^item> \<open>Workflow_Def\<close>, \<open>Workflow_Steps\<close>: \<open>commands/workflow/definition.rs\<close> and \<open>engine/definitions.rs\<close>.  The validation of a
    definition and its materialisation, with a topological sort whose fuel is the number of steps:
    every round emits a step, so this is enough, which \<open>materialised_steps_follow_their_dependencies\<close> includes.
  \<^item> \<open>Workflow_Engine\<close>, \<open>Workflow_Transition\<close>, \<open>Workflow_Runs\<close>, \<open>Workflow_Retries\<close>, \<open>Workflow_Claims\<close>:
    \<open>engine/state.rs\<close> and \<open>engine/transition.rs\<close>.  The stored state, pinned artifacts and the transitions with their
    evidence gates; the runs show that completed steps were earned, terminal workflows stay
    terminal, changed artifacts reopen their gate and repeated failures end a workflow.
  \<^item> \<open>Journal\<close>, \<open>Journal_Reads\<close>, \<open>Journal_Log\<close>, \<open>Journal_Runs\<close>, \<open>Journal_Claims\<close>:
    \<open>commands/ctx/runtime/journal.rs\<close> and the events of \<open>runtime/event.rs\<close>.  The tables are a record, a transaction
    (\<open>in_tx\<close>) either commits its whole result or leaves the tables as they were, every operation is one
    definition.  \<open>Journal_Log\<close> says what a log must satisfy to reduce; \<open>Journal_Runs\<close> shows that every
    operation is a sequence of five kinds of table steps which keep that; \<open>Journal_Claims\<close> states what
    follows: logs always replay, effects begin at most once, an old generation writes nothing,
    reconciliation leaves no effect in flight, pages have no gap and drafts commit whole.
  \<^item> \<open>Checkpoint\<close>, \<open>Checkpoint_Codec\<close>, \<open>Checkpoint_Claims\<close>: \<open>commands/ctx/runtime/checkpoint.rs\<close>, on top of the journal.
    \<open>build_checkpoint\<close> turns a conversation into what a session still owes, \<open>boundary\<close> says how much of it a
    summary may cover, \<open>latest_valid\<close> finds the newest checkpoint that can be used.  A summary never covers an
    unsettled call, no acknowledged input is dropped, every call is a receipt or outstanding.  The JSON
    form is an argument that reads back (\<open>reads_back\<close>); \<open>Checkpoint_Codec\<close> gives one that does.
  \<^item> \<open>Compaction\<close>, \<open>Compaction_Claims\<close>: \<open>commands/ctx/runtime/compaction.rs\<close> and \<open>compact_now\<close> of \<open>runtime/native/turn.rs\<close>:
    distillation with its structural fallback, the summary message, the commit of a compaction, and the
    history a session continues with on another route.  A compaction moves the covered prefix
    forward and keeps all inputs; a rebuilt history is one a provider accepts.
  \<^item> \<open>Handover\<close>, \<open>Handover_Claims\<close>, \<open>Handover_Runs\<close>: the safe boundary of \<open>commands/ctx/rollover/runtime.rs\<close>.
    \<open>reach_boundary\<close> composes the reconciliation of the journal, the cancellation of prepared calls and the
    handoff checkpoint; what is settled, what halts a successor and that the boundary is reached are
    proved over every journal its operations can write.  \<open>Handover_Runs\<close> runs a sample conversation
    through compaction and handover and shows the limits of both.

  \<^bold>\<open>Fuel and termination.\<close>  Loops over data are structural.  The glob matcher terminates by
  its measure.  The retry loops of \<open>Permit\<close> (\<open>claim_tree_attempts\<close> and its kin) carry the counter of the
  source itself, so running out is the source's own error.  The topological sort takes as many
  rounds as there are steps.  No definition is partial.

  \<^bold>\<open>Interfaces.\<close>  Three locales of \<open>Prelude\<close> state what several components share: \<open>window_ring\<close> for the
  four evidence rings of the breaker, \<open>keyed_store\<close> for a file per key (records, seats, slots, ledgers,
  boards), \<open>strictest\<close> for merges that keep the stricter verdict (stances, command outcomes, denials).  Each is
  interpreted on the model's own definitions in the theory that provides them.

  \<^bold>\<open>Findings.\<close>  Where the code and its comments part, a lemma shows it on the model; the
  manifest lists these.

  \<^bold>\<open>Not modelled.\<close>  Arithmetic on \<open>f64\<close> (headroom ranking, pace, allocation, the compaction
  score); the records, launch and return plan of a rollover around its boundary; the opening,
  migration and integrity check of the databases; the text forms of JSON and TOML; the shell
  tokeniser behind the safety recognisers; the schema upgrades, sibling checkouts, telemetry and
  attention notes of workflows; process spawning, provider protocols, network and terminal
  interfaces; prompt assembly, memory and mail.  They are outside because they are input and output, because
  their text is not under \<open>src/\<close>, or because they do not change the modelled state.
\<close>

end
